(* ===== verification/Prelude.thy ===== *)
theory Prelude
  imports Main "HOL-Library.Word" "HOL-Library.Monad_Syntax"
begin

text \<open>
  The vocabulary every component shares: the C integer types of the driver as words, byte
  buffers, and typed accesses to them.

  A C buffer is a list of bytes; a pointer into it is the buffer together with an offset.
  An access that leaves the buffer is undefined behaviour in C and is \<open>None\<close> here, so
  that a function whose result is \<open>Some\<close> has been shown to stay inside its buffers.
  The target is a little-endian RISC-V machine: \<open>load16\<close> and \<open>load32\<close> assemble the bytes
  in that order, and byte-order conversion is done by the code itself (theory Byteorder).

  The locales \<open>rd_cell\<close> (a typed read that depends only on its window), \<open>wr_cell\<close> (a typed
  write that touches only its window) and \<open>cell\<close> (a read that returns what was written)
  are the interface between the header code and memory; the lemma \<open>separate.frame\<close> is
  proved once and interpreted for every pair of access widths.
\<close>

unbundle bit_operations_syntax

type_synonym u8 = "8 word"
type_synonym u16 = "16 word"
type_synonym u32 = "32 word"
type_synonym u64 = "64 word"
type_synonym bytes = "u8 list"

named_theorems mem_simps \<open>typed accesses to byte buffers inside their bounds\<close>

section \<open>Accesses inside the bounds\<close>

definition get8 :: "bytes \<Rightarrow> nat \<Rightarrow> u8" where
  "get8 b i = b ! i"

definition get16 :: "bytes \<Rightarrow> nat \<Rightarrow> u16" where
  "get16 b i = ucast (b ! i) OR push_bit 8 (ucast (b ! (i + 1)))"

definition get32 :: "bytes \<Rightarrow> nat \<Rightarrow> u32" where
  "get32 b i = ucast (b ! i) OR push_bit 8 (ucast (b ! (i + 1)))
     OR push_bit 16 (ucast (b ! (i + 2))) OR push_bit 24 (ucast (b ! (i + 3)))"

definition get_bytes :: "bytes \<Rightarrow> nat \<Rightarrow> nat \<Rightarrow> bytes" where
  "get_bytes b i n = take n (drop i b)"

definition put8 :: "bytes \<Rightarrow> nat \<Rightarrow> u8 \<Rightarrow> bytes" where
  "put8 b i v = b[i := v]"

definition put16 :: "bytes \<Rightarrow> nat \<Rightarrow> u16 \<Rightarrow> bytes" where
  "put16 b i v = b[i := ucast v, i + 1 := ucast (drop_bit 8 v)]"

definition put32 :: "bytes \<Rightarrow> nat \<Rightarrow> u32 \<Rightarrow> bytes" where
  "put32 b i v = b[i := ucast v, i + 1 := ucast (drop_bit 8 v),
     i + 2 := ucast (drop_bit 16 v), i + 3 := ucast (drop_bit 24 v)]"

fun put_bytes :: "bytes \<Rightarrow> nat \<Rightarrow> bytes \<Rightarrow> bytes" where
  "put_bytes b i [] = b"
| "put_bytes b i (x # xs) = put_bytes (b[i := x]) (Suc i) xs"

section \<open>Accesses as the code makes them\<close>

definition load8 :: "bytes \<Rightarrow> nat \<Rightarrow> u8 option" where
  "load8 b i = (if i + 1 \<le> length b then Some (get8 b i) else None)"

definition load16 :: "bytes \<Rightarrow> nat \<Rightarrow> u16 option" where
  "load16 b i = (if i + 2 \<le> length b then Some (get16 b i) else None)"

definition load32 :: "bytes \<Rightarrow> nat \<Rightarrow> u32 option" where
  "load32 b i = (if i + 4 \<le> length b then Some (get32 b i) else None)"

definition load_bytes :: "bytes \<Rightarrow> nat \<Rightarrow> nat \<Rightarrow> bytes option" where
  "load_bytes b i n = (if i + n \<le> length b then Some (get_bytes b i n) else None)"

definition store8 :: "bytes \<Rightarrow> nat \<Rightarrow> u8 \<Rightarrow> bytes option" where
  "store8 b i v = (if i + 1 \<le> length b then Some (put8 b i v) else None)"

definition store16 :: "bytes \<Rightarrow> nat \<Rightarrow> u16 \<Rightarrow> bytes option" where
  "store16 b i v = (if i + 2 \<le> length b then Some (put16 b i v) else None)"

definition store32 :: "bytes \<Rightarrow> nat \<Rightarrow> u32 \<Rightarrow> bytes option" where
  "store32 b i v = (if i + 4 \<le> length b then Some (put32 b i v) else None)"

definition store_bytes :: "bytes \<Rightarrow> nat \<Rightarrow> bytes \<Rightarrow> bytes option" where
  "store_bytes b i xs = (if i + length xs \<le> length b then Some (put_bytes b i xs) else None)"

lemma load8_Some [mem_simps]: "i + 1 \<le> length b \<Longrightarrow> load8 b i = Some (get8 b i)"
  by (simp add: load8_def)

lemma load16_Some [mem_simps]: "i + 2 \<le> length b \<Longrightarrow> load16 b i = Some (get16 b i)"
  by (simp add: load16_def)

lemma load32_Some [mem_simps]: "i + 4 \<le> length b \<Longrightarrow> load32 b i = Some (get32 b i)"
  by (simp add: load32_def)

lemma load_bytes_Some [mem_simps]:
  "i + n \<le> length b \<Longrightarrow> load_bytes b i n = Some (get_bytes b i n)"
  by (simp add: load_bytes_def)

lemma store8_Some [mem_simps]: "i + 1 \<le> length b \<Longrightarrow> store8 b i v = Some (put8 b i v)"
  by (simp add: store8_def)

lemma store16_Some [mem_simps]: "i + 2 \<le> length b \<Longrightarrow> store16 b i v = Some (put16 b i v)"
  by (simp add: store16_def)

lemma store32_Some [mem_simps]: "i + 4 \<le> length b \<Longrightarrow> store32 b i v = Some (put32 b i v)"
  by (simp add: store32_def)

lemma store_bytes_Some [mem_simps]:
  "i + length xs \<le> length b \<Longrightarrow> store_bytes b i xs = Some (put_bytes b i xs)"
  by (simp add: store_bytes_def)

section \<open>The memory interface\<close>

text \<open>A typed read: it depends on the \<open>w\<close> bytes from its offset only.\<close>

locale rd_cell =
  fixes get :: "bytes \<Rightarrow> nat \<Rightarrow> 'r" and rw :: nat
  assumes get_window:
    "length b = length b' \<Longrightarrow> (\<And>k. i \<le> k \<Longrightarrow> k < i + rw \<Longrightarrow> b ! k = b' ! k) \<Longrightarrow> i + rw \<le> length b
      \<Longrightarrow> get b i = get b' i"

text \<open>A typed write: it keeps the length and the bytes outside its window.\<close>

locale wr_cell =
  fixes put :: "bytes \<Rightarrow> nat \<Rightarrow> 'v \<Rightarrow> bytes" and ww :: "'v \<Rightarrow> nat"
  assumes length_put: "length (put b i v) = length b"
    and nth_put_other: "k < i \<or> i + ww v \<le> k \<Longrightarrow> put b i v ! k = b ! k"

text \<open>A read and a write of possibly different widths at separate places.\<close>

locale separate = rd_cell get rw + wr_cell put ww
  for get :: "bytes \<Rightarrow> nat \<Rightarrow> 'r" and rw :: nat
    and put :: "bytes \<Rightarrow> nat \<Rightarrow> 'v \<Rightarrow> bytes" and ww :: "'v \<Rightarrow> nat"
begin

lemma frame:
  assumes sep: "i + rw \<le> j \<or> j + ww v \<le> i" and inb: "i + rw \<le> length b"
  shows "get (put b j v) i = get b i"
proof (rule get_window)
  show "length (put b j v) = length b" by (rule length_put)
  show "i + rw \<le> length (put b j v)" using inb by (simp add: length_put)
  fix k assume "i \<le> k" "k < i + rw"
  with sep show "put b j v ! k = b ! k" by (intro nth_put_other) auto
qed

end

text \<open>A read that returns what the write of the same type stored.\<close>

locale cell = separate get rw put ww
  for get :: "bytes \<Rightarrow> nat \<Rightarrow> 'v" and rw :: nat
    and put :: "bytes \<Rightarrow> nat \<Rightarrow> 'v \<Rightarrow> bytes" and ww :: "'v \<Rightarrow> nat" +
  assumes get_put: "ww v = rw \<Longrightarrow> i + rw \<le> length b \<Longrightarrow> get (put b i v) i = v"
begin

text \<open>Reading back through a second write beside the first one.\<close>

lemma get_put_put:
  assumes "ww v = rw" "i + rw \<le> j \<or> j + ww v' \<le> i" "i + rw \<le> length b"
  shows "get (put (put b i v) j v') i = v"
proof -
  have "i + rw \<le> length (put b i v)" using assms(3) by (simp add: length_put)
  with assms(2) have "get (put (put b i v) j v') i = get (put b i v) i" by (rule frame)
  also have "\<dots> = v" using assms(1,3) by (rule get_put)
  finally show ?thesis .
qed

end

section \<open>The accesses provide the interface\<close>

lemma length_put_bytes [simp]: "length (put_bytes b i xs) = length b"
  by (induction xs arbitrary: b i) auto

lemma nth_put_bytes_other: "k < i \<or> i + length xs \<le> k \<Longrightarrow> put_bytes b i xs ! k = b ! k"
  by (induction xs arbitrary: b i) auto

lemma put_bytes_eq:
  "i + length xs \<le> length b \<Longrightarrow> put_bytes b i xs = take i b @ xs @ drop (i + length xs) b"
proof (induction xs arbitrary: b i)
  case (Cons x xs)
  then show ?case
    by (simp add: take_Suc_conv_app_nth nth_list_update drop_update_cancel)
qed simp

lemma get_bytes_eqI:
  assumes "length b = length b'" "\<And>k. i \<le> k \<Longrightarrow> k < i + n \<Longrightarrow> b ! k = b' ! k" "i + n \<le> length b"
  shows "get_bytes b i n = get_bytes b' i n"
  using assms by (auto simp: get_bytes_def intro!: nth_equalityI)

lemma get_bytes_put_bytes:
  "length v = n \<Longrightarrow> i + n \<le> length b \<Longrightarrow> get_bytes (put_bytes b i v) i n = v"
  by (auto simp: get_bytes_def put_bytes_eq)

lemma ucast_split16: "ucast (ucast v :: u8) OR push_bit 8 (ucast (ucast (drop_bit 8 v) :: u8)) = (v :: u16)"
  by (rule bit_word_eqI) (auto simp: bit_simps)

lemma ucast_split32:
  "ucast (ucast v :: u8) OR push_bit 8 (ucast (ucast (drop_bit 8 v) :: u8))
    OR push_bit 16 (ucast (ucast (drop_bit 16 v) :: u8))
    OR push_bit 24 (ucast (ucast (drop_bit 24 v) :: u8)) = (v :: u32)"
proof (rule bit_word_eqI)
  fix n assume "n < LENGTH(32)"
  then consider "n < 8" | "8 \<le> n" "n < 16" | "16 \<le> n" "n < 24" | "24 \<le> n" "n < 32"
    by fastforce
  then show "bit (ucast (ucast v :: u8) OR push_bit 8 (ucast (ucast (drop_bit 8 v) :: u8))
      OR push_bit 16 (ucast (ucast (drop_bit 16 v) :: u8))
      OR push_bit 24 (ucast (ucast (drop_bit 24 v) :: u8)) :: u32) n = bit v n"
    by cases (auto simp: bit_simps)
qed

interpretation rd8: rd_cell get8 1
  by unfold_locales (simp add: get8_def)

interpretation rd16: rd_cell get16 2
  by unfold_locales (simp add: get16_def)

interpretation rd32: rd_cell get32 4
  by unfold_locales (simp add: get32_def)

interpretation rdb: rd_cell "\<lambda>b i. get_bytes b i n" n for n
  by unfold_locales (rule get_bytes_eqI)

interpretation wr8: wr_cell put8 "\<lambda>_. 1"
  by unfold_locales (auto simp: put8_def)

interpretation wr16: wr_cell put16 "\<lambda>_. 2"
  by unfold_locales (auto simp: put16_def)

interpretation wr32: wr_cell put32 "\<lambda>_. 4"
  by unfold_locales (auto simp: put32_def)

interpretation wrb: wr_cell put_bytes length
  by unfold_locales (auto simp: nth_put_bytes_other)

interpretation c8: cell get8 1 put8 "\<lambda>_. 1"
  by unfold_locales (simp add: get8_def put8_def)

interpretation c16: cell get16 2 put16 "\<lambda>_. 2"
  by unfold_locales (simp add: get16_def put16_def ucast_split16)

interpretation c32: cell get32 4 put32 "\<lambda>_. 4"
  by unfold_locales (simp add: get32_def put32_def nth_list_update ucast_split32)

interpretation cb: cell "\<lambda>b i. get_bytes b i n" n put_bytes length for n
  by unfold_locales (rule get_bytes_put_bytes)

interpretation s8_16: separate get8 1 put16 "\<lambda>_. 2" by unfold_locales
interpretation s8_32: separate get8 1 put32 "\<lambda>_. 4" by unfold_locales
interpretation s8_b: separate get8 1 put_bytes length by unfold_locales
interpretation s16_8: separate get16 2 put8 "\<lambda>_. 1" by unfold_locales
interpretation s16_32: separate get16 2 put32 "\<lambda>_. 4" by unfold_locales
interpretation s16_b: separate get16 2 put_bytes length by unfold_locales
interpretation s32_8: separate get32 4 put8 "\<lambda>_. 1" by unfold_locales
interpretation s32_16: separate get32 4 put16 "\<lambda>_. 2" by unfold_locales
interpretation s32_b: separate get32 4 put_bytes length by unfold_locales
interpretation sb_8: separate "\<lambda>b i. get_bytes b i n" n put8 "\<lambda>_. 1" for n by unfold_locales
interpretation sb_16: separate "\<lambda>b i. get_bytes b i n" n put16 "\<lambda>_. 2" for n by unfold_locales
interpretation sb_32: separate "\<lambda>b i. get_bytes b i n" n put32 "\<lambda>_. 4" for n by unfold_locales

lemmas length_puts [simp] =
  wr8.length_put wr16.length_put wr32.length_put

lemmas get_puts [mem_simps] =
  c8.get_put c16.get_put c32.get_put cb.get_put

lemmas get_frames [mem_simps] =
  c8.frame c16.frame c32.frame cb.frame
  s8_16.frame s8_32.frame s8_b.frame s16_8.frame s16_32.frame s16_b.frame
  s32_8.frame s32_16.frame s32_b.frame sb_8.frame sb_16.frame sb_32.frame

lemma length_get_bytes [simp]: "i + n \<le> length b \<Longrightarrow> length (get_bytes b i n) = n"
  by (simp add: get_bytes_def)

lemma put_bytes_append: "put_bytes b i (xs @ ys) = put_bytes (put_bytes b i xs) (i + length xs) ys"
  by (induction xs arbitrary: b i) auto

lemma get_bytes_append: "get_bytes b i (m + n) = get_bytes b i m @ get_bytes b (i + m) n"
  by (simp add: get_bytes_def take_add add.commute)

lemma get_bytes_0 [simp]: "get_bytes b i 0 = []"
  by (simp add: get_bytes_def)

lemma get_bytes_Suc: "i < length b \<Longrightarrow> get_bytes b i (Suc n) = b ! i # get_bytes b (Suc i) n"
  by (metis Cons_nth_drop_Suc get_bytes_def take_Suc_Cons)

section \<open>Successful accesses\<close>

lemma load_SomeD:
  "load8 b i = Some x \<Longrightarrow> i + 1 \<le> length b \<and> x = get8 b i"
  "load16 b i = Some y \<Longrightarrow> i + 2 \<le> length b \<and> y = get16 b i"
  "load32 b i = Some z \<Longrightarrow> i + 4 \<le> length b \<and> z = get32 b i"
  "load_bytes b i n = Some xs \<Longrightarrow> i + n \<le> length b \<and> xs = get_bytes b i n"
  by (auto simp: load8_def load16_def load32_def load_bytes_def split: if_splits)

lemma store_SomeD:
  "store8 b i x = Some b' \<Longrightarrow> i + 1 \<le> length b \<and> b' = put8 b i x"
  "store16 b i y = Some b' \<Longrightarrow> i + 2 \<le> length b \<and> b' = put16 b i y"
  "store32 b i z = Some b' \<Longrightarrow> i + 4 \<le> length b \<and> b' = put32 b i z"
  "store_bytes b i xs = Some b' \<Longrightarrow> i + length xs \<le> length b \<and> b' = put_bytes b i xs"
  by (auto simp: store8_def store16_def store32_def store_bytes_def split: if_splits)

section \<open>Words as C integers\<close>

text \<open>Converting an \<open>int\<close> expression to an unsigned or narrower C type.\<close>

abbreviation u16_of :: "u32 \<Rightarrow> u16" where "u16_of x \<equiv> ucast x"
abbreviation u32_of16 :: "u16 \<Rightarrow> u32" where "u32_of16 x \<equiv> ucast x"
abbreviation u32_of8 :: "u8 \<Rightarrow> u32" where "u32_of8 x \<equiv> ucast x"

lemma unat_u16_less [simp]: "unat (x :: u16) < 65536"
  using unsigned_less [of x, where ?'a = nat] by simp

lemma unat_u8_less [simp]: "unat (x :: u8) < 256"
  using unsigned_less [of x, where ?'a = nat] by simp

lemma unat_u32_less [simp]: "unat (x :: u32) < 4294967296"
  using unsigned_less [of x, where ?'a = nat] by simp

lemma unat_u8_le [simp]: "unat (x :: u8) \<le> 255"
  using unat_u8_less [of x] by linarith

lemma unat_u16_le [simp]: "unat (x :: u16) \<le> 65535"
  using unat_u16_less [of x] by linarith

lemma unat_ucast_up16 [simp]: "unat (ucast (x :: u16) :: u32) = unat x"
  by (simp add: unsigned_ucast_eq take_bit_nat_eq_self_iff) (rule less_trans [OF unat_u16_less], simp)

lemma unat_ucast_up8 [simp]: "unat (ucast (x :: u8) :: u32) = unat x"
  by (simp add: unsigned_ucast_eq take_bit_nat_eq_self_iff) (rule less_trans [OF unat_u8_less], simp)

lemma unat_ucast_up8_64 [simp]: "unat (ucast (x :: u8) :: u64) = unat x"
  by (simp add: unsigned_ucast_eq take_bit_nat_eq_self_iff) (rule less_trans [OF unat_u8_less], simp)

lemma unat_ucast_up16_64 [simp]: "unat (ucast (x :: u16) :: u64) = unat x"
  by (simp add: unsigned_ucast_eq take_bit_nat_eq_self_iff) (rule less_trans [OF unat_u16_less], simp)

lemma unat_ucast_up32_64 [simp]: "unat (ucast (x :: u32) :: u64) = unat x"
  by (simp add: unsigned_ucast_eq take_bit_nat_eq_self_iff) (rule less_trans [OF unat_u32_less], simp)

lemma uint_eq_iff_word [simp]: "uint (x :: 'a::len word) = uint y \<longleftrightarrow> x = y"
  by (simp add: word_uint_eq_iff)

lemma and_ffff: "(x :: 'a::len word) AND 0xffff = take_bit 16 x"
  by (simp add: take_bit_eq_mask mask_eq_exp_minus_1)

lemma unat_and_ffff: "unat ((x :: 'a::len word) AND 0xffff) = unat x mod 65536"
  by (simp only: and_ffff unsigned_take_bit_eq) (simp add: take_bit_eq_mod)

lemma unat_not_and_ffff:
  assumes "16 \<le> LENGTH('a)"
  shows "unat (NOT (x :: 'a::len word) AND 0xffff) = 65535 - unat x mod 65536"
proof -
  have "uint (NOT x AND 0xffff) = take_bit 16 (NOT (uint x))"
    using assms by (simp only: and_ffff unsigned_take_bit_eq unsigned_not_eq) (simp add: min_def)
  also have "\<dots> = 65535 - take_bit 16 (uint x)"
    by (simp only: take_bit_not_eq_mask_diff) (simp add: mask_eq_exp_minus_1)
  finally have "int (unat (NOT x AND 0xffff)) = 65535 - int (unat x mod 65536)"
    by (simp add: take_bit_eq_mod zmod_int)
  then show ?thesis by linarith
qed

lemma unat_drop_bit: "unat (drop_bit n (x :: 'a::len word)) = unat x div 2 ^ n"
  by (simp only: unat_drop_bit_eq) (simp only: drop_bit_eq_div)

lemma signed_drop_bit_pos:
  assumes "unat (x :: u32) < 2 ^ 31"
  shows "signed_drop_bit n x = drop_bit n x"
proof -
  have "\<not> bit (unat x) 31" using assms by (simp add: bit_iff_odd)
  then have "\<not> bit x 31" by (simp add: bit_unsigned_iff)
  then show ?thesis by (intro bit_word_eqI) (auto simp: bit_simps dest: bit_imp_le_length)
qed

end
