(* ===== verification/Byteorder.thy ===== *)
theory Byteorder
  imports Prelude
begin

text \<open>
  Byte-order conversion of \<^verbatim>\<open>include/byteorder.h\<close>: the swap macros and the host/network
  conversions built on them for a little-endian host. The lemmas show that the conversions
  are involutions and that a converted value is laid out in memory most significant byte
  first.
\<close>

definition swab16 :: "u16 \<Rightarrow> u16" where
  "swab16 x = push_bit 8 (x AND 0x00ff) OR drop_bit 8 (x AND 0xff00)"

definition swab32 :: "u32 \<Rightarrow> u32" where
  "swab32 x = push_bit 24 (x AND 0x000000ff) OR push_bit 8 (x AND 0x0000ff00)
     OR drop_bit 8 (x AND 0x00ff0000) OR drop_bit 24 (x AND 0xff000000)"

definition swab64 :: "u64 \<Rightarrow> u64" where
  "swab64 x =
     push_bit 56 (x AND 0x00000000000000ff) OR
     push_bit 40 (x AND 0x000000000000ff00) OR
     push_bit 24 (x AND 0x0000000000ff0000) OR
     push_bit 8 (x AND 0x00000000ff000000) OR
     drop_bit 8 (x AND 0x000000ff00000000) OR
     drop_bit 24 (x AND 0x0000ff0000000000) OR
     drop_bit 40 (x AND 0x00ff000000000000) OR
     drop_bit 56 (x AND 0xff00000000000000)"

definition htons :: "u16 \<Rightarrow> u16" where "htons x = swab16 x"
definition ntohs :: "u16 \<Rightarrow> u16" where "ntohs x = swab16 x"
definition htonl :: "u32 \<Rightarrow> u32" where "htonl x = swab32 x"
definition ntohl :: "u32 \<Rightarrow> u32" where "ntohl x = swab32 x"

text \<open>
  The byte masks as bit sets (over \<^typ>\<open>int\<close>, to which the simplifier reduces the bits of
  a numeral word).
\<close>

lemma bit_byte_mask:
  "c = push_bit k (mask 8 :: int) \<Longrightarrow> bit c n \<longleftrightarrow> k \<le> n \<and> n < k + 8"
  by (auto simp: bit_simps)

lemma byte_masks:
  "0xff = push_bit 0 (mask 8 :: int)" "0xff00 = push_bit 8 (mask 8 :: int)"
  "0xff0000 = push_bit 16 (mask 8 :: int)" "0xff000000 = push_bit 24 (mask 8 :: int)"
  "0xff00000000 = push_bit 32 (mask 8 :: int)" "0xff0000000000 = push_bit 40 (mask 8 :: int)"
  "0xff000000000000 = push_bit 48 (mask 8 :: int)"
  "0xff00000000000000 = push_bit 56 (mask 8 :: int)"
  by (simp_all add: mask_eq_exp_minus_1 push_bit_eq_mult)

lemmas bit_mask_numerals = byte_masks [THEN bit_byte_mask]

text \<open>The swaps, bit by bit.\<close>

lemma bit_swab16: "bit (swab16 x) n \<longleftrightarrow> n < 16 \<and> bit x (if n < 8 then n + 8 else n - 8)"
  by (auto simp: swab16_def bit_simps bit_mask_numerals add.commute dest: bit_imp_le_length)

lemma swab16_swab16 [simp]: "swab16 (swab16 x) = x"
  by (rule bit_word_eqI) (auto simp: bit_swab16)

text \<open>The byte of position \<open>n\<close>, for the case splits over a word's bytes.\<close>

lemma byte_cases32:
  assumes "(n :: nat) < 32"
  obtains "n < 8" | "8 \<le> n" "n < 16" | "16 \<le> n" "n < 24" | "24 \<le> n" "n < 32"
  using assms by fastforce

lemma byte_cases64:
  assumes "(n :: nat) < 64"
  obtains "n < 8" | "8 \<le> n" "n < 16" | "16 \<le> n" "n < 24" | "24 \<le> n" "n < 32"
    | "32 \<le> n" "n < 40" | "40 \<le> n" "n < 48" | "48 \<le> n" "n < 56" | "56 \<le> n" "n < 64"
  using assms by (metis not_less)

lemma bit_swab32:
  "bit (swab32 x) n \<longleftrightarrow> n < 32 \<and>
     bit x (if n < 8 then n + 24 else if n < 16 then n + 8 else if n < 24 then n - 8 else n - 24)"
proof (cases "n < 32")
  case True
  then show ?thesis
    by (cases rule: byte_cases32)
      (auto simp: swab32_def bit_simps bit_mask_numerals add.commute dest: bit_imp_le_length)
qed (auto dest: bit_imp_le_length)

lemma swab32_swab32 [simp]: "swab32 (swab32 x) = x"
proof (rule bit_word_eqI)
  fix n assume "n < LENGTH(32)"
  then have "n < 32" by simp
  then show "bit (swab32 (swab32 x)) n = bit x n"
    by (cases rule: byte_cases32) (auto simp: bit_swab32)
qed

lemma bit_swab64:
  "n < 64 \<Longrightarrow> bit (swab64 x) n \<longleftrightarrow>
     bit x (if n < 8 then n + 56 else if n < 16 then n + 40 else if n < 24 then n + 24
       else if n < 32 then n + 8 else if n < 40 then n - 8 else if n < 48 then n - 24
       else if n < 56 then n - 40 else n - 56)"
  by (cases rule: byte_cases64)
    (auto simp: swab64_def bit_simps bit_mask_numerals add.commute dest: bit_imp_le_length)

lemma swab64_swab64 [simp]: "swab64 (swab64 x) = x"
proof (rule bit_word_eqI)
  fix n assume "n < LENGTH(64)"
  then have "n < 64" by simp
  then show "bit (swab64 (swab64 x)) n = bit x n"
    by (cases rule: byte_cases64) (auto simp: bit_swab64)
qed

lemma ntohs_htons [simp]: "ntohs (htons x) = x" and htons_ntohs [simp]: "htons (ntohs x) = x"
  by (simp_all add: ntohs_def htons_def)

lemma ntohl_htonl [simp]: "ntohl (htonl x) = x" and htonl_ntohl [simp]: "htonl (ntohl x) = x"
  by (simp_all add: ntohl_def htonl_def)

lemma htons_eq_iff [simp]: "htons x = htons y \<longleftrightarrow> x = y"
  by (metis ntohs_htons)

lemma htonl_eq_iff [simp]: "htonl x = htonl y \<longleftrightarrow> x = y"
  by (metis ntohl_htonl)

lemma ntohl_0 [simp]: "ntohl 0 = 0" and htonl_0 [simp]: "htonl 0 = 0"
  by (simp_all add: ntohl_def htonl_def swab32_def)

text \<open>The layout of a converted value in memory.\<close>

lemma put16_htons:
  "put16 b i (htons v) = b[i := ucast (drop_bit 8 v), i + 1 := ucast v]"
proof -
  have "(ucast (htons v) :: u8) = ucast (drop_bit 8 v)"
    by (rule bit_word_eqI) (auto simp: htons_def bit_swab16 bit_simps add.commute)
  moreover have "(ucast (drop_bit 8 (htons v)) :: u8) = ucast v"
    by (rule bit_word_eqI) (auto simp: htons_def bit_swab16 bit_simps)
  ultimately show ?thesis by (simp add: put16_def)
qed

lemma get16_ntohs:
  "ntohs (get16 b i) = push_bit 8 (ucast (b ! i)) OR ucast (b ! (i + 1))"
  by (rule bit_word_eqI)
    (auto simp: ntohs_def get16_def bit_swab16 bit_simps dest: bit_imp_le_length)

end
