(* ===== verification/Checksum.thy ===== *)
theory Checksum
  imports Byteorder
begin

text \<open>
  The Internet checksum of \<^verbatim>\<open>net/checksum.c\<close>. The C code adds 16-bit words in host order
  into an \<^verbatim>\<open>int\<close>, folds the carries twice and complements; here the \<^verbatim>\<open>int\<close> is a 32-bit word
  with its arithmetic right shift.

  The specification is arithmetic modulo 65535: \<open>bsum\<close> is the weighted byte sum of a block
  and \<open>oc_norm\<close> its ones'-complement representative. The lemmas show that the code computes
  \<open>65535 - oc_norm (bsum p)\<close>, that a block whose checksum field was filled in verifies, and
  that \<^verbatim>\<open>add_ip_checksums\<close> combines the checksums of two adjacent blocks, also when the second
  starts at an odd offset.
\<close>

fun csum_loop :: "bytes \<Rightarrow> nat \<Rightarrow> u32 \<Rightarrow> u32 option" where
  "csum_loop ptr nbytes acc =
     (if 1 < nbytes then do {
        w \<leftarrow> load16 ptr 0;
        csum_loop (drop 2 ptr) (nbytes - 2) (acc + ucast w) }
      else if nbytes = 1 then do {
        oddbyte \<leftarrow> load8 ptr 0;
        Some (acc + ucast oddbyte) }
      else Some acc)"

declare csum_loop.simps [simp del]

definition csum_fold :: "u32 \<Rightarrow> u32" where
  "csum_fold sum0 = (
     let sum1 = signed_drop_bit 16 sum0 + (sum0 AND 0xffff);
         sum2 = sum1 + signed_drop_bit 16 sum1
     in NOT sum2 AND 0xffff)"

definition compute_ip_checksum :: "bytes \<Rightarrow> u32 \<Rightarrow> u32 option" where
  "compute_ip_checksum vptr nbytes = map_option csum_fold (csum_loop vptr (unat nbytes) 0)"

definition add_ip_checksums :: "u32 \<Rightarrow> u32 \<Rightarrow> u32 \<Rightarrow> u32" where
  "add_ip_checksums offset sum0 new0 = (
     let sum1 = NOT sum0 AND 0xffff;
         new1 = NOT new0 AND 0xffff;
         new = (if offset AND 1 \<noteq> 0
                then (drop_bit 8 new1 AND 0xff) OR (push_bit 8 new1 AND 0xff00) else new1);
         checksum1 = (ucast (sum1 + new) :: u64);
         checksum = (if checksum1 > 0xffff then checksum1 - 0xffff else checksum1)
     in ucast (NOT checksum AND 0xffff))"

definition ip_checksum_ok :: "bytes \<Rightarrow> u32 \<Rightarrow> bool option" where
  "ip_checksum_ok addr nbytes = map_option (\<lambda>c. c AND 0xfffe = 0) (compute_ip_checksum addr nbytes)"

section \<open>The ones'-complement specification\<close>

text \<open>The byte sum of a block: bytes at odd positions weigh 256.\<close>

definition wt :: "bool \<Rightarrow> nat" where
  "wt odd_pos = (if odd_pos then 256 else 1)"

fun bsum :: "bool \<Rightarrow> bytes \<Rightarrow> nat" where
  "bsum odd_pos [] = 0"
| "bsum odd_pos (x # xs) = wt odd_pos * unat x + bsum (\<not> odd_pos) xs"

definition oc_norm :: "nat \<Rightarrow> nat" where
  "oc_norm s = (if s = 0 then 0 else (s - 1) mod 65535 + 1)"

lemma oc_norm_le: "oc_norm s \<le> 65535"
proof -
  have "(s - 1) mod 65535 < 65535" by simp
  then show ?thesis by (cases s) (auto simp: oc_norm_def)
qed

lemma oc_norm_eq_0_iff [simp]: "oc_norm s = 0 \<longleftrightarrow> s = 0"
  by (simp add: oc_norm_def)

lemma oc_norm_0 [simp]: "oc_norm 0 = 0"
  by (simp add: oc_norm_def)

lemma oc_norm_mod: "oc_norm s mod 65535 = s mod 65535"
  by (cases s) (auto simp: oc_norm_def mod_Suc)

lemma oc_norm_unique:
  assumes "r \<le> 65535" "r mod 65535 = s mod 65535" "r = 0 \<longleftrightarrow> s = 0"
  shows "oc_norm s = r"
  using assms by (cases s; cases r) (auto simp: oc_norm_def mod_Suc split: if_splits)

lemma oc_norm_id: "s \<le> 65535 \<Longrightarrow> oc_norm s = s"
  by (rule oc_norm_unique) auto

lemma oc_norm_mult: "0 < k \<Longrightarrow> oc_norm (k * 65535) = 65535"
  by (rule oc_norm_unique) auto

lemma oc_norm_add_norm: "oc_norm (oc_norm a + oc_norm b) = oc_norm (a + b)"
proof (rule oc_norm_unique)
  show "oc_norm (a + b) \<le> 65535" by (rule oc_norm_le)
  have "(oc_norm a + oc_norm b) mod 65535 = (a + b) mod 65535"
    by (metis mod_add_eq oc_norm_mod)
  then show "oc_norm (a + b) mod 65535 = (oc_norm a + oc_norm b) mod 65535"
    by (simp add: oc_norm_mod)
qed auto

lemma bsum_append:
  "bsum r (p @ q) = bsum r p + bsum (if even (length p) then r else \<not> r) q"
  by (induction p arbitrary: r) auto

lemma bsum_update:
  "i < length p \<Longrightarrow>
    bsum r (p[i := v]) + wt (if even i then r else \<not> r) * unat (p ! i)
      = bsum r p + wt (if even i then r else \<not> r) * unat v"
proof (induction p arbitrary: r i)
  case (Cons x p)
  show ?case
  proof (cases i)
    case (Suc j)
    with Cons.IH [of j "\<not> r"] Cons.prems show ?thesis by (cases "even j") auto
  qed simp
qed simp

lemma bsum_eq_0_iff: "bsum r p = 0 \<longleftrightarrow> (\<forall>x \<in> set p. x = 0)"
  by (induction p arbitrary: r) (auto simp: wt_def unsigned_eq_0_iff)

lemma mod_65535_65536: "65536 * x mod 65535 = x mod (65535 :: nat)"
proof -
  have "65536 * x = x + 65535 * x" by simp
  then show ?thesis by (metis mod_mult_self2)
qed

lemma bsum_shift_mod: "bsum (\<not> r) p mod 65535 = 256 * bsum r p mod 65535"
proof (induction p arbitrary: r)
  case (Cons x p)
  have "wt (\<not> r) * unat x mod 65535 = 256 * (wt r * unat x) mod 65535"
    using mod_65535_65536 [of "unat x"] by (simp add: wt_def)
  moreover have "bsum r p mod 65535 = 256 * bsum (\<not> r) p mod 65535"
    using Cons.IH [of "\<not> r"] by simp
  ultimately have "(wt (\<not> r) * unat x + bsum r p) mod 65535
      = (256 * (wt r * unat x) + 256 * bsum (\<not> r) p) mod 65535"
    by (rule mod_add_cong)
  then show ?case by (simp add: distrib_left)
qed simp

lemma bsum_bound: "bsum r p \<le> 65535 * ((length p + 1) div 2)"
proof (induction p arbitrary: r rule: induct_list012)
  case (2 x)
  have "wt r * unat x \<le> 256 * 255"
    by (intro mult_le_mono) (auto simp: wt_def)
  then show ?case by simp
next
  case (3 x y zs)
  have "bsum r zs \<le> 65535 * ((length zs + 1) div 2)" by (rule "3.IH")
  moreover have "(length (x # y # zs) + 1) div 2 = Suc ((length zs + 1) div 2)" by simp
  moreover have "bsum r (x # y # zs) \<le> 65535 + bsum r zs"
  proof -
    have "unat x \<le> 255" "unat y \<le> 255" by simp_all
    then have "wt r * unat x + wt (\<not> r) * unat y \<le> 65535"
      unfolding wt_def by (cases r; simp only: simp_thms if_True if_False; linarith)
    then show ?thesis by simp
  qed
  ultimately show ?case by simp
qed simp

section \<open>What the code computes\<close>

lemma unat_get16: "unat (get16 b i) = unat (b ! i) + 256 * unat (b ! (i + 1))"
proof -
  have "get16 b i = ucast (b ! i) + push_bit 8 (ucast (b ! (i + 1)))"
    unfolding get16_def
    by (rule disjunctive_add [symmetric]) (auto simp: bit_simps dest: bit_imp_le_length)
  also have "\<dots> = word_of_nat (unat (b ! i) + 256 * unat (b ! (i + 1)))"
    by (simp add: push_bit_eq_mult)
  finally have "unat (get16 b i) = unat (word_of_nat (unat (b ! i) + 256 * unat (b ! (i + 1))) :: u16)"
    by (rule arg_cong)
  also have "\<dots> = (unat (b ! i) + 256 * unat (b ! (i + 1))) mod 65536"
    by (simp only: unsigned_of_nat take_bit_eq_mod) simp
  finally have "unat (get16 b i) = (unat (b ! i) + 256 * unat (b ! (i + 1))) mod 65536" .
  moreover have "unat (b ! i) + 256 * unat (b ! (i + 1)) < 65536"
    using unat_u8_less [of "b ! i"] unat_u8_less [of "b ! (i + 1)"] by linarith
  ultimately show ?thesis by simp
qed

lemma csum_loop_eq:
  "n \<le> length p \<Longrightarrow> csum_loop p n acc = Some (acc + word_of_nat (bsum False (take n p)))"
proof (induction p n acc rule: csum_loop.induct)
  case (1 p n acc)
  show ?case
  proof (cases "1 < n")
    case True
    with "1.prems" obtain x y q m where p: "p = x # y # q" "n = Suc (Suc m)"
      by (metis Suc_le_length_iff less_imp_Suc_add One_nat_def add_Suc)
    have "ucast (get16 p 0) = (word_of_nat (unat (get16 p 0)) :: u32)" by simp
    then have "ucast (get16 p 0) = (word_of_nat (unat x + 256 * unat y) :: u32)"
      by (simp only: unat_get16 p) simp
    with "1.IH" [OF True, of "get16 p 0"] "1.prems" p show ?thesis
      by (subst csum_loop.simps) (simp add: mem_simps wt_def add.assoc)
  next
    case False
    then consider "n = 0" | "n = 1" by linarith
    then show ?thesis
    proof cases
      case 2
      with "1.prems" obtain x q where "p = x # q" by (cases p) auto
      with 2 show ?thesis
        by (subst csum_loop.simps) (simp add: mem_simps get8_def wt_def)
    qed (simp add: csum_loop.simps)
  qed
qed

lemma mod_65536_le: "(n :: nat) mod 65536 \<le> 65535"
proof -
  have "n mod 65536 < 65536" by simp
  then show ?thesis by linarith
qed

lemma fold_step:
  assumes "(a :: nat) < 131070"
  shows "(a + a div 65536) mod 65536 mod 65535 = a mod 65535"
    and "(a + a div 65536) mod 65536 = 0 \<longleftrightarrow> a = 0"
proof -
  have "(a + a div 65536) mod 65536 mod 65535 = a mod 65535
    \<and> ((a + a div 65536) mod 65536 = 0 \<longleftrightarrow> a = 0)"
  proof (cases "a < 65536")
    case False
    then obtain c where a: "a = 65536 + c" by (metis le_iff_add not_less)
    with assms have c: "c < 65534" by simp
    have "a div 65536 = 1" using a c by (simp only:)
    then have "a + a div 65536 = c + 1 + 65536" using a by simp
    then have "(a + a div 65536) mod 65536 = (c + 1 + 65536) mod 65536" by (simp only:)
    also have "\<dots> = c + 1" using c by (simp only: mod_add_self2) simp
    finally have b: "(a + a div 65536) mod 65536 = c + 1" .
    have "a mod 65535 = (c + 1 + 65535) mod 65535" using a by simp
    also have "\<dots> = (c + 1) mod 65535" by (rule mod_add_self2)
    finally show ?thesis using a b by simp
  qed simp
  then show "(a + a div 65536) mod 65536 mod 65535 = a mod 65535"
    and "(a + a div 65536) mod 65536 = 0 \<longleftrightarrow> a = 0" by simp_all
qed

text \<open>Two folds bring the sum to 16 bits.\<close>

lemma csum_fold_eq:
  assumes "unat s < 2 ^ 31"
  shows "csum_fold s = word_of_nat (65535 - oc_norm (unat s))"
proof -
  let ?n = "unat s"
  define s1 where "s1 = signed_drop_bit 16 s + (s AND 0xffff)"
  define s2 where "s2 = s1 + signed_drop_bit 16 s1"
  have dm: "?n = 65536 * (?n div 65536) + ?n mod 65536" by simp
  have hi: "?n div 65536 < 32768" using assms by simp
  have "unat s1 = (?n div 65536 + ?n mod 65536) mod 2 ^ 32"
    unfolding s1_def signed_drop_bit_pos [OF assms]
    by (simp add: unat_word_ariths unat_and_ffff unat_drop_bit)
  then have s1: "unat s1 = ?n div 65536 + ?n mod 65536"
    using hi by simp
  then have "unat s1 < 2 ^ 31" using hi by simp
  then have "unat s2 = (unat s1 + unat s1 div 65536) mod 2 ^ 32"
    unfolding s2_def by (simp add: signed_drop_bit_pos unat_word_ariths unat_drop_bit)
  then have s2: "unat s2 = unat s1 + unat s1 div 65536"
    using s1 hi by simp
  have "unat s2 mod 65536 = oc_norm ?n"
  proof (rule oc_norm_unique [symmetric])
    have b: "unat s1 < 131070" using s1 hi by linarith
    have "?n mod 65535 = (65536 * (?n div 65536) + ?n mod 65536) mod 65535" by simp
    also have "\<dots> = (?n div 65536 + ?n mod 65536) mod 65535"
      by (rule mod_add_cong) (simp_all only: mod_65535_65536)
    finally show "unat s2 mod 65536 mod 65535 = ?n mod 65535"
      using fold_step(1) [OF b] s1 s2 by simp
    have "unat s1 = 0 \<longleftrightarrow> ?n = 0"
      using dm s1 by linarith
    with fold_step(2) [OF b] show "unat s2 mod 65536 = 0 \<longleftrightarrow> ?n = 0"
      by (simp only: s2)
    show "unat s2 mod 65536 \<le> 65535" by (rule mod_65536_le)
  qed
  then have "unat (NOT s2 AND 0xffff) = 65535 - oc_norm ?n"
    by (simp add: unat_not_and_ffff)
  moreover have "NOT s2 AND 0xffff = word_of_nat (unat (NOT s2 AND 0xffff))"
    by (simp only: of_nat_unat) simp
  ultimately have "NOT s2 AND 0xffff = word_of_nat (65535 - oc_norm ?n)"
    by (simp only:)
  then show ?thesis by (simp only: csum_fold_def Let_def s1_def s2_def)
qed

text \<open>The checksum of a block, and the bound under which the C \<^verbatim>\<open>int\<close> cannot overflow.\<close>

lemma bsum_take_bound:
  assumes "n \<le> 65535"
  shows "bsum r (take n p) < 2 ^ 31"
proof -
  have "length (take n p) \<le> 65535" using assms by simp
  then have "(length (take n p) + 1) div 2 \<le> 32768" by linarith
  then have "65535 * ((length (take n p) + 1) div 2) \<le> 65535 * 32768" by (rule mult_le_mono2)
  with bsum_bound [of r "take n p"] show ?thesis by simp
qed

lemma compute_ip_checksum_eq:
  assumes "unat n \<le> length p" "unat n \<le> 65535"
  shows "compute_ip_checksum p n = Some (word_of_nat (65535 - oc_norm (bsum False (take (unat n) p))))"
proof -
  let ?s = "bsum False (take (unat n) p)"
  have s: "unat (word_of_nat ?s :: u32) = ?s"
    using bsum_take_bound [OF assms(2), of False p]
    by (simp add: unsigned_of_nat take_bit_nat_eq_self_iff)
  then have "csum_fold (word_of_nat ?s) = word_of_nat (65535 - oc_norm ?s)"
    using bsum_take_bound [OF assms(2), of False p] by (subst csum_fold_eq) simp_all
  then show ?thesis using assms(1) by (simp add: compute_ip_checksum_def csum_loop_eq)
qed

lemma unat_compute_ip_checksum:
  assumes "compute_ip_checksum p n = Some c" "unat n \<le> length p" "unat n \<le> 65535"
  shows "unat c = 65535 - oc_norm (bsum False (take (unat n) p))"
  using assms by (auto simp: compute_ip_checksum_eq unsigned_of_nat take_bit_nat_eq_self_iff)

text \<open>Writing a 16-bit value at an even offset changes the byte sum by the two values.\<close>

lemma bsum_put16:
  assumes "even k" "k + 2 \<le> length p"
  shows "bsum False (put16 p k v) + unat (get16 p k) = bsum False p + unat v"
proof -
  let ?lo = "ucast v :: u8" and ?hi = "ucast (drop_bit 8 v) :: u8"
  have "bsum False (p[k := ?lo]) + unat (p ! k) = bsum False p + unat ?lo"
    using bsum_update [of k p False ?lo] assms by (simp add: wt_def)
  moreover have "bsum False (p[k := ?lo, k + 1 := ?hi]) + 256 * unat (p[k := ?lo] ! (k + 1))
      = bsum False (p[k := ?lo]) + 256 * unat ?hi"
    using bsum_update [of "k + 1" "p[k := ?lo]" False ?hi] assms by (simp add: wt_def)
  moreover have "unat v = unat ?lo + 256 * unat ?hi"
    using unat_get16 [of "put16 p k v" k] c16.get_put [of k p v] assms
    by (simp add: put16_def)
  ultimately show ?thesis using assms by (simp add: put16_def unat_get16)
qed

lemma take_put16: "k + 2 \<le> n \<Longrightarrow> take n (put16 p k v) = put16 (take n p) k v"
  by (simp add: put16_def take_update_swap)

lemma get16_take: "k + 2 \<le> n \<Longrightarrow> get16 (take n p) k = get16 p k"
  by (simp add: get16_def)

text \<open>A block whose checksum field was zero when the checksum was computed verifies.\<close>

lemma checksum_fill_verifies:
  assumes "compute_ip_checksum p n = Some c" "unat n \<le> length p" "unat n \<le> 65535"
    "even k" "k + 2 \<le> unat n" "get16 p k = 0"
  shows "compute_ip_checksum (put16 p k (ucast c)) n = Some 0"
proof -
  let ?s = "bsum False (take (unat n) p)"
  let ?p = "put16 p k (ucast c)"
  have c: "unat c = 65535 - oc_norm ?s" using assms(1-3) by (rule unat_compute_ip_checksum)
  then have c16: "unat (ucast c :: u16) = 65535 - oc_norm ?s"
    by (simp add: unsigned_ucast_eq take_bit_nat_eq_self_iff)
  have "bsum False (take (unat n) ?p) = ?s + (65535 - oc_norm ?s)"
    using bsum_put16 [of k "take (unat n) p" "ucast c"] assms(2,4-6) c16
    by (simp add: take_put16 get16_take)
  moreover have "oc_norm (?s + (65535 - oc_norm ?s)) = 65535"
  proof (rule oc_norm_unique)
    have "(?s + (65535 - oc_norm ?s)) mod 65535 = (oc_norm ?s + (65535 - oc_norm ?s)) mod 65535"
      by (rule mod_add_cong) (simp_all add: oc_norm_mod)
    also have "\<dots> = 0" using oc_norm_le [of ?s] by simp
    finally show "65535 mod 65535 = (?s + (65535 - oc_norm ?s)) mod 65535" by simp
    show "65535 = (0 :: nat) \<longleftrightarrow> ?s + (65535 - oc_norm ?s) = 0"
      by (cases "?s = 0") auto
  qed simp
  ultimately show ?thesis using assms(2,3) by (simp add: compute_ip_checksum_eq)
qed

section \<open>Combining the checksums of two blocks\<close>

text \<open>Swapping the bytes of a 16-bit value multiplies it by 256 modulo 65535.\<close>

lemma unat_swap_bytes:
  assumes "unat (x :: u32) < 65536"
  shows "unat ((drop_bit 8 x AND 0xff) OR (push_bit 8 x AND 0xff00)) = unat x div 256 + 256 * (unat x mod 256)"
proof -
  have dis: "\<not> bit (drop_bit 8 x AND 0xff) n \<or> \<not> bit (push_bit 8 x AND 0xff00) n" for n
    by (auto simp: bit_simps bit_mask_numerals)
  have "drop_bit 8 x AND 0xff = take_bit 8 (drop_bit 8 x)"
    by (rule bit_word_eqI) (auto simp: bit_simps bit_mask_numerals)
  then have "unat (drop_bit 8 x AND 0xff) = unat x div 256 mod 256"
    by (simp only: unsigned_take_bit_eq unat_drop_bit)
      (simp only: take_bit_eq_mod, simp)
  moreover have "unat x div 256 < 256" using assms by (simp only: less_mult_imp_div_less)
  ultimately have a: "unat (drop_bit 8 x AND 0xff) = unat x div 256"
    by (simp only: mod_less)
  have "push_bit 8 x AND 0xff00 = push_bit 8 (take_bit 8 x)"
    by (rule bit_word_eqI) (auto simp: bit_simps bit_mask_numerals)
  then have "push_bit 8 x AND 0xff00 = 256 * take_bit 8 x" by (simp add: push_bit_eq_mult)
  then have b: "unat (push_bit 8 x AND 0xff00) = 256 * (unat x mod 256)"
    by (simp add: unat_word_ariths unsigned_take_bit_eq take_bit_eq_mod)
  have "(drop_bit 8 x AND 0xff) OR (push_bit 8 x AND 0xff00) =
      (drop_bit 8 x AND 0xff) + (push_bit 8 x AND 0xff00)"
    using dis by (intro disjunctive_add [symmetric]) simp
  then have "unat ((drop_bit 8 x AND 0xff) OR (push_bit 8 x AND 0xff00)) =
      (unat x div 256 + 256 * (unat x mod 256)) mod 2 ^ 32"
    by (simp add: unat_word_ariths a b)
  moreover have "unat x div 256 + 256 * (unat x mod 256) < 2 ^ 32"
  proof -
    have "unat x mod 256 < 256" by simp
    moreover have "unat x div 256 < 256" using assms by (simp only: less_mult_imp_div_less)
    ultimately have "unat x div 256 + 256 * (unat x mod 256) < 4294967296" by linarith
    then show ?thesis by simp
  qed
  ultimately show ?thesis by (simp only: mod_less)
qed

lemma oc_norm_256:
  "oc_norm (256 * s) = oc_norm s div 256 + 256 * (oc_norm s mod 256)"
proof (rule oc_norm_unique)
  let ?r = "oc_norm s"
  have r: "?r = 256 * (?r div 256) + ?r mod 256" by simp
  have hi: "?r div 256 \<le> 255" using oc_norm_le [of s] by simp
  have "?r mod 256 < 256" by simp
  then have lo: "?r mod 256 \<le> 255" by linarith
  show "?r div 256 + 256 * (?r mod 256) \<le> 65535" using hi lo by linarith
  have "?r div 256 + 256 * (?r mod 256) = 0 \<longleftrightarrow> ?r = 0"
    using r by linarith
  then show "?r div 256 + 256 * (?r mod 256) = 0 \<longleftrightarrow> 256 * s = 0"
    by simp
  have "256 * s mod 65535 = 256 * ?r mod 65535"
    by (rule mod_mult_cong) (simp_all add: oc_norm_mod)
  also have "256 * ?r = 65536 * (?r div 256) + 256 * (?r mod 256)"
    using r by linarith
  also have "\<dots> mod 65535 = (?r div 256 + 256 * (?r mod 256)) mod 65535"
    by (rule mod_add_cong) (simp_all only: mod_65535_65536)
  finally show "(?r div 256 + 256 * (?r mod 256)) mod 65535 = 256 * s mod 65535" by simp
qed

lemma add_norms:
  assumes "x \<le> 65535" "y \<le> 65535"
  shows "oc_norm (x + y) = (if x + y > 65535 then x + y - 65535 else x + y)"
proof (cases "x + y > 65535")
  case True
  then have "x + y = (x + y - 65535) + 65535" by simp
  then have "(x + y - 65535) mod 65535 = (x + y) mod 65535" by (metis mod_add_self2)
  with True assms show ?thesis by (intro oc_norm_unique) auto
qed (simp add: oc_norm_id)

lemma unat_add_ip_checksums:
  assumes "unat a = 65535 - oc_norm sa" "unat b = 65535 - oc_norm sb"
  shows "unat (add_ip_checksums offset a b) =
    65535 - oc_norm (sa + (if odd (unat offset) then 256 * sb else sb))"
proof -
  define x where "x = NOT a AND 0xffff"
  define y where "y = NOT b AND 0xffff"
  define z where "z = (if offset AND 1 \<noteq> 0
    then (drop_bit 8 y AND 0xff) OR (push_bit 8 y AND 0xff00) else y)"
  have x: "unat x = oc_norm sa" and y: "unat y = oc_norm sb"
    using assms oc_norm_le [of sa] oc_norm_le [of sb]
    by (simp_all add: x_def y_def unat_not_and_ffff)
  have odd: "offset AND 1 \<noteq> 0 \<longleftrightarrow> odd (unat offset)"
    by (simp add: and_one_eq odd_iff_mod_2_eq_one word_unat_eq_iff unat_mod_distrib)
  have z: "unat z = oc_norm (if odd (unat offset) then 256 * sb else sb)"
    using y oc_norm_le [of sb] by (simp add: z_def odd oc_norm_256 unat_swap_bytes)
  then have zl: "unat z \<le> 65535" by (simp add: oc_norm_le)
  have xl: "unat x \<le> 65535" by (simp add: x oc_norm_le)
  have xz: "unat (ucast (x + z) :: u64) = unat x + unat z"
    using xl zl by (simp add: unat_word_ariths)
  define c where "c = (if (ucast (x + z) :: u64) > 0xffff then ucast (x + z) - 0xffff else ucast (x + z) :: u64)"
  have c: "unat c = oc_norm (unat x + unat z)"
    using xl zl xz by (auto simp: c_def add_norms word_less_nat_alt unat_sub word_le_nat_alt)
  have "add_ip_checksums offset a b = ucast (NOT c AND 0xffff)"
    by (simp only: add_ip_checksums_def Let_def c_def z_def x_def y_def)
  moreover have "unat (NOT c AND 0xffff) = 65535 - oc_norm (unat x + unat z)"
    using c oc_norm_le [of "unat x + unat z"] by (simp add: unat_not_and_ffff)
  ultimately show ?thesis
    by (simp add: unsigned_ucast_eq take_bit_nat_eq_self_iff x z oc_norm_add_norm)
qed

text \<open>
  The checksum of a block is obtained from the checksums of its two parts, the second one
  byte-swapped when it starts at an odd offset.
\<close>

lemma oc_norm_cong: "s mod 65535 = t mod 65535 \<Longrightarrow> (s = 0 \<longleftrightarrow> t = 0) \<Longrightarrow> oc_norm s = oc_norm t"
  by (rule oc_norm_unique) (simp_all add: oc_norm_le oc_norm_mod)

text \<open>
  C27: the checksum of two adjacent blocks is \<^verbatim>\<open>add_ip_checksums\<close> of their checksums, also when the
  second block starts at an odd offset.
\<close>

theorem add_ip_checksums_append:
  assumes "compute_ip_checksum p n = Some c1" "compute_ip_checksum q m = Some c2"
    "unat n = length p" "unat m = length q" "length p + length q \<le> 65535"
  shows "compute_ip_checksum (p @ q) (n + m) = Some (add_ip_checksums n c1 c2)"
proof -
  let ?r = "if even (length p) then False else True"
  have c1: "unat c1 = 65535 - oc_norm (bsum False p)"
    using unat_compute_ip_checksum [OF assms(1)] assms(3,5) by simp
  have c2: "unat c2 = 65535 - oc_norm (bsum False q)"
    using unat_compute_ip_checksum [OF assms(2)] assms(4,5) by simp
  have nm: "unat (n + m) = length p + length q"
    using assms(3-5) by (simp add: unat_word_ariths)
  have shift: "(if odd (unat n) then 256 * bsum False q else bsum False q) mod 65535 = bsum ?r q mod 65535"
    using bsum_shift_mod [of False q] assms(3) by simp
  have "oc_norm (bsum False p + (if odd (unat n) then 256 * bsum False q else bsum False q))
      = oc_norm (bsum False (p @ q))"
  proof (rule oc_norm_cong)
    show "(bsum False p + (if odd (unat n) then 256 * bsum False q else bsum False q)) mod 65535
        = bsum False (p @ q) mod 65535"
      using shift by (auto simp: bsum_append intro: mod_add_cong)
    show "bsum False p + (if odd (unat n) then 256 * bsum False q else bsum False q) = 0
        \<longleftrightarrow> bsum False (p @ q) = 0"
      by (auto simp: bsum_append bsum_eq_0_iff)
  qed
  then have "unat (add_ip_checksums n c1 c2) = 65535 - oc_norm (bsum False (p @ q))"
    using unat_add_ip_checksums [OF c1 c2, of n] by simp
  then have "add_ip_checksums n c1 c2 = word_of_nat (65535 - oc_norm (bsum False (p @ q)))"
    by (metis of_nat_unat ucast_id)
  then show ?thesis using nm assms(5) by (simp add: compute_ip_checksum_eq)
qed

lemma add_ip_checksums_append_witness:
  "compute_ip_checksum ([1, 2, 3] @ [4]) (3 + 1) = Some (add_ip_checksums 3 0xFDFB 0xFFFB)"
  by (rule add_ip_checksums_append) (code_simp, code_simp, simp_all)

lemma ip_checksum_ok_defined:
  "unat n \<le> length p \<Longrightarrow> unat n \<le> 65535 \<Longrightarrow> \<exists>ok. ip_checksum_ok p n = Some ok"
  by (simp add: ip_checksum_ok_def compute_ip_checksum_eq)

text \<open>
  The test for a correct checksum ignores the lowest bit of the complement, so it also accepts
  blocks whose sum is off by one.
\<close>

lemma bit_fffe: "bit (65534 :: int) n \<longleftrightarrow> 1 \<le> n \<and> n < 16"
proof -
  have "(65534 :: int) = push_bit 1 (mask 15)"
    by (simp add: mask_eq_exp_minus_1)
  then have "bit (65534 :: int) n = bit (push_bit 1 (mask 15) :: int) n" by (rule arg_cong)
  then show ?thesis by (simp only: bit_simps) auto
qed

lemma and_fffe: "(x :: u32) AND 0xfffe = push_bit 1 (take_bit 15 (drop_bit 1 x))"
  by (rule bit_word_eqI) (simp only: bit_simps, auto simp: bit_fffe)

lemma unat_and_fffe_eq_0: "n \<le> 65535 \<Longrightarrow> (word_of_nat n :: u32) AND 0xfffe = 0 \<longleftrightarrow> n \<le> 1"
proof -
  assume n: "n \<le> 65535"
  let ?w = "word_of_nat n :: u32"
  have u: "unat ?w = n" using n by (simp add: unsigned_of_nat take_bit_nat_eq_self_iff)
  have t: "unat (take_bit 15 (drop_bit 1 ?w)) = n div 2"
    using n by (simp only: unsigned_take_bit_eq unat_drop_bit u) (simp add: take_bit_nat_eq_self_iff)
  have "unat (?w AND 0xfffe) = (2 * (n div 2)) mod 2 ^ 32"
    by (simp only: and_fffe push_bit_eq_mult unat_word_ariths t) (simp add: mult.commute)
  then have "?w AND 0xfffe = 0 \<longleftrightarrow> (2 * (n div 2)) mod 2 ^ 32 = 0"
    by (metis unsigned_eq_0_iff)
  also have "\<dots> \<longleftrightarrow> n div 2 = 0" using n by simp
  also have "\<dots> \<longleftrightarrow> n \<le> 1" by linarith
  finally show ?thesis .
qed

text \<open>
  C28: \<^verbatim>\<open>ip_checksum_ok\<close> accepts a block exactly when its ones'-complement sum is 65535 or 65534: the
  correct blocks, and those whose sum is one too small.
\<close>

theorem ip_checksum_ok_iff:
  assumes "unat n \<le> length p" "unat n \<le> 65535"
  shows "ip_checksum_ok p n = Some (oc_norm (bsum False (take (unat n) p)) \<ge> 65534)"
proof -
  let ?r = "oc_norm (bsum False (take (unat n) p))"
  have "ip_checksum_ok p n = Some ((word_of_nat (65535 - ?r) :: u32) AND 0xfffe = 0)"
    using assms by (simp only: ip_checksum_ok_def compute_ip_checksum_eq option.map)
  also have "((word_of_nat (65535 - ?r) :: u32) AND 0xfffe = 0) = (65535 - ?r \<le> 1)"
    by (rule unat_and_fffe_eq_0) simp
  also have "(65535 - ?r \<le> 1) = (?r \<ge> 65534)" by linarith
  finally show ?thesis .
qed

lemma ip_checksum_ok_iff_witness: "ip_checksum_ok [0xfe, 0xff] 2 = Some True"
  using ip_checksum_ok_iff [of 2 "[0xfe, 0xff]"] by (simp add: wt_def oc_norm_def)

end
