(* ===== verification/Ctype.thy ===== *)
theory Ctype
  imports Prelude
begin

text \<open>
  Character classes of \<^verbatim>\<open>include/ctype.h\<close>: the 256-entry table and the macros that test its
  flags. The lemmas give each class as the range of bytes it holds, which is what the parsers
  of theory Cstring rest on.
\<close>

abbreviation (input) ct_U :: u8 where "ct_U \<equiv> 0x01" \<comment> \<open>upper\<close>
abbreviation (input) ct_L :: u8 where "ct_L \<equiv> 0x02" \<comment> \<open>lower\<close>
abbreviation (input) ct_D :: u8 where "ct_D \<equiv> 0x04" \<comment> \<open>digit\<close>
abbreviation (input) ct_C :: u8 where "ct_C \<equiv> 0x08" \<comment> \<open>cntrl\<close>
abbreviation (input) ct_P :: u8 where "ct_P \<equiv> 0x10" \<comment> \<open>punct\<close>
abbreviation (input) ct_S :: u8 where "ct_S \<equiv> 0x20" \<comment> \<open>white space\<close>
abbreviation (input) ct_X :: u8 where "ct_X \<equiv> 0x40" \<comment> \<open>hex digit\<close>
abbreviation (input) ct_SP :: u8 where "ct_SP \<equiv> 0x80" \<comment> \<open>hard space\<close>

definition ctype_table :: bytes where
  "ctype_table = [
   ct_C,ct_C,ct_C,ct_C,ct_C,ct_C,ct_C,ct_C,
   ct_C,ct_C OR ct_S,ct_C OR ct_S,ct_C OR ct_S,ct_C OR ct_S,ct_C OR ct_S,ct_C,ct_C,
   ct_C,ct_C,ct_C,ct_C,ct_C,ct_C,ct_C,ct_C,
   ct_C,ct_C,ct_C,ct_C,ct_C,ct_C,ct_C,ct_C,
   ct_S OR ct_SP,ct_P,ct_P,ct_P,ct_P,ct_P,ct_P,ct_P,
   ct_P,ct_P,ct_P,ct_P,ct_P,ct_P,ct_P,ct_P,
   ct_D,ct_D,ct_D,ct_D,ct_D,ct_D,ct_D,ct_D,
   ct_D,ct_D,ct_P,ct_P,ct_P,ct_P,ct_P,ct_P,
   ct_P,ct_U OR ct_X,ct_U OR ct_X,ct_U OR ct_X,ct_U OR ct_X,ct_U OR ct_X,ct_U OR ct_X,ct_U,
   ct_U,ct_U,ct_U,ct_U,ct_U,ct_U,ct_U,ct_U,
   ct_U,ct_U,ct_U,ct_U,ct_U,ct_U,ct_U,ct_U,
   ct_U,ct_U,ct_U,ct_P,ct_P,ct_P,ct_P,ct_P,
   ct_P,ct_L OR ct_X,ct_L OR ct_X,ct_L OR ct_X,ct_L OR ct_X,ct_L OR ct_X,ct_L OR ct_X,ct_L,
   ct_L,ct_L,ct_L,ct_L,ct_L,ct_L,ct_L,ct_L,
   ct_L,ct_L,ct_L,ct_L,ct_L,ct_L,ct_L,ct_L,
   ct_L,ct_L,ct_L,ct_P,ct_P,ct_P,ct_P,ct_C,
   0,0,0,0,0,0,0,0,0,0,0,0,0,0,0,0,
   0,0,0,0,0,0,0,0,0,0,0,0,0,0,0,0,
   ct_S OR ct_SP,ct_P,ct_P,ct_P,ct_P,ct_P,ct_P,ct_P,ct_P,ct_P,ct_P,ct_P,ct_P,ct_P,ct_P,ct_P,
   ct_P,ct_P,ct_P,ct_P,ct_P,ct_P,ct_P,ct_P,ct_P,ct_P,ct_P,ct_P,ct_P,ct_P,ct_P,ct_P,
   ct_U,ct_U,ct_U,ct_U,ct_U,ct_U,ct_U,ct_U,ct_U,ct_U,ct_U,ct_U,ct_U,ct_U,ct_U,ct_U,
   ct_U,ct_U,ct_U,ct_U,ct_U,ct_U,ct_U,ct_P,ct_U,ct_U,ct_U,ct_U,ct_U,ct_U,ct_U,ct_L,
   ct_L,ct_L,ct_L,ct_L,ct_L,ct_L,ct_L,ct_L,ct_L,ct_L,ct_L,ct_L,ct_L,ct_L,ct_L,ct_L,
   ct_L,ct_L,ct_L,ct_L,ct_L,ct_L,ct_L,ct_P,ct_L,ct_L,ct_L,ct_L,ct_L,ct_L,ct_L,ct_L]"

definition ismask :: "u8 \<Rightarrow> u8" where
  "ismask x = ctype_table ! unat x"

definition isalnum :: "u8 \<Rightarrow> bool" where
  "isalnum c = (ismask c AND (ct_U OR ct_L OR ct_D) \<noteq> 0)"

definition isalpha :: "u8 \<Rightarrow> bool" where
  "isalpha c = (ismask c AND (ct_U OR ct_L) \<noteq> 0)"

definition isdigit :: "u8 \<Rightarrow> bool" where
  "isdigit c = (ismask c AND ct_D \<noteq> 0)"

definition islower :: "u8 \<Rightarrow> bool" where
  "islower c = (ismask c AND ct_L \<noteq> 0)"

definition isupper :: "u8 \<Rightarrow> bool" where
  "isupper c = (ismask c AND ct_U \<noteq> 0)"

definition isspace :: "u8 \<Rightarrow> bool" where
  "isspace c = (ismask c AND ct_S \<noteq> 0)"

definition isxdigit :: "u8 \<Rightarrow> bool" where
  "isxdigit c = (ismask c AND (ct_D OR ct_X) \<noteq> 0)"

definition tolower :: "u8 \<Rightarrow> u8" where
  "tolower c = (if isupper c then c - (0x41 - 0x61) else c)"

definition toupper :: "u8 \<Rightarrow> u8" where
  "toupper c = (if islower c then c - (0x61 - 0x41) else c)"

section \<open>The classes as ranges\<close>

lemma length_ctype_table: "length ctype_table = 256"
  by (simp add: ctype_table_def)

text \<open>A statement about all bytes is checked on the 256 of them.\<close>

lemma all_bytesI:
  assumes "list_all P (map word_of_nat [0..<256])"
  shows "P (c :: u8)"
proof -
  have "c = word_of_nat (unat c)" by simp
  moreover have "unat c \<in> set [0..<256]" by simp
  ultimately have "c \<in> set (map word_of_nat [0..<256])" by (metis image_eqI set_map)
  with assms show ?thesis by (auto simp: list_all_iff)
qed

lemma isdigit_iff: "isdigit c \<longleftrightarrow> 48 \<le> c \<and> c \<le> 57"
  by (rule all_bytesI) code_simp

lemma isxdigit_iff:
  "isxdigit c \<longleftrightarrow> 48 \<le> c \<and> c \<le> 57 \<or> 65 \<le> c \<and> c \<le> 70 \<or> 97 \<le> c \<and> c \<le> 102"
  by (rule all_bytesI) code_simp

lemma isupper_iff:
  "isupper c \<longleftrightarrow> 65 \<le> c \<and> c \<le> 90 \<or> 192 \<le> c \<and> c \<le> 222 \<and> c \<noteq> 215"
  by (rule all_bytesI) code_simp

lemma islower_iff:
  "islower c \<longleftrightarrow> 97 \<le> c \<and> c \<le> 122 \<or> 223 \<le> c \<and> c \<noteq> 247"
  by (rule all_bytesI) code_simp

lemma and_or_ne_0: "(x :: u8) AND (y OR z) \<noteq> 0 \<longleftrightarrow> x AND y \<noteq> 0 \<or> x AND z \<noteq> 0"
  by (simp only: bit.conj_disj_distrib or_eq_0_iff de_Morgan_conj)

lemma isalpha_iff: "isalpha c \<longleftrightarrow> isupper c \<or> islower c"
  by (simp only: isalpha_def isupper_def islower_def and_or_ne_0)

lemma isalnum_iff: "isalnum c \<longleftrightarrow> isalpha c \<or> isdigit c"
  by (simp only: isalpha_def isalnum_def isdigit_def and_or_ne_0 disj_assoc)

lemma tolower_eq_x: "tolower c = 0x78 \<longleftrightarrow> c = 0x78 \<or> c = 0x58"
  by (auto simp: tolower_def isupper_iff word_le_nat_alt word_unat_eq_iff unat_word_ariths)

end
