(* ===== verification/Cstring.thy ===== *)
theory Cstring
  imports Ctype Byteorder
begin

text \<open>
  The string and memory routines the driver links instead of a C library:
  \<^verbatim>\<open>strcmp\<close>, \<^verbatim>\<open>simple_strtoul\<close>, \<^verbatim>\<open>memcmp\<close>, \<^verbatim>\<open>memcpy\<close>, \<^verbatim>\<open>strncpy\<close> and \<^verbatim>\<open>memset\<close> of
  \<^verbatim>\<open>common.c\<close>, \<^verbatim>\<open>strlen\<close> and \<^verbatim>\<open>strchr\<close> of \<^verbatim>\<open>misc/string.c\<close>.

  A \<^verbatim>\<open>char *\<close> that is only read is the list of bytes from the pointer to the end of its
  array; advancing the pointer drops bytes, and a read past the array is \<open>None\<close>. The
  abstraction \<open>c_str\<close> is the text before the terminating NUL, and each routine is related to
  the list operation it implements. \<open>memcpy\<close> and \<open>memset\<close> are modelled with their
  word-at-a-time fast path and shown equal to the plain byte copy and fill.
\<close>

text \<open>A string constant of the source, with and without its NUL.\<close>

definition str_bytes :: "string \<Rightarrow> bytes" where
  "str_bytes s = map of_char s"

definition c_string :: "string \<Rightarrow> bytes" where
  "c_string s = str_bytes s @ [0]"

definition c_str :: "bytes \<Rightarrow> bytes" where
  "c_str b = takeWhile (\<lambda>c. c \<noteq> 0) b"

definition terminated :: "bytes \<Rightarrow> bool" where
  "terminated b = (0 \<in> set b)"

section \<open>String routines\<close>

fun strlen :: "bytes \<Rightarrow> nat option" where
  "strlen [] = None"
| "strlen (c # cs) = (if c \<noteq> 0 then map_option Suc (strlen cs) else Some 0)"

fun strchr :: "bytes \<Rightarrow> u8 \<Rightarrow> nat option option" where
  "strchr [] ch = None"
| "strchr (c # cs) ch =
     (if c \<noteq> ch then (if c = 0 then Some None else map_option (map_option Suc) (strchr cs ch))
      else Some (Some 0))"

fun strcmp :: "bytes \<Rightarrow> bytes \<Rightarrow> int option" where
  "strcmp (x # xs) (y # ys) =
     (if x \<noteq> 0 \<and> x = y then strcmp xs ys else Some (uint x - uint y))"
| "strcmp (x # xs) [] = None"
| "strcmp [] ys = None"

text \<open>\<open>strncpy\<close> writes at offset \<open>i\<close> of the destination array and does not pad.\<close>

fun strncpy :: "bytes \<Rightarrow> nat \<Rightarrow> bytes \<Rightarrow> nat \<Rightarrow> bytes option" where
  "strncpy dest i [] count = (if count = 0 then Some dest else None)"
| "strncpy dest i (c # cs) count =
     (if count = 0 then Some dest
      else do {
        dest' \<leftarrow> store8 dest i c;
        (if c \<noteq> 0 then strncpy dest' (i + 1) cs (count - 1) else Some dest')
      })"

definition strcpy :: "bytes \<Rightarrow> nat \<Rightarrow> bytes \<Rightarrow> bytes option" where
  "strcpy dest i src = strncpy dest i src 2147483647"

section \<open>Number parsing\<close>

definition parse_integer_fixup_radix :: "bytes \<Rightarrow> u32 \<Rightarrow> (bytes \<times> u32) option" where
  "parse_integer_fixup_radix s base0 = do {
     base \<leftarrow> (if base0 = 0 then do {
         s0 \<leftarrow> load8 s 0;
         (if s0 = 0x30 then do {
            s1 \<leftarrow> load8 s 1;
            (if tolower s1 = 0x78 then do {
               s2 \<leftarrow> load8 s 2;
               Some (if isxdigit s2 then 16 else 8) }
             else Some 8) }
          else Some 10) }
       else Some base0);
     (if base = 16 then do {
        s0 \<leftarrow> load8 s 0;
        (if s0 = 0x30 then do {
           s1 \<leftarrow> load8 s 1;
           Some (if tolower s1 = 0x78 then drop 2 s else s, base) }
         else Some (s, base)) }
      else Some (s, base))
   }"

definition digit_value :: "u8 \<Rightarrow> u64" where
  "digit_value c =
     (if isdigit c then ucast c - 0x30
      else (if islower c then ucast (toupper c) else ucast c) - 0x41 + 10)"

fun strtoul_loop :: "bytes \<Rightarrow> u64 \<Rightarrow> u64 \<Rightarrow> (u64 \<times> bytes) option" where
  "strtoul_loop [] base result = None"
| "strtoul_loop (c # cs) base result =
     (if isxdigit c \<and> digit_value c < base
      then strtoul_loop cs base (result * base + digit_value c)
      else Some (result, c # cs))"

text \<open>The value and the end pointer.\<close>

definition simple_strtoul :: "bytes \<Rightarrow> u32 \<Rightarrow> (u64 \<times> bytes) option" where
  "simple_strtoul cp base0 = do {
     (s, base) \<leftarrow> parse_integer_fixup_radix cp base0;
     strtoul_loop s (ucast base) 0 }"

section \<open>Memory routines\<close>

fun memcmp :: "bytes \<Rightarrow> bytes \<Rightarrow> nat \<Rightarrow> int option" where
  "memcmp cs ct 0 = Some 0"
| "memcmp (x # xs) (y # ys) (Suc count) =
     (let res = uint x - uint y in if res \<noteq> 0 then Some res else memcmp xs ys count)"
| "memcmp _ _ (Suc count) = None"

text \<open>
  \<open>memcpy\<close> and \<open>memset\<close> act on the array that holds both operands; \<open>dest\<close> and \<open>src\<close> are
  their addresses, taken relative to a word-aligned origin.
\<close>

function memcpy_words :: "bytes \<Rightarrow> nat \<Rightarrow> nat \<Rightarrow> nat \<Rightarrow> (bytes \<times> nat \<times> nat \<times> nat) option" where
  "memcpy_words m dl sl count =
     (if 8 \<le> count then do {
        w \<leftarrow> load_bytes m sl 8;
        m' \<leftarrow> store_bytes m dl w;
        memcpy_words m' (dl + 8) (sl + 8) (count - 8) }
      else Some (m, dl, sl, count))"
  by pat_completeness auto
termination by (relation "measure (\<lambda>(m, dl, sl, count). count)") auto

fun memcpy_bytes :: "bytes \<Rightarrow> nat \<Rightarrow> nat \<Rightarrow> nat \<Rightarrow> bytes option" where
  "memcpy_bytes m d8 s8 0 = Some m"
| "memcpy_bytes m d8 s8 (Suc count) = do {
     c \<leftarrow> load8 m s8;
     m' \<leftarrow> store8 m d8 c;
     memcpy_bytes m' (d8 + 1) (s8 + 1) count }"

definition memcpy :: "bytes \<Rightarrow> nat \<Rightarrow> nat \<Rightarrow> nat \<Rightarrow> bytes option" where
  "memcpy m dest src count =
     (if src = dest then Some m
      else do {
        (m', dl, sl, n) \<leftarrow> (if (dest OR src) AND 7 = 0 then memcpy_words m dest src count
                           else Some (m, dest, src, count));
        memcpy_bytes m' dl sl n })"

text \<open>The fill word: \<open>c\<close> shifted in eight times.\<close>

definition memset_cl :: "u32 \<Rightarrow> u64" where
  "memset_cl c = ((\<lambda>cl. push_bit 8 cl OR (ucast c AND 0xff)) ^^ 8) 0"

definition word_bytes :: "u64 \<Rightarrow> bytes" where
  "word_bytes w = map (\<lambda>k. ucast (drop_bit (8 * k) w)) [0..<8]"

function memset_words :: "bytes \<Rightarrow> nat \<Rightarrow> u64 \<Rightarrow> nat \<Rightarrow> (bytes \<times> nat \<times> nat) option" where
  "memset_words m sl cl count =
     (if 8 \<le> count then do {
        m' \<leftarrow> store_bytes m sl (word_bytes cl);
        memset_words m' (sl + 8) cl (count - 8) }
      else Some (m, sl, count))"
  by pat_completeness auto
termination by (relation "measure (\<lambda>(m, sl, cl, count). count)") auto

fun memset_bytes :: "bytes \<Rightarrow> nat \<Rightarrow> u32 \<Rightarrow> nat \<Rightarrow> bytes option" where
  "memset_bytes m s8 c 0 = Some m"
| "memset_bytes m s8 c (Suc count) = do {
     m' \<leftarrow> store8 m s8 (ucast c);
     memset_bytes m' (s8 + 1) c count }"

definition memset :: "bytes \<Rightarrow> nat \<Rightarrow> u32 \<Rightarrow> nat \<Rightarrow> bytes option" where
  "memset m s c count = do {
     (m', sl, n) \<leftarrow> (if s AND 7 = 0 then memset_words m s (memset_cl c) count
                    else Some (m, s, count));
     memset_bytes m' sl c n }"

declare memcpy_words.simps [simp del] memset_words.simps [simp del]

section \<open>What the string routines compute\<close>

lemma terminated_Cons [simp]: "terminated (c # cs) \<longleftrightarrow> c = 0 \<or> terminated cs"
  by (auto simp: terminated_def)

lemma terminated_Nil [simp]: "\<not> terminated []"
  by (simp add: terminated_def)

lemma c_str_simps [simp]: "c_str [] = []" "c_str (c # cs) = (if c = 0 then [] else c # c_str cs)"
  by (simp_all add: c_str_def)

lemma c_str_append_0 [simp]: "0 \<notin> set s \<Longrightarrow> c_str (s @ 0 # rest) = s"
  by (induction s) auto

lemma terminated_append [simp]: "terminated (s @ t) \<longleftrightarrow> terminated s \<or> terminated t"
  by (auto simp: terminated_def)

lemma terminated_split:
  assumes "terminated b"
  obtains rest where "b = c_str b @ 0 # rest" "0 \<notin> set (c_str b)"
proof -
  have "\<exists>rest. b = c_str b @ 0 # rest \<and> 0 \<notin> set (c_str b)"
    using assms by (induction b) auto
  with that show ?thesis by blast
qed

lemma strlen_eq: "strlen b = (if terminated b then Some (length (c_str b)) else None)"
  by (induction b) auto

lemma strchr_eq:
  "terminated b \<Longrightarrow> ch \<noteq> 0 \<Longrightarrow> strchr b ch =
     Some (if ch \<in> set (c_str b) then Some (length (takeWhile (\<lambda>c. c \<noteq> ch) (c_str b))) else None)"
  by (induction b) auto

lemma strcmp_defined:
  "terminated a \<Longrightarrow> terminated b \<Longrightarrow> \<exists>r. strcmp a b = Some r"
  by (induction a b rule: strcmp.induct) auto

lemma strcmp_eq_0_iff: "strcmp a b = Some r \<Longrightarrow> r = 0 \<longleftrightarrow> c_str a = c_str b"
  by (induction a b rule: strcmp.induct) (auto split: if_splits simp: unsigned_eq_0_iff)

lemma strcmp_antisym: "strcmp a b = Some r \<Longrightarrow> strcmp b a = Some (- r)"
  by (induction a b rule: strcmp.induct) (auto split: if_splits)

text \<open>Equality of strings, as the code tests it.\<close>

lemma strcmp_Some:
  assumes "terminated a" "terminated b"
  obtains r where "strcmp a b = Some r" "r = 0 \<longleftrightarrow> c_str a = c_str b"
  using strcmp_defined [OF assms] strcmp_eq_0_iff by blast

lemma strncpy_eq:
  assumes "0 \<notin> set s" "length s < n" "i + length s + 1 \<le> length dest"
  shows "strncpy dest i (s @ 0 # rest) n = Some (put_bytes dest i (s @ [0]))"
  using assms
proof (induction s arbitrary: dest i n)
  case Nil
  then show ?case by (simp add: mem_simps put8_def)
next
  case (Cons c s)
  then show ?case by (auto simp: mem_simps put8_def)
qed

lemma strcpy_eq:
  assumes "terminated src" "length (c_str src) < 2147483647" "i + length (c_str src) + 1 \<le> length dest"
  shows "strcpy dest i src = Some (put_bytes dest i (c_str src @ [0]))"
proof -
  obtain rest where "src = c_str src @ 0 # rest" "0 \<notin> set (c_str src)"
    using assms(1) by (rule terminated_split)
  with assms(2,3) show ?thesis by (metis strcpy_def strncpy_eq)
qed

text \<open>A copy of a string that does not fit leaves the destination array.\<close>

lemma strncpy_overflow:
  assumes "0 \<notin> set s" "length s < n" "length dest < i + length s + 1"
  shows "strncpy dest i (s @ 0 # rest) n = None"
  using assms
proof (induction s arbitrary: dest i n)
  case Nil
  then show ?case by (simp add: store8_def)
next
  case (Cons c s)
  then show ?case by (cases "i + 1 \<le> length dest") (auto simp: store8_def put8_def)
qed

text \<open>
  A string that does not fit between the offset and the end of the destination makes \<^verbatim>\<open>strcpy\<close>
  leave the destination.
\<close>

theorem strcpy_overflow:
  assumes "terminated src" "length (c_str src) < 2147483647" "length dest < i + length (c_str src) + 1"
  shows "strcpy dest i src = None"
proof -
  obtain rest where "src = c_str src @ 0 # rest" "0 \<notin> set (c_str src)"
    using assms(1) by (rule terminated_split)
  with assms(2,3) show ?thesis by (metis strcpy_def strncpy_overflow)
qed

lemma strcpy_overflow_witness: "strcpy [0, 0, 0] 1 (c_string ''ab'') = None"
  by (rule strcpy_overflow) (simp_all add: c_string_def str_bytes_def)

section \<open>What the number parser computes\<close>

text \<open>The value of a digit string, and the digits of base 10.\<close>

definition digits_value :: "nat \<Rightarrow> bytes \<Rightarrow> nat \<Rightarrow> nat" where
  "digits_value base ds acc = foldl (\<lambda>a c. a * base + unat (digit_value c)) acc ds"

definition dec_digit :: "u8 \<Rightarrow> bool" where
  "dec_digit c = (48 \<le> c \<and> c \<le> 57)"

lemma digits_value_simps [simp]:
  "digits_value base [] acc = acc"
  "digits_value base (c # cs) acc = digits_value base cs (acc * base + unat (digit_value c))"
  by (simp_all add: digits_value_def)

lemma digits_value_mono: "0 < base \<Longrightarrow> acc \<le> digits_value base ds acc"
proof (induction ds arbitrary: acc)
  case (Cons c cs)
  have "acc \<le> acc * base + unat (digit_value c)" using Cons.prems by (simp add: trans_le_add1)
  also have "\<dots> \<le> digits_value base cs (acc * base + unat (digit_value c))"
    using Cons.prems by (rule Cons.IH)
  finally show ?case by simp
qed simp

text \<open>The loop reads the longest run of digits of the base.\<close>

definition base_digit :: "u64 \<Rightarrow> u8 \<Rightarrow> bool" where
  "base_digit base c = (isxdigit c \<and> digit_value c < base)"

lemma strtoul_loop_eq:
  assumes "\<forall>c \<in> set ds. base_digit base c" "\<not> base_digit base e"
  shows "strtoul_loop (ds @ e # rest) base acc =
    Some (word_of_nat (digits_value (unat base) ds (unat acc)), e # rest)"
  using assms
proof (induction ds arbitrary: acc)
  case Nil
  then show ?case by (auto simp: base_digit_def)
next
  case (Cons c cs)
  have "word_of_nat (digits_value (unat base) cs (unat (acc * base + digit_value c))) =
    (word_of_nat (digits_value (unat base) cs (unat acc * unat base + unat (digit_value c))) :: u64)"
  proof -
    have "(word_of_nat (digits_value (unat base) cs x) :: u64) = word_of_nat (digits_value (unat base) cs y)"
      if "(word_of_nat x :: u64) = word_of_nat y" for x y
      using that by (induction cs arbitrary: x y) auto
    then show ?thesis by simp
  qed
  with Cons show ?case by (auto simp: base_digit_def)
qed

lemma dec_digit_isdigit: "dec_digit c \<longleftrightarrow> isdigit c"
  by (simp add: dec_digit_def isdigit_iff)

lemma unat_digit_value_dec:
  assumes "dec_digit c"
  shows "unat (digit_value c) = unat c - 48"
proof -
  have "isdigit c" "(48 :: u64) \<le> ucast c"
    using assms by (auto simp: dec_digit_isdigit) (simp add: isdigit_iff word_le_nat_alt)
  then show ?thesis by (simp add: digit_value_def unat_sub)
qed

lemma base_digit_10: "base_digit 10 c \<longleftrightarrow> dec_digit c"
proof (rule iffI)
  assume "dec_digit c"
  then have "unat (digit_value c) = unat c - 48" "unat c \<le> 57" "isxdigit c"
    by (auto simp: unat_digit_value_dec) (auto simp: dec_digit_def isxdigit_iff word_le_nat_alt)
  then show "base_digit 10 c" by (simp add: base_digit_def word_less_nat_alt)
next
  show "base_digit 10 c \<Longrightarrow> dec_digit c"
    by (rule mp, rule all_bytesI [where P = "\<lambda>c. base_digit 10 c \<longrightarrow> dec_digit c"]) code_simp
qed

lemma simple_strtoul_dec:
  assumes "\<forall>c \<in> set ds. dec_digit c" "\<not> dec_digit e"
  shows "simple_strtoul (ds @ e # rest) 10 = Some (word_of_nat (digits_value 10 ds 0), e # rest)"
  using strtoul_loop_eq [of ds 10 e rest 0] assms
  by (simp add: simple_strtoul_def parse_integer_fixup_radix_def base_digit_10)

section \<open>What the memory routines compute\<close>

lemma memcmp_defined:
  "n \<le> length a \<Longrightarrow> n \<le> length b \<Longrightarrow> \<exists>r. memcmp a b n = Some r"
  by (induction a b n rule: memcmp.induct) (auto simp: Let_def)

lemma memcmp_eq_0_iff: "memcmp a b n = Some r \<Longrightarrow> r = 0 \<longleftrightarrow> take n a = take n b"
  by (induction a b n rule: memcmp.induct) (auto simp: Let_def split: if_splits)

text \<open>Byte by byte, and then a word at a time, the copy is \<open>put_bytes\<close> of \<open>get_bytes\<close>.\<close>

lemma memcpy_bytes_eq:
  assumes "d + n \<le> s \<or> s + n \<le> d" "d + n \<le> length m" "s + n \<le> length m"
  shows "memcpy_bytes m d s n = Some (put_bytes m d (get_bytes m s n))"
  using assms
proof (induction n arbitrary: m d s)
  case (Suc n)
  have "get_bytes (put8 m d (m ! s)) (Suc s) n = get_bytes m (Suc s) n"
    using Suc.prems by (intro sb_8.frame) auto
  with Suc show ?case by (auto simp: mem_simps put8_def get8_def get_bytes_Suc)
qed simp

lemma memcpy_words_eq:
  assumes "d + n \<le> s \<or> s + n \<le> d" "d + n \<le> length m" "s + n \<le> length m"
  shows "memcpy_words m d s n =
    Some (put_bytes m d (get_bytes m s (n - n mod 8)), d + (n - n mod 8), s + (n - n mod 8), n mod 8)"
  using assms
proof (induction m d s n rule: memcpy_words.induct)
  case (1 m d s n)
  show ?case
  proof (cases "8 \<le> n")
    case True
    let ?w = "get_bytes m s 8" and ?r = "n - 8 - (n - 8) mod 8"
    have mod: "(n - 8) mod 8 = n mod 8" using True by (simp add: le_mod_geq)
    have "n mod 8 \<le> n - 8" using mod mod_less_eq_dividend [of "n - 8" 8] by simp
    then have n: "n - n mod 8 = 8 + ?r" using True by (simp add: mod)
    have "get_bytes (put_bytes m d ?w) (s + 8) ?r = get_bytes m (s + 8) ?r"
      using "1.prems" True by (intro cb.frame) auto
    with "1.IH" [OF True, of ?w "put_bytes m d ?w"] "1.prems" True show ?thesis
      by (subst memcpy_words.simps)
        (auto simp: mem_simps mod n get_bytes_append put_bytes_append)
  next
    case False
    then show ?thesis by (subst memcpy_words.simps) simp
  qed
qed

text \<open>
  C35: the word-copying \<^verbatim>\<open>memcpy\<close> of the source copies \<open>n\<close> bytes and nothing else, whatever the alignment
  of the two regions, as long as they do not overlap.
\<close>

theorem memcpy_eq:
  assumes "d + n \<le> s \<or> s + n \<le> d" "d + n \<le> length m" "s + n \<le> length m"
  shows "memcpy m d s n = Some (put_bytes m d (get_bytes m s n))"
proof (cases "s = d")
  case True
  then have "n = 0" using assms(1) by auto
  with True show ?thesis by (simp add: memcpy_def)
next
  case False
  let ?k = "n - n mod 8"
  let ?m = "put_bytes m d (get_bytes m s ?k)"
  have k: "?k + n mod 8 = n" "?k \<le> n" by auto
  have "memcpy_bytes ?m (d + ?k) (s + ?k) (n mod 8) =
      Some (put_bytes ?m (d + ?k) (get_bytes ?m (s + ?k) (n mod 8)))"
    using assms k by (intro memcpy_bytes_eq) auto
  moreover have "get_bytes ?m (s + ?k) (n mod 8) = get_bytes m (s + ?k) (n mod 8)"
    using assms k by (intro cb.frame) auto
  moreover have "put_bytes ?m (d + ?k) (get_bytes m (s + ?k) (n mod 8)) = put_bytes m d (get_bytes m s n)"
    using assms k get_bytes_append [of m s ?k "n mod 8"]
      put_bytes_append [of m d "get_bytes m s ?k" "get_bytes m (s + ?k) (n mod 8)"] by simp
  ultimately show ?thesis
    using False memcpy_words_eq [OF assms] memcpy_bytes_eq [OF assms] by (simp add: memcpy_def)
qed

lemma memcpy_eq_witness:
  "memcpy [1, 2, 3, 4, 5, 6] 0 3 2 = Some (put_bytes [1, 2, 3, 4, 5, 6] 0 (get_bytes [1, 2, 3, 4, 5, 6] 3 2))"
  by (rule memcpy_eq) simp_all

text \<open>The fill word holds the fill byte eight times.\<close>

lemma bit_shift_in:
  assumes "\<And>n. bit x n \<Longrightarrow> n < 8"
  shows "bit (((\<lambda>cl. push_bit 8 cl OR x) ^^ m) 0 :: u64) n \<longleftrightarrow> n < 8 * m \<and> n < 64 \<and> bit x (n mod 8)"
proof (induction m arbitrary: n)
  case (Suc m)
  have "bit x n \<longleftrightarrow> n < 8 \<and> bit x (n mod 8)" using assms by auto
  moreover have "(n - 8) mod 8 = n mod 8" if "8 \<le> n" using that by (simp add: le_mod_geq)
  ultimately show ?case by (auto simp: bit_simps Suc)
qed simp

lemma word_bytes_memset_cl: "word_bytes (memset_cl c) = replicate 8 (ucast c)"
proof (rule nth_equalityI)
  show "length (word_bytes (memset_cl c)) = length (replicate 8 (ucast c :: u8))"
    by (simp add: word_bytes_def)
  fix k assume "k < length (word_bytes (memset_cl c))"
  then have k: "k < 8" by (simp add: word_bytes_def)
  have low: "n < 8" if "bit (ucast c AND 0xff :: u64) n" for n
    using that by (auto simp: bit_simps bit_mask_numerals)
  have cl0: "bit (memset_cl c) n \<longleftrightarrow> n < 8 * 8 \<and> n < 64 \<and> bit (ucast c AND 0xff :: u64) (n mod 8)" for n
    unfolding memset_cl_def by (rule bit_shift_in) (rule low)
  have "bit (ucast c AND 0xff :: u64) (n mod 8) \<longleftrightarrow> bit c (n mod 8)" for n
    by (subst bit_and_iff) (auto simp: bit_unsigned_iff bit_mask_numerals)
  with cl0 have cl: "bit (memset_cl c) n \<longleftrightarrow> n < 64 \<and> bit c (n mod 8)" for n
    by simp
  have "(ucast (drop_bit (8 * k) (memset_cl c)) :: u8) = ucast c"
    using k by (intro bit_word_eqI)
      (auto simp: cl bit_simps)
  with k show "word_bytes (memset_cl c) ! k = replicate 8 (ucast c) ! k"
    by (simp add: word_bytes_def)
qed

lemma memset_bytes_eq:
  "s + n \<le> length m \<Longrightarrow> memset_bytes m s c n = Some (put_bytes m s (replicate n (ucast c)))"
  by (induction n arbitrary: m s) (auto simp: mem_simps put8_def)

lemma memset_words_eq:
  assumes "s + n \<le> length m"
  shows "memset_words m s (memset_cl c) n =
    Some (put_bytes m s (replicate (n - n mod 8) (ucast c)), s + (n - n mod 8), n mod 8)"
  using assms
proof (induction m s "memset_cl c" n rule: memset_words.induct)
  case (1 m s n)
  show ?case
  proof (cases "8 \<le> n")
    case True
    let ?r = "n - 8 - (n - 8) mod 8"
    have mod: "(n - 8) mod 8 = n mod 8" using True by (simp add: le_mod_geq)
    have "n mod 8 \<le> n - 8" using mod mod_less_eq_dividend [of "n - 8" 8] by simp
    then have n: "n - n mod 8 = 8 + ?r" using True by (simp add: mod)
    from "1.hyps" [OF True] "1.prems" True show ?thesis
      by (subst memset_words.simps)
        (simp add: mem_simps word_bytes_memset_cl mod n replicate_add put_bytes_append)
  next
    case False
    then show ?thesis by (subst memset_words.simps) simp
  qed
qed

text \<open>
  The word-filling \<^verbatim>\<open>memset\<close> of the source sets exactly \<open>n\<close> bytes to the low byte of its argument.
\<close>

theorem memset_eq:
  assumes "s + n \<le> length m"
  shows "memset m s c n = Some (put_bytes m s (replicate n (ucast c)))"
proof -
  let ?k = "n - n mod 8"
  have "replicate n (ucast c :: u8) = replicate ?k (ucast c) @ replicate (n mod 8) (ucast c)"
    by (simp flip: replicate_add)
  then have "put_bytes m s (replicate n (ucast c)) =
      put_bytes (put_bytes m s (replicate ?k (ucast c))) (s + ?k) (replicate (n mod 8) (ucast c))"
    by (simp only: put_bytes_append length_replicate)
  moreover have "s + ?k + n mod 8 \<le> length m" using assms by simp
  ultimately show ?thesis
    using memset_words_eq [OF assms, of c] memset_bytes_eq [OF assms, of c]
      memset_bytes_eq [of "s + ?k" "n mod 8" "put_bytes m s (replicate ?k (ucast c))" c]
    by (simp add: memset_def)
qed

lemma memset_eq_witness: "memset [1, 2, 3] 1 0x141 2 = Some (put_bytes [1, 2, 3] 1 (replicate 2 (ucast (0x141 :: u32))))"
  by (rule memset_eq) simp

end
