(* ===== verification/Vsprintf.thy ===== *)
theory Vsprintf
  imports Cstring
begin

text \<open>
  The formatter of \<^verbatim>\<open>misc/vsnprintf.c\<close>.

  The output cursor is the pair of the destination array and the position of \<^verbatim>\<open>str\<close> relative
  to \<^verbatim>\<open>buf\<close>; \<open>addch\<close> is the macro that stores a character only below \<^verbatim>\<open>end\<close> and always
  advances. The digit generators return the characters they store at their buffer, least
  significant digit first, as the C code leaves them in \<^verbatim>\<open>tmp\<close>. Variadic arguments are a list
  of tagged values: taking an argument of another type than was passed is undefined and is
  \<open>None\<close>. What is proved: the multiplication tricks of \<open>put_dec\<close> produce the decimal digits,
  every conversion emits a text that does not depend on the room left, and no format string
  makes the formatter store outside the \<^verbatim>\<open>size\<close> bytes it was given.
\<close>

section \<open>Digits\<close>

fun strnlen :: "bytes \<Rightarrow> nat \<Rightarrow> nat option" where
  "strnlen [] count = (if count = 0 then Some 0 else None)"
| "strnlen (c # cs) count =
     (if count = 0 then Some 0
      else if c \<noteq> 0 then map_option Suc (strnlen cs (count - 1)) else Some 0)"

definition is_digit :: "u8 \<Rightarrow> bool" where
  "is_digit c = (0x30 \<le> c \<and> c \<le> 0x39)"

text \<open>The value is a C \<^verbatim>\<open>int\<close>: overflowing it is undefined.\<close>

fun skip_atoi_loop :: "int \<Rightarrow> bytes \<Rightarrow> (int \<times> bytes) option" where
  "skip_atoi_loop i [] = None"
| "skip_atoi_loop i (c # cs) =
     (if is_digit c then
        (if i * 10 + uint c \<le> 2147483647 then skip_atoi_loop (i * 10 + uint c - 0x30) cs else None)
      else Some (i, c # cs))"

definition skip_atoi :: "bytes \<Rightarrow> (int \<times> bytes) option" where
  "skip_atoi s = skip_atoi_loop 0 s"

definition put_dec_trunc :: "u32 \<Rightarrow> bytes" where
  "put_dec_trunc q0 = (
     let d1 = drop_bit 4 q0 AND 0xf;
         d2 = drop_bit 8 q0 AND 0xf;
         d3 = drop_bit 12 q0;
         d0 = 6 * (d3 + d2 + d1) + (q0 AND 0xf);
         q = drop_bit 11 (d0 * 0xcd);
         d0 = d0 - 10 * q;
         d1 = q + 9 * d3 + 5 * d2 + d1
     in ucast (d0 + 0x30) #
        (if d1 \<noteq> 0 then
           let q = drop_bit 11 (d1 * 0xcd);
               d1 = d1 - 10 * q;
               d2 = q + 2 * d2
           in ucast (d1 + 0x30) #
              (if d2 \<noteq> 0 \<or> d3 \<noteq> 0 then
                 let q = drop_bit 7 (d2 * 0xd);
                     d2 = d2 - 10 * q;
                     d3 = q + 4 * d3
                 in ucast (d2 + 0x30) #
                    (if d3 \<noteq> 0 then
                       let q = drop_bit 11 (d3 * 0xcd);
                           d3 = d3 - 10 * q
                       in ucast (d3 + 0x30) # (if q \<noteq> 0 then [ucast (q + 0x30)] else [])
                     else [])
               else [])
         else []))"

definition put_dec_full :: "u32 \<Rightarrow> bytes" where
  "put_dec_full q0 = (
     let d1 = drop_bit 4 q0 AND 0xf;
         d2 = drop_bit 8 q0 AND 0xf;
         d3 = drop_bit 12 q0;
         d0 = 6 * (d3 + d2 + d1) + (q0 AND 0xf);
         q = drop_bit 11 (d0 * 0xcd);
         d0 = d0 - 10 * q;
         d1 = q + 9 * d3 + 5 * d2 + d1;
         q1 = drop_bit 11 (d1 * 0xcd);
         d1 = d1 - 10 * q1;
         d2 = q1 + 2 * d2;
         q2 = drop_bit 7 (d2 * 0xd);
         d2 = d2 - 10 * q2;
         d3 = q2 + 4 * d3;
         q3 = drop_bit 11 (d3 * 0xcd);
         d3 = d3 - 10 * q3
     in [ucast (d0 + 0x30), ucast (d1 + 0x30), ucast (d2 + 0x30), ucast (d3 + 0x30),
         ucast (q3 + 0x30)])"

text \<open>\<^verbatim>\<open>do_div\<close>: the quotient and the 32-bit remainder.\<close>

definition do_div :: "u64 \<Rightarrow> u32 \<Rightarrow> u64 \<times> u32" where
  "do_div n base = (n div ucast base, ucast (n mod ucast base))"

function put_dec :: "u64 \<Rightarrow> bytes" where
  "put_dec num =
     (if num < 100000 then put_dec_trunc (ucast num)
      else let (num', rem) = do_div num 100000 in put_dec_full rem @ put_dec num')"
  by pat_completeness auto
termination
proof (relation "measure unat", simp)
  fix num :: u64 and x rem num'
  assume "\<not> num < 100000" "x = do_div num 100000" "(num', rem) = x"
  then show "(num', num) \<in> measure unat"
    by (simp add: do_div_def word_less_nat_alt unat_div_distrib)
qed

declare put_dec.simps [simp del]

section \<open>Numbers\<close>

abbreviation (input) ZEROPAD :: u32 where "ZEROPAD \<equiv> 1"
abbreviation (input) SIGN :: u32 where "SIGN \<equiv> 2"
abbreviation (input) PLUS :: u32 where "PLUS \<equiv> 4"
abbreviation (input) SPACE :: u32 where "SPACE \<equiv> 8"
abbreviation (input) LEFT :: u32 where "LEFT \<equiv> 16"
abbreviation (input) SMALL :: u32 where "SMALL \<equiv> 32"
abbreviation (input) SPECIAL :: u32 where "SPECIAL \<equiv> 64"

abbreviation (input) has :: "u32 \<Rightarrow> u32 \<Rightarrow> bool" where "has flags f \<equiv> flags AND f \<noteq> 0"

text \<open>The destination array and the position of the output pointer.\<close>

type_synonym cursor = "bytes \<times> nat"

definition addch :: "nat \<Rightarrow> cursor \<Rightarrow> u8 \<Rightarrow> cursor option" where
  "addch end str ch = (case str of (m, p) \<Rightarrow>
     if p < end then map_option (\<lambda>m'. (m', p + 1)) (store8 m p ch) else Some (m, p + 1))"

fun addchs :: "nat \<Rightarrow> cursor \<Rightarrow> bytes \<Rightarrow> cursor option" where
  "addchs end str [] = Some str"
| "addchs end str (c # cs) = do { str' \<leftarrow> addch end str c; addchs end str' cs }"

definition digits :: bytes where
  "digits = str_bytes ''0123456789ABCDEF''"

text \<open>The digits of a number in base 8 or 16.\<close>

function pow2_digits :: "u64 \<Rightarrow> u32 \<Rightarrow> u8 \<Rightarrow> bytes" where
  "pow2_digits num base locase = (
     let mask = base - 1;
         shift = (if base = 16 then 4 else 3);
         c = digits ! unat (ucast num AND 0xff AND mask) OR locase;
         num' = drop_bit shift num
     in c # (if num' \<noteq> 0 then pow2_digits num' base locase else []))"
  by pat_completeness auto
termination
proof (relation "measure (\<lambda>(num, _, _). unat num)", simp)
  fix num :: u64 and base :: u32 and locase :: u8 and mask shift c num'
  assume "shift = (if base = 16 then (4 :: nat) else 3)" "num' = drop_bit shift num" "num' \<noteq> 0"
  moreover have "0 < unat num"
  proof (rule gr0I)
    assume "unat num = 0"
    with \<open>num' = drop_bit shift num\<close> \<open>num' \<noteq> 0\<close> show False by (simp add: unsigned_eq_0_iff)
  qed
  ultimately have "unat num' < unat num" by (simp add: unat_drop_bit)
  then show "((num', base, locase), num, base, locase) \<in> measure (\<lambda>(num, _, _). unat num)"
    by simp
qed

declare pow2_digits.simps [simp del]

text \<open>\<^verbatim>\<open>while (--n >= 0) ADDCH(c)\<close> and the value left in \<^verbatim>\<open>n\<close>.\<close>

function pad_down :: "nat \<Rightarrow> int \<Rightarrow> u8 \<Rightarrow> cursor \<Rightarrow> (cursor \<times> int) option" where
  "pad_down end n c str =
     (if n - 1 \<ge> 0 then do { str' \<leftarrow> addch end str c; pad_down end (n - 1) c str' }
      else Some (str, n - 1))"
  by pat_completeness auto
termination by (relation "measure (\<lambda>(_, n, _, _). nat n)") auto

text \<open>\<^verbatim>\<open>while (i <= --precision) ADDCH('0')\<close>.\<close>

function pad_precision :: "nat \<Rightarrow> int \<Rightarrow> int \<Rightarrow> cursor \<Rightarrow> cursor option" where
  "pad_precision end i precision str =
     (if i \<le> precision - 1 then do { str' \<leftarrow> addch end str 0x30; pad_precision end i (precision - 1) str' }
      else Some str)"
  by pat_completeness auto
termination by (relation "measure (\<lambda>(_, i, precision, _). nat (precision - i))") auto

declare pad_down.simps [simp del] pad_precision.simps [simp del]

definition number :: "cursor \<Rightarrow> nat \<Rightarrow> u64 \<Rightarrow> u32 \<Rightarrow> int \<Rightarrow> int \<Rightarrow> u32 \<Rightarrow> cursor option" where
  "number buf end num0 base size0 precision0 type0 = (
     let need_pfx = (has type0 SPECIAL \<and> base \<noteq> 10);
         locase = ucast (type0 AND SMALL) :: u8;
         type = (if has type0 LEFT then type0 AND NOT ZEROPAD else type0);
         (sign, num, size1) =
           (if has type SIGN then
              if sint num0 < 0 then (0x2d, - num0, size0 - 1)
              else if has type PLUS then (0x2b, num0, size0 - 1)
              else if has type SPACE then (0x20, num0, size0 - 1)
              else (0, num0, size0)
            else (0 :: u8, num0, size0));
         size2 = (if need_pfx then if base = 16 then size1 - 2 else size1 - 1 else size1);
         tmp = (if num = 0 then [0x30]
                else if base \<noteq> 10 then pow2_digits num base locase
                else put_dec num);
         i = int (length tmp);
         precision = (if i > precision0 then i else precision0);
         size3 = size2 - precision
     in do {
       (buf, size4) \<leftarrow> (if type AND (ZEROPAD + LEFT) = 0 then pad_down end size3 0x20 buf
                       else Some (buf, size3));
       buf \<leftarrow> (if sign \<noteq> 0 then addch end buf sign else Some buf);
       buf \<leftarrow> (if need_pfx then do {
                 buf \<leftarrow> addch end buf 0x30;
                 (if base = 16 then addch end buf (0x58 OR locase) else Some buf) }
               else Some buf);
       (buf, size5) \<leftarrow> (if type AND LEFT = 0
                       then pad_down end size4 (if has type ZEROPAD then 0x30 else 0x20) buf
                       else Some (buf, size4));
       buf \<leftarrow> pad_precision end i precision buf;
       buf \<leftarrow> addchs end buf (rev tmp);
       (buf, _) \<leftarrow> pad_down end size5 0x20 buf;
       Some buf })"

section \<open>Strings and addresses\<close>

text \<open>\<^verbatim>\<open>while (len < field_width--) ADDCH(' ')\<close>.\<close>

function pad_string :: "nat \<Rightarrow> int \<Rightarrow> int \<Rightarrow> cursor \<Rightarrow> (cursor \<times> int) option" where
  "pad_string end len field_width str =
     (if len < field_width then do {
        str' \<leftarrow> addch end str 0x20; pad_string end len (field_width - 1) str' }
      else Some (str, field_width - 1))"
  by pat_completeness auto
termination by (relation "measure (\<lambda>(_, len, fw, _). nat (fw - len))") auto

declare pad_string.simps [simp del]

text \<open>The precision becomes the \<^verbatim>\<open>size_t\<close> bound of \<open>strnlen\<close>.\<close>

definition string_out :: "cursor \<Rightarrow> nat \<Rightarrow> bytes option \<Rightarrow> int \<Rightarrow> int \<Rightarrow> u32 \<Rightarrow> cursor option" where
  "string_out buf end s0 field_width precision flags = do {
     let s = (case s0 of None \<Rightarrow> c_string ''<NULL>'' | Some s \<Rightarrow> s);
     len \<leftarrow> strnlen s (unat (word_of_int precision :: u64));
     (buf, fw) \<leftarrow> (if flags AND LEFT = 0 then pad_string end (int len) field_width buf
                  else Some (buf, field_width));
     buf \<leftarrow> addchs end buf (take len s);
     (buf, _) \<leftarrow> pad_string end (int len) fw buf;
     Some buf }"

definition hex_asc :: bytes where
  "hex_asc = str_bytes ''0123456789abcdef''"

definition hex_byte_pack :: "u8 \<Rightarrow> bytes" where
  "hex_byte_pack byte = [hex_asc ! unat (drop_bit 4 (byte AND 0xf0)), hex_asc ! unat (byte AND 0x0f)]"

definition mac_addr_chars :: "bytes \<Rightarrow> u32 \<Rightarrow> bytes" where
  "mac_addr_chars addr flags =
     concat (map (\<lambda>i. hex_byte_pack (addr ! i)
       @ (if flags AND SPECIAL = 0 \<and> i \<noteq> 5 then [0x3a] else [])) [0..<6])"

definition mac_address_string :: "cursor \<Rightarrow> nat \<Rightarrow> bytes \<Rightarrow> int \<Rightarrow> int \<Rightarrow> u32 \<Rightarrow> cursor option" where
  "mac_address_string buf end ptr field_width precision flags = do {
     addr \<leftarrow> load_bytes ptr 0 6;
     string_out buf end (Some (mac_addr_chars addr flags @ [0])) field_width precision
       (flags AND NOT SPECIAL) }"

definition ip6_addr_chars :: "bytes \<Rightarrow> u32 \<Rightarrow> bytes" where
  "ip6_addr_chars addr flags =
     concat (map (\<lambda>i. hex_byte_pack (addr ! (2 * i)) @ hex_byte_pack (addr ! (2 * i + 1))
       @ (if flags AND SPECIAL = 0 \<and> i \<noteq> 7 then [0x3a] else [])) [0..<8])"

definition ip6_addr_string :: "cursor \<Rightarrow> nat \<Rightarrow> bytes \<Rightarrow> int \<Rightarrow> int \<Rightarrow> u32 \<Rightarrow> cursor option" where
  "ip6_addr_string buf end ptr field_width precision flags = do {
     addr \<leftarrow> load_bytes ptr 0 16;
     string_out buf end (Some (ip6_addr_chars addr flags @ [0])) field_width precision
       (flags AND NOT SPECIAL) }"

text \<open>The digits of each quad are generated in reverse into a three-byte array.\<close>

definition ip4_addr_chars :: "bytes \<Rightarrow> bytes" where
  "ip4_addr_chars addr =
     concat (map (\<lambda>i. rev (put_dec_trunc (ucast (addr ! i))) @ (if i \<noteq> 3 then [0x2e] else [])) [0..<4])"

definition ip4_addr_string :: "cursor \<Rightarrow> nat \<Rightarrow> bytes \<Rightarrow> int \<Rightarrow> int \<Rightarrow> u32 \<Rightarrow> cursor option" where
  "ip4_addr_string buf end ptr field_width precision flags = do {
     addr \<leftarrow> load_bytes ptr 0 4;
     string_out buf end (Some (ip4_addr_chars addr @ [0])) field_width precision
       (flags AND NOT SPECIAL) }"

text \<open>A pointer argument: its value and the bytes it points to.\<close>

definition load64 :: "bytes \<Rightarrow> nat \<Rightarrow> u64 option" where
  "load64 b i = map_option (\<lambda>bs. horner_sum ucast 256 bs) (load_bytes b i 8)"

definition pointer :: "bytes \<Rightarrow> cursor \<Rightarrow> nat \<Rightarrow> u64 \<Rightarrow> bytes \<Rightarrow> int \<Rightarrow> int \<Rightarrow> u32 \<Rightarrow> cursor option" where
  "pointer fmt buf end addr ptr field_width precision flags = do {
     let hex = (\<lambda>num field_width flags.
       let flags = flags OR SMALL;
           (fw, flags) = (if field_width = -1 then (16, flags OR ZEROPAD) else (field_width, flags))
       in number buf end num 16 fw precision flags);
     c \<leftarrow> load8 fmt 0;
     (if c = 0x61 then do {
        num \<leftarrow> load64 ptr 0;
        hex num 18 (flags OR (SPECIAL OR ZEROPAD)) }
      else if c = 0x6d then mac_address_string buf end ptr field_width precision (flags OR SPECIAL)
      else if c = 0x4d then mac_address_string buf end ptr field_width precision flags
      else if c = 0x69 \<or> c = 0x49 then do {
        let flags = (if c = 0x69 then flags OR SPECIAL else flags);
        c1 \<leftarrow> load8 fmt 1;
        (if c1 = 0x36 then ip6_addr_string buf end ptr field_width precision flags
         else if c1 = 0x34 then ip4_addr_string buf end ptr field_width precision flags
         else hex addr field_width (flags AND NOT SPECIAL)) }
      else hex addr field_width flags) }"

section \<open>The format interpreter\<close>

datatype va_arg =
    VInt u32                        \<comment> \<open>an \<^verbatim>\<open>int\<close> or \<^verbatim>\<open>unsigned int\<close>\<close>
  | VLong u64                       \<comment> \<open>a 64-bit integer\<close>
  | VStr "bytes option"             \<comment> \<open>a \<^verbatim>\<open>char *\<close>, \<open>None\<close> for \<^verbatim>\<open>NULL\<close>\<close>
  | VPtr u64 bytes                  \<comment> \<open>another pointer: its value and what it points to\<close>
  | VOut nat                        \<comment> \<open>the place \<^verbatim>\<open>%n\<close> stores to\<close>

definition take_int :: "va_arg list \<Rightarrow> (u32 \<times> va_arg list) option" where
  "take_int args = (case args of VInt n # rest \<Rightarrow> Some (n, rest) | _ \<Rightarrow> None)"

definition take_long :: "va_arg list \<Rightarrow> (u64 \<times> va_arg list) option" where
  "take_long args = (case args of VLong n # rest \<Rightarrow> Some (n, rest) | _ \<Rightarrow> None)"

definition take_str :: "va_arg list \<Rightarrow> (bytes option \<times> va_arg list) option" where
  "take_str args = (case args of VStr s # rest \<Rightarrow> Some (s, rest) | _ \<Rightarrow> None)"

definition take_ptr :: "va_arg list \<Rightarrow> (u64 \<times> bytes \<times> va_arg list) option" where
  "take_ptr args = (case args of VPtr a b # rest \<Rightarrow> Some (a, b, rest) | _ \<Rightarrow> None)"

definition take_out :: "va_arg list \<Rightarrow> (nat \<times> va_arg list) option" where
  "take_out args = (case args of VOut n # rest \<Rightarrow> Some (n, rest) | _ \<Rightarrow> None)"

fun parse_flags :: "u32 \<Rightarrow> bytes \<Rightarrow> (u32 \<times> bytes) option" where
  "parse_flags flags [] = None"
| "parse_flags flags (c # cs) =
     (if c = 0x2d then parse_flags (flags OR LEFT) cs
      else if c = 0x2b then parse_flags (flags OR PLUS) cs
      else if c = 0x20 then parse_flags (flags OR SPACE) cs
      else if c = 0x23 then parse_flags (flags OR SPECIAL) cs
      else if c = 0x30 then parse_flags (flags OR ZEROPAD) cs
      else Some (flags, c # cs))"

definition parse_width :: "u32 \<Rightarrow> bytes \<Rightarrow> va_arg list \<Rightarrow> (int \<times> u32 \<times> bytes \<times> va_arg list) option" where
  "parse_width flags fmt args = do {
     c \<leftarrow> load8 fmt 0;
     (if is_digit c then do {
        (w, fmt) \<leftarrow> skip_atoi fmt;
        Some (w, flags, fmt, args) }
      else if c = 0x2a then do {
        (w, args) \<leftarrow> take_int args;
        (if sint w < 0 then Some (- sint w, flags OR LEFT, drop 1 fmt, args)
         else Some (sint w, flags, drop 1 fmt, args)) }
      else Some (-1, flags, fmt, args)) }"

definition parse_precision :: "bytes \<Rightarrow> va_arg list \<Rightarrow> (int \<times> bytes \<times> va_arg list) option" where
  "parse_precision fmt0 args = do {
     c \<leftarrow> load8 fmt0 0;
     (if c = 0x2e then do {
        let fmt = drop 1 fmt0;
        c \<leftarrow> load8 fmt 0;
        (p, fmt, args) \<leftarrow> (if is_digit c then do { (p, fmt) \<leftarrow> skip_atoi fmt; Some (p, fmt, args) }
          else if c = 0x2a then do { (p, args) \<leftarrow> take_int args; Some (sint p, drop 1 fmt, args) }
          else Some (-1, fmt, args));
        Some (if p < 0 then 0 else p, fmt, args) }
      else Some (-1, fmt0, args)) }"

text \<open>The qualifier is the character, or 0 for none.\<close>

definition parse_qualifier :: "bytes \<Rightarrow> (u8 \<times> bytes) option" where
  "parse_qualifier fmt = do {
     c \<leftarrow> load8 fmt 0;
     (if c \<in> {0x68, 0x6c, 0x4c, 0x5a, 0x7a, 0x74} then do {
        c1 \<leftarrow> load8 fmt 1;
        Some (if c = 0x6c \<and> c1 = 0x6c then (0x4c, drop 2 fmt) else (c, drop 1 fmt)) }
      else Some (0, fmt)) }"

text \<open>The integer argument of a conversion, widened to 64 bits.\<close>

definition int_arg :: "u8 \<Rightarrow> u32 \<Rightarrow> va_arg list \<Rightarrow> (u64 \<times> va_arg list) option" where
  "int_arg qualifier flags args =
     (if qualifier \<in> {0x4c, 0x6c, 0x5a, 0x7a, 0x74} then take_long args
      else do {
        (n, args) \<leftarrow> take_int args;
        Some (if qualifier = 0x68 then
                if has flags SIGN then scast (ucast n :: u16) else ucast (ucast n :: u16)
              else if has flags SIGN then scast n else ucast n, args) })"

text \<open>A conversion goes on with the next character, or makes the formatter return.\<close>

datatype conversion =
    Next "va_arg list" "(nat \<times> u64) list" bytes
  | Return u32

definition is_err :: "u64 \<Rightarrow> bool" where
  "is_err p = (p \<ge> - 4085)"

text \<open>
  \<^verbatim>\<open>while (--field_width > 0)\<close> is \<open>pad_down\<close> on \<open>field_width - 1\<close>; the second loop
  continues from the value the first one left.
\<close>

definition conv_char :: "nat \<Rightarrow> cursor \<Rightarrow> int \<Rightarrow> u32 \<Rightarrow> va_arg list \<Rightarrow> (cursor \<times> va_arg list) option" where
  "conv_char end str field_width flags args = do {
     (str, fw) \<leftarrow> (if flags AND LEFT = 0 then pad_down end (field_width - 1) 0x20 str
                 else Some (str, field_width));
     (c, args) \<leftarrow> take_int args;
     str \<leftarrow> addch end str (ucast c);
     (str, _) \<leftarrow> pad_down end (if flags AND LEFT = 0 then fw else fw - 1) 0x20 str;
     Some (str, args) }"

fun skip_alnum :: "bytes \<Rightarrow> bytes option" where
  "skip_alnum [] = None"
| "skip_alnum (c # cs) = (if isalnum c then skip_alnum cs else Some (c # cs))"

definition conv_int ::
  "nat \<Rightarrow> cursor \<Rightarrow> u8 \<Rightarrow> u8 \<Rightarrow> int \<Rightarrow> int \<Rightarrow> u32 \<Rightarrow> va_arg list \<Rightarrow> (cursor \<times> va_arg list) option" where
  "conv_int end str c qualifier field_width precision flags args = do {
     let base = (if c = 0x6f then 8 else if c = 0x78 \<or> c = 0x58 then 16 else 10);
     let flags = (if c = 0x78 then flags OR SMALL
                  else if c = 0x64 \<or> c = 0x69 then flags OR SIGN else flags);
     (num, args) \<leftarrow> int_arg qualifier flags args;
     str \<leftarrow> number str end num base field_width precision flags;
     Some (str, args) }"

definition vsn_conversion :: "nat \<Rightarrow> u64 \<Rightarrow> cursor \<Rightarrow> va_arg list \<Rightarrow> bytes \<Rightarrow> (cursor \<times> conversion) option" where
  "vsn_conversion end bufp str args fmt = do {
     (flags, fmt) \<leftarrow> parse_flags 0 fmt;
     (field_width, flags, fmt, args) \<leftarrow> parse_width flags fmt args;
     (precision, fmt, args) \<leftarrow> parse_precision fmt args;
     (qualifier, fmt) \<leftarrow> parse_qualifier fmt;
     c \<leftarrow> load8 fmt 0;
     let rest = drop 1 fmt;
     (if c = 0x63 then do {
        (str, args) \<leftarrow> conv_char end str field_width flags args;
        Some (str, Next args [] rest) }
      else if c = 0x73 then do {
        (s, args) \<leftarrow> take_str args;
        str \<leftarrow> string_out str end s field_width precision flags;
        Some (str, Next args [] rest) }
      else if c = 0x70 then do {
        (addr, ptr, args) \<leftarrow> take_ptr args;
        str \<leftarrow> pointer rest str end addr ptr field_width precision flags;
        (if is_err (bufp + of_nat (snd str)) then Some (str, Return (ucast (bufp + of_nat (snd str))))
         else do {
           rest \<leftarrow> skip_alnum rest;
           Some (str, Next args [] rest) }) }
      else if c = 0x6e then do {
        (ip, args) \<leftarrow> take_out args;
        Some (str, Next args
          [(ip, if qualifier = 0x6c then of_nat (snd str) else ucast (of_nat (snd str) :: u32))] rest) }
      else if c = 0x25 then do {
        str \<leftarrow> addch end str 0x25;
        Some (str, Next args [] rest) }
      else if c \<in> {0x6f, 0x78, 0x58, 0x64, 0x69, 0x75} then do {
        (str, args) \<leftarrow> conv_int end str c qualifier field_width precision flags args;
        Some (str, Next args [] rest) }
      else do {
        str \<leftarrow> addch end str 0x25;
        (if c \<noteq> 0 then do {
           str \<leftarrow> addch end str c;
           Some (str, Next args [] rest) }
         else Some (str, Next args [] fmt)) }) }"

text \<open>Every parser leaves a suffix of its input, so the loop over the format ends.\<close>

lemma skip_atoi_length: "skip_atoi_loop i s = Some (n, s') \<Longrightarrow> length s' \<le> length s"
  by (induction i s rule: skip_atoi_loop.induct) (auto split: if_splits)

lemma parse_flags_length: "parse_flags fl s = Some (fl', s') \<Longrightarrow> length s' \<le> length s"
  by (induction fl s rule: parse_flags.induct) (auto split: if_splits)

lemma skip_alnum_length: "skip_alnum s = Some s' \<Longrightarrow> length s' \<le> length s"
  by (induction s) (auto split: if_splits)

lemma parse_width_length:
  "parse_width fl s args = Some (w, fl', s', args') \<Longrightarrow> length s' \<le> length s"
  by (auto simp: parse_width_def skip_atoi_def split: if_splits bind_splits dest!: skip_atoi_length)

lemma parse_precision_length:
  "parse_precision s args = Some (p, s', args') \<Longrightarrow> length s' \<le> length s"
  by (auto simp: parse_precision_def skip_atoi_def Let_def split: if_splits bind_splits
      dest!: skip_atoi_length)

lemma parse_qualifier_length: "parse_qualifier s = Some (q, s') \<Longrightarrow> length s' \<le> length s"
  by (auto simp: parse_qualifier_def split: if_splits bind_splits)

lemma vsn_conversion_length:
  "vsn_conversion end bufp str args s = Some (str', Next args' outs s') \<Longrightarrow> length s' \<le> length s"
  by (auto simp: vsn_conversion_def Let_def split: if_splits bind_splits
      dest!: parse_flags_length parse_width_length parse_precision_length parse_qualifier_length
        skip_alnum_length) linarith+

text \<open>The cursor, the value of an early return, and the stores of \<^verbatim>\<open>%n\<close>.\<close>

function vsn_loop ::
  "nat \<Rightarrow> u64 \<Rightarrow> bytes \<Rightarrow> cursor \<Rightarrow> va_arg list \<Rightarrow> (nat \<times> u64) list
    \<Rightarrow> (cursor \<times> u32 option \<times> (nat \<times> u64) list) option" where
  "vsn_loop end bufp [] str args outs = None"
| "vsn_loop end bufp (c # fmt) str args outs =
     (if c = 0 then Some (str, None, outs)
      else if c \<noteq> 0x25 then do {
        str \<leftarrow> addch end str c;
        vsn_loop end bufp fmt str args outs }
      else case vsn_conversion end bufp str args fmt of
        None \<Rightarrow> None
      | Some (str, Return r) \<Rightarrow> Some (str, Some r, outs)
      | Some (str, Next args outs' fmt') \<Rightarrow> vsn_loop end bufp fmt' str args (outs @ outs'))"
  by pat_completeness auto
termination
  by (relation "measure (\<lambda>(_, _, fmt, _). length fmt)") (auto dest: vsn_conversion_length)

text \<open>
  The destination array, the \<^verbatim>\<open>int\<close> result and the stores of \<^verbatim>\<open>%n\<close>. \<open>bufp\<close> is the address of
  the array; a size that would pass the end of the address space is cut back.
\<close>

definition vsnprintf_internal ::
  "u64 \<Rightarrow> bytes \<Rightarrow> u64 \<Rightarrow> bytes \<Rightarrow> va_arg list \<Rightarrow> (bytes \<times> u32 \<times> (nat \<times> u64) list) option" where
  "vsnprintf_internal bufp buf size0 fmt args = (
     let size = (if bufp + size0 < bufp then -1 - bufp else size0);
         end = unat size
     in do {
       ((m, p), ret, outs) \<leftarrow> vsn_loop end bufp fmt (buf, 0) args [];
       (case ret of Some v \<Rightarrow> Some (m, v, outs) | None \<Rightarrow>
         if size > 0 then do {
           (m, p) \<leftarrow> addch end (m, p) 0;
           m \<leftarrow> (if p > end then store8 m (end - 1) 0 else Some m);
           Some (m, of_nat (p - 1), outs) }
         else Some (m, of_nat p, outs)) })"

definition vsnprintf ::
  "u64 \<Rightarrow> bytes \<Rightarrow> u64 \<Rightarrow> bytes \<Rightarrow> va_arg list \<Rightarrow> (bytes \<times> u32 \<times> (nat \<times> u64) list) option" where
  "vsnprintf bufp buf sz fmt args = vsnprintf_internal bufp buf sz fmt args"

text \<open>The comparison with \<^verbatim>\<open>size\<close> converts the \<^verbatim>\<open>int\<close> to an unsigned 64-bit value.\<close>

definition vscnprintf ::
  "u64 \<Rightarrow> bytes \<Rightarrow> u64 \<Rightarrow> bytes \<Rightarrow> va_arg list \<Rightarrow> (bytes \<times> u32 \<times> (nat \<times> u64) list) option" where
  "vscnprintf bufp buf sz fmt args = do {
     (m, i, outs) \<leftarrow> vsnprintf bufp buf sz fmt args;
     Some (m, if (scast i :: u64) < sz then i
              else if sz \<noteq> 0 then ucast (sz - 1) else 0, outs) }"

definition snprintf ::
  "u64 \<Rightarrow> bytes \<Rightarrow> u64 \<Rightarrow> bytes \<Rightarrow> va_arg list \<Rightarrow> (bytes \<times> u32 \<times> (nat \<times> u64) list) option" where
  "snprintf bufp buf sz fmt args = vsnprintf bufp buf sz fmt args"

definition scnprintf ::
  "u64 \<Rightarrow> bytes \<Rightarrow> u64 \<Rightarrow> bytes \<Rightarrow> va_arg list \<Rightarrow> (bytes \<times> u32 \<times> (nat \<times> u64) list) option" where
  "scnprintf bufp buf sz fmt args = vscnprintf bufp buf sz fmt args"

definition vsprintf ::
  "u64 \<Rightarrow> bytes \<Rightarrow> bytes \<Rightarrow> va_arg list \<Rightarrow> (bytes \<times> u32 \<times> (nat \<times> u64) list) option" where
  "vsprintf bufp buf fmt args = vsnprintf_internal bufp buf 2147483647 fmt args"

definition sprintf ::
  "u64 \<Rightarrow> bytes \<Rightarrow> bytes \<Rightarrow> va_arg list \<Rightarrow> (bytes \<times> u32 \<times> (nat \<times> u64) list) option" where
  "sprintf bufp buf fmt args = vsprintf bufp buf fmt args"

section \<open>Other conversions\<close>

text \<open>
  \<^verbatim>\<open>simple_itoa\<close> fills a static array of 22 bytes from its end; the result is the string the
  returned pointer starts.
\<close>

function itoa_loop :: "bytes \<Rightarrow> nat \<Rightarrow> u64 \<Rightarrow> (bytes \<times> nat) option" where
  "itoa_loop local p i =
     (if p = 0 \<or> length local < p then None
      else let local' = local[p - 1 := ucast (0x30 + i mod 10)]; i' = i div 10
           in if i' > 0 then itoa_loop local' (p - 1) i' else Some (local', p - 1))"
  by pat_completeness auto
termination by (relation "measure (\<lambda>(_, p, _). p)") auto

declare itoa_loop.simps [simp del]

definition simple_itoa :: "bytes \<Rightarrow> u64 \<Rightarrow> bytes option" where
  "simple_itoa local i = do {
     local \<leftarrow> store8 local 21 0;
     (local, p) \<leftarrow> itoa_loop local 21 i;
     Some (drop p local) }"

definition str2long :: "bytes \<Rightarrow> (bool \<times> u64) option" where
  "str2long p = do {
     (num, endptr) \<leftarrow> simple_strtoul p 16;
     c \<leftarrow> load8 p 0;
     (if c \<noteq> 0 then do { e \<leftarrow> load8 endptr 0; Some (e = 0, num) } else Some (False, num)) }"

text \<open>
  \<open>sz\<close> counts the units read. A unit that does not continue a surrogate pair is read again
  (the code steps back) after its error mark, with the count already used up.
\<close>

fun utf16_loop :: "u32 \<Rightarrow> bytes \<Rightarrow> u16 list \<Rightarrow> nat \<Rightarrow> bytes option" where
  "utf16_loop code_high dest src 0 = Some dest"
| "utf16_loop code_high dest [] (Suc sz) = None"
| "utf16_loop code_high dest (u # src) (Suc sz) = (
     let code = ucast u :: u32 in
     if code_high \<noteq> 0 then
       if 0xDC00 \<le> code \<and> code \<le> 0xDFFF then
         let code = push_bit 10 (code_high - 0xD800) + (code - 0xDC00) + 0x10000
         in utf16_loop 0 (dest @ [ucast (drop_bit 18 code OR 0xF0),
              ucast ((drop_bit 12 code AND 0x3F) OR 0x80), ucast ((drop_bit 6 code AND 0x3F) OR 0x80),
              ucast ((code AND 0x3F) OR 0x80)]) src sz
       else utf16_loop 0 (dest @ [0x3f]) (u # src) sz
     else if code \<le> 0x7F then utf16_loop 0 (dest @ [ucast code]) src sz
     else if code \<le> 0x7FF then
       utf16_loop 0 (dest @ [ucast (drop_bit 6 code OR 0xC0), ucast ((code AND 0x3F) OR 0x80)]) src sz
     else if 0xD800 \<le> code \<and> code \<le> 0xDBFF then utf16_loop code dest src sz
     else if 0xDC00 \<le> code \<and> code \<le> 0xDFFF then utf16_loop 0 (dest @ [0x3f]) src sz
     else if code < 0x10000 then
       utf16_loop 0 (dest @ [ucast (drop_bit 12 code OR 0xE0),
         ucast ((drop_bit 6 code AND 0x3F) OR 0x80), ucast ((code AND 0x3F) OR 0x80)]) src sz
     else
       utf16_loop 0 (dest @ [ucast (drop_bit 18 code OR 0xF0),
         ucast ((drop_bit 12 code AND 0x3F) OR 0x80), ucast ((drop_bit 6 code AND 0x3F) OR 0x80),
         ucast ((code AND 0x3F) OR 0x80)]) src sz)"

text \<open>The bytes written from \<^verbatim>\<open>dest\<close> on.\<close>

definition utf16_to_utf8 :: "u16 list \<Rightarrow> nat \<Rightarrow> bytes option" where
  "utf16_to_utf8 src sz = utf16_loop 0 [] src sz"

section \<open>Decimal digits\<close>

definition dg :: "nat \<Rightarrow> u8" where
  "dg r = word_of_nat (48 + r)"

text \<open>The decimal digits of a number, least significant first, without leading zeros.\<close>

fun dec_digits :: "nat \<Rightarrow> bytes" where
  "dec_digits n = dg (n mod 10) # (if n div 10 = 0 then [] else dec_digits (n div 10))"

declare dec_digits.simps [simp del]

text \<open>Its lowest \<open>k\<close> digits, with leading zeros.\<close>

fun low_digits :: "nat \<Rightarrow> nat \<Rightarrow> bytes" where
  "low_digits 0 n = []"
| "low_digits (Suc k) n = dg (n mod 10) # low_digits k (n div 10)"

lemma unat_and_f: "unat ((x :: 'a::len word) AND 0xf) = unat x mod 16"
proof -
  have "x AND 0xf = take_bit 4 x" by (simp add: take_bit_eq_mask mask_eq_exp_minus_1)
  then have "unat (x AND 0xf) = take_bit 4 (unat x)" by (simp only: unsigned_take_bit_eq)
  then show ?thesis by (simp add: take_bit_eq_mod)
qed

lemma div10_cases: obtains a r :: nat where "n = 10 * a + r" "r \<le> 9" "n div 10 = a"
  by (rule that [of "n div 10" "n mod 10"]) simp_all

lemma div10_by_205: "(n :: nat) \<le> 339 \<Longrightarrow> n * 205 div 2048 = n div 10"
proof (rule div_nat_eqI)
  assume n: "n \<le> 339"
  obtain a r where ar: "n = 10 * a + r" "r \<le> 9" "n div 10 = a" by (rule div10_cases)
  then show "2048 * (n div 10) \<le> n * 205" by simp
  show "n * 205 < 2048 * Suc (n div 10)" using n ar by simp
qed

lemma div10_by_13: "(n :: nat) \<le> 63 \<Longrightarrow> n * 13 div 128 = n div 10"
proof (rule div_nat_eqI)
  assume n: "n \<le> 63"
  obtain a r where ar: "n = 10 * a + r" "r \<le> 9" "n div 10 = a" by (rule div10_cases)
  then show "128 * (n div 10) \<le> n * 13" by simp
  have "a \<le> 5 \<or> r \<le> 3" using n ar by linarith
  then show "n * 13 < 128 * Suc (n div 10)" using n ar by auto
qed

text \<open>One step of the conversion: quotient, remainder and the character of the remainder.\<close>

lemma unat_char: "unat (d :: u32) \<le> 9 \<Longrightarrow> ucast (d + 0x30) = dg (unat d)"
proof -
  assume "unat d \<le> 9"
  then have "unat (d + 0x30) = 48 + unat d" by (simp add: unat_word_ariths)
  then have "(word_of_nat (unat (d + 0x30)) :: u8) = dg (unat d)" by (simp only: dg_def)
  then show ?thesis by simp
qed

lemma unat_rem10:
  assumes "unat (q :: u32) = unat d div 10"
  shows "unat (d - 10 * q) = unat d mod 10"
proof -
  have m: "unat (10 * q) = 10 * (unat d div 10)"
  proof -
    have "10 * (unat d div 10) \<le> unat d" by simp
    also have "unat d < 4294967296" by simp
    finally show ?thesis using assms by (simp add: unat_word_ariths)
  qed
  then have "10 * q \<le> d" by (simp add: word_le_nat_alt)
  with m show ?thesis by (simp add: unat_sub minus_mult_div_eq_mod)
qed

lemma dec_step:
  assumes "unat (q :: u32) = unat d div 10"
  shows "ucast (d - 10 * q + 0x30) = dg (unat d mod 10)"
proof -
  have "unat d mod 10 \<le> 9" by simp
  with unat_rem10 [OF assms] show ?thesis by (simp add: unat_char)
qed

lemma unat_div10_205:
  assumes "unat (d :: u32) \<le> 339"
  shows "unat (drop_bit 11 (d * 0xcd)) = unat d div 10"
proof -
  have "unat (d * 0xcd) = unat d * 205" using assms by (simp add: unat_word_ariths)
  then show ?thesis using div10_by_205 [OF assms] by (simp only: unat_drop_bit) simp
qed

lemma unat_div10_13:
  assumes "unat (d :: u32) \<le> 63"
  shows "unat (drop_bit 7 (d * 0xd)) = unat d div 10"
proof -
  have "unat (d * 0xd) = unat d * 13" using assms by (simp add: unat_word_ariths)
  then show ?thesis using div10_by_13 [OF assms] by (simp only: unat_drop_bit) simp
qed

text \<open>The carries of the conversion from four hexadecimal digits to five decimal ones.\<close>

lemma dec_carry:
  fixes D0 D1 D2 D3 :: nat
  defines "A0 \<equiv> 6 * (D3 + D2 + D1) + D0"
  defines "A1 \<equiv> A0 div 10 + 9 * D3 + 5 * D2 + D1"
  defines "A2 \<equiv> A1 div 10 + 2 * D2"
  defines "A3 \<equiv> A2 div 10 + 4 * D3"
  assumes n: "n = 4096 * D3 + 256 * D2 + 16 * D1 + D0"
  shows "n mod 10 = A0 mod 10" "n div 10 mod 10 = A1 mod 10" "n div 100 mod 10 = A2 mod 10"
    "n div 1000 = A3" "n div 10 = 0 \<longleftrightarrow> A1 = 0" "n div 100 = 0 \<longleftrightarrow> A2 = 0 \<and> D3 = 0"
proof -
  have e0: "n = 10 * (9 * D3 + 5 * D2 + D1 + 20 * D2 + 400 * D3) + A0"
    by (simp add: n A0_def)
  then have e1: "n div 10 = A1 + 20 * D2 + 400 * D3" by (simp add: A1_def)
  then have e1': "n div 10 = 10 * (2 * D2 + 40 * D3) + A1" by simp
  have "n div 100 = n div 10 div 10" by (simp add: div_mult2_eq [symmetric])
  also have "\<dots> = A2 + 40 * D3" unfolding e1' A2_def by simp
  finally have e2: "n div 100 = 10 * (4 * D3) + A2" by simp
  have "n div 1000 = n div 100 div 10" by (simp add: div_mult2_eq [symmetric])
  also have "\<dots> = A3" unfolding e2 A3_def by simp
  finally show "n div 1000 = A3" .
  show "n mod 10 = A0 mod 10" by (simp only: e0 mod_mult_self4)
  show "n div 10 mod 10 = A1 mod 10" by (simp only: e1' mod_mult_self4)
  show "n div 100 mod 10 = A2 mod 10" by (simp only: e2 mod_mult_self4)
  show "n div 10 = 0 \<longleftrightarrow> A1 = 0" unfolding e1 A1_def by auto
  show "n div 100 = 0 \<longleftrightarrow> A2 = 0 \<and> D3 = 0" unfolding e2 by auto
qed

lemma dec_digits_5:
  assumes "n < 100000"
  shows "dec_digits n = dg (n mod 10) #
    (if n div 10 = 0 then [] else dg (n div 10 mod 10) #
    (if n div 100 = 0 then [] else dg (n div 100 mod 10) #
    (if n div 1000 = 0 then [] else dg (n div 1000 mod 10) #
    (if n div 1000 div 10 = 0 then [] else [dg (n div 1000 div 10)]))))"
proof -
  have d: "n div 10 div 10 = n div 100" "n div 100 div 10 = n div 1000"
    "n div 1000 div 10 = n div 10000" "n div 10000 div 10 = 0" "n div 10000 mod 10 = n div 10000"
    using assms by (simp_all add: div_mult2_eq [symmetric])
  show ?thesis
    by (simp only: d dec_digits.simps [of n] dec_digits.simps [of "n div 10"]
      dec_digits.simps [of "n div 100"] dec_digits.simps [of "n div 1000"]
      dec_digits.simps [of "n div 10000"] simp_thms if_True)
qed

lemma low_digits_5:
  "low_digits 5 n = [dg (n mod 10), dg (n div 10 mod 10), dg (n div 100 mod 10),
     dg (n div 1000 mod 10), dg (n div 1000 div 10 mod 10)]"
proof -
  have five: "5 = Suc (Suc (Suc (Suc (Suc 0))))" by simp
  have d: "n div 10 div 10 = n div 100" "n div 100 div 10 = n div 1000"
    by (simp_all add: div_mult2_eq [symmetric])
  show ?thesis by (simp only: five low_digits.simps d)
qed

text \<open>The four hexadecimal digits the C code starts from.\<close>

lemma hex_split:
  fixes q :: u32
  defines "D0 \<equiv> unat (q AND 0xf)" and "D1 \<equiv> unat (drop_bit 4 q AND 0xf)"
    and "D2 \<equiv> unat (drop_bit 8 q AND 0xf)" and "D3 \<equiv> unat (drop_bit 12 q)"
  assumes q: "unat q < 100000"
  shows "unat q = 4096 * D3 + 256 * D2 + 16 * D1 + D0" "D0 \<le> 15" "D1 \<le> 15" "D2 \<le> 15" "D3 \<le> 24"
proof -
  let ?n = "unat q"
  have d: "D0 = ?n mod 16" "D1 = ?n div 16 mod 16" "D2 = ?n div 256 mod 16" "D3 = ?n div 4096"
    unfolding D0_def D1_def D2_def D3_def unat_and_f unat_drop_bit by simp_all
  have "?n div 16 div 16 = ?n div 256" "?n div 256 div 16 = ?n div 4096"
    by (simp_all add: div_mult2_eq [symmetric])
  then have m: "?n = 16 * (?n div 16) + ?n mod 16" "?n div 16 = 16 * (?n div 256) + ?n div 16 mod 16"
    "?n div 256 = 16 * (?n div 4096) + ?n div 256 mod 16"
    using mult_div_mod_eq [of 16 ?n] mult_div_mod_eq [of 16 "?n div 16"]
      mult_div_mod_eq [of 16 "?n div 256"] by metis+
  show "?n = 4096 * D3 + 256 * D2 + 16 * D1 + D0"
    unfolding d using m by linarith
  show "D0 \<le> 15" "D1 \<le> 15" "D2 \<le> 15" "D3 \<le> 24"
    unfolding d using q by simp_all
qed

text \<open>The shared arithmetic of \<^verbatim>\<open>put_dec_trunc\<close> and \<^verbatim>\<open>put_dec_full\<close>.\<close>

lemma put_dec_carries:
  fixes q0 :: u32
  defines "h1 \<equiv> drop_bit 4 q0 AND 0xf" and "h2 \<equiv> drop_bit 8 q0 AND 0xf" and "h3 \<equiv> drop_bit 12 q0"
  defines "a0 \<equiv> 6 * (h3 + h2 + h1) + (q0 AND 0xf)"
  defines "c0 \<equiv> drop_bit 11 (a0 * 0xcd)"
  defines "a1 \<equiv> c0 + 9 * h3 + 5 * h2 + h1"
  defines "c1 \<equiv> drop_bit 11 (a1 * 0xcd)"
  defines "a2 \<equiv> c1 + 2 * h2"
  defines "c2 \<equiv> drop_bit 7 (a2 * 0xd)"
  defines "a3 \<equiv> c2 + 4 * h3"
  defines "c3 \<equiv> drop_bit 11 (a3 * 0xcd)"
  assumes q: "unat q0 < 100000"
  shows "ucast (a0 - 10 * c0 + 0x30) = dg (unat q0 mod 10)"
    "ucast (a1 - 10 * c1 + 0x30) = dg (unat q0 div 10 mod 10)"
    "ucast (a2 - 10 * c2 + 0x30) = dg (unat q0 div 100 mod 10)"
    "ucast (a3 - 10 * c3 + 0x30) = dg (unat q0 div 1000 mod 10)"
    "ucast (c3 + 0x30) = dg (unat q0 div 1000 div 10)"
    "a1 = 0 \<longleftrightarrow> unat q0 div 10 = 0" "a2 = 0 \<and> h3 = 0 \<longleftrightarrow> unat q0 div 100 = 0"
    "a3 = 0 \<longleftrightarrow> unat q0 div 1000 = 0" "c3 = 0 \<longleftrightarrow> unat q0 div 1000 div 10 = 0"
proof -
  note hs = hex_split [OF q, folded h1_def h2_def h3_def]
  note dc = dec_carry [OF hs(1)]
  note u = unat_word_ariths
  have a0: "unat a0 = 6 * (unat h3 + unat h2 + unat h1) + unat (q0 AND 0xf)"
    unfolding a0_def using hs by (simp add: u del: unat_and_f)
  have a0l: "unat a0 \<le> 339" unfolding a0 using hs(2-5) by arith
  have c0: "unat c0 = unat a0 div 10" unfolding c0_def by (rule unat_div10_205 [OF a0l])
  have c0l: "unat c0 \<le> 33" using c0 a0l by simp
  have a1: "unat a1 = unat a0 div 10 + 9 * unat h3 + 5 * unat h2 + unat h1"
    unfolding a1_def using hs c0l by (simp add: u c0)
  have a1l: "unat a1 \<le> 339" using a1 hs c0l c0 by linarith
  have c1: "unat c1 = unat a1 div 10" unfolding c1_def by (rule unat_div10_205 [OF a1l])
  have c1l: "unat c1 \<le> 33" using c1 a1l by simp
  have a2: "unat a2 = unat a1 div 10 + 2 * unat h2"
    unfolding a2_def using hs c1l by (simp add: u c1)
  have a2l: "unat a2 \<le> 63" using a2 hs c1l c1 by linarith
  have c2: "unat c2 = unat a2 div 10" unfolding c2_def by (rule unat_div10_13 [OF a2l])
  have c2l: "unat c2 \<le> 6" using c2 a2l by simp
  have a3: "unat a3 = unat a2 div 10 + 4 * unat h3"
    unfolding a3_def using hs c2l by (simp add: u c2)
  have a3l: "unat a3 \<le> 339" using a3 hs c2l c2 by linarith
  have c3: "unat c3 = unat a3 div 10" unfolding c3_def by (rule unat_div10_205 [OF a3l])
  note e = dc [folded a0, folded a1, folded a2, folded a3]
  show "ucast (a0 - 10 * c0 + 0x30) = dg (unat q0 mod 10)" using dec_step [OF c0] e by simp
  show "ucast (a1 - 10 * c1 + 0x30) = dg (unat q0 div 10 mod 10)" using dec_step [OF c1] e by simp
  show "ucast (a2 - 10 * c2 + 0x30) = dg (unat q0 div 100 mod 10)" using dec_step [OF c2] e by simp
  show "ucast (a3 - 10 * c3 + 0x30) = dg (unat q0 div 1000 mod 10)" using dec_step [OF c3] e by simp
  have "unat q0 div 1000 div 10 \<le> 9" using q by simp
  then show "ucast (c3 + 0x30) = dg (unat q0 div 1000 div 10)"
    using c3 e(4) unat_char [of c3] by simp
  show "a1 = 0 \<longleftrightarrow> unat q0 div 10 = 0" using e(5) by (simp add: unsigned_eq_0_iff)
  show "a2 = 0 \<and> h3 = 0 \<longleftrightarrow> unat q0 div 100 = 0" using e(6) by (simp add: unsigned_eq_0_iff)
  show "a3 = 0 \<longleftrightarrow> unat q0 div 1000 = 0" using e(4) by (metis unsigned_eq_0_iff)
  show "c3 = 0 \<longleftrightarrow> unat q0 div 1000 div 10 = 0" using e(4) c3 by (metis unsigned_eq_0_iff)
qed

lemma put_dec_trunc_eq:
  assumes "unat q < 100000"
  shows "put_dec_trunc q = dec_digits (unat q)"
  unfolding put_dec_trunc_def Let_def put_dec_carries(1-5) [OF assms] dec_digits_5 [OF assms]
  by (simp only: put_dec_carries(6-9) [OF assms] de_Morgan_conj [symmetric]) auto

lemma put_dec_full_eq:
  assumes "unat q < 100000"
  shows "put_dec_full q = low_digits 5 (unat q)"
proof -
  have "unat q div 1000 div 10 mod 10 = unat q div 1000 div 10" using assms by simp
  then show ?thesis
    unfolding put_dec_full_def Let_def put_dec_carries(1-5) [OF assms] low_digits_5 by simp
qed

lemma low_digits_dec_digits:
  "n div 10 ^ k \<noteq> 0 \<Longrightarrow> low_digits k n @ dec_digits (n div 10 ^ k) = dec_digits n"
proof (induction k arbitrary: n)
  case (Suc k)
  then have k: "n div 10 div 10 ^ k = n div (10 * 10 ^ k)" by (simp add: div_mult2_eq)
  with Suc.prems have "n div 10 \<noteq> 0" by (intro notI) simp
  moreover have "low_digits k (n div 10) @ dec_digits (n div 10 div 10 ^ k) = dec_digits (n div 10)"
    using Suc.prems k by (intro Suc.IH) simp
  ultimately show ?case by (simp add: k [symmetric] dec_digits.simps [of n])
qed simp

lemma low_digits_mod: "low_digits k (n mod 10 ^ k) = low_digits k n"
proof (induction k arbitrary: n)
  case (Suc k)
  have "n mod 10 ^ Suc k mod 10 = n mod 10"
    by (simp add: mod_mod_cancel)
  moreover have "n mod 10 ^ Suc k div 10 = n div 10 mod 10 ^ k"
    by (simp add: div_mult_mod_eq mod_mult2_eq)
  ultimately show ?case by (simp add: Suc)
qed simp

lemma put_dec_eq: "put_dec num = dec_digits (unat num)"
proof (induction num rule: put_dec.induct)
  case (1 num)
  show ?case
  proof (cases "num < 100000")
    case True
    then have n: "unat num < 100000" by (simp add: word_less_nat_alt)
    then have "unat (ucast num :: u32) = unat num"
      by (simp add: unsigned_ucast_eq take_bit_nat_eq_self_iff)
    with n True show ?thesis by (subst put_dec.simps) (simp add: put_dec_trunc_eq)
  next
    case False
    let ?r = "ucast (num mod 100000) :: u32"
    have q: "unat (num div 100000) = unat num div 10 ^ 5" by (simp add: unat_div_distrib)
    have "unat (num mod 100000) = unat num mod 10 ^ 5" by (simp add: unat_mod_distrib)
    then have r: "unat ?r = unat num mod 10 ^ 5"
      by (simp add: unsigned_ucast_eq take_bit_nat_eq_self_iff)
    then have "put_dec_full ?r = low_digits 5 (unat num)"
      by (subst put_dec_full_eq) (simp_all only: low_digits_mod, simp)
    moreover have "put_dec (num div 100000) = dec_digits (unat num div 10 ^ 5)"
      using "1.IH" [OF False] q by (simp add: do_div_def)
    moreover have "unat num div 10 ^ 5 \<noteq> 0" using False by (simp add: word_less_nat_alt)
    ultimately show ?thesis using False
      by (subst put_dec.simps) (simp add: do_div_def low_digits_dec_digits del: power_numeral)
  qed
qed

section \<open>What is written, and where\<close>

lemma addch_eq:
  "e \<le> length m \<Longrightarrow> addch e (m, p) c = Some (if p < e then m[p := c] else m, p + 1)"
  by (simp add: addch_def mem_simps put8_def)

text \<open>The text beyond \<^verbatim>\<open>end\<close> is counted and dropped.\<close>

lemma addchs_eq:
  "e \<le> length m \<Longrightarrow> addchs e (m, p) xs = Some (put_bytes m p (take (e - p) xs), p + length xs)"
proof (induction xs arbitrary: m p)
  case (Cons x xs)
  have "e - p = Suc (e - Suc p)" if "p < e" using that by simp
  with Cons show ?case by (cases "p < e") (auto simp: addch_eq)
qed simp

lemma addchs_append: "addchs e str (xs @ ys) = addchs e str xs \<bind> (\<lambda>str. addchs e str ys)"
  by (induction xs arbitrary: str) (auto split: bind_split)

lemma addchs_single [simp]: "addchs e str [c] = addch e str c"
  by simp

lemma pad_down_eq:
  "pad_down e n c str = map_option (\<lambda>str. (str, if n > 0 then - 1 else n - 1)) (addchs e str (replicate (nat n) c))"
proof (induction e n c str rule: pad_down.induct)
  case (1 e n c str)
  show ?case
  proof (cases "n - 1 \<ge> 0")
    case True
    then have "nat n = Suc (nat (n - 1))" by simp
    with True 1 show ?thesis
      by (subst pad_down.simps) (cases "addch e str c", auto)
  next
    case False
    then show ?thesis by (subst pad_down.simps) simp
  qed
qed

lemma pad_precision_eq:
  "pad_precision e i n str = addchs e str (replicate (nat (n - i)) 0x30)"
proof (induction e i n str rule: pad_precision.induct)
  case (1 e i n str)
  show ?case
  proof (cases "i \<le> n - 1")
    case True
    then have "nat (n - i) = Suc (nat (n - 1 - i))" by simp
    with True 1 show ?thesis
      by (subst pad_precision.simps) (cases "addch e str 0x30", auto)
  next
    case False
    then show ?thesis by (subst pad_precision.simps) simp
  qed
qed

lemma pad_string_eq:
  "pad_string e len n str =
    map_option (\<lambda>str. (str, if len < n then len - 1 else n - 1)) (addchs e str (replicate (nat (n - len)) 0x20))"
proof (induction e len n str rule: pad_string.induct)
  case (1 e len n str)
  show ?case
  proof (cases "len < n")
    case True
    then have "nat (n - len) = Suc (nat (n - 1 - len))" by simp
    with True 1 show ?thesis
      by (subst pad_string.simps) (cases "addch e str 0x20", auto)
  next
    case False
    then show ?thesis by (subst pad_string.simps) simp
  qed
qed

text \<open>
  A piece of the formatter \<open>emits\<close> when it either fails whatever the room, or produces one
  text: in an array with room up to \<open>e\<close> it writes the text cut at \<open>e\<close> from the position \<open>p\<close>
  on, and its result does not depend on the room. Pieces compose.
\<close>

definition emits :: "nat \<Rightarrow> (nat \<Rightarrow> bytes \<Rightarrow> (cursor \<times> 'a) option) \<Rightarrow> bool" where
  "emits p f \<longleftrightarrow>
     (\<forall>e m. e \<le> length m \<longrightarrow> f e m = None) \<or>
     (\<exists>t x. \<forall>e m. e \<le> length m \<longrightarrow> f e m = Some ((put_bytes m p (take (e - p) t), p + length t), x))"

definition emits_only :: "nat \<Rightarrow> (nat \<Rightarrow> bytes \<Rightarrow> cursor option) \<Rightarrow> bool" where
  "emits_only p f = emits p (\<lambda>e m. map_option (\<lambda>str. (str, ())) (f e m))"

named_theorems emits_intros \<open>pieces of the formatter that emit\<close>

lemma emits_None [emits_intros]: "emits p (\<lambda>e m. None)"
  by (simp add: emits_def)

lemma emits_Some [emits_intros]: "emits p (\<lambda>e m. Some ((m, p), x))"
  unfolding emits_def by (rule disjI2, rule exI [of _ "[]"]) simp

lemma emits_only_Some [emits_intros]: "emits_only p (\<lambda>e m. Some (m, p))"
  by (simp add: emits_only_def emits_Some)

lemma put_bytes_twice:
  "put_bytes (put_bytes m p (take (e - p) xs)) (p + length xs) (take (e - (p + length xs)) ys)
    = put_bytes m p (take (e - p) (xs @ ys))"
proof (cases "length xs \<le> e - p")
  case True
  then have "take (e - p) xs = xs" "e - p - length xs = e - (p + length xs)" by simp_all
  then show ?thesis by (simp add: put_bytes_append)
qed simp

lemma emits_bind [emits_intros]:
  assumes f: "emits p f" and g: "\<And>p' x. emits p' (\<lambda>e m. g e ((m, p'), x))"
  shows "emits p (\<lambda>e m. f e m \<bind> g e)"
  using f unfolding emits_def
proof (elim disjE exE)
  assume "\<forall>e m. e \<le> length m \<longrightarrow> f e m = None"
  then show "(\<forall>e m. e \<le> length m \<longrightarrow> f e m \<bind> g e = None) \<or> (\<exists>t x. \<forall>e m. e \<le> length m \<longrightarrow>
      f e m \<bind> g e = Some ((put_bytes m p (take (e - p) t), p + length t), x))"
    by simp
next
  fix t x
  assume F: "\<forall>e m. e \<le> length m \<longrightarrow>
    f e m = Some ((put_bytes m p (take (e - p) t), p + length t), x)"
  from g [of "p + length t" x]
  show "(\<forall>e m. e \<le> length m \<longrightarrow> f e m \<bind> g e = None) \<or> (\<exists>t x. \<forall>e m. e \<le> length m \<longrightarrow>
      f e m \<bind> g e = Some ((put_bytes m p (take (e - p) t), p + length t), x))"
    unfolding emits_def
  proof (elim disjE exE)
    assume "\<forall>e m. e \<le> length m \<longrightarrow> g e ((m, p + length t), x) = None"
    with F show ?thesis by simp
  next
    fix t' y
    assume "\<forall>e m. e \<le> length m \<longrightarrow> g e ((m, p + length t), x) =
      Some ((put_bytes m (p + length t) (take (e - (p + length t)) t'), p + length t + length t'), y)"
    with F have "\<forall>e m. e \<le> length m \<longrightarrow> f e m \<bind> g e =
        Some ((put_bytes m p (take (e - p) (t @ t')), p + length (t @ t')), y)"
      by (simp add: put_bytes_twice)
    then show ?thesis by blast
  qed
qed

lemma emits_only_bind [emits_intros]:
  assumes "emits_only p f" and "\<And>p'. emits p' (\<lambda>e m. g e (m, p'))"
  shows "emits p (\<lambda>e m. f e m \<bind> g e)"
proof -
  have "emits p (\<lambda>e m. map_option (\<lambda>str. (str, ())) (f e m) \<bind> (\<lambda>(str, _). g e str))"
    using assms by (intro emits_bind) (auto simp: emits_only_def)
  also have "(\<lambda>e m. map_option (\<lambda>str. (str, ())) (f e m) \<bind> (\<lambda>(str, _). g e str)) = (\<lambda>e m. f e m \<bind> g e)"
    by (intro ext) (simp add: bind_map_option comp_def split: bind_split)
  finally show ?thesis .
qed

lemma map_option_bind: "map_option h (x \<bind> f) = (x \<bind> (\<lambda>y. map_option h (f y)))"
  by (cases x) auto

lemma emits_only_bind_pair [emits_intros]:
  assumes "emits p f" and "\<And>p' x. emits_only p' (\<lambda>e m. g e ((m, p'), x))"
  shows "emits_only p (\<lambda>e m. f e m \<bind> g e)"
  using assms unfolding emits_only_def map_option_bind by (intro emits_bind)

lemma emits_only_bind_only [emits_intros]:
  assumes "emits_only p f" and "\<And>p'. emits_only p' (\<lambda>e m. g e (m, p'))"
  shows "emits_only p (\<lambda>e m. f e m \<bind> g e)"
  using assms unfolding emits_only_def [of p "\<lambda>e m. f e m \<bind> g e"] map_option_bind
  by (intro emits_only_bind) (auto simp: emits_only_def)

text \<open>Parts that do not touch the cursor.\<close>

lemma emits_value_bind [emits_intros]:
  "(\<And>x. emits p (\<lambda>e m. g x e m)) \<Longrightarrow> emits p (\<lambda>e m. a \<bind> (\<lambda>x. g x e m))"
  "(\<And>x. emits_only p (\<lambda>e m. h x e m)) \<Longrightarrow> emits_only p (\<lambda>e m. a \<bind> (\<lambda>x. h x e m))"
  by (cases a; simp add: emits_None emits_only_def)+

lemma emits_if [emits_intros]:
  "emits p f \<Longrightarrow> emits p g \<Longrightarrow> emits p (\<lambda>e m. if c then f e m else g e m)"
  "emits_only p h \<Longrightarrow> emits_only p k \<Longrightarrow> emits_only p (\<lambda>e m. if c then h e m else k e m)"
  by (cases c; simp)+

lemma emits_prod [emits_intros]:
  "(\<And>a b. emits p (\<lambda>e m. f a b e m)) \<Longrightarrow> emits p (\<lambda>e m. case x of (a, b) \<Rightarrow> f a b e m)"
  "(\<And>a b. emits_only p (\<lambda>e m. g a b e m)) \<Longrightarrow> emits_only p (\<lambda>e m. case x of (a, b) \<Rightarrow> g a b e m)"
  by (cases x; simp)+

lemma emits_option [emits_intros]:
  "emits_only p f \<Longrightarrow> (\<And>a. emits_only p (\<lambda>e m. g a e m))
    \<Longrightarrow> emits_only p (\<lambda>e m. case x of None \<Rightarrow> f e m | Some a \<Rightarrow> g a e m)"
  by (cases x; simp)

lemma emits_addchs [emits_intros]: "emits_only p (\<lambda>e m. addchs e (m, p) xs)"
  unfolding emits_only_def emits_def by (rule disjI2, rule exI [of _ xs]) (simp add: addchs_eq)

lemma emits_addch [emits_intros]: "emits_only p (\<lambda>e m. addch e (m, p) c)"
  using emits_addchs [of p "[c]"] by simp

lemma emits_map [emits_intros]:
  "emits_only p f \<Longrightarrow> emits p (\<lambda>e m. map_option (\<lambda>str. (str, x)) (f e m))"
  unfolding emits_only_def emits_def by (elim disjE exE) (auto 0 4)

lemma emits_pads [emits_intros]:
  "emits p (\<lambda>e m. pad_down e n c (m, p))"
  "emits_only p (\<lambda>e m. pad_precision e i n (m, p))"
  "emits p (\<lambda>e m. pad_string e i n (m, p))"
  unfolding pad_down_eq pad_precision_eq pad_string_eq by (intro emits_intros)+

lemma emits_number [emits_intros]:
  "emits_only p (\<lambda>e m. number (m, p) e num base sz prec type)"
  unfolding number_def Let_def by (intro emits_intros | simp only: prod.case snd_conv)+

lemma emits_string [emits_intros]:
  "emits_only p (\<lambda>e m. string_out (m, p) e s fw prec flags)"
  unfolding string_out_def Let_def by (intro emits_intros | simp only: prod.case snd_conv)+

lemma emits_pointer [emits_intros]:
  "emits_only p (\<lambda>e m. pointer fmt (m, p) e addr ptr fw prec flags)"
  unfolding pointer_def mac_address_string_def ip4_addr_string_def ip6_addr_string_def Let_def
  by (intro emits_intros | simp only: prod.case snd_conv)+

lemma emits_conversion [emits_intros]:
  "emits p (\<lambda>e m. vsn_conversion e bufp (m, p) args fmt)"
  unfolding vsn_conversion_def conv_char_def conv_int_def Let_def bind_assoc
  by (intro emits_intros | simp only: prod.case snd_conv)+

lemma emits_vsn_loop: "emits p (\<lambda>e m. vsn_loop e bufp fmt (m, p) args outs)"
proof (induction "length fmt" arbitrary: fmt p args outs rule: less_induct)
  case less
  show ?case
  proof (cases fmt)
    case Nil
    then show ?thesis by (simp add: emits_None)
  next
    case (Cons c cs)
    have step: "emits p (\<lambda>e m. vsn_conversion e bufp (m, p) args cs \<bind> (\<lambda>(str, r). case r of
        Return v \<Rightarrow> Some (str, Some v, outs)
      | Next args outs' fmt' \<Rightarrow> if length fmt' \<le> length cs then vsn_loop e bufp fmt' str args (outs @ outs') else None))"
      (is "emits p ?f")
    proof (rule emits_bind [OF emits_conversion])
      fix p' and r :: conversion
      show "emits p' (\<lambda>e m. case ((m, p'), r) of (str, r) \<Rightarrow> case r of
          Return v \<Rightarrow> Some (str, Some v, outs)
        | Next args outs' fmt' \<Rightarrow> if length fmt' \<le> length cs then vsn_loop e bufp fmt' str args (outs @ outs') else None)"
      proof (cases r)
        case (Next args' outs' fmt')
        with less [of fmt' p' args' "outs @ outs'"] Cons show ?thesis
          by (cases "length fmt' \<le> length cs") (simp_all add: emits_None)
      qed (simp add: emits_Some)
    qed
    have eq: "(case vsn_conversion e bufp (m, p) args cs of None \<Rightarrow> None
        | Some (str, Return r) \<Rightarrow> Some (str, Some r, outs)
        | Some (str, Next args outs' fmt') \<Rightarrow> vsn_loop e bufp fmt' str args (outs @ outs')) = ?f e m" for e m
      by (auto split: option.split conversion.split dest: vsn_conversion_length)
    have other: "emits p (\<lambda>e m. addch e (m, p) c \<bind> (\<lambda>str. vsn_loop e bufp cs str args outs))"
      by (rule emits_only_bind [OF emits_addch]) (simp add: less Cons)
    consider "c = 0" | "c = 0x25" | "c \<noteq> 0" "c \<noteq> 0x25" by blast
    then show ?thesis
    proof cases
      case 1
      then show ?thesis by (simp add: Cons emits_Some)
    next
      case 2
      with step show ?thesis unfolding eq [symmetric] by (simp add: Cons)
    next
      case 3
      with other show ?thesis by (simp add: Cons)
    qed
  qed
qed

text \<open>What a call leaves in the destination and returns, for a text and an early return value.\<close>

definition vsn_result :: "bytes \<Rightarrow> nat \<Rightarrow> bytes \<Rightarrow> u32 option \<Rightarrow> bytes \<times> u32" where
  "vsn_result buf e t ret = (case ret of
     None \<Rightarrow> (put_bytes buf 0 (take (e - 1) t @ [0]), of_nat (length t))
   | Some v \<Rightarrow> (put_bytes buf 0 (take e t), v))"

lemma vsnprintf_internal_eq:
  assumes loop: "vsn_loop (unat sz) bufp fmt (buf, 0) args [] =
      Some ((put_bytes buf 0 (take (unat sz) t), length t), ret, outs)"
    and sz: "0 < unat sz" "unat sz \<le> length buf" and wrap: "\<not> bufp + sz < bufp"
  shows "vsnprintf_internal bufp buf sz fmt args =
    Some (fst (vsn_result buf (unat sz) t ret), snd (vsn_result buf (unat sz) t ret), outs)"
proof (cases ret)
  case (Some v)
  with loop wrap show ?thesis by (simp add: vsnprintf_internal_def vsn_result_def Let_def)
next
  case None
  let ?e = "unat sz"
  let ?m = "put_bytes buf 0 (take ?e t)"
  have pos: "sz > 0" using sz(1) by (simp add: word_less_nat_alt)
  show ?thesis
  proof (cases "length t < ?e")
    case True
    then have "take ?e t = t" "take (?e - 1) t = t" by simp_all
    with True None loop wrap sz pos show ?thesis
      by (simp add: vsnprintf_internal_def vsn_result_def Let_def addch_eq put_bytes_append)
  next
    case False
    then have "take ?e t = take (?e - 1) t @ [t ! (?e - 1)]"
      using sz(1) take_Suc_conv_app_nth [of "?e - 1" t] by simp
    then have "?m[?e - 1 := 0] = put_bytes buf 0 (take (?e - 1) t @ [0])"
      using False by (simp add: put_bytes_append)
    with False None loop wrap sz pos show ?thesis
      by (simp add: vsnprintf_internal_def vsn_result_def Let_def addch_eq mem_simps put8_def)
  qed
qed



section \<open>The text of a number\<close>

text \<open>
  The layout of a number: sign, prefix, zeros up to the precision, digits, and the padding to
  the field width on the left, after the prefix, or on the right.
\<close>

definition number_digits :: "u64 \<Rightarrow> u32 \<Rightarrow> u8 \<Rightarrow> bytes" where
  "number_digits num base locase =
     (if base = 10 then rev (dec_digits (unat num))
      else if num = 0 then [0x30] else rev (pow2_digits num base locase))"

definition number_text :: "u64 \<Rightarrow> u32 \<Rightarrow> int \<Rightarrow> int \<Rightarrow> u32 \<Rightarrow> bytes" where
  "number_text num0 base width precision type = (
     let neg = (bit type 1 \<and> sint num0 < 0);
         locase = ucast (type AND SMALL);
         sgn = (if neg then [0x2d] else if bit type 1 \<and> bit type 2 then [0x2b]
                else if bit type 1 \<and> bit type 3 then [0x20] else []);
         pfx = (if bit type 6 \<and> base \<noteq> 10 then if base = 16 then [0x30, 0x58 OR locase] else [0x30]
                else []);
         ds = number_digits (if neg then - num0 else num0) base locase;
         body = replicate (nat (precision - int (length ds))) 0x30 @ ds;
         pad = nat (width - int (length (sgn @ pfx @ body)))
     in if bit type 4 then sgn @ pfx @ body @ replicate pad 0x20
        else if bit type 0 then sgn @ pfx @ replicate pad 0x30 @ body
        else replicate pad 0x20 @ sgn @ pfx @ body)"

lemma has_iff_bit:
  "type AND 1 = 0 \<longleftrightarrow> \<not> bit (type :: u32) 0" "type AND 2 = 0 \<longleftrightarrow> \<not> bit type 1"
  "type AND 4 = 0 \<longleftrightarrow> \<not> bit type 2" "type AND 8 = 0 \<longleftrightarrow> \<not> bit type 3"
  "type AND 16 = 0 \<longleftrightarrow> \<not> bit type 4" "type AND 64 = 0 \<longleftrightarrow> \<not> bit type 6"
  using and_exp_eq_0_iff_not_bit [of type 0] and_exp_eq_0_iff_not_bit [of type 1]
    and_exp_eq_0_iff_not_bit [of type 2] and_exp_eq_0_iff_not_bit [of type 3]
    and_exp_eq_0_iff_not_bit [of type 4] and_exp_eq_0_iff_not_bit [of type 6]
  by simp_all

lemma has_17: "type AND 17 = 0 \<longleftrightarrow> \<not> bit (type :: u32) 0 \<and> \<not> bit type 4"
proof -
  have "type AND 17 = (type AND 1) OR (type AND 16)"
    by (simp flip: bit.conj_disj_distrib)
  then show ?thesis by (simp add: or_eq_0_iff has_iff_bit)
qed

lemma bit_clear_zeropad:
  "bit (type AND NOT 1 :: u32) n \<longleftrightarrow> bit type n \<and> n \<noteq> 0"
  by (cases n) (auto simp: bit_simps bit_1_iff dest: bit_imp_le_length)

lemma dec_digits_0 [simp]: "dec_digits 0 = [0x30]"
  by (subst dec_digits.simps) (simp add: dg_def)

lemma number_digits_eq:
  "rev (if num = 0 then [0x30] else if base \<noteq> 10 then pow2_digits num base locase else put_dec num)
    = number_digits num base locase"
  by (auto simp: number_digits_def put_dec_eq)

text \<open>The steps of \<^verbatim>\<open>number\<close> once its flags are decided.\<close>

lemma number_steps:
  fixes width precision :: int and sgn pfx ds :: bytes
  defines "prec \<equiv> if int (length ds) > precision then int (length ds) else precision"
  defines "size3 \<equiv> width - int (length sgn) - int (length pfx) - prec"
  defines "body \<equiv> replicate (nat (precision - int (length ds))) 0x30 @ ds"
  shows
    "(do { (buf, size4) \<leftarrow> (if \<not> zero \<and> \<not> left then pad_down e size3 0x20 str else Some (str, size3));
       buf \<leftarrow> addchs e buf sgn;
       buf \<leftarrow> addchs e buf pfx;
       (buf, size5) \<leftarrow> (if \<not> left then pad_down e size4 (if zero then 0x30 else 0x20) buf
                       else Some (buf, size4));
       buf \<leftarrow> pad_precision e (int (length ds)) prec buf;
       buf \<leftarrow> addchs e buf ds;
       (buf, _) \<leftarrow> pad_down e size5 0x20 buf;
       Some buf }) =
     addchs e str (if left then sgn @ pfx @ body @ replicate (nat (width - int (length (sgn @ pfx @ body)))) 0x20
       else if zero then sgn @ pfx @ replicate (nat (width - int (length (sgn @ pfx @ body)))) 0x30 @ body
       else replicate (nat (width - int (length (sgn @ pfx @ body)))) 0x20 @ sgn @ pfx @ body)"
proof -
  have sz: "width - int (length (sgn @ pfx @ body)) = size3"
    by (simp add: size3_def body_def prec_def)
  have body: "body = replicate (nat (prec - int (length ds))) 0x30 @ ds"
    by (simp add: body_def prec_def)
  have mo: "map_option (\<lambda>str. (str, k)) x \<bind> (\<lambda>(b, n). g b n) = x \<bind> (\<lambda>b. g b k)"
    for k :: int and x :: "cursor option" and g :: "cursor \<Rightarrow> int \<Rightarrow> cursor option"
    by (cases x) auto
  consider "left" | "\<not> left" "zero" | "\<not> left" "\<not> zero" by blast
  then show ?thesis
    unfolding sz unfolding body pad_down_eq pad_precision_eq
    by cases (simp_all add: mo addchs_append split: if_split)
qed

lemma sign_addchs: "(if c then addch e str x else Some str) = addchs e str (if c then [x] else [])"
  by simp

lemma prefix_addchs:
  "(if c then do { buf \<leftarrow> addch e str x; (if d then addch e buf y else Some buf) } else Some str)
    = addchs e str (if c then if d then [x, y] else [x] else [])"
  by (simp split: bind_split)

lemma number_eq:
  "number str e num base width precision type = addchs e str (number_text num base width precision type)"
proof -
  let ?neg = "bit type 1 \<and> sint num < 0"
  let ?locase = "ucast (type AND SMALL) :: u8"
  let ?sgn = "if ?neg then [0x2d] else if bit type 1 \<and> bit type 2 then [0x2b]
                else if bit type 1 \<and> bit type 3 then [0x20] else [] :: bytes"
  let ?pfx = "if bit type 6 \<and> base \<noteq> 10 then if base = 16 then [0x30, 0x58 OR ?locase] else [0x30] else []"
  let ?ds = "number_digits (if ?neg then - num else num) base ?locase"
  let ?left = "bit type 4" and ?zero = "bit type 0 \<and> \<not> bit type 4"
  let ?type = "if has type LEFT then type AND NOT ZEROPAD else type"
  have flags: "has ?type SIGN \<longleftrightarrow> bit type 1" "has ?type PLUS \<longleftrightarrow> bit type 2"
    "has ?type SPACE \<longleftrightarrow> bit type 3" "?type AND LEFT = 0 \<longleftrightarrow> \<not> ?left"
    "has ?type ZEROPAD \<longleftrightarrow> ?zero" "?type AND (ZEROPAD + LEFT) = 0 \<longleftrightarrow> \<not> ?zero \<and> \<not> ?left"
    "has type SPECIAL \<longleftrightarrow> bit type 6"
    by (auto simp: has_iff_bit has_17 bit_clear_zeropad bit_clear_zeropad [simplified])
  let ?sign = "if ?neg then 0x2d else if bit type 1 \<and> bit type 2 then 0x2b
                else if bit type 1 \<and> bit type 3 then 0x20 else 0 :: u8"
  have sign: "(if bit type 1 then
          if sint num < 0 then (0x2d, - num, width - 1)
          else if bit type 2 then (0x2b, num, width - 1)
          else if bit type 3 then (0x20, num, width - 1) else (0, num, width)
        else (0 :: u8, num, width)) =
      (?sign, if ?neg then - num else num, width - int (length ?sgn))"
    by simp
  have sgn: "(if ?sign \<noteq> 0 then addch e buf ?sign else Some buf) = addchs e buf ?sgn" for e buf
    by simp
  have pfx: "(if bit type 6 \<and> base \<noteq> 10 then if base = 16 then w - 2 else w - 1 else w) =
      w - int (length ?pfx)" for w :: int
    by simp
  have ds: "int (length (if n = 0 then [0x30] else if base \<noteq> 10 then pow2_digits n base ?locase else put_dec n))
      = int (length (number_digits n base ?locase))" for n
    by (simp flip: number_digits_eq)
  show ?thesis
    unfolding number_def Let_def flags
    unfolding sign prod.case sgn prefix_addchs pfx ds number_digits_eq
    by (rule trans [OF number_steps]) (simp add: number_text_def Let_def)
qed

text \<open>A plain conversion to base 10.\<close>

lemma number_text_dec:
  assumes "0 \<le> sint n" "type = 0 \<or> type = SIGN"
  shows "number_text n 10 (-1) (-1) type = rev (dec_digits (unat n))"
  using assms by (auto simp: number_text_def Let_def number_digits_def bit_simps)

lemma addchs_fits:
  assumes "p + length xs \<le> e" "p + length xs \<le> length m"
  shows "addchs e (m, p) xs = Some (put_bytes m p xs, p + length xs)"
  using assms
proof (induction xs arbitrary: m p)
  case (Cons x xs)
  then show ?case by (simp add: addch_def mem_simps put8_def)
qed simp

lemma length_dec_digits: "n < 10 ^ Suc k \<Longrightarrow> length (dec_digits n) \<le> Suc k"
proof (induction k arbitrary: n)
  case 0
  then show ?case by (subst dec_digits.simps) simp
next
  case (Suc k)
  then have "n div 10 < 10 ^ Suc k" by (simp add: less_mult_imp_div_less)
  with Suc.IH show ?case by (subst dec_digits.simps) auto
qed

text \<open>The digit array of \<^verbatim>\<open>number\<close> has 66 elements and the one of an address quad three.\<close>

lemma length_pow2_digits: "unat num < 8 ^ Suc k \<Longrightarrow> length (pow2_digits num base locase) \<le> Suc k"
proof (induction k arbitrary: num)
  case 0
  let ?s = "if base = 16 then 4 else 3 :: nat"
  have "unat (drop_bit ?s num) = 0" using 0 by (simp only: unat_drop_bit) auto
  then have "drop_bit ?s num = 0" by (simp only: unsigned_eq_0_iff)
  then show ?case by (subst pow2_digits.simps) (auto simp: Let_def)
next
  case (Suc k)
  let ?s = "if base = 16 then 4 else 3 :: nat"
  have "unat (drop_bit ?s num) \<le> unat num div 8"
    by (simp only: unat_drop_bit) (auto intro: div_le_mono2)
  also have "unat num div 8 < 8 ^ Suc k" using Suc.prems by (simp add: less_mult_imp_div_less)
  finally have "length (pow2_digits (drop_bit ?s num) base locase) \<le> Suc k" by (rule Suc.IH)
  then show ?case by (subst pow2_digits.simps) (auto simp: Let_def)
qed

text \<open>
  The digits of a number never exceed the 66 bytes of the formatter's local array, whatever the
  base.
\<close>

lemma number_digits_fit: "length (number_digits num base locase) \<le> 66"
proof -
  have "unat num < 18446744073709551616" using unsigned_less [of num, where ?'a = nat] by simp
  then have "unat num < 10 ^ Suc 19" "unat num < 8 ^ Suc 21" by simp_all
  from length_dec_digits [OF this(1)] length_pow2_digits [OF this(2), of base locase]
  show ?thesis by (simp add: number_digits_def)
qed

lemma ip4_quad_fits: "length (put_dec_trunc (ucast (x :: u8))) \<le> 3"
proof -
  have "unat x < 10 ^ Suc 2" by (rule less_trans [OF unat_u8_less]) simp
  moreover have "unat x < 100000" by (rule less_trans [OF unat_u8_less]) simp
  ultimately show ?thesis using length_dec_digits [of "unat x" 2] by (simp add: put_dec_trunc_eq)
qed

section \<open>Digits read back\<close>

lemma dec_digit_dg: "r < 10 \<Longrightarrow> dec_digit (dg r) \<and> unat (digit_value (dg r)) = r"
proof -
  assume "r < 10"
  then have "unat (dg r) = 48 + r" by (simp only: dg_def unsigned_of_nat) (simp add: take_bit_nat_eq_self_iff)
  with \<open>r < 10\<close> show ?thesis
    by (auto simp: dec_digit_def word_le_nat_alt unat_digit_value_dec)
qed

lemma dec_digits_are_digits: "c \<in> set (dec_digits n) \<Longrightarrow> dec_digit c"
proof (induction n rule: dec_digits.induct)
  case (1 n)
  then show ?case
    by (subst (asm) dec_digits.simps [of n]) (auto simp: dec_digit_dg split: if_splits)
qed

lemma digits_value_append: "digits_value base (xs @ ys) a = digits_value base ys (digits_value base xs a)"
  by (simp add: digits_value_def)

lemma digits_value_dec_digits: "digits_value 10 (rev (dec_digits n)) 0 = n"
proof (induction n rule: dec_digits.induct)
  case (1 n)
  then show ?case
    by (subst dec_digits.simps) (auto simp: dec_digit_dg digits_value_append)
qed

lemma dec_digits_not_Nil [simp]: "dec_digits n \<noteq> []"
  by (subst dec_digits.simps) simp

lemma dec_digits_no_nul: "0 \<notin> set (dec_digits n)"
  using dec_digits_are_digits [of 0 n] by (auto simp: dec_digit_def)

text \<open>\<^verbatim>\<open>simple_itoa\<close> produces the digits, and its array of 22 bytes is large enough.\<close>

lemma itoa_loop_eq:
  assumes "length (dec_digits (unat i)) \<le> p" "p \<le> length l"
  shows "\<exists>l'. itoa_loop l p i = Some (l', p - length (dec_digits (unat i))) \<and> length l' = length l \<and>
    drop (p - length (dec_digits (unat i))) l' = rev (dec_digits (unat i)) @ drop p l"
  using assms
proof (induction l p i rule: itoa_loop.induct)
  case (1 l p i)
  let ?l = "l[p - 1 := ucast (0x30 + i mod 10)]" and ?n = "unat i"
  have "0 < length (dec_digits ?n)" by simp
  with "1.prems" have p: "p \<noteq> 0" "p \<le> length l" by linarith+
  have n10: "unat (i div 10) = ?n div 10" by (simp add: unat_div_distrib)
  have c: "ucast (0x30 + i mod 10) = dg (?n mod 10)"
  proof -
    have "unat (0x30 + i mod 10) = 48 + ?n mod 10"
      by (simp add: unat_word_ariths unat_mod_distrib)
    then have "(word_of_nat (unat (0x30 + i mod 10)) :: u8) = dg (?n mod 10)" by (simp only: dg_def)
    then show ?thesis by simp
  qed
  have d: "drop (p - 1) ?l = dg (?n mod 10) # drop p l"
    using p by (simp add: c drop_update_cancel flip: Cons_nth_drop_Suc)
  show ?case
  proof (cases "i div 10 = 0")
    case True
    then have "?n div 10 = 0" using n10 by simp
    then have "dec_digits ?n = [dg (?n mod 10)]" by (subst dec_digits.simps) simp
    with True p d show ?thesis by (subst itoa_loop.simps) (simp add: Let_def)
  next
    case False
    then have "?n div 10 \<noteq> 0" using n10 by (metis unsigned_eq_0_iff)
    then have dd: "dec_digits ?n = dg (?n mod 10) # dec_digits (unat (i div 10))"
      by (subst dec_digits.simps) (simp add: n10)
    have "0 < i div 10" using False by (simp add: word_gt_0)
    with 1 p dd d show ?thesis by (subst itoa_loop.simps) (simp add: Let_def)
  qed
qed

text \<open>
  \<^verbatim>\<open>simple_itoa\<close> returns the decimal text of its argument, without leaving its 22-byte array.
\<close>

theorem simple_itoa_eq:
  assumes "length l = 22"
  shows "simple_itoa l i = Some (rev (dec_digits (unat i)) @ [0])"
proof -
  have "unat i < 10 ^ Suc 19" using unsigned_less [of i, where ?'a = nat] by simp
  from length_dec_digits [OF this] have "length (dec_digits (unat i)) \<le> 20" by simp
  then obtain l' where "itoa_loop (l[21 := 0]) 21 i = Some (l', 21 - length (dec_digits (unat i)))"
    "drop (21 - length (dec_digits (unat i))) l' = rev (dec_digits (unat i)) @ drop 21 (l[21 := 0])"
    using itoa_loop_eq [of i 21 "l[21 := 0]"] assms by auto
  moreover have "drop 21 (l[21 := 0]) = [0]"
    using assms by (simp add: drop_update_cancel flip: Cons_nth_drop_Suc)
  ultimately show ?thesis using assms by (simp add: simple_itoa_def mem_simps put8_def)
qed

lemma simple_itoa_eq_witness:
  "simple_itoa (replicate 22 0) 1048576 = Some (rev (dec_digits 1048576) @ [0])"
  using simple_itoa_eq [of "replicate 22 0" 1048576] by simp

text \<open>Steps of the interpreter for the formats the driver uses.\<close>

lemma vsn_loop_literal:
  "c \<noteq> 0 \<Longrightarrow> c \<noteq> 0x25 \<Longrightarrow> vsn_loop e b (c # fmt) str args outs =
     addch e str c \<bind> (\<lambda>str. vsn_loop e b fmt str args outs)"
  by simp

lemma scast_pos: "0 \<le> sint (n :: u32) \<Longrightarrow> (scast n :: u64) = ucast n"
proof (rule bit_word_eqI)
  fix k assume "0 \<le> sint n" "k < LENGTH(64)"
  moreover from this have "\<not> bit n 31" using bit_last_iff [of n] by simp
  ultimately show "bit (scast n :: u64) k = bit (ucast n :: u64) k"
    by (cases "k < 31"; cases "k = 31") (auto simp: bit_simps min_def dest: bit_imp_le_length)
qed

lemma vsn_loop_d:
  assumes "0 \<le> sint n"
  shows "vsn_loop e b (0x25 # 0x64 # c # fmt) str (VInt n # args) outs =
    addchs e str (rev (dec_digits (unat n))) \<bind> (\<lambda>str. vsn_loop e b (c # fmt) str args outs)"
proof -
  have "number_text (scast n) 10 (-1) (-1) SIGN = rev (dec_digits (unat n))"
  proof -
    have "\<not> bit n 31" using assms bit_last_iff [of n] by simp
    then have "0 \<le> sint (ucast n :: u64)"
      using bit_last_iff [of "ucast n :: u64"] by (auto simp: bit_simps not_less dest: bit_imp_le_length)
    then show ?thesis using assms by (simp add: scast_pos number_text_dec)
  qed
  then show ?thesis
    by (simp add: vsn_conversion_def parse_width_def parse_precision_def parse_qualifier_def
      mem_simps get8_def is_digit_def conv_int_def int_arg_def take_int_def number_eq Let_def
      split: bind_split option.split)
qed

end
