(* ===== verification/NetAddr.thy ===== *)
theory NetAddr
  imports Vsprintf
begin

text \<open>
  Addresses as text and as bytes: \<^verbatim>\<open>string_to_ip\<close> and the generator of \<^verbatim>\<open>common.c\<close>, \<^verbatim>\<open>ip_to_string\<close>,
  the VLAN conversions and \<^verbatim>\<open>copy_filename\<close> of \<^verbatim>\<open>net.c\<close>, \<^verbatim>\<open>eth_parse_enetaddr\<close> of \<^verbatim>\<open>eth_common.c\<close>
  and the address tests of \<^verbatim>\<open>net.h\<close>. An IPv4 address is the 32-bit word of \<^verbatim>\<open>struct in_addr\<close>,
  which holds the network-order bytes. The lemmas are the round trips of the two address
  formats through the formatter and the number parser, and what the parsers accept.
\<close>

section \<open>IPv4 addresses\<close>

function string_to_ip_loop :: "nat \<Rightarrow> bytes \<Rightarrow> u32 \<Rightarrow> u32 option" where
  "string_to_ip_loop i s addr =
     (if i < 4 then do {
        (val, e) \<leftarrow> simple_strtoul s 10;
        (if val > 255 then Some 0
         else do {
           c \<leftarrow> load8 e 0;
           (if i \<noteq> 3 \<and> c \<noteq> 0x2e then Some 0
            else string_to_ip_loop (i + 1) (if c \<noteq> 0 then drop 1 e else e)
                   (push_bit 8 addr OR (ucast val AND 0xff))) }) }
      else Some (htonl addr))"
  by pat_completeness auto
termination by (relation "measure (\<lambda>(i, _). 4 - i)") auto

declare string_to_ip_loop.simps [simp del]

definition string_to_ip :: "bytes option \<Rightarrow> u32 option" where
  "string_to_ip s = (case s of None \<Rightarrow> Some 0 | Some s \<Rightarrow> string_to_ip_loop 0 s 0)"

text \<open>\<open>s\<close> is the array the text is written to.\<close>

definition ip_to_string :: "u32 \<Rightarrow> u64 \<Rightarrow> bytes \<Rightarrow> bytes option" where
  "ip_to_string x0 sp s = (
     let x = ntohl x0
     in map_option fst (sprintf sp s (c_string ''%d.%d.%d.%d'')
       [VInt (drop_bit 24 x AND 0xff), VInt (drop_bit 16 x AND 0xff), VInt (drop_bit 8 x AND 0xff),
        VInt (drop_bit 0 x AND 0xff)]))"

definition net_read_ip :: "bytes \<Rightarrow> nat \<Rightarrow> u32 option" where
  "net_read_ip b from = load32 b from"

definition net_write_ip :: "bytes \<Rightarrow> nat \<Rightarrow> u32 \<Rightarrow> bytes option" where
  "net_write_ip b dst ip = store32 b dst ip"

definition net_copy_ip :: "bytes \<Rightarrow> nat \<Rightarrow> u32 \<Rightarrow> bytes option" where
  "net_copy_ip b dst ip = store32 b dst ip"

section \<open>VLAN identifiers\<close>

abbreviation (input) VLAN_NONE :: u16 where "VLAN_NONE \<equiv> 4095"
abbreviation (input) VLAN_IDMASK :: u16 where "VLAN_IDMASK \<equiv> 0x0fff"

definition vlan_to_string :: "u16 \<Rightarrow> u64 \<Rightarrow> bytes \<Rightarrow> bytes option" where
  "vlan_to_string x0 sp s = (
     let x = ntohs x0;
         x = (if x = -1 then VLAN_NONE else x)
     in if x = VLAN_NONE then strcpy s 0 (c_string ''none'')
        else map_option fst (sprintf sp s (c_string ''%d'') [VInt (ucast (x AND VLAN_IDMASK))]))"

definition string_to_vlan :: "bytes option \<Rightarrow> u16 option" where
  "string_to_vlan s = (case s of None \<Rightarrow> Some (htons VLAN_NONE)
     | Some s \<Rightarrow> do {
         c \<leftarrow> load8 s 0;
         (if c < 0x30 \<or> c > 0x39 then Some (htons VLAN_NONE)
          else do {
            (val, _) \<leftarrow> simple_strtoul s 10;
            Some (htons (ucast val)) }) })"

section \<open>File names\<close>

text \<open>\<open>n\<close> is the C \<^verbatim>\<open>int size\<close>; the copy starts at offset \<open>i\<close> of \<open>dst\<close>.\<close>

fun copy_filename_loop :: "bytes \<Rightarrow> nat \<Rightarrow> bytes \<Rightarrow> int \<Rightarrow> bytes option" where
  "copy_filename_loop dst i [] n = (if n - 1 > 0 then None else store8 dst i 0)"
| "copy_filename_loop dst i (c # src) n =
     (if n - 1 > 0 \<and> c \<noteq> 0 \<and> c \<noteq> 0x22 then do {
        dst \<leftarrow> store8 dst i c;
        copy_filename_loop dst (i + 1) src (n - 1) }
      else store8 dst i 0)"

definition copy_filename :: "bytes \<Rightarrow> nat \<Rightarrow> bytes \<Rightarrow> int \<Rightarrow> bytes option" where
  "copy_filename dst i src n = do {
     c \<leftarrow> load8 src 0;
     (if c = 0x22 then copy_filename_loop dst i (drop 1 src) (n - 1)
      else copy_filename_loop dst i src n) }"

section \<open>Ethernet addresses\<close>

definition is_zero_ethaddr :: "bytes \<Rightarrow> bool" where
  "is_zero_ethaddr addr =
     (addr ! 0 OR addr ! 1 OR addr ! 2 OR addr ! 3 OR addr ! 4 OR addr ! 5 = 0)"

definition is_multicast_ethaddr :: "bytes \<Rightarrow> bool" where
  "is_multicast_ethaddr addr = (0x01 AND addr ! 0 \<noteq> 0)"

definition is_broadcast_ethaddr :: "bytes \<Rightarrow> bool" where
  "is_broadcast_ethaddr addr =
     (addr ! 0 AND addr ! 1 AND addr ! 2 AND addr ! 3 AND addr ! 4 AND addr ! 5 = 0xff)"

definition is_valid_ethaddr :: "bytes \<Rightarrow> bool" where
  "is_valid_ethaddr addr = (\<not> is_multicast_ethaddr addr \<and> \<not> is_zero_ethaddr addr)"

function parse_enetaddr_loop :: "nat \<Rightarrow> bytes option \<Rightarrow> bytes option" where
  "parse_enetaddr_loop i addr =
     (if i < 6 then
        (case addr of
           None \<Rightarrow> map_option (Cons 0) (parse_enetaddr_loop (i + 1) None)
         | Some s \<Rightarrow> do {
             (val, end) \<leftarrow> simple_strtoul s 16;
             c \<leftarrow> load8 end 0;
             map_option (Cons (ucast val))
               (parse_enetaddr_loop (i + 1) (Some (if c \<noteq> 0 then drop 1 end else end))) })
      else Some [])"
  by pat_completeness auto
termination by (relation "measure (\<lambda>(i, _). 6 - i)") auto

declare parse_enetaddr_loop.simps [simp del]

definition eth_parse_enetaddr :: "bytes option \<Rightarrow> bytes option" where
  "eth_parse_enetaddr addr = parse_enetaddr_loop 0 addr"

section \<open>The pseudo-random generator\<close>

definition rand_r :: "u32 \<Rightarrow> u32" where
  "rand_r seed = (
     let s1 = seed XOR push_bit 13 seed;
         s2 = s1 XOR drop_bit 17 s1
     in s2 XOR push_bit 5 s2)"

fun random_bytes :: "nat \<Rightarrow> u32 \<Rightarrow> bytes" where
  "random_bytes 0 seed = []"
| "random_bytes (Suc n) seed = (let seed = rand_r seed in ucast seed # random_bytes n seed)"

text \<open>\<open>now\<close> is the value of \<^verbatim>\<open>get_timer(0)\<close>.\<close>

definition net_random_ethaddr :: "u64 \<Rightarrow> bytes" where
  "net_random_ethaddr now = (
     let addr = random_bytes 6 (ucast now)
     in addr[0 := (addr ! 0 AND 0xfe) OR 0x02])"

definition random_port :: "u64 \<Rightarrow> u32" where
  "random_port now = ucast (1024 + now mod 0x4000)"

definition seed_mac :: "bytes \<Rightarrow> u32" where
  "seed_mac enetaddr = (
     let b = (\<lambda>i. ucast (enetaddr ! i) :: u32)
     in b 5 XOR push_bit 8 (b 4) XOR push_bit 16 (b 3) XOR push_bit 24 (b 2) XOR b 1
        XOR push_bit 8 (b 0))"

section \<open>What the tests decide\<close>

lemma or_eq_0_byte: "(x :: u8) OR y = 0 \<longleftrightarrow> x = 0 \<and> y = 0"
  by (rule or_eq_0_iff)

lemma is_zero_ethaddr_iff:
  "length addr = 6 \<Longrightarrow> is_zero_ethaddr addr \<longleftrightarrow> addr = replicate 6 0"
  by (auto simp: is_zero_ethaddr_def or_eq_0_byte numeral_eq_Suc length_Suc_conv)

lemma and_eq_ff: "(x :: u8) AND y = 0xff \<longleftrightarrow> x = 0xff \<and> y = 0xff"
proof
  assume a: "x AND y = 0xff"
  have ff: "bit (0xff :: u8) n \<longleftrightarrow> n < 8" for n
    by (auto simp: bit_mask_numerals)
  have "bit (x AND y) n \<longleftrightarrow> n < 8" for n using a ff by metis
  then have "bit x n \<and> bit y n" if "n < 8" for n using that by (simp add: bit_and_iff)
  then show "x = 0xff \<and> y = 0xff"
    by (auto intro!: bit_word_eqI simp: bit_mask_numerals)
qed auto

lemma is_broadcast_ethaddr_iff:
  "length addr = 6 \<Longrightarrow> is_broadcast_ethaddr addr \<longleftrightarrow> addr = replicate 6 0xff"
  unfolding is_broadcast_ethaddr_def and_eq_ff
  by (auto simp: numeral_eq_Suc length_Suc_conv)

lemma valid_not_broadcast:
  "length addr = 6 \<Longrightarrow> is_valid_ethaddr addr \<Longrightarrow> \<not> is_broadcast_ethaddr addr"
  by (auto simp: is_broadcast_ethaddr_iff is_valid_ethaddr_def is_multicast_ethaddr_def)

text \<open>A random address has the local bit and not the multicast bit, so it is valid.\<close>

lemma length_random_bytes [simp]: "length (random_bytes n seed) = n"
  by (induction n arbitrary: seed) (auto simp: Let_def)

lemma local_bits:
  "((x AND 0xfe) OR 2) AND 2 = (2 :: u8)" "((x AND 0xfe) OR 2) AND 1 = (0 :: u8)"
  by (simp_all add: bit.conj_disj_distrib2 and.assoc)

text \<open>
  Whatever the time, \<^verbatim>\<open>net_random_ethaddr\<close> makes a valid address, locally administered and not
  multicast.
\<close>

theorem net_random_ethaddr_valid:
  "length (net_random_ethaddr now) = 6 \<and> is_valid_ethaddr (net_random_ethaddr now) \<and>
    net_random_ethaddr now ! 0 AND 2 = 2"
proof -
  let ?a = "random_bytes 6 (ucast now)"
  let ?b = "(?a ! 0 AND 0xfe) OR 2"
  have eq: "net_random_ethaddr now = ?a[0 := ?b]" by (simp add: net_random_ethaddr_def Let_def)
  have "?b \<noteq> 0"
  proof
    assume "?b = 0"
    with local_bits(1) [of "?a ! 0"] have "(0 :: u8) AND 2 = 2" by (simp only:)
    then show False by simp
  qed
  then show ?thesis
    using local_bits [of "?a ! 0"]
    by (simp add: eq is_valid_ethaddr_def is_multicast_ethaddr_def is_zero_ethaddr_def or_eq_0_byte
      and.commute)
qed

section \<open>IPv4 addresses as text\<close>

text \<open>The parser on four digit strings between dots; an empty one counts as 0.\<close>

lemma string_to_ip_loop_step:
  assumes "\<forall>c \<in> set ds. dec_digit c" "digits_value 10 ds 0 \<le> 255" "i < 4"
    "\<not> dec_digit e" "i \<noteq> 3 \<longrightarrow> e = 0x2e"
  shows "string_to_ip_loop i (ds @ e # rest) addr =
    string_to_ip_loop (i + 1) (if e \<noteq> 0 then rest else e # rest)
      (push_bit 8 addr OR word_of_nat (digits_value 10 ds 0))"
proof -
  let ?v = "digits_value 10 ds 0"
  have v: "unat (word_of_nat ?v :: u64) = ?v"
    using assms(2) by (simp add: unsigned_of_nat take_bit_nat_eq_self_iff)
  then have "\<not> (word_of_nat ?v :: u64) > 255" using assms(2) by (simp add: word_less_nat_alt)
  moreover have "ucast (word_of_nat ?v :: u64) AND 0xff = (word_of_nat ?v :: u32)"
  proof -
    have "ucast (word_of_nat ?v :: u64) = (word_of_nat ?v :: u32)"
      by (metis of_nat_unat v)
    moreover have "(word_of_nat ?v :: u32) AND 0xff = take_bit 8 (word_of_nat ?v)"
      by (simp add: take_bit_eq_mask mask_eq_exp_minus_1)
    moreover have "take_bit 8 (word_of_nat ?v :: u32) = word_of_nat ?v"
    proof -
      have "take_bit 8 (word_of_nat ?v :: u32) = word_of_nat (take_bit 8 ?v)"
        by (simp only: take_bit_of_nat)
      moreover have "take_bit 8 ?v = ?v" using assms(2) by (simp add: take_bit_nat_eq_self_iff)
      ultimately show ?thesis by (simp only:)
    qed
    ultimately show ?thesis by simp
  qed
  ultimately show ?thesis
    using assms simple_strtoul_dec [OF assms(1,4), of rest]
    by (subst string_to_ip_loop.simps) (auto simp: mem_simps get8_def)
qed

text \<open>The network-order word of an address given by its four numbers.\<close>

definition dotted :: "nat \<Rightarrow> nat \<Rightarrow> nat \<Rightarrow> nat \<Rightarrow> u32" where
  "dotted a b c d = htonl (push_bit 8 (push_bit 8 (push_bit 8 (word_of_nat a) OR word_of_nat b)
     OR word_of_nat c) OR word_of_nat d)"

lemma string_to_ip_parses:
  assumes "\<forall>c \<in> set (ds1 @ ds2 @ ds3 @ ds4). dec_digit c"
    "\<forall>ds \<in> {ds1, ds2, ds3, ds4}. digits_value 10 ds 0 \<le> 255" "\<not> dec_digit e"
  shows "string_to_ip (Some (ds1 @ 0x2e # ds2 @ 0x2e # ds3 @ 0x2e # ds4 @ e # rest)) =
    Some (dotted (digits_value 10 ds1 0) (digits_value 10 ds2 0) (digits_value 10 ds3 0)
      (digits_value 10 ds4 0))"
proof -
  have dot: "\<not> dec_digit 0x2e" by (simp add: dec_digit_def)
  have end4: "\<not> i < 4 \<Longrightarrow> string_to_ip_loop i s a = Some (htonl a)" for i s a
    by (subst string_to_ip_loop.simps) simp
  show ?thesis
    using assms dot
    by (simp add: string_to_ip_def string_to_ip_loop_step end4 dotted_def)
qed

lemma ip_octets:
  "dotted (unat (drop_bit 24 x AND 0xff)) (unat (drop_bit 16 x AND 0xff))
     (unat (drop_bit 8 x AND 0xff)) (unat (x AND 0xff)) = htonl x"
proof -
  have "push_bit 8 (push_bit 8 (push_bit 8 (drop_bit 24 x AND 0xff) OR (drop_bit 16 x AND 0xff))
      OR (drop_bit 8 x AND 0xff)) OR (x AND 0xff) = x"
  proof (rule bit_word_eqI)
    fix n assume "n < LENGTH(32)"
    then have "n < 32" by simp
    then show "bit (push_bit 8 (push_bit 8 (push_bit 8 (drop_bit 24 x AND 0xff) OR (drop_bit 16 x AND 0xff))
      OR (drop_bit 8 x AND 0xff)) OR (x AND 0xff)) n = bit x n"
      by (cases rule: byte_cases32) (auto simp: bit_simps bit_mask_numerals)
  qed
  then show ?thesis by (simp add: dotted_def)
qed

text \<open>Printing and parsing an address.\<close>

lemma sint_byte: "0 \<le> sint (x AND 0xff :: u32)"
proof -
  have "\<not> bit (x AND 0xff) 31" by (simp add: bit_and_iff bit_mask_numerals)
  then show ?thesis using bit_last_iff [of "x AND 0xff"] by simp
qed

definition ip_text :: "u32 \<Rightarrow> bytes" where
  "ip_text x = (let t = (\<lambda>k. rev (dec_digits (unat (drop_bit k (ntohl x) AND 0xff)))) in
     t 24 @ 0x2e # t 16 @ 0x2e # t 8 @ 0x2e # t 0)"

lemma unat_byte_less: "unat (x AND 0xff :: u32) < 256"
proof -
  have "x AND 0xff = take_bit 8 x" by (simp add: take_bit_eq_mask mask_eq_exp_minus_1)
  then have "unat (x AND 0xff) = take_bit 8 (unat x)" by (simp only: unsigned_take_bit_eq)
  then show ?thesis by (simp add: take_bit_eq_mod)
qed

lemma length_ip_text: "length (ip_text x) \<le> 15"
proof -
  have "length (dec_digits (unat (y AND 0xff :: u32))) \<le> 3" for y
    using length_dec_digits [of "unat (y AND 0xff)" 2] unat_byte_less [of y] by simp
  from this [of "drop_bit 24 (ntohl x)"] this [of "drop_bit 16 (ntohl x)"]
    this [of "drop_bit 8 (ntohl x)"] this [of "drop_bit 0 (ntohl x)"]
  show ?thesis unfolding ip_text_def Let_def by simp
qed

lemma vsn_loop_dotted:
  fixes w x y z :: u32
  defines "t \<equiv> (\<lambda>v :: u32. rev (dec_digits (unat (v AND 0xff))))"
  shows "vsn_loop e b (c_string ''%d.%d.%d.%d'') str
      [VInt (w AND 0xff), VInt (x AND 0xff), VInt (y AND 0xff), VInt (z AND 0xff)] [] =
    map_option (\<lambda>str. (str, None, []))
      (addchs e str (t w @ 0x2e # t x @ 0x2e # t y @ 0x2e # t z))"
proof -
  have fmt: "c_string ''%d.%d.%d.%d'' =
      [0x25, 0x64, 0x2e, 0x25, 0x64, 0x2e, 0x25, 0x64, 0x2e, 0x25, 0x64, 0]"
    by (simp add: c_string_def str_bytes_def)
  show ?thesis
    unfolding fmt t_def
    by (simp add: vsn_loop_d [OF sint_byte] vsn_loop_literal addchs_append map_option_bind
        del: vsn_loop.simps(2)) 
      (simp add: comp_def split: bind_split option.split)
qed

text \<open>The unbounded \<^verbatim>\<open>sprintf\<close> on an array the text fits into.\<close>

lemma sprintf_fits:
  assumes loop: "\<And>e. vsn_loop e sp fmt (buf, 0) args [] = map_option (\<lambda>str. (str, None, [])) (addchs e (buf, 0) t)"
    and len: "length t < length buf" "length t < 2147483647" and addr: "\<not> sp + 2147483647 < sp"
  shows "sprintf sp buf fmt args = Some (put_bytes buf 0 (t @ [0]), of_nat (length t), [])"
proof -
  have "addchs 2147483647 (buf, 0) t = Some (put_bytes buf 0 t, length t)"
    using len by (subst addchs_fits) simp_all
  then show ?thesis using addr len loop
    by (simp add: sprintf_def vsprintf_def vsnprintf_internal_def Let_def addch_def mem_simps put8_def
      put_bytes_append)
qed

lemma ip_to_string_eq:
  assumes "16 \<le> length buf" "\<not> sp + 2147483647 < sp"
  shows "ip_to_string x sp buf = Some (put_bytes buf 0 (ip_text x @ [0]))"
proof -
  have "length (ip_text x) < length buf" "length (ip_text x) < 2147483647"
    using length_ip_text [of x] assms(1) by linarith+
  then have "sprintf sp buf (c_string ''%d.%d.%d.%d'')
      [VInt (drop_bit 24 (ntohl x) AND 0xff), VInt (drop_bit 16 (ntohl x) AND 0xff),
       VInt (drop_bit 8 (ntohl x) AND 0xff), VInt (drop_bit 0 (ntohl x) AND 0xff)] =
    Some (put_bytes buf 0 (ip_text x @ [0]), of_nat (length (ip_text x)), [])"
    using assms(2) unfolding ip_text_def Let_def
    by (intro sprintf_fits vsn_loop_dotted)
  then show ?thesis by (simp only: ip_to_string_def Let_def option.map fst_conv)
qed

lemma string_to_ip_ip_text: "string_to_ip (Some (ip_text x @ 0 # rest)) = Some x"
proof -
  let ?o = "\<lambda>k. unat (drop_bit k (ntohl x) AND 0xff)"
  have o: "unat (y AND 0xff :: u32) \<le> 255" for y using unat_byte_less [of y] by linarith
  have nul: "\<not> dec_digit 0" by (simp add: dec_digit_def)
  have "string_to_ip (Some (rev (dec_digits (?o 24)) @ 0x2e # rev (dec_digits (?o 16)) @ 0x2e #
      rev (dec_digits (?o 8)) @ 0x2e # rev (dec_digits (?o 0)) @ 0 # rest)) =
    Some (dotted (?o 24) (?o 16) (?o 8) (?o 0))"
    by (subst string_to_ip_parses) (auto simp: dec_digits_are_digits digits_value_dec_digits o nul)
  moreover have "dotted (?o 24) (?o 16) (?o 8) (?o 0) = x"
    using ip_octets [of "ntohl x"] by (simp add: htonl_def ntohl_def)
  ultimately show ?thesis by (simp add: ip_text_def Let_def)
qed

text \<open>
  C36: an IPv4 address written by \<^verbatim>\<open>ip_to_string\<close> is read back by \<^verbatim>\<open>string_to_ip\<close>.
\<close>

theorem string_to_ip_round_trip:
  assumes "16 \<le> length buf" "\<not> sp + 2147483647 < sp"
  shows "\<exists>buf'. ip_to_string x sp buf = Some buf' \<and> length buf' = length buf \<and> string_to_ip (Some buf') = Some x"
proof -
  have len: "length (ip_text x @ [0]) \<le> length buf" using length_ip_text [of x] assms(1) by simp
  have "put_bytes buf 0 (ip_text x @ [0]) = ip_text x @ 0 # drop (length (ip_text x @ [0])) buf"
    using put_bytes_eq [of 0 "ip_text x @ [0]" buf] len by simp
  then show ?thesis using assms len by (simp add: ip_to_string_eq string_to_ip_ip_text)
qed

lemma string_to_ip_round_trip_witness:
  "\<exists>buf'. ip_to_string 0x1664a8c0 4096 (replicate 16 0) = Some buf' \<and> length buf' = 16 \<and>
    string_to_ip (Some buf') = Some 0x1664a8c0"
  using string_to_ip_round_trip [of "replicate 16 0" 4096 "0x1664a8c0"] by simp

section \<open>Ethernet addresses as text\<close>

lemma hex_asc_digits:
  "n < 16 \<Longrightarrow> base_digit 16 (hex_asc ! n) \<and> unat (digit_value (hex_asc ! n)) = n \<and> tolower (hex_asc ! n) \<noteq> 0x78"
proof -
  have "list_all (\<lambda>n. base_digit 16 (hex_asc ! n) \<and> unat (digit_value (hex_asc ! n)) = n
      \<and> tolower (hex_asc ! n) \<noteq> 0x78) [0..<16]"
    by code_simp
  then show "n < 16 \<Longrightarrow> ?thesis" by (simp add: list_all_iff)
qed

lemma bit_f: "bit (15 :: int) n \<longleftrightarrow> n < 4"
proof -
  have "(15 :: int) = mask 4" by (simp add: mask_eq_exp_minus_1)
  then have "bit (15 :: int) n = bit (mask 4 :: int) n" by (rule arg_cong)
  then show ?thesis by (simp only: bit_mask_iff) simp
qed

lemma unat_nibbles: "unat (drop_bit 4 (b AND 0xf0) :: u8) = unat b div 16" "unat (b AND 0x0f :: u8) = unat b mod 16"
proof -
  have "drop_bit 4 (b AND 0xf0) = drop_bit 4 b"
    by (rule bit_word_eqI) (auto simp: bit_simps bit_f dest: bit_imp_le_length)
  then show "unat (drop_bit 4 (b AND 0xf0)) = unat b div 16" by (simp only: unat_drop_bit) simp
  show "unat (b AND 0x0f) = unat b mod 16" by (rule unat_and_f)
qed

lemma simple_strtoul_hex_byte:
  assumes e: "\<not> base_digit 16 e" 
  shows "simple_strtoul (hex_byte_pack b @ e # rest) 16 = Some (ucast b, e # rest)"
proof -
  let ?h = "hex_asc ! (unat b div 16)" and ?l = "hex_asc ! (unat b mod 16)"
  have hl: "unat b div 16 < 16" "unat b mod 16 < 16"
    using unat_u8_less [of b] by (simp_all add: less_mult_imp_div_less del: unat_u8_less)
  note h = hex_asc_digits [OF hl(1)] and l = hex_asc_digits [OF hl(2)]
  have pack: "hex_byte_pack b = [?h, ?l]" by (simp only: hex_byte_pack_def unat_nibbles)
  have radix: "parse_integer_fixup_radix ([?h, ?l] @ e # rest) 16 = Some ([?h, ?l] @ e # rest, 16)"
    using l by (simp add: parse_integer_fixup_radix_def mem_simps get8_def)
  have loop: "strtoul_loop ([?h, ?l] @ e # rest) 16 0 =
      Some (word_of_nat (digits_value 16 [?h, ?l] 0), e # rest)"
    using strtoul_loop_eq [of "[?h, ?l]" 16 e rest 0] h l e by simp
  have val: "digits_value 16 [?h, ?l] 0 = unat b"
    using h l by simp
  have base: "(ucast (16 :: u32) :: u64) = 16" by simp
  show ?thesis
    by (simp only: simple_strtoul_def pack radix Option.bind.bind_lunit prod.case base loop val of_nat_unat)
qed

text \<open>The text of \<^verbatim>\<open>%pM\<close>, and the parser on it.\<close>

definition mac_text :: "bytes \<Rightarrow> bytes" where
  "mac_text addr = hex_byte_pack (addr ! 0) @ 0x3a # hex_byte_pack (addr ! 1) @ 0x3a #
     hex_byte_pack (addr ! 2) @ 0x3a # hex_byte_pack (addr ! 3) @ 0x3a # hex_byte_pack (addr ! 4) @
     0x3a # hex_byte_pack (addr ! 5)"

lemma mac_addr_chars_eq: "mac_addr_chars addr 0 = mac_text addr"
  by (simp add: mac_addr_chars_def mac_text_def upt_rec numeral_eq_Suc)

lemma ucast8_64: "(ucast (ucast (b :: u8) :: u64) :: u8) = b"
  by (rule bit_word_eqI) (auto simp: bit_simps)

text \<open>
  C37: an Ethernet address written as text is read back by \<^verbatim>\<open>eth_parse_enetaddr\<close>, whatever follows.
\<close>

theorem parse_enetaddr_mac_text:
  assumes "length addr = 6"
  shows "eth_parse_enetaddr (Some (mac_text addr @ 0 # rest)) = Some addr"
proof -
  have e: "\<not> base_digit 16 0" "\<not> base_digit 16 0x3a"
    by code_simp+
  note step = simple_strtoul_hex_byte [OF e(1)] simple_strtoul_hex_byte [OF e(2)]
  have fin: "\<not> i < 6 \<Longrightarrow> parse_enetaddr_loop i s = Some []" for i s
    by (subst parse_enetaddr_loop.simps) simp
  have colon: "i < 6 \<Longrightarrow> parse_enetaddr_loop i (Some (hex_byte_pack b @ 0x3a # s)) =
      map_option (Cons b) (parse_enetaddr_loop (i + 1) (Some s))" for i b s
    by (subst parse_enetaddr_loop.simps) (simp add: step mem_simps get8_def ucast8_64)
  have nul: "i < 6 \<Longrightarrow> parse_enetaddr_loop i (Some (hex_byte_pack b @ 0 # s)) =
      map_option (Cons b) (parse_enetaddr_loop (i + 1) (Some (0 # s)))" for i b s
    by (subst parse_enetaddr_loop.simps) (simp add: step mem_simps get8_def ucast8_64)
  obtain a b c d f g where addr: "addr = [a, b, c, d, f, g]"
    using assms by (auto simp: length_Suc_conv eval_nat_numeral)
  show ?thesis
    by (simp add: eth_parse_enetaddr_def mac_text_def addr colon nul fin)
qed

lemma parse_enetaddr_mac_text_witness:
  "eth_parse_enetaddr (Some (mac_text [0x6a, 0xe3, 0xd1, 0x16, 0xb0, 0x50] @ 0 # [7])) =
    Some [0x6a, 0xe3, 0xd1, 0x16, 0xb0, 0x50]"
  by (rule parse_enetaddr_mac_text) simp

lemma length_mac_text: "length (mac_text addr) = 17"
  by (simp add: mac_text_def hex_byte_pack_def)

section \<open>VLAN identifiers and file names\<close>

lemma vsn_loop_one_d:
  assumes "0 \<le> sint n"
  shows "vsn_loop e b (c_string ''%d'') str [VInt n] [] =
    map_option (\<lambda>str. (str, None, [])) (addchs e str (rev (dec_digits (unat n))))"
proof -
  have fmt: "c_string ''%d'' = [0x25, 0x64, 0]" by (simp add: c_string_def str_bytes_def)
  show ?thesis
    unfolding fmt by (simp add: vsn_loop_d [OF assms] split: bind_split option.split del: vsn_loop.simps(2))
      (simp split: bind_split option.split)
qed

lemma ucast16_64: "(ucast (ucast (b :: u16) :: u64) :: u16) = b"
  by (rule bit_word_eqI) (auto simp: bit_simps)

text \<open>Identifiers up to 4095 survive printing and parsing; 4095 is printed as no VLAN.\<close>

text \<open>
  A VLAN identifier written by \<^verbatim>\<open>vlan_to_string\<close> is read back by \<^verbatim>\<open>string_to_vlan\<close>.
\<close>

theorem string_to_vlan_round_trip:
  assumes x: "unat (ntohs x) \<le> 4095" and buf: "5 \<le> length buf" and addr: "\<not> sp + 2147483647 < sp"
  shows "\<exists>buf'. vlan_to_string x sp buf = Some buf' \<and> string_to_vlan (Some buf') = Some x"
proof -
  let ?v = "ntohs x"
  have hx: "htons ?v = x" by (simp add: htons_def ntohs_def)
  have "unat (- 1 :: u16) = 65535" by (simp add: unsigned_minus_1_eq_mask mask_eq_exp_minus_1)
  with x have "?v \<noteq> -1" by auto
  show ?thesis
  proof (cases "?v = VLAN_NONE")
    case True
    have none: "c_string ''none'' = [0x6e, 0x6f, 0x6e, 0x65, 0]"
      by (simp add: c_string_def str_bytes_def)
    have "put_bytes buf 0 [0x6e, 0x6f, 0x6e, 0x65, 0] = 0x6e # 0x6f # 0x6e # 0x65 # 0 # drop 5 buf"
      using buf by (subst put_bytes_eq) (simp_all add: eval_nat_numeral)
    moreover have "strcpy buf 0 (c_string ''none'') = Some (put_bytes buf 0 [0x6e, 0x6f, 0x6e, 0x65, 0])"
      using buf strcpy_eq [of "c_string ''none''" 0 buf] by (simp add: none)
    moreover have "htons VLAN_NONE = x" using True hx by simp
    ultimately show ?thesis
      using True by (simp add: vlan_to_string_def string_to_vlan_def mem_simps get8_def)
  next
    case False
    let ?n = "ucast (?v AND VLAN_IDMASK) :: u32"
    have "?v AND VLAN_IDMASK = take_bit 12 ?v" by (simp add: take_bit_eq_mask mask_eq_exp_minus_1)
    then have "unat (?v AND VLAN_IDMASK) = take_bit 12 (unat ?v)" by (simp only: unsigned_take_bit_eq)
    also have "\<dots> = unat ?v" using x by (simp add: take_bit_nat_eq_self_iff)
    finally have n: "unat ?n = unat ?v" by simp
    then have "\<not> bit ?n 31" by (auto simp: bit_simps dest: bit_imp_le_length)
    then have pos: "0 \<le> sint ?n" using bit_last_iff [of ?n] by simp
    let ?t = "rev (dec_digits (unat ?v))"
    have len: "length ?t \<le> 4" using x length_dec_digits [of "unat ?v" 3] by simp
    then have "sprintf sp buf (c_string ''%d'') [VInt ?n] = Some (put_bytes buf 0 (?t @ [0]), of_nat (length ?t), [])"
      using buf addr n vsn_loop_one_d [OF pos] by (intro sprintf_fits) auto
    then have "vlan_to_string x sp buf = Some (put_bytes buf 0 (?t @ [0]))"
      using False \<open>?v \<noteq> -1\<close> by (simp add: vlan_to_string_def Let_def)
    moreover have "put_bytes buf 0 (?t @ [0]) = ?t @ 0 # drop (length ?t + 1) buf"
      using put_bytes_eq [of 0 "?t @ [0]" buf] len buf by simp
    moreover have "simple_strtoul (?t @ 0 # drop (length ?t + 1) buf) 10 =
        Some (word_of_nat (unat ?v), 0 # drop (length ?t + 1) buf)"
      by (subst simple_strtoul_dec) (auto simp: dec_digits_are_digits digits_value_dec_digits, simp add: dec_digit_def)
    moreover have "\<exists>c cs. ?t @ 0 # drop (length ?t + 1) buf = c # cs \<and> 0x30 \<le> c \<and> c \<le> 0x39"
    proof -
      obtain c cs where t: "?t = c # cs" by (cases ?t) auto
      then have "c \<in> set (dec_digits (unat ?v))" by (metis list.set_intros(1) set_rev)
      then have "dec_digit c" by (rule dec_digits_are_digits)
      then show ?thesis by (auto simp: t dec_digit_def)
    qed
    ultimately show ?thesis
      using hx by (auto simp: string_to_vlan_def mem_simps get8_def not_less ucast16_64)
  qed
qed

lemma string_to_vlan_round_trip_witness:
  "\<exists>buf'. vlan_to_string 0x0a00 4096 (replicate 5 0) = Some buf' \<and> string_to_vlan (Some buf') = Some 0x0a00"
  by (rule string_to_vlan_round_trip) (code_simp, simp_all)

text \<open>\<open>copy_filename\<close> keeps the name up to a quote, cut to the size with its NUL.\<close>

definition name_char :: "u8 \<Rightarrow> bool" where
  "name_char c = (c \<noteq> 0 \<and> c \<noteq> 0x22)"

lemma copy_filename_loop_eq:
  assumes "terminated src" "0 < n" "i + nat n \<le> length dst"
  shows "copy_filename_loop dst i src n =
    Some (put_bytes dst i (take (nat n - 1) (takeWhile name_char src) @ [0]))"
  using assms
proof (induction dst i src n rule: copy_filename_loop.induct)
  case (2 dst i c src n)
  show ?case
  proof (cases "n - 1 > 0 \<and> name_char c")
    case True
    then have "0 \<le> n - 2" by simp
    then obtain k where "n - 2 = int k" by (rule nonneg_int_cases)
    then have n: "n = int k + 2" "nat n = k + 2" "nat (n - 1) = k + 1" by simp_all
    with "2.prems" have "store8 dst i c = Some (dst[i := c])" by (simp add: mem_simps put8_def)
    with True n "2.IH" "2.prems" show ?thesis by (simp add: name_char_def)
  next
    case False
    then have "take (nat n - 1) (takeWhile name_char (c # src)) = []"
      using 2 by (auto simp: name_char_def)
    with False 2 show ?thesis by (auto simp: name_char_def mem_simps put8_def)
  qed
qed simp

end
