(* ===== verification/Nvedit.thy ===== *)
theory Nvedit
  imports Cstring
begin

text \<open>
  The environment of \<^verbatim>\<open>misc/nvedit.c\<close>: two static arrays of twenty rows of twenty bytes. An
  array is the flat list of its 400 bytes, as it lies in memory, so a string that overflows its
  row runs into the next one, and one that overflows the last row is undefined (\<open>None\<close>). A
  returned \<^verbatim>\<open>char *\<close> is the row it points to: a later \<open>env_set\<close> of the same row changes what it
  reads. The lemmas relate the operations to a finite map, and show that the search for a row
  never looks for a free one: every new name is put in the last row.
\<close>

record env =
  keys :: bytes
  vals :: bytes

definition env_init :: env where
  "env_init = \<lparr>keys = replicate 400 0, vals = replicate 400 0\<rparr>"

definition row :: "bytes \<Rightarrow> nat \<Rightarrow> bytes" where
  "row a idx = drop (20 * idx) a"

section \<open>Operations\<close>

text \<open>The row of a name, from \<open>idx\<close> on; \<open>n\<close> is the bound of the loop.\<close>

function find_key :: "bytes \<Rightarrow> bytes \<Rightarrow> nat \<Rightarrow> nat \<Rightarrow> nat option" where
  "find_key ks name n idx =
     (if idx < n then do {
        c \<leftarrow> load8 ks (20 * idx);
        (if c \<noteq> 0 then do {
           r \<leftarrow> strcmp name (row ks idx);
           (if r = 0 then Some idx else find_key ks name n (idx + 1)) }
         else find_key ks name n (idx + 1)) }
      else Some n)"
  by pat_completeness auto
termination by (relation "measure (\<lambda>(_, _, n, idx). n - idx)") auto

declare find_key.simps [simp del]

text \<open>\<open>val\<close> is \<open>None\<close> for \<^verbatim>\<open>NULL\<close>, which \<^verbatim>\<open>strcpy\<close> dereferences.\<close>

definition env_set :: "env \<Rightarrow> bytes \<Rightarrow> bytes option \<Rightarrow> (env \<times> u32) option" where
  "env_set e name val = do {
     idx \<leftarrow> find_key (keys e) name 19 0;
     ks \<leftarrow> strcpy (keys e) (20 * idx) name;
     v \<leftarrow> val;
     vs \<leftarrow> strcpy (vals e) (20 * idx) v;
     Some (\<lparr>keys = ks, vals = vs\<rparr>, 0) }"

text \<open>The result is the row of the value, or \<^verbatim>\<open>NULL\<close>.\<close>

definition env_get :: "env \<Rightarrow> bytes \<Rightarrow> nat option option" where
  "env_get e name = do {
     idx \<leftarrow> find_key (keys e) name 20 0;
     Some (if idx < 20 then Some idx else None) }"

text \<open>What the pointer returned by \<open>env_get\<close> reads.\<close>

definition env_val :: "env \<Rightarrow> nat \<Rightarrow> bytes" where
  "env_val e idx = row (vals e) idx"

section \<open>The environment as a map\<close>

text \<open>
  Well formed: both arrays have their size and every row holds a terminated string.
\<close>

definition row_str :: "bytes \<Rightarrow> nat \<Rightarrow> bytes" where
  "row_str a idx = c_str (take 20 (row a idx))"

definition env_wf :: "env \<Rightarrow> bool" where
  "env_wf e \<longleftrightarrow> length (keys e) = 400 \<and> length (vals e) = 400 \<and>
     (\<forall>i < 20. terminated (take 20 (row (keys e) i)) \<and> terminated (take 20 (row (vals e) i)))"

text \<open>The row \<open>env_set\<close> uses for a name, and the value found there.\<close>

definition env_slot :: "env \<Rightarrow> bytes \<Rightarrow> nat" where
  "env_slot e name =
     (case find (\<lambda>i. row_str (keys e) i = name) [0..<19] of None \<Rightarrow> 19 | Some i \<Rightarrow> i)"

definition env_lookup :: "env \<Rightarrow> bytes \<Rightarrow> bytes option" where
  "env_lookup e name =
     (if row_str (keys e) (env_slot e name) = name then Some (row_str (vals e) (env_slot e name)) else None)"

lemma env_init_wf: "env_wf env_init"
  by (auto simp: env_wf_def env_init_def row_def row_str_def terminated_def c_str_def)

lemma c_str_take: "terminated (take n b) \<Longrightarrow> c_str (take n b) = c_str b"
  by (induction b arbitrary: n) (auto simp: take_Cons split: nat.splits)

lemma row_str_eq: "terminated (take 20 (row a i)) \<Longrightarrow> c_str (row a i) = row_str a i"
  by (simp add: row_str_def c_str_take)

lemma terminated_take: "terminated (take n b) \<Longrightarrow> terminated b"
  by (auto simp: terminated_def dest: in_set_takeD)

text \<open>The search finds the first row with the name, if it is not empty.\<close>

lemma find_key_eq:
  assumes "length ks = 400" "\<forall>i < 20. terminated (take 20 (row ks i))" "n \<le> 20" "idx \<le> n"
    "terminated name" "c_str name \<noteq> []"
  shows "find_key ks name n idx =
    Some (case find (\<lambda>i. row_str ks i = c_str name) [idx..<n] of None \<Rightarrow> n | Some i \<Rightarrow> i)"
  using assms
proof (induction ks name n idx rule: find_key.induct)
  case (1 ks name n idx)
  show ?case
  proof (cases "idx < n")
    case True
    then have idx: "idx < 20" using "1.prems" by linarith
    then have ks: "20 * idx < length ks" and t: "terminated (take 20 (row ks idx))"
      using "1.prems" by simp_all
    have upt: "[idx..<n] = idx # [Suc idx..<n]" using True by (rule upt_conv_Cons)
    have c: "load8 ks (20 * idx) = Some (ks ! (20 * idx))" using ks by (simp add: mem_simps get8_def)
    have nul: "ks ! (20 * idx) = 0 \<longleftrightarrow> row_str ks idx = []"
      using ks by (simp add: row_str_def row_def flip: Cons_nth_drop_Suc)
    obtain r where r: "strcmp name (row ks idx) = Some r" "r = 0 \<longleftrightarrow> c_str name = row_str ks idx"
      using strcmp_Some [OF "1.prems"(5) terminated_take [OF t]] row_str_eq [OF t] by metis
    show ?thesis
    proof (cases "row_str ks idx = c_str name")
      case found: True
      then show ?thesis using True c r nul "1.prems"(6)
        by (subst find_key.simps) (simp add: upt)
    next
      case other: False
      have "find_key ks name n (idx + 1) =
          Some (case find (\<lambda>i. row_str ks i = c_str name) [Suc idx..<n] of None \<Rightarrow> n | Some i \<Rightarrow> i)"
        using "1.IH" "1.prems" True c r(1) nul other r(2) by (cases "ks ! (20 * idx) = 0") auto
      then show ?thesis using True c r nul other
        by (subst find_key.simps) (auto simp: upt)
    qed
  next
    case False
    then show ?thesis using "1.prems" by (subst find_key.simps) simp
  qed
qed

text \<open>Writing one row changes that row only.\<close>

lemma take_row: "take 20 (row a i) = get_bytes a (20 * i) 20"
  by (simp add: row_def get_bytes_def)

lemma rows_put:
  assumes "length a = 400" "idx < 20" "i < 20" "0 \<notin> set s" "length s < 20"
  shows "row_str (put_bytes a (20 * idx) (s @ [0])) i = (if i = idx then s else row_str a i)"
    and "terminated (take 20 (row a i)) \<Longrightarrow>
      terminated (take 20 (row (put_bytes a (20 * idx) (s @ [0])) i))"
proof -
  let ?a = "put_bytes a (20 * idx) (s @ [0])"
  have other: "take 20 (row ?a i) = take 20 (row a i)" if "i \<noteq> idx"
  proof -
    have "20 * i + 20 \<le> 20 * idx \<or> 20 * idx + length (s @ [0]) \<le> 20 * i"
      using that assms(5) by (simp add: nat_neq_iff) linarith
    then show ?thesis unfolding take_row using assms(1,3) by (intro cb.frame) auto
  qed
  have same: "\<exists>rest. take 20 (row ?a idx) = s @ 0 # rest"
  proof -
    have "row ?a idx = s @ 0 # drop (20 * idx + length s + 1) a"
      using assms(1,2,5) by (simp add: row_def put_bytes_eq)
    then show ?thesis using assms(5) by (simp add: take_Cons')
  qed
  then show "row_str ?a i = (if i = idx then s else row_str a i)"
    using other assms(4) by (auto simp: row_str_def)
  show "terminated (take 20 (row a i)) \<Longrightarrow> terminated (take 20 (row ?a i))"
    using other same by (cases "i = idx") auto
qed

definition short_string :: "bytes \<Rightarrow> bool" where
  "short_string s \<longleftrightarrow> terminated s \<and> length (c_str s) < 20"

lemma env_slot_less: "env_slot e name < 20"
  by (auto simp: env_slot_def find_Some_iff split: option.split)

text \<open>The effect of storing the text \<open>v\<close> under the text \<open>name\<close>.\<close>

definition env_put :: "env \<Rightarrow> bytes \<Rightarrow> bytes \<Rightarrow> env" where
  "env_put e name v =
     \<lparr>keys = put_bytes (keys e) (20 * env_slot e name) (name @ [0]),
      vals = put_bytes (vals e) (20 * env_slot e name) (v @ [0])\<rparr>"

lemma env_set_eq:
  assumes "env_wf e" "short_string name" "c_str name \<noteq> []" "short_string v"
  shows "env_set e name (Some v) = Some (env_put e (c_str name) (c_str v), 0)"
proof -
  let ?i = "env_slot e (c_str name)"
  have "find_key (keys e) name 19 0 = Some ?i"
    using assms(1-3) by (subst find_key_eq) (auto simp: env_wf_def short_string_def env_slot_def)
  moreover have "20 * ?i + 20 \<le> 400" using env_slot_less [of e "c_str name"] by linarith
  ultimately show ?thesis
    using assms by (simp add: env_set_def env_put_def short_string_def env_wf_def strcpy_eq)
qed

lemma c_str_no_nul [simp]: "0 \<notin> set (c_str s)"
  by (auto simp: c_str_def dest: set_takeWhileD)

lemma find_SomeD: "find P xs = Some x \<Longrightarrow> x \<in> set xs \<and> P x"
  by (induction xs) (auto split: if_splits)

lemma env_slot_row: "env_slot e name < 19 \<Longrightarrow> row_str (keys e) (env_slot e name) = name"
  by (auto simp: env_slot_def dest: find_SomeD split: option.splits)

lemma env_slot_other:
  assumes "i < 19" "row_str (keys e) i = name"
  shows "env_slot e name < 19"
  using assms by (auto simp: env_slot_def find_Some_iff find_None_iff split: option.split)

lemma find_cong_set: "(\<And>x. x \<in> set xs \<Longrightarrow> P x \<longleftrightarrow> Q x) \<Longrightarrow> find P xs = find Q xs"
  by (induction xs) auto

lemma env_slot_cong:
  "(\<And>i. i < 19 \<Longrightarrow> row_str (keys e') i = row_str (keys e) i) \<Longrightarrow> env_slot e' m = env_slot e m"
  unfolding env_slot_def
  by (rule arg_cong [where f = "case_option 19 id", unfolded id_def]) (auto intro!: find_cong_set)

text \<open>What storing does to the rows.\<close>

definition env_text :: "bytes \<Rightarrow> bool" where
  "env_text s \<longleftrightarrow> 0 \<notin> set s \<and> length s < 20"

lemma env_text_c_str: "short_string s \<Longrightarrow> env_text (c_str s)"
  by (simp add: short_string_def env_text_def)

lemma env_put_rows:
  assumes "env_wf e" "env_text name" "env_text v" "i < 20"
  shows "row_str (keys (env_put e name v)) i = (if i = env_slot e name then name else row_str (keys e) i)"
    and "row_str (vals (env_put e name v)) i = (if i = env_slot e name then v else row_str (vals e) i)"
  using assms env_slot_less [of e name] by (simp_all add: env_put_def env_wf_def env_text_def rows_put)

lemma env_put_wf: "env_wf e \<Longrightarrow> env_text name \<Longrightarrow> env_text v \<Longrightarrow> env_wf (env_put e name v)"
  using env_slot_less [of e name] by (simp add: env_put_def env_wf_def env_text_def rows_put)

text \<open>The names of the first 19 rows never change, so the row of a name does not either.\<close>

lemma env_put_low_rows:
  assumes "env_wf e" "env_text name" "env_text v" "i < 19"
  shows "row_str (keys (env_put e name v)) i = row_str (keys e) i"
  using env_put_rows(1) [OF assms(1-3), of i] env_slot_row [of e name] assms(4) by auto

lemma env_put_slot:
  "env_wf e \<Longrightarrow> env_text name \<Longrightarrow> env_text v \<Longrightarrow> env_slot (env_put e name v) m = env_slot e m"
  by (rule env_slot_cong) (rule env_put_low_rows)

lemma env_lookup_put:
  assumes "env_wf e" "env_text name" "env_text v"
  shows "env_lookup (env_put e name v) name = Some v"
  using env_slot_less [of e name] assms by (simp add: env_lookup_def env_put_slot env_put_rows)

lemma env_lookup_put_other:
  assumes "env_wf e" "env_text name" "env_text v" "m \<noteq> name"
  shows "env_lookup (env_put e name v) m =
    (if env_slot e name = 19 \<and> env_slot e m = 19 then None else env_lookup e m)"
proof (cases "env_slot e m = env_slot e name")
  case True
  then have "env_slot e m = 19"
    using assms env_slot_row [of e m] env_slot_row [of e name] env_slot_less [of e m] by force
  with True assms show ?thesis by (simp add: env_lookup_def env_put_slot env_put_rows)
next
  case False
  with env_slot_less [of e m] assms show ?thesis by (simp add: env_lookup_def env_put_slot env_put_rows)
qed

text \<open>
  The interface the drivers rely on: a store that keeps its invariant and returns what was
  last stored under a name. What it promises of the other names is not part of it: the code
  does not keep them.
\<close>

locale var_store =
  fixes wf :: "'s \<Rightarrow> bool" and ok :: "bytes \<Rightarrow> bool"
    and put :: "'s \<Rightarrow> bytes \<Rightarrow> bytes \<Rightarrow> 's" and look :: "'s \<Rightarrow> bytes \<Rightarrow> bytes option"
  assumes put_wf: "wf s \<Longrightarrow> ok n \<Longrightarrow> ok v \<Longrightarrow> wf (put s n v)"
    and look_put: "wf s \<Longrightarrow> ok n \<Longrightarrow> ok v \<Longrightarrow> look (put s n v) n = Some v"
begin

lemma puts_wf:
  "wf s \<Longrightarrow> \<forall>(n, v) \<in> set nvs. ok n \<and> ok v \<Longrightarrow> wf (foldl (\<lambda>s (n, v). put s n v) s nvs)"
  by (induction nvs arbitrary: s) (auto simp: put_wf)

lemma puts_last:
  assumes "wf s" "\<forall>(n, v) \<in> set (nvs @ [(n0, v0)]). ok n \<and> ok v"
  shows "look (foldl (\<lambda>s (n, v). put s n v) s (nvs @ [(n0, v0)])) n0 = Some v0"
  using puts_wf [of s nvs] assms by (simp add: look_put)

end

interpretation envs: var_store env_wf env_text env_put env_lookup
  by unfold_locales (simp_all add: env_put_wf env_lookup_put)

text \<open>What \<open>env_get\<close> returns.\<close>

lemma env_get_eq:
  assumes "env_wf e" "terminated name" "c_str name \<noteq> []"
  shows "env_get e name = Some (if env_lookup e (c_str name) = None then None else Some (env_slot e (c_str name)))"
proof -
  let ?P = "\<lambda>i. row_str (keys e) i = c_str name"
  have upt: "[0..<20] = [0..<19] @ [19]" by (simp add: upt_rec)
  have app: "find P (xs @ ys) = (case find P xs of None \<Rightarrow> find P ys | Some i \<Rightarrow> Some i)"
    for P :: "nat \<Rightarrow> bool" and xs ys by (induction xs) auto
  have key: "find_key (keys e) name 20 0 = Some (case find ?P [0..<20] of None \<Rightarrow> 20 | Some i \<Rightarrow> i)"
    using assms by (subst find_key_eq) (auto simp: env_wf_def)
  show ?thesis
  proof (cases "find ?P [0..<19]")
    case None
    then show ?thesis by (simp add: env_get_def env_lookup_def env_slot_def key upt app)
  next
    case (Some i)
    then have "i < 19" "?P i" by (auto dest: find_SomeD)
    with Some show ?thesis by (simp add: env_get_def env_lookup_def env_slot_def key upt app)
  qed
qed

text \<open>With the first 19 rows free, as they are from the start, one variable exists at a time.\<close>

definition low_rows_free :: "env \<Rightarrow> bool" where
  "low_rows_free e \<longleftrightarrow> (\<forall>i < 19. row_str (keys e) i = [])"

lemma low_rows_free_init: "low_rows_free env_init"
  by (auto simp: low_rows_free_def row_str_def row_def env_init_def c_str_def)

lemma low_rows_free_put:
  "env_wf e \<Longrightarrow> env_text name \<Longrightarrow> env_text v \<Longrightarrow> low_rows_free e \<Longrightarrow> low_rows_free (env_put e name v)"
  by (simp add: low_rows_free_def env_put_low_rows)

lemma low_rows_free_slot:
  assumes "low_rows_free e" "name \<noteq> []"
  shows "env_slot e name = 19"
proof (rule ccontr)
  assume "env_slot e name \<noteq> 19"
  with env_slot_less [of e name] have "env_slot e name < 19" by linarith
  with assms env_slot_row [of e name] show False by (simp add: low_rows_free_def)
qed



end
