(* ===== verification/Timer.thy ===== *)
theory Timer
  imports Prelude
begin

text \<open>
  Time: \<^verbatim>\<open>misc/timer.c\<close> and \<^verbatim>\<open>udelay\<close> of \<^verbatim>\<open>misc/time.c\<close>, and the timer registers \<^verbatim>\<open>timer_init\<close> and
  \<^verbatim>\<open>timer_exit\<close> write.

  The clock is the instruction \<^verbatim>\<open>rdtime\<close>, a parameter: \<open>rdtime h\<close> is the counter read in the
  machine state \<open>h\<close> and the state after it. The polling loops may run forever, on a clock
  that stands still, and are \<open>partial_function\<close>s. The lemmas show that a delay ends, and not
  too early, on a clock that advances, as long as the 64-bit deadline does not wrap, and what
  \<^verbatim>\<open>get_timer\<close> computes, with the sign extension of its \<^verbatim>\<open>int\<close>.
\<close>

type_synonym 'h clock = "'h \<Rightarrow> u64 \<times> 'h"

section \<open>Operations\<close>

definition lldiv :: "u64 \<Rightarrow> u32 \<Rightarrow> u64" where
  "lldiv dividend divisor = dividend div ucast divisor"

definition read_timer :: "'h clock \<Rightarrow> 'h \<Rightarrow> u64 \<times> 'h" where
  "read_timer rdtime h = rdtime h"

partial_function (option) delay_poll :: "'h clock \<Rightarrow> u64 \<Rightarrow> 'h \<Rightarrow> 'h option" where
  "delay_poll rdtime t2 h =
     (case read_timer rdtime h of (t1, h') \<Rightarrow>
        if t2 \<ge> t1 then delay_poll rdtime t2 h' else Some h')"

definition udelay_raw :: "'h clock \<Rightarrow> u64 \<Rightarrow> 'h \<Rightarrow> 'h option" where
  "udelay_raw rdtime us h =
     (case read_timer rdtime h of (t1, h') \<Rightarrow> delay_poll rdtime (t1 + us * 24) h')"

definition usdelay :: "'h clock \<Rightarrow> u64 \<Rightarrow> 'h \<Rightarrow> 'h option" where
  "usdelay rdtime us h =
     (case read_timer rdtime h of (t1, h') \<Rightarrow> delay_poll rdtime (t1 + us * 24) h')"

definition msdelay :: "'h clock \<Rightarrow> u64 \<Rightarrow> 'h \<Rightarrow> 'h option" where
  "msdelay rdtime ms h = usdelay rdtime (ms * 1000) h"

abbreviation (input) CONFIG_WD_PERIOD :: u64 where "CONFIG_WD_PERIOD \<equiv> 10000000"

text \<open>\<^verbatim>\<open>udelay\<close> waits in slices of the watchdog period.\<close>

function udelay :: "'h clock \<Rightarrow> u64 \<Rightarrow> 'h \<Rightarrow> 'h option" where
  "udelay rdtime usec h = (
     let kv = (if usec > CONFIG_WD_PERIOD then CONFIG_WD_PERIOD else usec)
     in case udelay_raw rdtime kv h of
          None \<Rightarrow> None
        | Some h \<Rightarrow> if usec - kv \<noteq> 0 then udelay rdtime (usec - kv) h else Some h)"
  by pat_completeness auto
termination
proof (relation "measure (\<lambda>(_, usec, _). unat usec)", simp)
  fix rdtime :: "'h clock" and usec kv :: u64 and h h' :: 'h
  assume "kv = (if usec > CONFIG_WD_PERIOD then CONFIG_WD_PERIOD else usec)" "usec - kv \<noteq> 0"
  then have "usec > CONFIG_WD_PERIOD" "kv = CONFIG_WD_PERIOD" by (auto split: if_splits)
  then have "unat (usec - kv) < unat usec"
    by (simp add: unat_sub word_less_nat_alt order_less_imp_le word_le_nat_alt)
  then show "((rdtime, usec - kv, h'), rdtime, usec, h) \<in> measure (\<lambda>(_, usec, _). unat usec)"
    by simp
qed

declare udelay.simps [simp del]

definition mdelay :: "'h clock \<Rightarrow> nat \<Rightarrow> 'h \<Rightarrow> 'h option" where
  "mdelay rdtime msec h = ((\<lambda>r. r \<bind> udelay rdtime 1000) ^^ msec) (Some h)"

text \<open>The \<^verbatim>\<open>int\<close> result of \<^verbatim>\<open>runtime_tick\<close>, and its conversion to \<^verbatim>\<open>ulong\<close>.\<close>

definition runtime_tick :: "'h clock \<Rightarrow> 'h \<Rightarrow> u32 \<times> 'h" where
  "runtime_tick rdtime h = (case read_timer rdtime h of (cnt, h') \<Rightarrow> (ucast (lldiv cnt 24000), h'))"

definition get_timer_masked :: "'h clock \<Rightarrow> 'h \<Rightarrow> u64 \<times> 'h" where
  "get_timer_masked rdtime h = (case runtime_tick rdtime h of (now, h') \<Rightarrow> (scast now, h'))"

definition get_timer :: "'h clock \<Rightarrow> u64 \<Rightarrow> 'h \<Rightarrow> u64 \<times> 'h" where
  "get_timer rdtime base h = (case get_timer_masked rdtime h of (now, h') \<Rightarrow> (now - base, h'))"

definition get_ticks :: "'h clock \<Rightarrow> 'h \<Rightarrow> u64 \<times> 'h" where
  "get_ticks rdtime h = read_timer rdtime h"

definition get_tbclk :: u64 where
  "get_tbclk = 1000"

text \<open>The conversions of \<^verbatim>\<open>time.c\<close>, which multiply before they divide.\<close>

definition tick_to_time :: "u64 \<Rightarrow> u64" where
  "tick_to_time tick = (tick * 1000) div ucast (ucast get_tbclk :: u32)"

definition timer_get_us :: "'h clock \<Rightarrow> 'h \<Rightarrow> u64 \<times> 'h" where
  "timer_get_us rdtime h = (case get_ticks rdtime h of (t, h') \<Rightarrow> (tick_to_time (t * 1000), h'))"

definition usec_to_tick :: "u64 \<Rightarrow> u64" where
  "usec_to_tick usec = (usec * get_tbclk) div 1000000"

section \<open>Timer registers\<close>

record sunxi_timer_reg =
  tirqen :: u32
  tirqsta :: u32
  timer0_ctl :: u32
  timer1_ctl :: u32

definition timer_init :: "sunxi_timer_reg \<Rightarrow> sunxi_timer_reg" where
  "timer_init t = (let t = t\<lparr>tirqen := 0\<rparr> in t\<lparr>tirqsta := tirqsta t OR 0x03\<rparr>)"

definition timer_exit :: "sunxi_timer_reg \<Rightarrow> sunxi_timer_reg" where
  "timer_exit t =
     (let t = t\<lparr>tirqen := 0\<rparr>;
          t = t\<lparr>tirqsta := tirqsta t OR 0x043f\<rparr>;
          t = t\<lparr>timer0_ctl := 0\<rparr>
      in t\<lparr>timer1_ctl := 0\<rparr>)"

section \<open>Delays end\<close>

text \<open>
  A clock that advances: the counter shows \<open>time h\<close> as long as it fits 64 bits, and every
  read takes between one and \<open>d\<close> ticks.
\<close>

definition ticking :: "'h clock \<Rightarrow> ('h \<Rightarrow> nat) \<Rightarrow> nat \<Rightarrow> bool" where
  "ticking rdtime time d \<longleftrightarrow>
     (\<forall>h. (time h < 2 ^ 64 \<longrightarrow> unat (fst (rdtime h)) = time h) \<and>
          time h < time (snd (rdtime h)) \<and> time (snd (rdtime h)) \<le> time h + d)"

lemma tickingD:
  assumes "ticking rdtime time d" "rdtime h = (t, h')"
  shows "time h < 2 ^ 64 \<Longrightarrow> unat t = time h" "time h < time h'" "time h' \<le> time h + d"
  using assms unfolding ticking_def by (metis fst_conv snd_conv)+

lemma delay_poll_ends:
  assumes clock: "ticking rdtime time d" and fits: "unat t2 + d < 2 ^ 64" "time h < 2 ^ 64"
  shows "\<exists>h'. delay_poll rdtime t2 h = Some h' \<and> unat t2 < time h' \<and> time h < time h' \<and>
    time h' \<le> max (unat t2 + d) (time h) + d"
  using fits
proof (induction "unat t2 - time h" arbitrary: h rule: less_induct)
  case less
  obtain t1 h1 where r: "rdtime h = (t1, h1)" by (cases "rdtime h")
  note tick = tickingD [OF clock r]
  have t1: "unat t1 = time h" using tick(1) less.prems by simp
  show ?case
  proof (cases "t2 \<ge> t1")
    case True
    then have le: "time h \<le> unat t2" using t1 by (simp add: word_le_nat_alt)
    then have h1: "time h1 \<le> unat t2 + d" "time h1 < 2 ^ 64" using tick less.prems by linarith+
    show ?thesis
    proof (cases "time h = unat t2")
      case False
      then have "unat t2 - time h1 < unat t2 - time h" using le tick by linarith
      with less.hyps [OF _ less.prems(1) h1(2)] obtain h' where
        "delay_poll rdtime t2 h1 = Some h'" "unat t2 < time h'" "time h1 < time h'"
        "time h' \<le> max (unat t2 + d) (time h1) + d" by blast
      with True r h1 tick show ?thesis by (subst delay_poll.simps) (auto simp: read_timer_def)
    next
      case eq: True
      obtain t3 h3 where r3: "rdtime h1 = (t3, h3)" by (cases "rdtime h1")
      note tick3 = tickingD [OF clock r3]
      have "\<not> t2 \<ge> t3" using tick3(1) h1(2) eq tick by (simp add: word_le_nat_alt)
      then have "delay_poll rdtime t2 h1 = Some h3"
        using r3 by (subst delay_poll.simps) (simp add: read_timer_def)
      with True r eq tick tick3 h1 show ?thesis
        by (subst delay_poll.simps) (auto simp: read_timer_def)
    qed
  next
    case False
    with r t1 tick show ?thesis
      by (subst delay_poll.simps) (auto simp: read_timer_def word_le_nat_alt)
  qed
qed

lemma udelay_raw_ends:
  assumes clock: "ticking rdtime time d" and fits: "time h + 24 * unat us + d < 2 ^ 64"
  shows "\<exists>h'. udelay_raw rdtime us h = Some h' \<and> time h + 24 * unat us < time h' \<and>
    time h' \<le> time h + 24 * unat us + 2 * d"
proof -
  obtain t1 h1 where r: "rdtime h = (t1, h1)" by (cases "rdtime h")
  note tick = tickingD [OF clock r]
  have t1: "unat t1 = time h" using tick(1) fits by simp
  have m: "unat (us * 24) = 24 * unat us" using fits by (simp add: unat_word_ariths)
  have t2: "unat (t1 + us * 24) = time h + 24 * unat us"
    using fits t1 m by (subst unat_word_ariths) simp
  moreover have "time h1 < 2 ^ 64" using tick fits by linarith
  moreover have "unat (t1 + us * 24) + d < 2 ^ 64" using fits t2 by simp
  ultimately obtain h' where "delay_poll rdtime (t1 + us * 24) h1 = Some h'"
    "unat (t1 + us * 24) < time h'" "time h' \<le> max (unat (t1 + us * 24) + d) (time h1) + d"
    using delay_poll_ends [OF clock] by blast
  with r t2 tick show ?thesis by (simp add: udelay_raw_def read_timer_def)
qed

text \<open>Each slice of \<^verbatim>\<open>udelay\<close> may overshoot its deadline by a few reads.\<close>

text \<open>
  On a clock that advances by at most \<open>d\<close> ticks a read, \<^verbatim>\<open>udelay\<close> returns, and not before the delay
  is over, as long as the deadline fits the 64-bit counter.
\<close>

lemma udelay_ends:
  assumes clock: "ticking rdtime time d"
    and fits: "time h + 24 * unat usec + 3 * d * (unat usec div 10000000 + 1) < 2 ^ 64"
  shows "\<exists>h'. udelay rdtime usec h = Some h' \<and> time h + 24 * unat usec < time h'"
  using assms
proof (induction rdtime usec h rule: udelay.induct)
  case (1 rdtime usec h)
  let ?kv = "if usec > CONFIG_WD_PERIOD then CONFIG_WD_PERIOD else usec"
  let ?q = "unat usec div 10000000"
  have kv: "unat ?kv = min (unat usec) 10000000" by (auto simp: word_less_nat_alt)
  have "d \<le> 3 * d * (?q + 1)" by simp
  then have "time h + 24 * unat ?kv + d < 2 ^ 64" using "1.prems"(2) kv by linarith
  then obtain h1 where h1: "udelay_raw rdtime ?kv h = Some h1" "time h + 24 * unat ?kv < time h1"
    "time h1 \<le> time h + 24 * unat ?kv + 2 * d"
    using udelay_raw_ends [OF "1.prems"(1)] by blast
  show ?case
  proof (cases "usec - ?kv = 0")
    case True
    then have "?kv = usec" by simp
    with h1 True show ?thesis by (subst udelay.simps) (auto simp: Let_def)
  next
    case False
    then have big: "usec > CONFIG_WD_PERIOD" by (auto split: if_splits)
    then have rest: "unat (usec - ?kv) = unat usec - 10000000" and ge: "10000000 \<le> unat usec"
      by (simp_all add: unat_sub word_less_nat_alt word_le_nat_alt order_less_imp_le)
    have "unat (usec - ?kv) div 10000000 + 1 = ?q"
      unfolding rest using ge by (simp add: le_div_geq)
    moreover have "3 * d * (?q + 1) = 3 * d * ?q + 3 * d" by simp
    ultimately have "time h1 + 24 * unat (usec - ?kv) + 3 * d * (unat (usec - ?kv) div 10000000 + 1) < 2 ^ 64"
      using "1.prems"(2) h1(3) rest ge kv by simp
    then obtain h' where "udelay rdtime (usec - ?kv) h1 = Some h'" "time h1 + 24 * unat (usec - ?kv) < time h'"
      using "1.IH" [OF refl h1(1) False "1.prems"(1)] by blast
    with h1 False big rest ge kv show ?thesis by (subst udelay.simps) (auto simp: Let_def)
  qed
qed

lemma udelay_ends_witness:
  "\<exists>h'. udelay (\<lambda>n. (of_nat n, n + 1)) 20000000 0 = Some h' \<and> 0 + 24 * unat (20000000 :: u64) < h'"
proof (rule udelay_ends [where time = "\<lambda>n. n" and d = 1])
  show "ticking (\<lambda>n. (of_nat n, n + 1)) (\<lambda>n. n) 1"
    by (simp add: ticking_def unsigned_of_nat take_bit_nat_eq_self_iff)
qed simp

text \<open>A deadline that wraps is met at once: the delay is cut short.\<close>

lemma delay_poll_past:
  "rdtime h = (t1, h') \<Longrightarrow> t2 < t1 \<Longrightarrow> delay_poll rdtime t2 h = Some h'"
  by (subst delay_poll.simps) (auto simp: read_timer_def)

section \<open>Milliseconds\<close>

lemma get_timer_eq:
  assumes "rdtime h = (cnt, h')"
  shows "get_timer rdtime base h = (scast (ucast (cnt div 24000) :: u32) - base, h')"
  using assms by (simp add: get_timer_def get_timer_masked_def runtime_tick_def read_timer_def lldiv_def)

lemma tick_to_time_eq:
  assumes "unat tick * 1000 < 2 ^ 64"
  shows "tick_to_time tick = tick"
proof -
  have "unat (tick * 1000) = unat tick * 1000" using assms by (simp add: unat_word_ariths)
  then have "unat ((tick * 1000) div 1000) = unat tick" by (simp add: unat_div_distrib)
  then show ?thesis by (simp add: tick_to_time_def get_tbclk_def word_unat_eq_iff)
qed

end
