(* ===== verification/NetState.thy ===== *)
theory NetState
  imports NetAddr Nvedit Timer
begin

text \<open>
  The state of the network stack: one record per source file that keeps variables
  (\<^verbatim>\<open>eth_legacy.c\<close>/\<^verbatim>\<open>eth_common.c\<close>, \<^verbatim>\<open>net.c\<close>, \<^verbatim>\<open>arp.c\<close>, \<^verbatim>\<open>ping.c\<close>), the environment, and the machine
  state \<open>'h\<close> of the hardware. A \<^verbatim>\<open>struct eth_device *\<close> is an address into the heap \<open>devs\<close>; the
  transmit buffers are the arrays of the source with the offset of the aligned pointer into
  them; an \<^verbatim>\<open>int\<close> used as a flag is a \<^typ>\<open>bool\<close>.

  The function pointers of a device and the packet and timeout handlers a client registers
  are the record \<open>drv_ops\<close>, a parameter of every operation that calls one. A receive operation
  is split at its call of \<^verbatim>\<open>net_process_received_packet\<close>: \<open>drv_recv\<close> is what it does before,
  with the packet, if there is one, and \<open>drv_recv_done\<close> what it does after, with the buffer as
  the stack left it.
\<close>

section \<open>Ethernet devices\<close>

datatype eth_state = ETH_STATE_INIT | ETH_STATE_PASSIVE | ETH_STATE_ACTIVE

record eth_device =
  dev_name :: bytes
  enetaddr :: bytes
  iobase :: u64
  dev_state :: eth_state
  write_hwaddr :: bool         \<comment> \<open>the pointer is not \<^verbatim>\<open>NULL\<close>\<close>
  dev_next :: "nat option"
  dev_index :: u32

record eth_vars =
  devs :: "nat \<rightharpoonup> eth_device"
  eth_devices :: "nat option"
  eth_current :: "nat option"
  reg_index :: u32             \<comment> \<open>\<^verbatim>\<open>index\<close> of \<^verbatim>\<open>eth_register\<close>\<close>
  first_failed :: "nat option" \<comment> \<open>of \<^verbatim>\<open>eth_try_another\<close>\<close>
  act :: "nat option"          \<comment> \<open>of \<^verbatim>\<open>eth_set_current\<close>: the row of the environment\<close>
  env_changed_id :: u32

section \<open>Protocol state\<close>

datatype net_loop_state = NETLOOP_CONTINUE | NETLOOP_RESTART | NETLOOP_SUCCESS | NETLOOP_FAIL

datatype proto_t = BOOTP | RARP | ARP | TFTPGET | DHCP | PING | DNS | NFS | CDP | NETCONS | SNTP
  | TFTPSRV | TFTPPUT | LINKLOCAL

text \<open>Handlers: those of the source, and the ones a client registers, by number.\<close>

datatype rxhand = dummy_handler | Client_rx nat
datatype thand = ping_timeout_handler | start_again_timeout_handler | Client_timeout nat

record net_vars =
  net_netmask :: u32
  net_gateway :: u32
  net_dns_server :: u32
  net_ethaddr :: bytes
  net_ip :: u32
  net_server_ip :: u32
  net_rx_packet :: u64
  net_rx_packet_len :: u32
  net_ip_id :: u32
  net_state :: net_loop_state
  net_restart_wrap :: bool
  net_restarted :: bool
  net_dev_exists :: bool
  net_our_vlan :: u16
  net_native_vlan :: u16
  net_boot_file_size :: u32
  net_pkt_buf :: bytes
  net_rx_packets :: "nat list" \<comment> \<open>offsets into \<open>net_pkt_buf\<close>\<close>
  udp_packet_handler :: "rxhand option"
  arp_packet_handler :: "rxhand option"
  time_handler :: "thand option"
  time_start :: u64
  time_delta :: u64
  net_tx_packet :: "nat option" \<comment> \<open>offset into \<open>net_pkt_buf\<close>\<close>
  net_try_count :: u32
  first_call :: bool           \<comment> \<open>of \<^verbatim>\<open>net_init\<close>\<close>

text \<open>
  \<open>arp_wait_packet_ethaddr\<close> points to a six-byte buffer of the caller of
  \<^verbatim>\<open>net_send_udp_packet\<close>, such as \<^verbatim>\<open>net_server_ethaddr\<close>; \<open>ether_bufs\<close> holds these buffers.
\<close>

record arp_vars =
  net_arp_wait_packet_ip :: u32
  net_arp_wait_reply_ip :: u32
  arp_wait_packet_ethaddr :: "nat option"
  ether_bufs :: "nat \<rightharpoonup> bytes"
  arp_wait_tx_packet_size :: u32
  arp_wait_timer_start :: u64
  arp_wait_try :: u32
  arp_tx_packet :: "nat option" \<comment> \<open>offset into \<open>arp_tx_packet_buf\<close>\<close>
  arp_tx_packet_buf :: bytes

record ping_vars =
  ping_seq_number :: u16
  net_ping_ip :: u32

record 'h sys =
  hw :: 'h
  envs_of :: env
  eth :: eth_vars
  net :: net_vars
  arp :: arp_vars
  ping :: ping_vars

section \<open>What the stack calls\<close>

record 'h drv_ops =
  drv_time :: "'h clock"
  drv_init :: "nat \<Rightarrow> eth_device \<Rightarrow> 'h \<Rightarrow> (int \<times> 'h) option"
  drv_send :: "nat \<Rightarrow> eth_device \<Rightarrow> bytes \<Rightarrow> u32 \<Rightarrow> 'h \<Rightarrow> (int \<times> 'h) option"
  drv_recv :: "nat \<Rightarrow> eth_device \<Rightarrow> 'h \<Rightarrow> ((u64 \<times> bytes \<times> u32) option \<times> 'h) option"
  drv_recv_done :: "nat \<Rightarrow> eth_device \<Rightarrow> bytes option \<Rightarrow> 'h \<Rightarrow> (int \<times> 'h) option"
  drv_halt :: "nat \<Rightarrow> eth_device \<Rightarrow> 'h \<Rightarrow> 'h option"
  drv_write_hwaddr :: "nat \<Rightarrow> eth_device \<Rightarrow> 'h \<Rightarrow> (int \<times> 'h) option"
  client_rx :: "nat \<Rightarrow> bytes \<Rightarrow> u32 \<Rightarrow> u32 \<Rightarrow> u32 \<Rightarrow> u32 \<Rightarrow> 'h sys \<Rightarrow> 'h sys option"
  client_timeout :: "nat \<Rightarrow> 'h sys \<Rightarrow> 'h sys option"
  stack_addr :: u64            \<comment> \<open>where the local text buffers lie\<close>

section \<open>Access to the parts\<close>

definition upd_eth :: "(eth_vars \<Rightarrow> eth_vars) \<Rightarrow> 'h sys \<Rightarrow> 'h sys" where
  "upd_eth f s = s\<lparr>eth := f (eth s)\<rparr>"

definition upd_net :: "(net_vars \<Rightarrow> net_vars) \<Rightarrow> 'h sys \<Rightarrow> 'h sys" where
  "upd_net f s = s\<lparr>net := f (net s)\<rparr>"

definition upd_arp :: "(arp_vars \<Rightarrow> arp_vars) \<Rightarrow> 'h sys \<Rightarrow> 'h sys" where
  "upd_arp f s = s\<lparr>arp := f (arp s)\<rparr>"

text \<open>The device a pointer leads to.\<close>

definition deref :: "'h sys \<Rightarrow> nat option \<Rightarrow> (nat \<times> eth_device) option" where
  "deref s p = (case p of None \<Rightarrow> None
     | Some a \<Rightarrow> map_option (Pair a) (devs (eth s) a))"

definition put_dev :: "nat \<Rightarrow> eth_device \<Rightarrow> 'h sys \<Rightarrow> 'h sys" where
  "put_dev a d = upd_eth (\<lambda>v. v\<lparr>devs := (devs v)(a \<mapsto> d)\<rparr>)"

text \<open>\<^verbatim>\<open>get_timer\<close>, which reads the clock of the machine.\<close>

definition now :: "'h drv_ops \<Rightarrow> 'h sys \<Rightarrow> u64 \<times> 'h sys" where
  "now ops s = (case get_timer (drv_time ops) 0 (hw s) of (t, h) \<Rightarrow> (t, s\<lparr>hw := h\<rparr>))"

definition net_set_state :: "net_loop_state \<Rightarrow> 'h sys \<Rightarrow> 'h sys" where
  "net_set_state st = upd_net (\<lambda>v. v\<lparr>net_state := st\<rparr>)"

section \<open>The initial state\<close>

text \<open>The static variables as the program starts.\<close>

definition eth_vars_init :: eth_vars where
  "eth_vars_init = \<lparr>devs = Map.empty, eth_devices = None, eth_current = None, reg_index = 0,
     first_failed = None, act = None, env_changed_id = 0\<rparr>"

definition net_vars_init :: net_vars where
  "net_vars_init = \<lparr>net_netmask = 0, net_gateway = 0, net_dns_server = 0,
     net_ethaddr = replicate 6 0, net_ip = 0, net_server_ip = 0, net_rx_packet = 0,
     net_rx_packet_len = 0, net_ip_id = 0, net_state = NETLOOP_CONTINUE, net_restart_wrap = False,
     net_restarted = False, net_dev_exists = False, net_our_vlan = 0xFFFF, net_native_vlan = 0xFFFF,
     net_boot_file_size = 0, net_pkt_buf = replicate 7744 0, net_rx_packets = [0, 0, 0, 0],
     udp_packet_handler = None, arp_packet_handler = None, time_handler = None, time_start = 0,
     time_delta = 0, net_tx_packet = None, net_try_count = 0, first_call = True\<rparr>"

definition arp_vars_init :: arp_vars where
  "arp_vars_init = \<lparr>net_arp_wait_packet_ip = 0, net_arp_wait_reply_ip = 0,
     arp_wait_packet_ethaddr = None, ether_bufs = [0 \<mapsto> replicate 6 0],
     arp_wait_tx_packet_size = 0, arp_wait_timer_start = 0, arp_wait_try = 0,
     arp_tx_packet = None, arp_tx_packet_buf = replicate 1600 0\<rparr>"

definition sys_init :: "'h \<Rightarrow> 'h sys" where
  "sys_init h = \<lparr>hw = h, envs_of = env_init, eth = eth_vars_init, net = net_vars_init,
     arp = arp_vars_init, ping = \<lparr>ping_seq_number = 0, net_ping_ip = 0\<rparr>\<rparr>"

section \<open>Facts about the access functions\<close>

named_theorems sys_simps \<open>selectors and updates of the network state\<close>

lemma upd_sel [sys_simps]:
  "eth (upd_eth f s) = f (eth s)" "net (upd_eth f s) = net s" "arp (upd_eth f s) = arp s"
  "ping (upd_eth f s) = ping s" "hw (upd_eth f s) = hw s" "envs_of (upd_eth f s) = envs_of s"
  "eth (upd_net g s) = eth s" "net (upd_net g s) = g (net s)" "arp (upd_net g s) = arp s"
  "ping (upd_net g s) = ping s" "hw (upd_net g s) = hw s" "envs_of (upd_net g s) = envs_of s"
  "eth (upd_arp k s) = eth s" "net (upd_arp k s) = net s" "arp (upd_arp k s) = k (arp s)"
  "ping (upd_arp k s) = ping s" "hw (upd_arp k s) = hw s" "envs_of (upd_arp k s) = envs_of s"
  by (simp_all add: upd_eth_def upd_net_def upd_arp_def)

lemma put_dev_sel [sys_simps]:
  "eth (put_dev a d s) = (eth s)\<lparr>devs := (devs (eth s))(a \<mapsto> d)\<rparr>" "net (put_dev a d s) = net s"
  "arp (put_dev a d s) = arp s" "ping (put_dev a d s) = ping s" "hw (put_dev a d s) = hw s"
  "envs_of (put_dev a d s) = envs_of s"
  by (simp_all add: put_dev_def sys_simps)

lemma net_set_state_sel [sys_simps]:
  "eth (net_set_state st s) = eth s" "net (net_set_state st s) = (net s)\<lparr>net_state := st\<rparr>"
  "arp (net_set_state st s) = arp s" "ping (net_set_state st s) = ping s"
  "hw (net_set_state st s) = hw s" "envs_of (net_set_state st s) = envs_of s"
  by (simp_all add: net_set_state_def sys_simps)

text \<open>Reading the clock changes the machine state only.\<close>

lemma now_eq: "now ops s = (t, s') \<Longrightarrow> s' = s\<lparr>hw := hw s'\<rparr>"
  by (auto simp: now_def split: prod.splits)

lemma now_sel [sys_simps]:
  "eth (snd (now ops s)) = eth s" "net (snd (now ops s)) = net s" "arp (snd (now ops s)) = arp s"
  "ping (snd (now ops s)) = ping s" "envs_of (snd (now ops s)) = envs_of s"
  by (simp_all add: now_def split: prod.splits)

lemma deref_Some [sys_simps]: "devs (eth s) a = Some d \<Longrightarrow> deref s (Some a) = Some (a, d)"
  by (simp add: deref_def)

lemma deref_None [simp]: "deref s None = None"
  by (simp add: deref_def)

lemma deref_SomeD: "deref s p = Some (a, d) \<Longrightarrow> p = Some a \<and> devs (eth s) a = Some d"
  by (auto simp: deref_def split: option.splits)

end
