(* ===== verification/NetHdr.thy ===== *)
theory NetHdr
  imports NetState Checksum
begin

text \<open>
  The packet headers of \<^verbatim>\<open>net/net.h\<close> and the functions of \<^verbatim>\<open>net/net.c\<close> that write them. A header is
  written in place into a buffer, at an offset; the fields lie where the packed structures of
  the source put them. The lemmas give the layout of every header that is written, and show
  that a written IP header carries a checksum that verifies.
\<close>

section \<open>Sizes and constants\<close>

abbreviation (input) ETHER_HDR_SIZE :: nat where "ETHER_HDR_SIZE \<equiv> 14"
abbreviation (input) E802_HDR_SIZE :: nat where "E802_HDR_SIZE \<equiv> 22"
abbreviation (input) VLAN_ETHER_HDR_SIZE :: nat where "VLAN_ETHER_HDR_SIZE \<equiv> 18"
abbreviation (input) IP_HDR_SIZE :: nat where "IP_HDR_SIZE \<equiv> 20"
abbreviation (input) IP_UDP_HDR_SIZE :: nat where "IP_UDP_HDR_SIZE \<equiv> 28"
abbreviation (input) UDP_HDR_SIZE :: nat where "UDP_HDR_SIZE \<equiv> 8"
abbreviation (input) ICMP_HDR_SIZE :: nat where "ICMP_HDR_SIZE \<equiv> 8"
abbreviation (input) IP_ICMP_HDR_SIZE :: nat where "IP_ICMP_HDR_SIZE \<equiv> 28"
abbreviation (input) ARP_HDR_SIZE :: nat where "ARP_HDR_SIZE \<equiv> 28"

abbreviation (input) PROT_IP :: u16 where "PROT_IP \<equiv> 0x0800"
abbreviation (input) PROT_ARP :: u16 where "PROT_ARP \<equiv> 0x0806"
abbreviation (input) PROT_VLAN :: u16 where "PROT_VLAN \<equiv> 0x8100"

abbreviation (input) IPPROTO_ICMP :: u8 where "IPPROTO_ICMP \<equiv> 1"
abbreviation (input) IPPROTO_UDP :: u8 where "IPPROTO_UDP \<equiv> 17"

definition net_bcast_ethaddr :: bytes where "net_bcast_ethaddr = replicate 6 0xff"
definition net_null_ethaddr :: bytes where "net_null_ethaddr = replicate 6 0"

section \<open>Ethernet headers\<close>

definition net_eth_hdr_size :: "net_vars \<Rightarrow> nat" where
  "net_eth_hdr_size v = (
     let our = ntohs (net_our_vlan v);
         myvlanid = (if our = -1 then VLAN_NONE else our)
     in if myvlanid AND VLAN_IDMASK = VLAN_NONE then ETHER_HDR_SIZE else VLAN_ETHER_HDR_SIZE)"

text \<open>The result is the buffer and the size of the header.\<close>

definition net_set_ether ::
  "net_vars \<Rightarrow> bytes \<Rightarrow> nat \<Rightarrow> bytes \<Rightarrow> u16 \<Rightarrow> (bytes \<times> nat) option" where
  "net_set_ether v b xet dest_ethaddr prot = (
     let our = ntohs (net_our_vlan v);
         myvlanid = (if our = -1 then VLAN_NONE else our)
     in do {
       b \<leftarrow> store_bytes b xet dest_ethaddr;
       b \<leftarrow> store_bytes b (xet + 6) (net_ethaddr v);
       (if myvlanid AND VLAN_IDMASK = VLAN_NONE then do {
          b \<leftarrow> store16 b (xet + 12) (htons prot);
          Some (b, ETHER_HDR_SIZE) }
        else do {
          b \<leftarrow> store16 b (xet + 12) (htons PROT_VLAN);
          b \<leftarrow> store16 b (xet + 14) (htons (myvlanid AND VLAN_IDMASK));
          b \<leftarrow> store16 b (xet + 16) (htons prot);
          Some (b, VLAN_ETHER_HDR_SIZE) }) })"

definition net_update_ether ::
  "net_vars \<Rightarrow> bytes \<Rightarrow> nat \<Rightarrow> bytes \<Rightarrow> u16 \<Rightarrow> (bytes \<times> nat) option" where
  "net_update_ether v b et addr prot = do {
     b \<leftarrow> store_bytes b et addr;
     b \<leftarrow> store_bytes b (et + 6) (net_ethaddr v);
     p \<leftarrow> load16 b (et + 12);
     let protlen = ntohs p;
     (if protlen = PROT_VLAN then do {
        b \<leftarrow> store16 b (et + 16) (htons prot);
        Some (b, VLAN_ETHER_HDR_SIZE) }
      else if protlen > 1514 then do {
        b \<leftarrow> store16 b (et + 12) (htons prot);
        Some (b, ETHER_HDR_SIZE) }
      else do {
        b \<leftarrow> store16 b (et + 20) (htons prot);
        Some (b, E802_HDR_SIZE) }) }"

section \<open>IP and UDP headers\<close>

definition net_set_ip_header ::
  "net_vars \<Rightarrow> bytes \<Rightarrow> nat \<Rightarrow> u32 \<Rightarrow> u32 \<Rightarrow> (bytes \<times> net_vars) option" where
  "net_set_ip_header v b ip dest source = do {
     b \<leftarrow> store8 b ip 0x45;
     b \<leftarrow> store8 b (ip + 1) 0;
     b \<leftarrow> store16 b (ip + 2) (htons 20);
     b \<leftarrow> store16 b (ip + 4) (htons (ucast (net_ip_id v)));
     b \<leftarrow> store16 b (ip + 6) (htons 0x4000);
     b \<leftarrow> store8 b (ip + 8) 255;
     b \<leftarrow> store16 b (ip + 10) 0;
     b \<leftarrow> net_copy_ip b (ip + 12) source;
     b \<leftarrow> net_copy_ip b (ip + 16) dest;
     Some (b, v\<lparr>net_ip_id := net_ip_id v + 1\<rparr>) }"

text \<open>
  The \<^verbatim>\<open>int\<close> parameters \<open>dport\<close>, \<open>sport\<close>, \<open>len\<close> are 32-bit words; a negative \<open>len\<close> makes the
  pad byte land before the payload, or before the buffer.
\<close>

definition net_set_udp_header ::
  "net_vars \<Rightarrow> bytes \<Rightarrow> nat \<Rightarrow> u32 \<Rightarrow> u32 \<Rightarrow> u32 \<Rightarrow> u32 \<Rightarrow> (bytes \<times> net_vars) option" where
  "net_set_udp_header v b ip dest dport sport len = do {
     b \<leftarrow> (if len AND 1 \<noteq> 0 then
             (let i = int ip + 28 + sint len in if i < 0 then None else store8 b (nat i) 0)
           else Some b);
     (b, v) \<leftarrow> net_set_ip_header v b ip dest (net_ip v);
     b \<leftarrow> store16 b (ip + 2) (htons (ucast (28 + len)));
     b \<leftarrow> store8 b (ip + 9) IPPROTO_UDP;
     c \<leftarrow> compute_ip_checksum (drop ip b) 20;
     b \<leftarrow> store16 b (ip + 10) (ucast c);
     b \<leftarrow> store16 b (ip + 20) (htons (ucast sport));
     b \<leftarrow> store16 b (ip + 22) (htons (ucast dport));
     b \<leftarrow> store16 b (ip + 24) (htons (ucast (8 + len)));
     b \<leftarrow> store16 b (ip + 26) 0;
     Some (b, v) }"

section \<open>Writing at an offset\<close>

lemma drop_puts:
  "n \<le> i \<Longrightarrow> drop n (put8 b i v) = put8 (drop n b) (i - n) v"
  "n \<le> i \<Longrightarrow> drop n (put16 b i w) = put16 (drop n b) (i - n) w"
  by (simp_all add: put8_def put16_def drop_update_swap Suc_diff_le)

lemma get16_drop: "n + i + 2 \<le> length b \<Longrightarrow> get16 (drop n b) i = get16 b (n + i)"
  by (simp add: get16_def)

lemma take_puts_outside:
  "n \<le> i \<Longrightarrow> take n (put8 p i v) = take n p"
  "n \<le> i \<Longrightarrow> take n (put16 p i w) = take n p"
  by (simp_all add: put8_def put16_def)

lemma checksum_cong:
  assumes "take (unat n) p = take (unat n) q" "unat n \<le> length p" "unat n \<le> length q" "unat n \<le> 65535"
  shows "compute_ip_checksum p n = compute_ip_checksum q n"
  using assms by (simp add: compute_ip_checksum_eq)

text \<open>Filling in a checksum field that was zero makes the block verify.\<close>

lemma checksum_field:
  assumes "ip + unat n \<le> length b" "unat n \<le> 65535" "even k" "k + 2 \<le> unat n" "get16 b (ip + k) = 0"
  shows "\<exists>c. compute_ip_checksum (drop ip b) n = Some c \<and>
    compute_ip_checksum (drop ip (put16 b (ip + k) (ucast c))) n = Some 0"
proof -
  have len: "unat n \<le> length (drop ip b)" using assms(1) by simp
  then obtain c where c: "compute_ip_checksum (drop ip b) n = Some c"
    using compute_ip_checksum_eq [OF len assms(2)] by blast
  have "get16 (drop ip b) k = 0" using assms by (simp add: get16_drop)
  then have "compute_ip_checksum (put16 (drop ip b) k (ucast c)) n = Some 0"
    by (rule checksum_fill_verifies [OF c len assms(2-4)])
  with c show ?thesis by (simp add: drop_puts)
qed

lemma verifies_ok: "compute_ip_checksum p n = Some 0 \<Longrightarrow> ip_checksum_ok p n = Some True"
  by (simp add: ip_checksum_ok_def)

section \<open>The written headers\<close>

text \<open>The bytes outside a window are kept.\<close>

definition same_outside_window :: "bytes \<Rightarrow> bytes \<Rightarrow> nat \<Rightarrow> nat \<Rightarrow> bool" where
  "same_outside_window b b' i j \<longleftrightarrow> length b' = length b \<and> (\<forall>k. k < i \<or> j \<le> k \<longrightarrow> b' ! k = b ! k)"

lemma same_outside_window_refl [simp]: "same_outside_window b b i j"
  by (simp add: same_outside_window_def)

lemma same_outside_window_put:
  "same_outside_window b b' i j \<Longrightarrow> i \<le> m \<Longrightarrow> m + 1 \<le> j \<Longrightarrow> same_outside_window b (put8 b' m x) i j"
  "same_outside_window b b' i j \<Longrightarrow> i \<le> m \<Longrightarrow> m + 2 \<le> j \<Longrightarrow> same_outside_window b (put16 b' m y) i j"
  "same_outside_window b b' i j \<Longrightarrow> i \<le> m \<Longrightarrow> m + 4 \<le> j \<Longrightarrow> same_outside_window b (put32 b' m z) i j"
  "same_outside_window b b' i j \<Longrightarrow> i \<le> m \<Longrightarrow> m + length xs \<le> j \<Longrightarrow>
    same_outside_window b (put_bytes b' m xs) i j"
  by (auto simp: same_outside_window_def put8_def put16_def put32_def nth_put_bytes_other)

text \<open>The fields of an IP header at \<open>ip\<close>, in host byte order where they are numbers.\<close>

record ip_fields =
  hl_v :: u8
  tos :: u8
  ip_len :: u16
  ip_id :: u16
  ip_off :: u16
  ip_ttl :: u8
  ip_p :: u8
  ip_src :: u32
  ip_dst :: u32

definition read_ip :: "bytes \<Rightarrow> nat \<Rightarrow> ip_fields" where
  "read_ip b ip = \<lparr>hl_v = get8 b ip, tos = get8 b (ip + 1), ip_len = ntohs (get16 b (ip + 2)),
     ip_id = ntohs (get16 b (ip + 4)), ip_off = ntohs (get16 b (ip + 6)), ip_ttl = get8 b (ip + 8),
     ip_p = get8 b (ip + 9), ip_src = get32 b (ip + 12), ip_dst = get32 b (ip + 16)\<rparr>"

lemma net_set_ip_header_eq:
  assumes "ip + 20 \<le> length b"
  shows "\<exists>b'. net_set_ip_header v b ip dest source = Some (b', v\<lparr>net_ip_id := net_ip_id v + 1\<rparr>) \<and>
    same_outside_window b b' ip (ip + 20) \<and> get16 b' (ip + 10) = 0 \<and>
    read_ip b' ip = \<lparr>hl_v = 0x45, tos = 0, ip_len = 20, ip_id = ucast (net_ip_id v), ip_off = 0x4000,
      ip_ttl = 255, ip_p = get8 b (ip + 9), ip_src = source, ip_dst = dest\<rparr>"
  using assms
  by (simp add: net_set_ip_header_def net_copy_ip_def mem_simps read_ip_def same_outside_window_put)

lemma sint_small: "unat (x :: u32) < 2 ^ 31 \<Longrightarrow> sint x = int (unat x)"
proof -
  assume "unat x < 2 ^ 31"
  then have "unat x < 2147483648" by simp
  then have "int (unat x) < 2147483648" by linarith
  then have "uint x < 2 ^ 31" by simp
  moreover have "- (2 ^ 31) \<le> uint x" by (rule order_trans [OF _ uint_ge_0]) simp
  ultimately have "signed_take_bit 31 (uint x) = uint x" by (intro signed_take_bit_int_eq_self) simp_all
  then show ?thesis by (simp add: sint_uint)
qed

lemma odd_word_iff: "(x :: u32) AND 1 \<noteq> 0 \<longleftrightarrow> odd (unat x)"
proof -
  have "unat (x AND 1) = unat x mod 2" by (simp add: and_one_eq unat_mod_distrib)
  then show ?thesis by (metis odd_iff_mod_2_eq_one parity_cases unsigned_eq_0_iff zero_neq_one)
qed

text \<open>The last steps of every IP header: the checksum, over a header whose field is zero.\<close>

lemma ip_checksum_filled:
  assumes "ip + 20 \<le> length b" "get16 b (ip + 10) = 0"
  obtains c where "compute_ip_checksum (drop ip b) 20 = Some c"
    "compute_ip_checksum (drop ip (put16 b (ip + 10) (ucast c))) 20 = Some 0"
  using checksum_field [of ip 20 b 10] assms by auto

lemma net_set_udp_header_eq:
  assumes len: "unat len \<le> 65507" and inb: "ip + 28 + unat len + unat len mod 2 \<le> length b"
  shows "\<exists>b'. net_set_udp_header v b ip dest dport sport len = Some (b', v\<lparr>net_ip_id := net_ip_id v + 1\<rparr>) \<and>
    length b' = length b \<and>
    (\<forall>k. k < ip \<or> ip + 28 \<le> k \<and> k \<noteq> ip + 28 + unat len \<longrightarrow> b' ! k = b ! k) \<and>
    (odd (unat len) \<longrightarrow> b' ! (ip + 28 + unat len) = 0) \<and>
    (even (unat len) \<longrightarrow> ip + 28 + unat len < length b \<longrightarrow> b' ! (ip + 28 + unat len) = b ! (ip + 28 + unat len)) \<and>
    compute_ip_checksum (drop ip b') 20 = Some 0 \<and>
    read_ip b' ip = \<lparr>hl_v = 0x45, tos = 0, ip_len = ucast (28 + len), ip_id = ucast (net_ip_id v),
      ip_off = 0x4000, ip_ttl = 255, ip_p = 17, ip_src = net_ip v, ip_dst = dest\<rparr> \<and>
    ntohs (get16 b' (ip + 20)) = ucast sport \<and> ntohs (get16 b' (ip + 22)) = ucast dport \<and>
    ntohs (get16 b' (ip + 24)) = ucast (8 + len) \<and> get16 b' (ip + 26) = 0"
proof -
  define b0 where "b0 = (if odd (unat len) then put8 b (ip + 28 + unat len) 0 else b)"
  have s: "sint len = int (unat len)" using len by (intro sint_small) simp
  have pad: "(if len AND 1 \<noteq> 0 then
      (let i = int ip + 28 + sint len in if i < 0 then None else store8 b (nat i) 0) else Some b) = Some b0"
  proof -
    have "nat (int ip + 28 + sint len) = ip + 28 + unat len" "\<not> int ip + 28 + sint len < 0"
      unfolding s by linarith+
    then show ?thesis
      using inb by (simp add: b0_def odd_word_iff Let_def store8_def odd_iff_mod_2_eq_one del: of_nat_unat)
  qed
  have l0: "length b0 = length b" by (simp add: b0_def)
  obtain b1 where b1: "net_set_ip_header v b0 ip dest (net_ip v) = Some (b1, v\<lparr>net_ip_id := net_ip_id v + 1\<rparr>)"
    and o1: "same_outside_window b0 b1 ip (ip + 20)" and z1: "get16 b1 (ip + 10) = 0"
    and r1: "read_ip b1 ip = \<lparr>hl_v = 0x45, tos = 0, ip_len = 20, ip_id = ucast (net_ip_id v), ip_off = 0x4000,
      ip_ttl = 255, ip_p = get8 b0 (ip + 9), ip_src = net_ip v, ip_dst = dest\<rparr>"
    using net_set_ip_header_eq [of ip b0 v dest "net_ip v"] inb l0 by auto
  have l1: "length b1 = length b" using o1 l0 by (simp add: same_outside_window_def)
  define b2 where "b2 = put8 (put16 b1 (ip + 2) (htons (ucast (28 + len)))) (ip + 9) IPPROTO_UDP"
  have l2: "length b2 = length b" by (simp add: b2_def l1)
  have z2: "get16 b2 (ip + 10) = 0" using z1 inb l1 by (simp add: b2_def mem_simps)
  obtain c where c: "compute_ip_checksum (drop ip b2) 20 = Some c"
    "compute_ip_checksum (drop ip (put16 b2 (ip + 10) (ucast c))) 20 = Some 0"
    using ip_checksum_filled [OF _ z2] inb l2 by auto
  define b3 where "b3 = put16 b2 (ip + 10) (ucast c)"
  define b4 where "b4 = put16 (put16 (put16 (put16 b3 (ip + 20) (htons (ucast sport))) (ip + 22) (htons (ucast dport)))
    (ip + 24) (htons (ucast (8 + len)))) (ip + 26) 0"
  have run: "net_set_udp_header v b ip dest dport sport len = Some (b4, v\<lparr>net_ip_id := net_ip_id v + 1\<rparr>)"
    unfolding net_set_udp_header_def pad using inb l0 l1 l2 b1 c(1) [unfolded b2_def]
    by (simp add: mem_simps b4_def b3_def b2_def)
  have o4: "same_outside_window b0 b4 ip (ip + 28)"
  proof -
    have "same_outside_window b0 b1 ip (ip + 28)" using o1 by (auto simp: same_outside_window_def)
    then show ?thesis unfolding b4_def b3_def b2_def by (intro same_outside_window_put) simp_all
  qed
  have sum: "compute_ip_checksum (drop ip b4) 20 = Some 0"
  proof -
    have "compute_ip_checksum (drop ip b4) 20 = compute_ip_checksum (drop ip b3) 20"
      using inb l2 by (intro checksum_cong) (simp_all add: b4_def b3_def drop_puts take_puts_outside)
    with c(2) show ?thesis by (simp add: b3_def)
  qed
  have rd: "read_ip b4 ip = \<lparr>hl_v = 0x45, tos = 0, ip_len = ucast (28 + len), ip_id = ucast (net_ip_id v),
      ip_off = 0x4000, ip_ttl = 255, ip_p = 17, ip_src = net_ip v, ip_dst = dest\<rparr>"
    using r1 inb l1 by (simp add: b4_def b3_def b2_def read_ip_def mem_simps)
  have udp: "ntohs (get16 b4 (ip + 20)) = ucast sport" "ntohs (get16 b4 (ip + 22)) = ucast dport"
    "ntohs (get16 b4 (ip + 24)) = ucast (8 + len)" "get16 b4 (ip + 26) = 0"
    using inb l2 by (simp_all add: b4_def b3_def mem_simps)
  have "ip + 28 + unat len < length b" if "odd (unat len)"
    using that inb by (simp add: odd_iff_mod_2_eq_one)
  then show ?thesis
    using run o4 sum rd udp l0
    by (intro exI [of _ b4]) (auto simp: same_outside_window_def b0_def put8_def nth_list_update)
qed

section \<open>Link headers\<close>

text \<open>The VLAN of the interface as the code reads it, and the size of a received link header.\<close>

definition my_vlan :: "net_vars \<Rightarrow> u16" where
  "my_vlan v = (if ntohs (net_our_vlan v) = -1 then VLAN_NONE else ntohs (net_our_vlan v))
     AND VLAN_IDMASK"

definition link_hdr_size :: "bytes \<Rightarrow> nat" where
  "link_hdr_size b = (
     let protlen = ntohs (get16 b 12)
     in if protlen = PROT_VLAN then 18 else if protlen > 1514 then 14 else 22)"

lemma my_vlan_none: "my_vlan v = VLAN_NONE \<longleftrightarrow> ntohs (net_our_vlan v) AND VLAN_IDMASK = VLAN_NONE"
  by (simp add: my_vlan_def)

lemma net_eth_hdr_size_eq: "net_eth_hdr_size v = (if my_vlan v = VLAN_NONE then 14 else 18)"
  by (simp add: net_eth_hdr_size_def my_vlan_def Let_def)

lemma net_set_ether_eq:
  assumes "xet + net_eth_hdr_size v \<le> length b" "length dest = 6" "length (net_ethaddr v) = 6"
  shows "\<exists>b'. net_set_ether v b xet dest prot = Some (b', net_eth_hdr_size v) \<and>
    same_outside_window b b' xet (xet + net_eth_hdr_size v) \<and>
    get_bytes b' xet 6 = dest \<and> get_bytes b' (xet + 6) 6 = net_ethaddr v \<and>
    ntohs (get16 b' (xet + 12)) = (if my_vlan v = VLAN_NONE then prot else PROT_VLAN) \<and>
    (my_vlan v \<noteq> VLAN_NONE \<longrightarrow> ntohs (get16 b' (xet + 14)) = my_vlan v \<and> ntohs (get16 b' (xet + 16)) = prot)"
proof (cases "my_vlan v = VLAN_NONE")
  case True
  then have m: "(if ntohs (net_our_vlan v) = -1 then VLAN_NONE else ntohs (net_our_vlan v)) AND VLAN_IDMASK = VLAN_NONE"
    by (simp add: my_vlan_def)
  from True have sz: "net_eth_hdr_size v = 14" by (simp add: net_eth_hdr_size_eq)
  show ?thesis using assms True
    by (simp only: net_set_ether_def Let_def m sz) (simp add: mem_simps same_outside_window_put)
next
  case False
  then have sz: "net_eth_hdr_size v = 18" by (simp add: net_eth_hdr_size_eq)
  show ?thesis using assms False unfolding sz my_vlan_def
    by (simp add: net_set_ether_def Let_def mem_simps same_outside_window_put split del: if_split)
qed

lemma net_update_ether_eq:
  assumes "link_hdr_size b \<le> length b" "length addr = 6" "length (net_ethaddr v) = 6"
  shows "\<exists>b'. net_update_ether v b 0 addr prot = Some (b', link_hdr_size b) \<and>
    same_outside_window b b' 0 (link_hdr_size b) \<and>
    get_bytes b' 0 6 = addr \<and> get_bytes b' 6 6 = net_ethaddr v \<and>
    ntohs (get16 b' (link_hdr_size b - 2)) = prot \<and>
    (\<forall>k. 12 \<le> k \<and> k < link_hdr_size b - 2 \<longrightarrow> b' ! k = b ! k) \<and>
    (prot > 1514 \<longrightarrow> prot \<noteq> PROT_VLAN \<longrightarrow> link_hdr_size b' = link_hdr_size b)"
proof -
  let ?b = "put_bytes (put_bytes b 0 addr) 6 (net_ethaddr v)"
  have len: "14 \<le> length b"
    using assms(1) by (auto simp: link_hdr_size_def Let_def split: if_splits)
  have p: "get16 ?b 12 = get16 b 12" using assms(2,3) len by (simp add: mem_simps)
  consider "ntohs (get16 b 12) = PROT_VLAN" | "ntohs (get16 b 12) \<noteq> PROT_VLAN" "ntohs (get16 b 12) > 1514"
    | "ntohs (get16 b 12) \<noteq> PROT_VLAN" "\<not> ntohs (get16 b 12) > 1514" by blast
  then show ?thesis
  proof cases
    case 1
    then have sz: "link_hdr_size b = 18" by (simp add: link_hdr_size_def)
    show ?thesis using 1 assms len unfolding sz
      by (simp add: net_update_ether_def mem_simps same_outside_window_put link_hdr_size_def)
        (auto simp: put16_def nth_put_bytes_other)
  next
    case 2
    then have sz: "link_hdr_size b = 14" by (simp add: link_hdr_size_def)
    show ?thesis using 2 assms len unfolding sz
      by (simp add: net_update_ether_def mem_simps same_outside_window_put link_hdr_size_def)
        (auto simp: put16_def nth_put_bytes_other)
  next
    case 3
    then have sz: "link_hdr_size b = 22" by (simp add: link_hdr_size_def)
    show ?thesis using 3 assms len unfolding sz
      by (simp add: net_update_ether_def mem_simps same_outside_window_put link_hdr_size_def)
        (auto simp: put16_def nth_put_bytes_other)
  qed
qed

text \<open>What lies beyond the window can be read as before.\<close>

lemma same_outside_window_get:
  assumes "same_outside_window b b' i j" "j \<le> k"
  shows "k + 1 \<le> length b \<Longrightarrow> get8 b' k = get8 b k" "k + 2 \<le> length b \<Longrightarrow> get16 b' k = get16 b k"
    "k + 4 \<le> length b \<Longrightarrow> get32 b' k = get32 b k" "k + n \<le> length b \<Longrightarrow> get_bytes b' k n = get_bytes b k n"
  using assms by (auto simp: same_outside_window_def get8_def get16_def get32_def intro: get_bytes_eqI)

lemma same_outside_window_length: "same_outside_window b b' i j \<Longrightarrow> length b' = length b"
  by (simp add: same_outside_window_def)

end
