(* ===== verification/Defrag.thy ===== *)
theory Defrag
  imports NetHdr
begin

text \<open>
  Reassembly of IP packets, \<^verbatim>\<open>__net_defragment\<close> of \<^verbatim>\<open>net/net.c\<close>, which the file offers under
  \<^verbatim>\<open>CONFIG_IP_DEFRAG\<close> (the default configuration leaves it out: then \<open>Net.net_defragment\<close> drops every
  fragment). The algorithm is that of RFC 815: the bytes that have not arrived are holes, and the
  descriptor of a hole lies in the packet buffer, where the hole starts. Descriptors and payload
  share the buffer, so the model works on its bytes.

  A hole is named by its index, the number of its block of 8 bytes; \<open>IP_PKTSIZE\<close> is 16384.
\<close>

section \<open>State\<close>

record frag_vars =
  pkt_buff :: bytes
  first_hole :: u16
  total_len :: u16

definition frag_vars_init :: frag_vars where
  "frag_vars_init = \<lparr>pkt_buff = replicate 16384 0, first_hole = 0, total_len = 0\<rparr>"

text \<open>The fields of a descriptor: \<^verbatim>\<open>last_byte\<close>, \<^verbatim>\<open>next_hole\<close>, \<^verbatim>\<open>prev_hole\<close> at 0, 2 and 4 of its 8 bytes.\<close>

abbreviation (input) LAST :: nat where "LAST \<equiv> 0"
abbreviation (input) NEXT :: nat where "NEXT \<equiv> 2"
abbreviation (input) PREV :: nat where "PREV \<equiv> 4"

definition hole_load :: "bytes \<Rightarrow> nat \<Rightarrow> nat \<Rightarrow> u16 option" where
  "hole_load p k f = load16 p (IP_HDR_SIZE + 8 * k + f)"

definition hole_store :: "bytes \<Rightarrow> nat \<Rightarrow> nat \<Rightarrow> u16 \<Rightarrow> bytes option" where
  "hole_store p k f w = store16 p (IP_HDR_SIZE + 8 * k + f) w"

definition hole_copy :: "bytes \<Rightarrow> nat \<Rightarrow> nat \<Rightarrow> bytes option" where
  "hole_copy p h k = load_bytes p (IP_HDR_SIZE + 8 * h) 8 \<bind> store_bytes p (IP_HDR_SIZE + 8 * k)"

section \<open>Operations\<close>

text \<open>Division of an \<^verbatim>\<open>int\<close> by 8, towards 0.\<close>

definition c_div8 :: "int \<Rightarrow> int" where
  "c_div8 x = (if x < 0 then - (- x div 8) else x div 8)"

text \<open>A new packet, or one with another identification: the buffer is one hole.\<close>

definition frag_reset :: "bytes \<Rightarrow> nat \<Rightarrow> frag_vars \<Rightarrow> frag_vars option" where
  "frag_reset b ip v = do {
     new \<leftarrow> load16 b (ip + 4);
     old \<leftarrow> load16 (pkt_buff v) 4;
     (if total_len v = 0 \<or> old \<noteq> new then do {
        p \<leftarrow> hole_store (pkt_buff v) 0 LAST (NOT 0);
        p \<leftarrow> hole_store p 0 NEXT 0;
        p \<leftarrow> hole_store p 0 PREV 0;
        hdr \<leftarrow> load_bytes b ip IP_HDR_SIZE;
        p \<leftarrow> store_bytes p 0 hdr;
        Some \<lparr>pkt_buff = p, first_hole = 0, total_len = 0xffff\<rparr> }
      else Some v) }"

text \<open>The first hole that does not end before \<open>start\<close>. A list of holes that is a ring is walked forever.\<close>

partial_function (option) find_hole :: "bytes \<Rightarrow> nat \<Rightarrow> nat \<Rightarrow> nat option option" where
  "find_hole p start h = do {
     l \<leftarrow> hole_load p h LAST;
     (if unat l < start then do {
        n \<leftarrow> hole_load p h NEXT;
        (if n = 0 then Some None else find_hole p start (unat n)) }
      else Some (Some h)) }"

declare find_hole.simps [code]

text \<open>
  The hole \<open>h\<close> without the fragment of \<open>len\<close> bytes from block \<open>offset8\<close>: the buffer, the first hole, and
  whether none is left.
\<close>

definition remove_hole :: "bytes \<Rightarrow> u16 \<Rightarrow> nat \<Rightarrow> (bytes \<times> u16 \<times> bool) option" where
  "remove_hole p first h = do {
     prev \<leftarrow> hole_load p h PREV;
     next \<leftarrow> hole_load p h NEXT;
     (if prev = 0 \<and> next = 0 then Some (p, first, True)
      else if prev = 0 then do {
        p \<leftarrow> hole_store p (unat next) PREV 0;
        Some (p, next, False) }
      else if next = 0 then do {
        p \<leftarrow> hole_store p (unat prev) NEXT 0;
        Some (p, first, False) }
      else do {
        p \<leftarrow> hole_store p (unat next) PREV prev;
        prev \<leftarrow> hole_load p h PREV;
        next \<leftarrow> hole_load p h NEXT;
        p \<leftarrow> hole_store p (unat prev) NEXT next;
        Some (p, first, False) }) }"

definition new_hole :: "nat \<Rightarrow> int \<Rightarrow> nat option" where
  "new_hole offset8 len =
     (let k = int offset8 + c_div8 len in if k < 0 then None else Some (nat k))"

definition move_hole :: "bytes \<Rightarrow> u16 \<Rightarrow> nat \<Rightarrow> nat \<Rightarrow> (bytes \<times> u16 \<times> bool) option" where
  "move_hole p first h k = do {
     p \<leftarrow> hole_copy p h k;
     next \<leftarrow> hole_load p k NEXT;
     p \<leftarrow> (if next \<noteq> 0 then hole_store p (unat next) PREV (of_nat k) else Some p);
     prev \<leftarrow> hole_load p k PREV;
     (if prev \<noteq> 0 then do {
        p \<leftarrow> hole_store p (unat prev) NEXT (of_nat k);
        Some (p, first, False) }
      else Some (p, of_nat k, False)) }"

definition split_hole :: "bytes \<Rightarrow> u16 \<Rightarrow> nat \<Rightarrow> nat \<Rightarrow> nat \<Rightarrow> (bytes \<times> u16 \<times> bool) option" where
  "split_hole p first h start k = do {
     p \<leftarrow> hole_copy p h k;
     p \<leftarrow> hole_store p h LAST (of_nat start);
     p \<leftarrow> hole_store p h NEXT (of_nat k);
     p \<leftarrow> hole_store p k PREV (of_nat h);
     next \<leftarrow> hole_load p k NEXT;
     p \<leftarrow> (if next \<noteq> 0 then hole_store p (unat next) PREV (of_nat k) else Some p);
     Some (p, first, False) }"

definition cut_hole :: "bytes \<Rightarrow> u16 \<Rightarrow> nat \<Rightarrow> nat \<Rightarrow> int \<Rightarrow> (bytes \<times> u16 \<times> bool) option" where
  "cut_hole p first h offset8 len = do {
     last \<leftarrow> hole_load p h LAST;
     let start = 8 * offset8;
     let covers_end = (int (unat last) \<le> int start + len);
     (if offset8 \<le> h \<and> covers_end then remove_hole p first h
      else if covers_end then do {
        p \<leftarrow> hole_store p h LAST (of_nat start);
        Some (p, first, False) }
      else if offset8 \<le> h then new_hole offset8 len \<bind> move_hole p first h
      else new_hole offset8 len \<bind> split_hole p first h start) }"

text \<open>
  The whole function: the length of the complete packet, which is in \<open>pkt_buff\<close>, or nothing. A
  negative length, of a packet shorter than its header, is a huge size for \<^verbatim>\<open>memcpy\<close>.
\<close>

definition store_fragment :: "bytes \<Rightarrow> nat \<Rightarrow> nat \<Rightarrow> int \<Rightarrow> bool \<Rightarrow> frag_vars \<Rightarrow> (u32 option \<times> frag_vars) option" where
  "store_fragment b ip start len done v = do {
     data \<leftarrow> (if len < 0 then None else load_bytes b (ip + IP_HDR_SIZE) (nat len));
     p \<leftarrow> store_bytes (pkt_buff v) (IP_HDR_SIZE + start) data;
     (if \<not> done then Some (None, v\<lparr>pkt_buff := p\<rparr>)
      else do {
        p \<leftarrow> store16 p 2 (htons (total_len v));
        Some (Some (ucast (total_len v) + 20), v\<lparr>pkt_buff := p\<rparr>) }) }"

definition truncate_last :: "nat \<Rightarrow> u16 \<Rightarrow> frag_vars \<Rightarrow> frag_vars option" where
  "truncate_last h e v = do {
     p \<leftarrow> hole_store (pkt_buff v) h LAST e;
     Some (v\<lparr>pkt_buff := p, total_len := e\<rparr>) }"

definition defragment :: "bytes \<Rightarrow> nat \<Rightarrow> frag_vars \<Rightarrow> (u32 option \<times> frag_vars) option" where
  "defragment b ip v = do {
     w \<leftarrow> load16 b (ip + 6);
     l \<leftarrow> load16 b (ip + 2);
     let ip_off = ntohs w;
     let offset8 = unat (ip_off AND 0x1fff);
     let start = 8 * offset8;
     let len = int (unat (ntohs l)) - 20;
     (if int start + len > 16364 then Some (None, v)
      else do {
        v \<leftarrow> frag_reset b ip v;
        r \<leftarrow> find_hole (pkt_buff v) start (unat (first_hole v));
        (case r of None \<Rightarrow> Some (None, v)
         | Some h \<Rightarrow>
             if int offset8 + c_div8 (len + 7) \<le> int h then Some (None, v)
             else do {
               v \<leftarrow> (if ip_off AND 0x2000 = 0 then truncate_last h (word_of_int (int start + len)) v else Some v);
               (p, first, done) \<leftarrow> cut_hole (pkt_buff v) (first_hole v) h offset8 len;
               store_fragment b ip start len done (v\<lparr>pkt_buff := p, first_hole := first\<rparr>) }) }) }"

text \<open>\<^verbatim>\<open>net_defragment\<close> of this configuration: the buffer, the offset and the length of a whole packet.\<close>

definition net_defragment_frag ::
  "bytes \<Rightarrow> nat \<Rightarrow> u32 \<Rightarrow> frag_vars \<Rightarrow> ((bytes \<times> nat \<times> u32) option \<times> frag_vars) option" where
  "net_defragment_frag b ip len v = do {
     w \<leftarrow> load16 b (ip + 6);
     (if ntohs w AND (0x1fff OR 0x2000) = 0 then Some (Some (b, ip, len), v)
      else do {
        (r, v) \<leftarrow> defragment b ip v;
        Some (map_option (\<lambda>l. (pkt_buff v, 0, l)) r, v) }) }"

section \<open>Chains of holes\<close>

text \<open>
  A cell has the three fields of a descriptor. \<open>hole_chain c prev hs next\<close>: the holes \<open>hs\<close>, pairs of an index
  and an end, are linked through the cells \<open>c\<close>, between \<open>prev\<close> and \<open>next\<close>.
\<close>

definition head_idx :: "(nat \<times> nat) list \<Rightarrow> nat \<Rightarrow> nat" where
  "head_idx hs n = (case hs of [] \<Rightarrow> n | h # _ \<Rightarrow> fst h)"

definition last_idx :: "nat \<Rightarrow> (nat \<times> nat) list \<Rightarrow> nat" where
  "last_idx p hs = (if hs = [] then p else fst (last hs))"

lemma idx_simps [simp]:
  "head_idx [] n = n" "head_idx (h # hs) n = fst h" "last_idx p [] = p" "last_idx p (hs @ [h]) = fst h"
  "last_idx p (h # hs) = last_idx (fst h) hs"
  by (simp_all add: head_idx_def last_idx_def)

fun hole_chain :: "(nat \<Rightarrow> nat \<times> nat \<times> nat) \<Rightarrow> nat \<Rightarrow> (nat \<times> nat) list \<Rightarrow> nat \<Rightarrow> bool" where
  "hole_chain c p [] n = True"
| "hole_chain c p ((a, b) # hs) n \<longleftrightarrow> c a = (b, head_idx hs n, p) \<and> hole_chain c a hs n"

lemma head_idx_append [simp]: "head_idx (xs @ ys) n = head_idx xs (head_idx ys n)"
  by (cases xs) simp_all

lemma hole_chain_append: "hole_chain c p (xs @ ys) n \<longleftrightarrow> hole_chain c p xs (head_idx ys n) \<and> hole_chain c (last_idx p xs) ys n"
  by (induction c p xs "head_idx ys n" rule: hole_chain.induct) simp_all

lemma hole_chain_cong:
  "(\<And>a. a \<in> fst ` set hs \<Longrightarrow> c a = c' a) \<Longrightarrow> hole_chain c p hs n \<longleftrightarrow> hole_chain c' p hs n"
  by (induction hs arbitrary: p) auto

text \<open>The last cell gets another end and another successor, the first one another predecessor.\<close>

lemma hole_chain_set_last:
  assumes "hole_chain c p (hs @ [(a, b)]) n" "a \<notin> fst ` set hs"
  shows "hole_chain (c(a := (b', n', snd (snd (c a))))) p (hs @ [(a, b')]) n'"
proof -
  have "hole_chain (c(a := (b', n', snd (snd (c a))))) p hs a \<longleftrightarrow> hole_chain c p hs a"
    using assms(2) by (intro hole_chain_cong) auto
  then show ?thesis using assms by (auto simp: hole_chain_append)
qed

lemma hole_chain_set_first:
  assumes "hole_chain c p ((a, b) # hs) n" "a \<notin> fst ` set hs"
  shows "hole_chain (c(a := (b, fst (snd (c a)), p'))) p' ((a, b) # hs) n"
proof -
  have "hole_chain (c(a := (b, fst (snd (c a)), p'))) a hs n \<longleftrightarrow> hole_chain c a hs n"
    using assms(2) by (intro hole_chain_cong) auto
  then show ?thesis using assms by simp
qed

end
