(* ===== verification/Reassembly.thy ===== *)
theory Reassembly
  imports Defrag
begin

text \<open>
  What reassembly does. The descriptors of the holes are a chain through the packet buffer; a
  fragment that lies in one hole cuts it, and the chain that results is the chain of the holes cut.
\<close>

lemma unat16: "k < 65536 \<Longrightarrow> unat (of_nat k :: u16) = k"
  by (simp add: unsigned_of_nat take_bit_nat_eq_self_iff)

section \<open>The cells of the buffer\<close>

definition cells :: "bytes \<Rightarrow> nat \<Rightarrow> nat \<times> nat \<times> nat" where
  "cells p k = (unat (get16 p (20 + 8 * k)), unat (get16 p (22 + 8 * k)), unat (get16 p (24 + 8 * k)))"

text \<open>The buffer \<open>p'\<close> differs from \<open>p\<close> in the cells \<open>ks\<close> only, where it is as \<open>c\<close> says.\<close>

definition recelled :: "bytes \<Rightarrow> bytes \<Rightarrow> nat set \<Rightarrow> (nat \<Rightarrow> nat \<times> nat \<times> nat) \<Rightarrow> bool" where
  "recelled p p' ks c \<longleftrightarrow> length p' = length p \<and> (\<forall>k \<le> 2044. cells p' k = c k) \<and>
     (\<forall>x. (\<forall>k \<in> ks. x < 20 + 8 * k \<or> 28 + 8 * k \<le> x) \<longrightarrow> p' ! x = p ! x)"

lemma recelled_refl: "recelled p p {} (cells p)"
  by (simp add: recelled_def)

lemma recelled_trans:
  "recelled p p' ks c \<Longrightarrow> recelled p' p'' ks' c' \<Longrightarrow> recelled p p'' (ks \<union> ks') c'"
  by (auto simp: recelled_def)

lemma recelled_cong: "recelled p p' ks c \<Longrightarrow> ks \<subseteq> ks' \<Longrightarrow> (\<And>k. k \<le> 2044 \<Longrightarrow> c k = c' k) \<Longrightarrow> recelled p p' ks' c'"
  unfolding recelled_def by (simp add: subset_iff)

lemma recelled_insert: "recelled p p' ks c \<Longrightarrow> recelled p p' (insert k ks) c"
  by (auto simp: recelled_def)

definition set_field :: "nat \<Rightarrow> nat \<Rightarrow> nat \<times> nat \<times> nat \<Rightarrow> nat \<times> nat \<times> nat" where
  "set_field f w x = (case x of (l, n, p) \<Rightarrow> if f = 0 then (w, n, p) else if f = 2 then (l, w, p) else (l, n, w))"

lemma hole_load_eq:
  assumes "length p = 16384" "k \<le> 2044"
  shows "\<exists>w. hole_load p k LAST = Some w \<and> unat w = fst (cells p k)"
    "\<exists>w. hole_load p k NEXT = Some w \<and> unat w = fst (snd (cells p k))"
    "\<exists>w. hole_load p k PREV = Some w \<and> unat w = snd (snd (cells p k))"
  using assms by (simp_all add: hole_load_def mem_simps cells_def add.commute add.left_commute)

lemma hole_store_eq:
  assumes "length p = 16384" "k \<le> 2044" "f \<in> {0, 2, 4}"
  shows "\<exists>p'. hole_store p k f w = Some p' \<and> recelled p p' {k} ((cells p)(k := set_field f (unat w) (cells p k)))"
proof (intro exI conjI)
  let ?p = "put16 p (20 + 8 * k + f) w"
  have f: "f = 0 \<or> f = 2 \<or> f = 4" using assms(3) by auto
  show "hole_store p k f w = Some ?p" using assms f by (auto simp: hole_store_def mem_simps)
  show "recelled p ?p {k} ((cells p)(k := set_field f (unat w) (cells p k)))"
    unfolding recelled_def
  proof (intro conjI allI impI)
    fix j :: nat assume "j \<le> 2044"
    show "cells ?p j = ((cells p)(k := set_field f (unat w) (cells p k))) j"
    proof (cases "j = k")
      case True
      with assms(1,2) f show ?thesis by (elim disjE) (simp_all add: cells_def set_field_def mem_simps)
    next
      case False
      then consider "j < k" | "k < j" by linarith
      then show ?thesis using False f assms(1,2) \<open>j \<le> 2044\<close> by cases (auto simp: cells_def mem_simps)
    qed
  next
    fix x assume "\<forall>k\<in>{k}. x < 20 + 8 * k \<or> 28 + 8 * k \<le> x"
    with f show "?p ! x = p ! x" by (intro wr16.nth_put_other) auto
  qed simp
qed

lemma hole_copy_eq:
  assumes "length p = 16384" "h \<le> 2044" "k \<le> 2044"
  shows "\<exists>p'. hole_copy p h k = Some p' \<and> recelled p p' {k} ((cells p)(k := cells p h))"
proof (intro exI conjI)
  let ?bs = "get_bytes p (20 + 8 * h) 8"
  let ?p = "put_bytes p (20 + 8 * k) ?bs"
  have len: "length ?bs = 8" using assms by (simp add: get_bytes_def)
  show "hole_copy p h k = Some ?p" using assms by (simp add: hole_copy_def mem_simps)
  have p: "?p = take (20 + 8 * k) p @ ?bs @ drop (28 + 8 * k) p"
    using assms len by (simp add: put_bytes_eq)
  have nth: "?p ! (20 + 8 * k + i) = p ! (20 + 8 * h + i)" if "i < 8" for i
    unfolding p using that assms len by (simp add: nth_append) (simp add: get_bytes_def)
  have same: "get16 ?p (20 + 8 * k + i) = get16 p (20 + 8 * h + i)" if "i + 1 < 8" for i
    using nth [of i] nth [of "i + 1"] that by (simp add: get16_def add.assoc)
  show "recelled p ?p {k} ((cells p)(k := cells p h))"
    unfolding recelled_def
  proof (intro conjI allI impI)
    fix j :: nat assume "j \<le> 2044"
    show "cells ?p j = ((cells p)(k := cells p h)) j"
    proof (cases "j = k")
      case True
      with same [of 0] same [of 2] same [of 4] show ?thesis
        by (simp add: cells_def add.commute add.left_commute)
    next
      case False
      then consider "j < k" | "k < j" by linarith
      then show ?thesis using False assms(1,3) len \<open>j \<le> 2044\<close> by cases (auto simp: cells_def mem_simps)
    qed
  next
    fix x assume "\<forall>k\<in>{k}. x < 20 + 8 * k \<or> 28 + 8 * k \<le> x"
    with len show "?p ! x = p ! x" by (intro wrb.nth_put_other) auto
  qed simp
qed

section \<open>The hole of a fragment\<close>

text \<open>The search skips the holes that end before the fragment.\<close>

lemma find_hole_eq:
  assumes "length p = 16384" "hole_chain (cells p) pr (xs @ (a, b) # ys) 0" "\<forall>h \<in> set (xs @ (a, b) # ys). 0 < fst h \<and> fst h \<le> 2044"
    and "\<forall>h \<in> set xs. snd h < start" "start \<le> b" and hd: "h = fst (hd (xs @ [(a, b)]))"
  shows "find_hole p start h = Some (Some a)"
  using assms(2-)
proof (induction xs arbitrary: pr h)
  case Nil
  obtain w where "hole_load p a LAST = Some w" "unat w = b"
    using hole_load_eq(1) [OF assms(1), of a] Nil by auto
  with Nil show ?case by (subst find_hole.simps) simp
next
  case (Cons x xs)
  obtain a0 b0 where x: "x = (a0, b0)" by (cases x)
  obtain w where w: "hole_load p a0 LAST = Some w" "unat w = b0"
    using hole_load_eq(1) [OF assms(1), of a0] Cons.prems x by auto
  obtain n where n: "hole_load p a0 NEXT = Some n" "unat n = fst (hd (xs @ [(a, b)]))"
    using hole_load_eq(2) [OF assms(1), of a0] Cons.prems x by (cases xs) auto
  have "0 < unat n" using n(2) Cons.prems(2) by (cases xs) auto
  then have "n \<noteq> 0" by auto
  moreover have "find_hole p start (unat n) = Some (Some a)"
    using Cons.prems n(2) x by (intro Cons.IH) auto
  ultimately show ?case using w n Cons.prems x by (subst find_hole.simps) simp
qed

section \<open>Cutting a hole\<close>

definition idx_ok :: "(nat \<times> nat) list \<Rightarrow> bool" where
  "idx_ok hs \<longleftrightarrow> distinct (map fst hs) \<and> (\<forall>h \<in> set hs. 0 < fst h \<and> fst h \<le> 2044)"

lemma idx_ok_append: "idx_ok (xs @ ys) \<longleftrightarrow> idx_ok xs \<and> idx_ok ys \<and> fst ` set xs \<inter> fst ` set ys = {}"
  by (auto simp: idx_ok_def)

lemma idx_ok_Cons: "idx_ok (x # xs) \<longleftrightarrow> idx_ok xs \<and> fst x \<notin> fst ` set xs \<and> 0 < fst x \<and> fst x \<le> 2044"
  by (auto simp: idx_ok_def)

lemma idx_ok_sep:
  assumes "idx_ok (xs @ h # ys)"
  shows "k \<in> fst ` set xs \<Longrightarrow> k \<notin> fst ` set ys" "k \<in> fst ` set ys \<Longrightarrow> k \<notin> fst ` set xs"
proof -
  have "fst ` set xs \<inter> fst ` set ys = {}" using assms by (simp add: idx_ok_append idx_ok_Cons)
  then show "k \<in> fst ` set xs \<Longrightarrow> k \<notin> fst ` set ys" "k \<in> fst ` set ys \<Longrightarrow> k \<notin> fst ` set xs"
    by blast+
qed

lemma idx_in: "hs \<noteq> [] \<Longrightarrow> head_idx hs n \<in> fst ` set hs" "hs \<noteq> [] \<Longrightarrow> last_idx n hs \<in> fst ` set hs"
  by (cases hs; simp) (simp add: last_idx_def)

lemma idx_bounds:
  assumes "idx_ok hs" "hs \<noteq> []"
  shows "0 < head_idx hs n" "head_idx hs n \<le> 2044" "0 < last_idx n hs" "last_idx n hs \<le> 2044"
  using idx_in [OF assms(2), of n] assms(1) by (auto simp: idx_ok_def)

lemma chain_other: "k \<notin> fst ` set hs \<Longrightarrow> hole_chain (c(k := x)) p hs n \<longleftrightarrow> hole_chain c p hs n"
  by (intro hole_chain_cong) auto

lemma chain_first: "hole_chain c p hs n \<Longrightarrow> hs \<noteq> [] \<Longrightarrow> snd (snd (c (head_idx hs n))) = p"
  by (cases hs) auto

lemma chain_keep:
  assumes "hole_chain c p hs n" "idx_ok hs" "\<And>k. k \<le> 2044 \<Longrightarrow> k \<in> fst ` set hs \<Longrightarrow> c' k = c k"
  shows "hole_chain c' p hs n"
  using assms hole_chain_cong [of hs c' c p n] by (auto simp: idx_ok_def)

text \<open>The link after a chain, and the one before it.\<close>

lemma link_next:
  assumes "hole_chain c p hs n" "hs \<noteq> []" "idx_ok hs"
  shows "hole_chain (c(last_idx p hs := set_field 2 m (c (last_idx p hs)))) p hs m"
proof -
  obtain hs' a b where hs: "hs = hs' @ [(a, b)]" using assms(2) by (cases hs rule: rev_cases) auto
  have "hole_chain (c(a := (b, m, snd (snd (c a))))) p (hs' @ [(a, b)]) m"
    using assms(1,3) unfolding hs by (intro hole_chain_set_last) (auto simp: idx_ok_def)
  moreover have "fst (c a) = b" using assms(1) by (simp add: hs hole_chain_append)
  ultimately show ?thesis by (simp add: hs set_field_def split_def)
qed

lemma link_prev:
  assumes "hole_chain c p hs n" "hs \<noteq> []" "idx_ok hs"
  shows "hole_chain (c(head_idx hs n := set_field 4 q (c (head_idx hs n)))) q hs n"
proof -
  obtain hs' a b where hs: "hs = (a, b) # hs'" using assms(2) by (cases hs) auto
  have "hole_chain (c(a := (b, fst (snd (c a)), q))) q ((a, b) # hs') n"
    using assms(1,3) unfolding hs by (intro hole_chain_set_first) (auto simp: idx_ok_Cons)
  moreover have "fst (c a) = b" using assms(1) by (simp add: hs)
  ultimately show ?thesis by (auto simp: hs set_field_def split_def)
qed

text \<open>The two stores, which are left out at the ends of the list.\<close>

lemma store_prev_eq:
  assumes "length p = 16384" "idx_ok ys" "hole_chain (cells p) q0 ys 0" "unat next = head_idx ys 0"
  shows "\<exists>p' c. (if next \<noteq> 0 then hole_store p (unat next) PREV w else Some p) = Some p' \<and>
    recelled p p' (fst ` set ys) c \<and> (\<forall>k. k \<notin> fst ` set ys \<longrightarrow> c k = cells p k) \<and> hole_chain c (unat w) ys 0"
proof (cases "ys = []")
  case True
  then have "next = 0" using assms(4) by (simp add: unsigned_eq_0_iff)
  then show ?thesis using True recelled_refl by fastforce
next
  case False
  note b = idx_bounds(1,2) [OF assms(2) False, of 0]
  then have "next \<noteq> 0" using assms(4) by auto
  moreover obtain p' where "hole_store p (unat next) PREV w = Some p'"
    "recelled p p' {unat next} ((cells p)(unat next := set_field 4 (unat w) (cells p (unat next))))"
    using hole_store_eq [OF assms(1), of "unat next" PREV w] b assms(4) by auto
  moreover have "hole_chain ((cells p)(unat next := set_field 4 (unat w) (cells p (unat next)))) (unat w) ys 0"
    using link_prev [OF assms(3) False assms(2)] by (simp add: assms(4))
  moreover have "unat next \<in> fst ` set ys" using idx_in(1) [OF False] by (simp add: assms(4))
  ultimately show ?thesis
    by (intro exI [of _ p'] exI [of _ "(cells p)(unat next := set_field 4 (unat w) (cells p (unat next)))"])
      (auto elim: recelled_cong)
qed

lemma store_next_eq:
  assumes "length p = 16384" "idx_ok xs" "hole_chain (cells p) 0 xs n0" "unat prev = last_idx 0 xs"
  shows "\<exists>p' c. (if prev \<noteq> 0 then hole_store p (unat prev) NEXT w else Some p) = Some p' \<and>
    recelled p p' (fst ` set xs) c \<and> (\<forall>k. k \<notin> fst ` set xs \<longrightarrow> c k = cells p k) \<and> hole_chain c 0 xs (unat w)"
proof (cases "xs = []")
  case True
  then have "prev = 0" using assms(4) by (simp add: unsigned_eq_0_iff)
  then show ?thesis using True recelled_refl by fastforce
next
  case False
  note b = idx_bounds(3,4) [OF assms(2) False, of 0]
  then have "prev \<noteq> 0" using assms(4) by auto
  moreover obtain p' where "hole_store p (unat prev) NEXT w = Some p'"
    "recelled p p' {unat prev} ((cells p)(unat prev := set_field 2 (unat w) (cells p (unat prev))))"
    using hole_store_eq [OF assms(1), of "unat prev" NEXT w] b assms(4) by auto
  moreover have "hole_chain ((cells p)(unat prev := set_field 2 (unat w) (cells p (unat prev)))) 0 xs (unat w)"
    using link_next [OF assms(3) False assms(2)] by (simp add: assms(4))
  moreover have "unat prev \<in> fst ` set xs" using idx_in(2) [OF False] by (simp add: assms(4))
  ultimately show ?thesis
    by (intro exI [of _ p'] exI [of _ "(cells p)(unat prev := set_field 2 (unat w) (cells p (unat prev)))"])
      (auto elim: recelled_cong)
qed

text \<open>A hole filled: it leaves the list.\<close>

lemma hole_fields:
  assumes "length p = 16384" "hole_chain (cells p) 0 (xs @ (a, b) # ys) 0" "idx_ok (xs @ (a, b) # ys)"
  shows "\<exists>l nx pr. hole_load p a LAST = Some l \<and> unat l = b \<and> hole_load p a NEXT = Some nx \<and> unat nx = head_idx ys 0 \<and>
    hole_load p a PREV = Some pr \<and> unat pr = last_idx 0 xs"
proof -
  have "a \<le> 2044" "cells p a = (b, head_idx ys 0, last_idx 0 xs)"
    using assms(2,3) by (simp_all add: hole_chain_append idx_ok_append idx_ok_Cons)
  with hole_load_eq [OF assms(1), of a] show ?thesis by fastforce
qed

lemma remove_hole_eq:
  assumes len: "length p = 16384" and ch: "hole_chain (cells p) 0 (xs @ (a, b) # ys) 0" and ok: "idx_ok (xs @ (a, b) # ys)"
    and first: "unat first = head_idx (xs @ (a, b) # ys) 0"
  shows "\<exists>p' first' c. remove_hole p first a = Some (p', first', xs @ ys = []) \<and>
    recelled p p' (fst ` set (xs @ ys)) c \<and> hole_chain c 0 (xs @ ys) 0 \<and>
    (xs @ ys \<noteq> [] \<longrightarrow> unat first' = head_idx (xs @ ys) 0)"
proof -
  obtain nx pr where l: "hole_load p a NEXT = Some nx" "unat nx = head_idx ys 0"
    "hole_load p a PREV = Some pr" "unat pr = last_idx 0 xs" using hole_fields [OF len ch ok] by blast
  note okx = ok [unfolded idx_ok_append idx_ok_Cons]
  note sep = idx_ok_sep [OF ok]
  have c: "hole_chain (cells p) 0 xs a" "hole_chain (cells p) a ys 0" using ch by (simp_all add: hole_chain_append)
  obtain p1 c1 where 1: "(if nx \<noteq> 0 then hole_store p (unat nx) PREV pr else Some p) = Some p1"
    "recelled p p1 (fst ` set ys) c1" "\<forall>k. k \<notin> fst ` set ys \<longrightarrow> c1 k = cells p k" "hole_chain c1 (unat pr) ys 0"
    using store_prev_eq [OF len _ c(2) l(2), of pr] okx by blast
  have p1: "length p1 = 16384" "\<And>k. k \<le> 2044 \<Longrightarrow> cells p1 k = c1 k" using 1(2) len by (auto simp: recelled_def)
  have cx: "hole_chain (cells p1) 0 xs a"
    using okx by (intro chain_keep [OF c(1)]) (simp_all add: p1(2) 1(3) sep)
  have cy: "hole_chain (cells p1) (unat pr) ys 0"
    using okx by (intro chain_keep [OF 1(4)]) (simp_all add: p1(2))
  obtain p2 c2 where 2: "(if pr \<noteq> 0 then hole_store p1 (unat pr) NEXT nx else Some p1) = Some p2"
    "recelled p1 p2 (fst ` set xs) c2" "\<forall>k. k \<notin> fst ` set xs \<longrightarrow> c2 k = cells p1 k" "hole_chain c2 0 xs (unat nx)"
    using store_next_eq [OF p1(1) _ cx l(4), of nx] okx by blast
  have a1: "cells p1 a = cells p a" "a \<le> 2044" using 1(3) p1(2) okx by auto
  have again: "hole_load p1 a NEXT = Some nx" "hole_load p1 a PREV = Some pr"
    using hole_load_eq(2,3) [OF len a1(2)] hole_load_eq(2,3) [OF p1(1) a1(2)] l a1(1) by (auto simp: word_unat_eq_iff)
  have z: "nx = 0 \<longleftrightarrow> ys = []" "pr = 0 \<longleftrightarrow> xs = []"
    using l okx idx_bounds(1) [of ys 0] idx_bounds(3) [of xs 0] by (auto simp: unsigned_eq_0_iff)
  have run: "remove_hole p first a = Some (p2, if pr = 0 \<and> nx \<noteq> 0 then nx else first, xs @ ys = [])"
    using l 1(1) 2(1) again z by (auto simp: remove_hole_def split: if_splits)
  have all: "recelled p p2 (fst ` set (xs @ ys)) c2"
    using recelled_trans [OF 1(2) 2(2)] by (rule recelled_cong) auto
  have "hole_chain c2 (unat pr) ys 0"
    using okx by (intro chain_keep [OF cy]) (simp_all add: 2(3) sep)
  then have "hole_chain c2 0 (xs @ ys) 0" using 2(4) l by (simp add: hole_chain_append)
  moreover have "unat (if pr = 0 \<and> nx \<noteq> 0 then nx else first) = head_idx (xs @ ys) 0" if "xs @ ys \<noteq> []"
    using that first l z by (cases xs) auto
  ultimately show ?thesis using run all by blast
qed

text \<open>A hole whose end is filled.\<close>

lemma shorten_hole_eq:
  assumes len: "length p = 16384" and ch: "hole_chain (cells p) 0 (xs @ (a, b) # ys) 0" and ok: "idx_ok (xs @ (a, b) # ys)"
  shows "\<exists>p' c. hole_store p a LAST w = Some p' \<and> recelled p p' {a} c \<and> hole_chain c 0 (xs @ (a, unat w) # ys) 0"
proof -
  note okx = ok [unfolded idx_ok_append idx_ok_Cons]
  obtain p' where p': "hole_store p a LAST w = Some p'"
    "recelled p p' {a} ((cells p)(a := set_field 0 (unat w) (cells p a)))"
    using hole_store_eq [OF len, of a LAST w] okx by auto
  have "cells p a = (b, head_idx ys 0, last_idx 0 xs)" using ch by (simp add: hole_chain_append)
  then have "hole_chain ((cells p)(a := set_field 0 (unat w) (cells p a))) 0 (xs @ (a, unat w) # ys) 0"
    using ch okx by (simp add: hole_chain_append chain_other set_field_def)
  with p' show ?thesis by blast
qed

text \<open>A hole whose start is filled moves to another cell.\<close>

lemma recelledD:
  assumes "recelled p p' ks c"
  shows "length p' = length p" "\<And>k. k \<le> 2044 \<Longrightarrow> cells p' k = c k"
  using assms by (auto simp: recelled_def)

lemma move_hole_eq:
  assumes len: "length p = 16384" and ch: "hole_chain (cells p) 0 (xs @ (a, b) # ys) 0" and ok: "idx_ok (xs @ (a, b) # ys)"
    and new: "idx_ok (xs @ (k, b) # ys)" and first: "unat first = head_idx (xs @ (a, b) # ys) 0"
  shows "\<exists>p' first' c. move_hole p first a k = Some (p', first', False) \<and>
    recelled p p' (fst ` set (xs @ (k, b) # ys)) c \<and> hole_chain c 0 (xs @ (k, b) # ys) 0 \<and>
    unat first' = head_idx (xs @ (k, b) # ys) 0"
proof -
  note okx = ok [unfolded idx_ok_append idx_ok_Cons] and newx = new [unfolded idx_ok_append idx_ok_Cons]
    and sep = idx_ok_sep [OF ok]
  have c: "hole_chain (cells p) 0 xs a" "cells p a = (b, head_idx ys 0, last_idx 0 xs)" "hole_chain (cells p) a ys 0"
    using ch by (simp_all add: hole_chain_append)
  have kn: "k \<notin> fst ` set xs" "k \<notin> fst ` set ys" "0 < k" "k \<le> 2044" using newx by auto
  have w: "unat (of_nat k :: u16) = k" using kn by (intro unat16) simp
  obtain p1 where 1: "hole_copy p a k = Some p1" "recelled p p1 {k} ((cells p)(k := cells p a))"
    using hole_copy_eq [OF len _ kn(4), of a] okx by auto
  note p1 = recelledD [OF 1(2), unfolded len]
  have c1: "cells p1 k = (b, head_idx ys 0, last_idx 0 xs)" using p1(2) kn c(2) by simp
  obtain nx where nx: "hole_load p1 k NEXT = Some nx" "unat nx = head_idx ys 0"
    using hole_load_eq(2) [OF p1(1) kn(4)] c1 by auto
  have ys1: "hole_chain (cells p1) a ys 0"
    using okx kn by (intro chain_keep [OF c(3)]) (auto simp: p1(2))
  obtain p2 c2 where 2: "(if nx \<noteq> 0 then hole_store p1 (unat nx) PREV (of_nat k) else Some p1) = Some p2"
    "recelled p1 p2 (fst ` set ys) c2" "\<forall>j. j \<notin> fst ` set ys \<longrightarrow> c2 j = cells p1 j" "hole_chain c2 k ys 0"
    using store_prev_eq [OF p1(1) _ ys1 nx(2), of "of_nat k"] okx unfolding w by blast
  note p2 = recelledD [OF 2(2), unfolded p1(1)]
  have c2: "cells p2 k = (b, head_idx ys 0, last_idx 0 xs)" using p2(2) 2(3) kn c1 by simp
  obtain pr where pr: "hole_load p2 k PREV = Some pr" "unat pr = last_idx 0 xs"
    using hole_load_eq(3) [OF p2(1) kn(4)] c2 by auto
  have xs2: "hole_chain (cells p2) 0 xs a"
    using okx kn by (intro chain_keep [OF c(1)]) (auto simp: p1(2) p2(2) 2(3) sep)
  obtain p3 c3 where 3: "(if pr \<noteq> 0 then hole_store p2 (unat pr) NEXT (of_nat k) else Some p2) = Some p3"
    "recelled p2 p3 (fst ` set xs) c3" "\<forall>j. j \<notin> fst ` set xs \<longrightarrow> c3 j = cells p2 j" "hole_chain c3 0 xs k"
    using store_next_eq [OF p2(1) _ xs2 pr(2), of "of_nat k"] okx unfolding w by blast
  have z: "pr = 0 \<longleftrightarrow> xs = []"
    using pr okx idx_bounds(3) [of xs 0] by (auto simp: unsigned_eq_0_iff)
  have run: "move_hole p first a k = Some (p3, if pr = 0 then of_nat k else first, False)"
    using 1(1) nx(1) 2(1) pr(1) 3(1) by (auto simp: move_hole_def split: if_splits)
  have all: "recelled p p3 (fst ` set (xs @ (k, b) # ys)) c3"
    using recelled_trans [OF recelled_trans [OF 1(2) 2(2)] 3(2)] by (rule recelled_cong) auto
  have "hole_chain c3 k ys 0" using okx by (intro chain_keep [OF 2(4)]) (auto simp: 3(3) p2(2) sep)
  moreover have "c3 k = (b, head_idx ys 0, last_idx 0 xs)" using 3(3) kn c2 by simp
  ultimately have "hole_chain c3 0 (xs @ (k, b) # ys) 0" using 3(4) by (simp add: hole_chain_append)
  moreover have "unat (if pr = 0 then of_nat k else first) = head_idx (xs @ (k, b) # ys) 0"
    using first w z by (cases xs) auto
  ultimately show ?thesis using run all by blast
qed

text \<open>A fragment inside a hole makes two of it.\<close>

lemma split_hole_eq:
  assumes len: "length p = 16384" and ch: "hole_chain (cells p) 0 (xs @ (a, b) # ys) 0" and ok: "idx_ok (xs @ (a, b) # ys)"
    and new: "idx_ok (xs @ (a, start) # (k, b) # ys)" and start: "start < 65536"
  shows "\<exists>p' c. split_hole p first a start k = Some (p', first, False) \<and>
    recelled p p' (fst ` set (xs @ (a, start) # (k, b) # ys)) c \<and> hole_chain c 0 (xs @ (a, start) # (k, b) # ys) 0"
proof -
  note okx = ok [unfolded idx_ok_append idx_ok_Cons] and newx = new [unfolded idx_ok_append idx_ok_Cons]
    and sep = idx_ok_sep [OF ok]
  have c: "hole_chain (cells p) 0 xs a" "cells p a = (b, head_idx ys 0, last_idx 0 xs)" "hole_chain (cells p) a ys 0"
    using ch by (simp_all add: hole_chain_append)
  have kn: "k \<notin> fst ` set xs" "k \<notin> fst ` set ys" "0 < k" "k \<le> 2044" "k \<noteq> a" "a \<le> 2044"
    "a \<notin> fst ` set xs" "a \<notin> fst ` set ys" using newx by auto
  have w: "unat (of_nat k :: u16) = k" "unat (of_nat a :: u16) = a" "unat (of_nat start :: u16) = start"
    using kn start by (simp_all add: unat16)
  obtain p1 where 1: "hole_copy p a k = Some p1" "recelled p p1 {k} ((cells p)(k := cells p a))"
    using hole_copy_eq [OF len kn(6,4)] by auto
  note p1 = recelledD [OF 1(2), unfolded len]
  obtain p2 where 2: "hole_store p1 a LAST (of_nat start) = Some p2"
    "recelled p1 p2 {a} ((cells p1)(a := set_field 0 (unat (of_nat start :: u16)) (cells p1 a)))"
    using hole_store_eq [OF p1(1) kn(6), of LAST "of_nat start"] by auto
  note p2 = recelledD [OF 2(2), unfolded p1(1)]
  obtain p3 where 3: "hole_store p2 a NEXT (of_nat k) = Some p3"
    "recelled p2 p3 {a} ((cells p2)(a := set_field 2 (unat (of_nat k :: u16)) (cells p2 a)))"
    using hole_store_eq [OF p2(1) kn(6), of NEXT "of_nat k"] by auto
  note p3 = recelledD [OF 3(2), unfolded p2(1)]
  obtain p4 where 4: "hole_store p3 k PREV (of_nat a) = Some p4"
    "recelled p3 p4 {k} ((cells p3)(k := set_field 4 (unat (of_nat a :: u16)) (cells p3 k)))"
    using hole_store_eq [OF p3(1) kn(4), of PREV "of_nat a"] by auto
  note p4 = recelledD [OF 4(2), unfolded p3(1)]
  have at4: "cells p4 k = (b, head_idx ys 0, a)" "cells p4 a = (start, k, last_idx 0 xs)"
    using kn c(2) by (simp_all add: p4(2) p3(2) p2(2) p1(2) set_field_def w)
  have other: "cells p4 j = cells p j" if "j \<le> 2044" "j \<noteq> a" "j \<noteq> k" for j
    using that by (simp add: p4(2) p3(2) p2(2) p1(2))
  obtain nx where nx: "hole_load p4 k NEXT = Some nx" "unat nx = head_idx ys 0"
    using hole_load_eq(2) [OF p4(1) kn(4)] at4 by auto
  have ys4: "hole_chain (cells p4) a ys 0" using okx kn by (intro chain_keep [OF c(3)]) (auto intro!: other)
  obtain p5 c5 where 5: "(if nx \<noteq> 0 then hole_store p4 (unat nx) PREV (of_nat k) else Some p4) = Some p5"
    "recelled p4 p5 (fst ` set ys) c5" "\<forall>j. j \<notin> fst ` set ys \<longrightarrow> c5 j = cells p4 j" "hole_chain c5 k ys 0"
    using store_prev_eq [OF p4(1) _ ys4 nx(2), of "of_nat k"] okx unfolding w by blast
  have run: "split_hole p first a start k = Some (p5, first, False)"
    using 1(1) 2(1) 3(1) 4(1) nx(1) 5(1) by (auto simp: split_hole_def split: if_splits)
  have all: "recelled p p5 (fst ` set (xs @ (a, start) # (k, b) # ys)) c5"
    using recelled_trans [OF recelled_trans [OF recelled_trans [OF recelled_trans [OF 1(2) 2(2)] 3(2)] 4(2)] 5(2)]
    by (rule recelled_cong) auto
  have "hole_chain c5 0 xs a" using okx kn by (intro chain_keep [OF c(1)]) (auto simp: 5(3) sep intro!: other)
  moreover have "c5 k = (b, head_idx ys 0, a)" "c5 a = (start, k, last_idx 0 xs)" using 5(3) at4 kn by simp_all
  ultimately have "hole_chain c5 0 (xs @ (a, start) # (k, b) # ys) 0" using 5(4) by (simp add: hole_chain_append)
  with run all show ?thesis by blast
qed

text \<open>What is left of a hole.\<close>

definition cuts :: "nat \<Rightarrow> nat \<Rightarrow> nat \<Rightarrow> nat \<Rightarrow> (nat \<times> nat) list" where
  "cuts a b off n = (if a < off then [(a, 8 * off)] else []) @ (if 8 * off + n < b then [(off + n div 8, b)] else [])"

lemma cut_hole_eq:
  assumes len: "length p = 16384" and ch: "hole_chain (cells p) 0 (xs @ (a, b) # ys) 0" and ok: "idx_ok (xs @ (a, b) # ys)"
    and new: "idx_ok (xs @ cuts a b off n @ ys)" and first: "unat first = head_idx (xs @ (a, b) # ys) 0"
    and in_hole: "a \<le> off" "8 * off + n \<le> b" "b < 65536"
  shows "\<exists>p' first' c. cut_hole p first a off (int n) = Some (p', first', xs @ cuts a b off n @ ys = []) \<and>
    recelled p p' (insert a (fst ` set (xs @ cuts a b off n @ ys))) c \<and> hole_chain c 0 (xs @ cuts a b off n @ ys) 0 \<and>
    (xs @ cuts a b off n @ ys \<noteq> [] \<longrightarrow> unat first' = head_idx (xs @ cuts a b off n @ ys) 0)"
proof -
  obtain l where l: "hole_load p a LAST = Some l" "unat l = b" using hole_fields [OF len ch ok] by blast
  have k: "new_hole off (int n) = Some (off + n div 8)"
    by (simp add: new_hole_def c_div8_def) (simp add: zdiv_int [of n 8, simplified, symmetric])
  have cov: "int (unat l) \<le> int (8 * off) + int n \<longleftrightarrow> b \<le> 8 * off + n" using l(2) by linarith
  have run: "cut_hole p first a off (int n) = (if a = off \<and> b \<le> 8 * off + n then remove_hole p first a
      else if b \<le> 8 * off + n then hole_store p a LAST (of_nat (8 * off)) \<bind> (\<lambda>p. Some (p, first, False))
      else if a = off then move_hole p first a (off + n div 8) else split_hole p first a (8 * off) (off + n div 8))"
    unfolding cut_hole_def l(1) Option.bind.simps Let_def cov k using in_hole(1) by auto
  consider "a = off" "b = 8 * off + n" | "a < off" "b = 8 * off + n" | "a = off" "8 * off + n < b" | "a < off" "8 * off + n < b"
    using in_hole by linarith
  then show ?thesis
  proof cases
    case 1
    then have cut: "cuts a b off n = []" by (simp add: cuts_def)
    obtain p' first' c where "remove_hole p first a = Some (p', first', xs @ ys = [])"
      "recelled p p' (fst ` set (xs @ ys)) c" "hole_chain c 0 (xs @ ys) 0" "xs @ ys \<noteq> [] \<longrightarrow> unat first' = head_idx (xs @ ys) 0"
      using remove_hole_eq [OF len ch ok first] by blast
    then show ?thesis using run 1 unfolding cut append_Nil by (intro exI [of _ p'] exI [of _ first'] exI [of _ c]) (simp add: recelled_insert)
  next
    case 2
    then have cut: "cuts a b off n = [(a, 8 * off)]" by (simp add: cuts_def)
    have "unat (of_nat (8 * off) :: u16) = 8 * off"
      using in_hole by (intro unat16) simp
    with shorten_hole_eq [OF len ch ok, of "of_nat (8 * off)"] obtain p' c where
      p': "hole_store p a LAST (of_nat (8 * off)) = Some p'" "recelled p p' {a} c" "hole_chain c 0 (xs @ (a, 8 * off) # ys) 0"
      by (auto simp del: of_nat_mult)
    have "recelled p p' (insert a (fst ` set (xs @ [(a, 8 * off)] @ ys))) c" using p'(2) by (rule recelled_cong) auto
    with run 2 p' first show ?thesis unfolding cut
      by (intro exI [of _ p'] exI [of _ first] exI [of _ c]) (cases xs; simp)
  next
    case 3
    then have cut: "cuts a b off n = [(off + n div 8, b)]" by (simp add: cuts_def)
    obtain p' first' c where "move_hole p first a (off + n div 8) = Some (p', first', False)"
      "recelled p p' (fst ` set (xs @ (off + n div 8, b) # ys)) c" "hole_chain c 0 (xs @ (off + n div 8, b) # ys) 0"
      "unat first' = head_idx (xs @ (off + n div 8, b) # ys) 0"
      using move_hole_eq [OF len ch ok _ first, of "off + n div 8"] new unfolding cut by auto
    with run 3 show ?thesis unfolding cut
      by (intro exI [of _ p'] exI [of _ first'] exI [of _ c]) (simp add: recelled_insert)
  next
    case 4
    then have cut: "cuts a b off n = [(a, 8 * off), (off + n div 8, b)]" by (simp add: cuts_def)
    have "idx_ok (xs @ (a, 8 * off) # (off + n div 8, b) # ys)" "8 * off < 65536" using new in_hole unfolding cut by simp_all
    then obtain p' c where
      "split_hole p first a (8 * off) (off + n div 8) = Some (p', first, False)"
      "recelled p p' (fst ` set (xs @ (a, 8 * off) # (off + n div 8, b) # ys)) c"
      "hole_chain c 0 (xs @ (a, 8 * off) # (off + n div 8, b) # ys) 0"
      using split_hole_eq [OF len ch ok, of "8 * off" "off + n div 8" first] by blast
    with run 4 first show ?thesis unfolding cut
      by (intro exI [of _ p'] exI [of _ first] exI [of _ c]) (cases xs; simp add: recelled_insert)
  qed
qed

section \<open>Holes as a set of bytes\<close>

text \<open>
  The holes of a datagram of \<open>N\<close> bytes of which the first fragment has arrived: apart from each other,
  on the borders of blocks, the last one open as long as the last fragment is missing.
\<close>

definition in_holes :: "(nat \<times> nat) list \<Rightarrow> nat \<Rightarrow> bool" where
  "in_holes hs x \<longleftrightarrow> (\<exists>(a, b) \<in> set hs. 8 * a \<le> x \<and> x < b)"

definition holes_ok :: "nat \<Rightarrow> (nat \<times> nat) list \<Rightarrow> bool" where
  "holes_ok N hs \<longleftrightarrow> sorted_wrt (\<lambda>h h'. snd h < 8 * fst h') hs \<and>
     (\<forall>(a, b) \<in> set hs. 0 < a \<and> 8 * a < b \<and> 8 * a < N \<and> (b = 65535 \<or> 8 dvd b \<and> b < N))"

lemma in_holes_simps [simp]:
  "\<not> in_holes [] x" "in_holes ((a, b) # hs) x \<longleftrightarrow> 8 * a \<le> x \<and> x < b \<or> in_holes hs x"
  "in_holes (xs @ ys) x \<longleftrightarrow> in_holes xs x \<or> in_holes ys x"
  by (auto simp: in_holes_def)

lemma holes_ok_idx:
  assumes "holes_ok N hs" "N \<le> 16360"
  shows "idx_ok hs"
proof -
  have all: "\<forall>(a, b) \<in> set hs. 0 < a \<and> 8 * a < b \<and> 8 * a < N" using assms(1) by (auto simp: holes_ok_def)
  have "sorted_wrt (\<lambda>h h'. snd h < 8 * fst h') hs \<Longrightarrow> distinct (map fst hs)"
    using all by (induction hs) (fastforce simp: image_iff)+
  then have "distinct (map fst hs)" using assms(1) by (simp add: holes_ok_def)
  moreover have "0 < fst h \<and> fst h \<le> 2044" if "h \<in> set hs" for h using all that assms(2) by fastforce
  ultimately show ?thesis by (simp add: idx_ok_def)
qed

lemma fragment_in_hole:
  assumes "holes_ok N hs" "0 < n" and miss: "\<And>x. 8 * off \<le> x \<Longrightarrow> x < 8 * off + n \<Longrightarrow> in_holes hs x"
  obtains xs a b ys where "hs = xs @ (a, b) # ys" "a \<le> off" "8 * off + n \<le> b" "\<forall>h \<in> set xs. snd h < 8 * off"
proof -
  have "in_holes hs (8 * off)" using miss assms(2) by simp
  then obtain a b where ab: "(a, b) \<in> set hs" "8 * a \<le> 8 * off" "8 * off < b" by (auto simp: in_holes_def)
  from ab(1) obtain xs ys where hs: "hs = xs @ (a, b) # ys" by (auto dest: split_list)
  have sort: "\<forall>h \<in> set xs. snd h < 8 * a" "\<forall>h \<in> set ys. b < 8 * fst h"
    using assms(1) unfolding holes_ok_def hs by (simp_all add: sorted_wrt_append)
  have "8 * off + n \<le> b"
  proof (rule ccontr)
    assume "\<not> 8 * off + n \<le> b"
    then have "in_holes hs b" using miss ab(3) by simp
    then show False using sort ab by (fastforce simp: hs in_holes_def)
  qed
  moreover have "\<forall>h \<in> set xs. snd h < 8 * off" using sort(1) ab(2) by fastforce
  ultimately show thesis using that hs ab(2) by simp
qed

definition open_end :: "(nat \<times> nat) list \<Rightarrow> bool" where
  "open_end hs \<longleftrightarrow> (\<exists>h \<in> set hs. snd h = 65535)"

text \<open>The last fragment closes the hole it lies in.\<close>

lemma last_hole:
  assumes "holes_ok N (xs @ (a, b) # ys)" "N \<le> b" "N \<le> 16360"
  shows "b = 65535" "ys = []" "\<not> open_end xs"
proof -
  have all: "\<forall>h \<in> set (xs @ (a, b) # ys). 8 * fst h < N \<and> (snd h = 65535 \<or> 8 dvd snd h \<and> snd h < N)"
    using assms(1) by (fastforce simp: holes_ok_def)
  have sort: "\<forall>h \<in> set xs. snd h < 8 * a" "\<forall>h \<in> set ys. b < 8 * fst h"
    using assms(1) by (simp_all add: holes_ok_def sorted_wrt_append)
  show b: "b = 65535" using all assms(2) by auto
  show "ys = []"
  proof (rule ccontr)
    assume "ys \<noteq> []"
    then have "hd ys \<in> set ys" by simp
    then have "b < 8 * fst (hd ys)" "8 * fst (hd ys) < N" using all sort(2) by auto
    then show False using b assms(3) by simp
  qed
  show "\<not> open_end xs" using sort(1) all assms(3) by (fastforce simp: open_end_def)
qed

lemma cuts_holes:
  assumes ok: "holes_ok N (xs @ (a, b) # ys)" and N: "N \<le> 16360"
    and frag: "a \<le> off" "0 < n" "8 * off + n \<le> b" "8 * off + n \<le> N" "8 * off + n < N \<longrightarrow> 8 dvd n"
    and b': "b' = (if 8 * off + n = N then N else b)"
  shows "holes_ok N (xs @ cuts a b' off n @ ys)"
    "x < N \<Longrightarrow> in_holes (xs @ cuts a b' off n @ ys) x \<longleftrightarrow>
      in_holes (xs @ (a, b) # ys) x \<and> \<not> (8 * off \<le> x \<and> x < 8 * off + n)"
    "open_end (xs @ cuts a b' off n @ ys) \<longleftrightarrow> open_end (xs @ (a, b) # ys) \<and> 8 * off + n \<noteq> N"
proof -
  have h: "0 < a" "8 * a < b" "8 * a < N" "b = 65535 \<or> 8 dvd b \<and> b < N"
    and sort: "\<forall>h \<in> set xs. snd h < 8 * a" "\<forall>h \<in> set ys. b < 8 * fst h" "\<forall>h \<in> set xs. \<forall>h' \<in> set ys. snd h < 8 * fst h'"
    and parts: "holes_ok N xs" "holes_ok N ys"
    using ok by (auto simp: holes_ok_def sorted_wrt_append)
  have ends: "\<forall>h \<in> set xs. snd h \<noteq> 65535" using sort(1) h(3) N by fastforce
  have apart: "\<not> (8 * off \<le> x \<and> x < 8 * off + n \<and> (in_holes xs x \<or> in_holes ys x))" for x
    using sort(1,2) frag(1,3) by (fastforce simp: in_holes_def)
  have "holes_ok N (xs @ cuts a b' off n @ ys) \<and>
    (x < N \<longrightarrow> in_holes (xs @ cuts a b' off n @ ys) x \<longleftrightarrow> in_holes (xs @ (a, b) # ys) x \<and> \<not> (8 * off \<le> x \<and> x < 8 * off + n)) \<and>
    (open_end (xs @ cuts a b' off n @ ys) \<longleftrightarrow> open_end (xs @ (a, b) # ys) \<and> 8 * off + n \<noteq> N)" for x
  proof (cases "8 * off + n = N")
    case True
    have b: "b = 65535" "ys = []" "\<not> open_end xs" using last_hole [OF ok _ N] frag(3) True by auto
    have c: "cuts a b' off n = (if a < off then [(a, 8 * off)] else [])" using True by (simp add: cuts_def b')
    have "holes_ok N (xs @ cuts a b' off n @ ys)"
      using parts(1) h sort(1) True frag by (auto simp: c b holes_ok_def sorted_wrt_append)
    moreover have "open_end (xs @ cuts a b' off n @ ys) \<longleftrightarrow> False"
      using b(3) frag(4) N by (auto simp: c b open_end_def)
    ultimately show ?thesis using apart [of x] True frag(1) b N by (auto simp: c)
  next
    case False
    then have n: "8 dvd n" "8 \<le> n" using frag by (auto elim: dvdE)
    then have k: "8 * (off + n div 8) = 8 * off + n" by auto
    have c: "cuts a b' off n = (if a < off then [(a, 8 * off)] else []) @ (if 8 * off + n < b then [(off + n div 8, b)] else [])"
      using False by (simp add: cuts_def b')
    have "holes_ok N (xs @ cuts a b' off n @ ys)"
      unfolding holes_ok_def
    proof (intro conjI ballI)
      show "sorted_wrt (\<lambda>h h'. snd h < 8 * fst h') (xs @ cuts a b' off n @ ys)"
        using parts sort frag(1,3) k n by (fastforce simp: c holes_ok_def sorted_wrt_append)
      show "case h of (a, b) \<Rightarrow> 0 < a \<and> 8 * a < b \<and> 8 * a < N \<and> (b = 65535 \<or> 8 dvd b \<and> b < N)"
        if "h \<in> set (xs @ cuts a b' off n @ ys)" for h
        using that parts h frag False k n by (auto simp: c holes_ok_def split: if_splits)
    qed
    moreover have "open_end (xs @ cuts a b' off n @ ys) \<longleftrightarrow> open_end (xs @ (a, b) # ys)"
      using frag(4) N by (auto simp: c open_end_def)
    ultimately show ?thesis using apart [of x] False frag(1,3) k by (auto simp: c)
  qed
  then show "holes_ok N (xs @ cuts a b' off n @ ys)"
    "x < N \<Longrightarrow> in_holes (xs @ cuts a b' off n @ ys) x \<longleftrightarrow>
      in_holes (xs @ (a, b) # ys) x \<and> \<not> (8 * off \<le> x \<and> x < 8 * off + n)"
    "open_end (xs @ cuts a b' off n @ ys) \<longleftrightarrow> open_end (xs @ (a, b) # ys) \<and> 8 * off + n \<noteq> N"
    by blast+
qed

lemma ucast_of_nat_small: "k < 65536 \<Longrightarrow> ucast (of_nat k :: u16) = (of_nat k :: u32)"
  by (metis of_nat_unat unat16)

section \<open>A datagram in parts\<close>

text \<open>The fragment of \<open>n\<close> bytes from block \<open>off\<close> of the payload \<open>P\<close>, as a packet at \<open>ip\<close> in \<open>b\<close>.\<close>

definition is_fragment :: "nat \<Rightarrow> nat \<Rightarrow> nat \<Rightarrow> bool" where
  "is_fragment N off n \<longleftrightarrow> 0 < n \<and> 8 * off + n \<le> N \<and> (8 * off + n < N \<longrightarrow> 8 dvd n)"

definition carries_fragment :: "bytes \<Rightarrow> u16 \<Rightarrow> bytes \<Rightarrow> nat \<Rightarrow> nat \<Rightarrow> nat \<Rightarrow> bool" where
  "carries_fragment P ident b ip off n \<longleftrightarrow> ip + 20 + n \<le> length b \<and> unat (ntohs (get16 b (ip + 2))) = 20 + n \<and>
     get16 b (ip + 4) = ident \<and> unat (ntohs (get16 b (ip + 6)) AND 0x1fff) = off \<and>
     (ntohs (get16 b (ip + 6)) AND 0x2000 = 0 \<longleftrightarrow> 8 * off + n = length P) \<and>
     get_bytes b (ip + 20) n = take n (drop (8 * off) P)"

text \<open>The state in which the bytes of \<open>P\<close> outside the holes are in the buffer.\<close>

definition reassembling :: "bytes \<Rightarrow> bytes \<Rightarrow> (nat \<times> nat) list \<Rightarrow> frag_vars \<Rightarrow> bool" where
  "reassembling P hdr hs v \<longleftrightarrow> length (pkt_buff v) = 16384 \<and> holes_ok (length P) hs \<and>
     hole_chain (cells (pkt_buff v)) 0 hs 0 \<and> (hs \<noteq> [] \<longrightarrow> unat (first_hole v) = head_idx hs 0) \<and>
     total_len v = (if open_end hs then 0xffff else of_nat (length P)) \<and>
     (\<forall>x < 20. x \<noteq> 2 \<and> x \<noteq> 3 \<longrightarrow> pkt_buff v ! x = hdr ! x) \<and>
     (\<forall>x < length P. in_holes hs x \<or> pkt_buff v ! (20 + x) = P ! x)"

lemma frag_reset_same:
  assumes "reassembling P hdr hs v" "length P \<le> 16360" "0 < length P" "ip + 6 \<le> length b"
    "get16 b (ip + 4) = get16 hdr 4"
  shows "frag_reset b ip v = Some v"
proof -
  have "total_len v \<noteq> 0"
  proof
    assume "total_len v = 0"
    then have "(of_nat (length P) :: u16) = 0" using assms(1) by (auto simp: reassembling_def split: if_splits)
    then have "unat (of_nat (length P) :: u16) = 0" by simp
    moreover have "unat (of_nat (length P) :: u16) = length P" using assms(2) by (intro unat16) simp
    ultimately show False using assms(3) by simp
  qed
  moreover have "get16 (pkt_buff v) 4 = get16 hdr 4" using assms(1) by (simp add: reassembling_def get16_def)
  moreover have "length (pkt_buff v) = 16384" using assms(1) by (simp add: reassembling_def)
  ultimately show ?thesis using assms(4,5) by (simp add: frag_reset_def mem_simps)
qed

text \<open>The cell of a hole lies in the hole.\<close>

lemma cell_in_hole:
  assumes "holes_ok N hs" "k \<in> fst ` set hs" "N \<le> 16360" "8 * k \<le> x" "x < 8 * k + 8"
  shows "in_holes hs x"
proof -
  obtain b where b: "(k, b) \<in> set hs" using assms(2) by auto
  then have "8 * k < b" "b = 65535 \<or> 8 dvd b" "8 * k < N" using assms(1) by (auto simp: holes_ok_def)
  then have "x < b" using assms(3,5) by (auto elim!: dvdE)
  with b assms(4) show ?thesis by (auto simp: in_holes_def)
qed

text \<open>The payload of a fragment goes into the buffer beside the holes that are left.\<close>

lemma store_payload:
  assumes len: "length p = 16384" and ok: "holes_ok (length P) hs'" and N: "length P \<le> 16360"
    and ch: "hole_chain (cells p) 0 hs' 0" and frag: "8 * off + n \<le> length P"
    and out: "\<forall>x < length P. in_holes hs' x \<longrightarrow> \<not> (8 * off \<le> x \<and> x < 8 * off + n)"
  defines "p' \<equiv> put_bytes p (20 + 8 * off) (take n (drop (8 * off) P))"
  shows "store_bytes p (20 + 8 * off) (take n (drop (8 * off) P)) = Some p'" "length p' = 16384"
    "hole_chain (cells p') 0 hs' 0" "\<And>x. x < 20 + 8 * off \<or> 20 + 8 * off + n \<le> x \<Longrightarrow> p' ! x = p ! x"
    "\<And>x. 8 * off \<le> x \<Longrightarrow> x < 8 * off + n \<Longrightarrow> p' ! (20 + x) = P ! x"
proof -
  let ?d = "take n (drop (8 * off) P)"
  have d: "length ?d = n" using frag by simp
  have p': "p' = take (20 + 8 * off) p @ ?d @ drop (20 + 8 * off + n) p"
    unfolding p'_def using d frag N len by (subst put_bytes_eq) simp_all
  show "store_bytes p (20 + 8 * off) ?d = Some p'"
    unfolding p'_def using d frag N len by (intro store_bytes_Some) simp
  show l: "length p' = 16384" by (simp add: p'_def len)
  show other: "p' ! x = p ! x" if "x < 20 + 8 * off \<or> 20 + 8 * off + n \<le> x" for x
    unfolding p'_def using that d by (intro nth_put_bytes_other) simp
  show "p' ! (20 + x) = P ! x" if "8 * off \<le> x" "x < 8 * off + n" for x
  proof -
    have "x - 8 * off < n" using that by simp
    with that d frag N len show ?thesis unfolding p' by (simp add: nth_append)
  qed
  show "hole_chain (cells p') 0 hs' 0"
  proof (rule chain_keep [OF ch holes_ok_idx [OF ok N]])
    fix k assume k: "k \<le> 2044" "k \<in> fst ` set hs'"
    have "8 * k < length P" using ok k(2) by (auto simp: holes_ok_def)
    with out cell_in_hole [OF ok k(2) N, of "8 * k"] have "k < off \<or> 8 * off + n \<le> 8 * k" by auto
    then show "cells p' k = cells p k" by (auto simp: cells_def get16_def other)
  qed
qed

text \<open>The hole of the fragment is found and cut; the bytes outside the holes are kept.\<close>

lemma idx_ok_ends: "idx_ok (xs @ (a, b) # ys) \<longleftrightarrow> idx_ok (xs @ (a, b') # ys)"
  by (simp add: idx_ok_def)

lemma cut_fragment:
  assumes st: "reassembling P hdr hs v" and N: "length P \<le> 16360" and frag: "is_fragment (length P) off n"
    and miss: "\<And>x. 8 * off \<le> x \<Longrightarrow> x < 8 * off + n \<Longrightarrow> in_holes hs x"
  shows "\<exists>a v1 p first hs'. find_hole (pkt_buff v) (8 * off) (unat (first_hole v)) = Some (Some a) \<and> a \<le> off \<and>
    (if 8 * off + n = length P then truncate_last a (of_nat (length P)) v else Some v) = Some v1 \<and>
    cut_hole (pkt_buff v1) (first_hole v1) a off (int n) = Some (p, first, hs' = []) \<and> length p = 16384 \<and>
    holes_ok (length P) hs' \<and> hole_chain (cells p) 0 hs' 0 \<and> (hs' \<noteq> [] \<longrightarrow> unat first = head_idx hs' 0) \<and>
    total_len v1 = (if open_end hs' then 0xffff else of_nat (length P)) \<and>
    (\<forall>x < 20. p ! x = pkt_buff v ! x) \<and> (\<forall>x < length P. in_holes hs x \<or> p ! (20 + x) = pkt_buff v ! (20 + x)) \<and>
    (\<forall>x < length P. in_holes hs' x \<longleftrightarrow> in_holes hs x \<and> \<not> (8 * off \<le> x \<and> x < 8 * off + n))"
proof -
  let ?N = "length P" and ?e = "8 * off + n"
  have s: "length (pkt_buff v) = 16384" "holes_ok ?N hs" "hole_chain (cells (pkt_buff v)) 0 hs 0"
    "hs \<noteq> [] \<Longrightarrow> unat (first_hole v) = head_idx hs 0" "total_len v = (if open_end hs then 0xffff else of_nat ?N)"
    using st by (auto simp: reassembling_def)
  have f: "0 < n" "?e \<le> ?N" "?e < ?N \<longrightarrow> 8 dvd n" using frag by (auto simp: is_fragment_def)
  obtain xs a b ys where hs: "hs = xs @ (a, b) # ys" "a \<le> off" "?e \<le> b" "\<forall>h \<in> set xs. snd h < 8 * off"
    by (rule fragment_in_hole [OF s(2) f(1) miss])
  define b' where "b' = (if ?e = ?N then ?N else b)"
  define hs' where "hs' = xs @ cuts a b' off n @ ys"
  note ok = holes_ok_idx [OF s(2) N]
  note cut = cuts_holes [OF s(2) [unfolded hs(1)] N hs(2) f(1) hs(3) f(2,3) b'_def, folded hs'_def]
  have ok': "idx_ok (xs @ (a, b') # ys)" using ok idx_ok_ends unfolding hs(1) by blast
  have ab: "(a, b) \<in> set hs" by (simp add: hs(1))
  have b: "b < 65536" "?e \<le> b'" "b' < 65536"
    using s(2) ab N hs(3) f(2) by (auto simp: holes_ok_def b'_def)
  have found: "find_hole (pkt_buff v) (8 * off) (unat (first_hole v)) = Some (Some a)"
  proof (rule find_hole_eq [OF s(1) s(3) [unfolded hs(1)]])
    show "\<forall>h \<in> set (xs @ (a, b) # ys). 0 < fst h \<and> fst h \<le> 2044" using ok by (auto simp: hs(1) idx_ok_def)
    show "unat (first_hole v) = fst (hd (xs @ [(a, b)]))" using s(4) by (cases xs) (auto simp: hs(1))
  qed (use hs(3,4) in simp_all)
  have "\<exists>v1. (if ?e = ?N then truncate_last a (of_nat ?N) v else Some v) = Some v1 \<and>
    (\<exists>c. recelled (pkt_buff v) (pkt_buff v1) {a} c \<and> hole_chain c 0 (xs @ (a, b') # ys) 0) \<and> first_hole v1 = first_hole v \<and>
    total_len v1 = (if ?e = ?N then of_nat ?N else total_len v)"
  proof (cases "?e = ?N")
    case True
    have "unat (of_nat ?N :: u16) = ?N" using N by (intro unat16) simp
    with shorten_hole_eq [OF s(1) s(3) [unfolded hs(1)] ok [unfolded hs(1)], of "of_nat ?N"] obtain p c where
      "hole_store (pkt_buff v) a LAST (of_nat ?N) = Some p" "recelled (pkt_buff v) p {a} c" "hole_chain c 0 (xs @ (a, ?N) # ys) 0"
      by auto
    then show ?thesis using True
      by (intro exI [of _ "v\<lparr>pkt_buff := p, total_len := of_nat ?N\<rparr>"]) (auto simp: truncate_last_def b'_def)
  next
    case False
    then show ?thesis using s(3) recelled_insert [OF recelled_refl [of "pkt_buff v"]] by (auto simp: b'_def hs(1))
  qed
  then obtain v1 c where v1: "(if ?e = ?N then truncate_last a (of_nat ?N) v else Some v) = Some v1"
    "recelled (pkt_buff v) (pkt_buff v1) {a} c" "hole_chain c 0 (xs @ (a, b') # ys) 0" "first_hole v1 = first_hole v"
    "total_len v1 = (if ?e = ?N then of_nat ?N else total_len v)" by blast
  note r1 = recelledD [OF v1(2), unfolded s(1)]
  have ch1: "hole_chain (cells (pkt_buff v1)) 0 (xs @ (a, b') # ys) 0"
    by (rule chain_keep [OF v1(3) ok']) (simp add: r1(2))
  have fst1: "unat (first_hole v1) = head_idx (xs @ (a, b') # ys) 0" using s(4) v1(4) by (cases xs) (auto simp: hs(1))
  have new: "idx_ok (xs @ cuts a b' off n @ ys)" using holes_ok_idx [OF cut(1) N] by (simp add: hs'_def)
  obtain p first c2 where p: "cut_hole (pkt_buff v1) (first_hole v1) a off (int n) = Some (p, first, hs' = [])"
    "recelled (pkt_buff v1) p (insert a (fst ` set hs')) c2" "hole_chain c2 0 hs' 0" "hs' \<noteq> [] \<longrightarrow> unat first = head_idx hs' 0"
    using cut_hole_eq [OF r1(1) ch1 ok' new fst1 hs(2) b(2,3)] unfolding hs'_def by blast
  note r2 = recelledD [OF p(2), unfolded r1(1)]
  have chp: "hole_chain (cells p) 0 hs' 0" by (rule chain_keep [OF p(3) holes_ok_idx [OF cut(1) N]]) (rule r2(2))
  have same: "p ! x = pkt_buff v ! x" if "\<forall>k \<in> insert a (fst ` set hs'). x < 20 + 8 * k \<or> 28 + 8 * k \<le> x" for x
    using that p(2) v1(2) by (auto simp: recelled_def)
  have keep: "in_holes hs x \<or> p ! (20 + x) = pkt_buff v ! (20 + x)" if x: "x < ?N" for x
  proof (cases "in_holes hs x")
    case False
    then have "\<not> in_holes hs' x" using cut(2) [OF x] unfolding hs(1) by blast
    have "20 + x < 20 + 8 * k \<or> 28 + 8 * k \<le> 20 + x" if "k \<in> insert a (fst ` set hs')" for k
    proof (rule ccontr)
      assume "\<not> (20 + x < 20 + 8 * k \<or> 28 + 8 * k \<le> 20 + x)"
      then have "8 * k \<le> x" "x < 8 * k + 8" by simp_all
      moreover have "k \<in> fst ` set hs \<or> k \<in> fst ` set hs'" using that ab by force
      ultimately show False
        using False \<open>\<not> in_holes hs' x\<close> cell_in_hole [OF s(2) _ N] cell_in_hole [OF cut(1) _ N] by blast
    qed
    then show ?thesis using same by simp
  qed simp
  have low: "p ! x = pkt_buff v ! x" if "x < 20" for x using that by (intro same) auto
  have tot: "total_len v1 = (if open_end hs' then 0xffff else of_nat ?N)" using cut(3) s(5) v1(5) by (auto simp: hs(1))
  have inn: "in_holes hs' x \<longleftrightarrow> in_holes hs x \<and> \<not> (8 * off \<le> x \<and> x < ?e)" if "x < ?N" for x
    using cut(2) [OF that] unfolding hs(1) .
  show ?thesis
    by (intro exI [of _ a] exI [of _ v1] exI [of _ p] exI [of _ first] exI [of _ hs'] conjI allI impI)
      (fact found hs(2) v1(1) p(1) r2(1) cut(1) chp p(4) tot low keep inn | rule p(4) [rule_format] low keep inn; assumption)+
qed

lemma div8: "0 < n \<Longrightarrow> \<not> int off + c_div8 (int n + 7) \<le> int a" if "a \<le> off"
  using that by (simp add: c_div8_def)

text \<open>A fragment that is missing is taken; the packet is returned when no hole is left.\<close>

lemma defragment_step:
  assumes st: "reassembling P hdr hs v" and N: "length P \<le> 16360" "0 < length P" and frag: "is_fragment (length P) off n"
    and pkt: "carries_fragment P (get16 hdr 4) b ip off n"
    and miss: "\<And>x. 8 * off \<le> x \<Longrightarrow> x < 8 * off + n \<Longrightarrow> in_holes hs x"
  shows "\<exists>v' hs'. defragment b ip v = Some (if hs' = [] then Some (of_nat (length P) + 20) else None, v') \<and>
    reassembling P hdr hs' v' \<and> (hs' = [] \<longrightarrow> get16 (pkt_buff v') 2 = htons (of_nat (length P))) \<and>
    (\<forall>x < length P. in_holes hs' x \<longleftrightarrow> in_holes hs x \<and> \<not> (8 * off \<le> x \<and> x < 8 * off + n))"
proof -
  let ?N = "length P" and ?e = "8 * off + n"
  have f: "0 < n" "?e \<le> ?N" using frag by (auto simp: is_fragment_def)
  have b: "ip + 20 + n \<le> length b" "unat (ntohs (get16 b (ip + 2))) = 20 + n" "get16 b (ip + 4) = get16 hdr 4"
    "unat (ntohs (get16 b (ip + 6)) AND 0x1fff) = off" "ntohs (get16 b (ip + 6)) AND 0x2000 = 0 \<longleftrightarrow> ?e = ?N"
    "get_bytes b (ip + 20) n = take n (drop (8 * off) P)" using pkt by (auto simp: carries_fragment_def)
  obtain a v1 p first hs' where
    hole: "find_hole (pkt_buff v) (8 * off) (unat (first_hole v)) = Some (Some a)" "a \<le> off"
    and v1: "(if ?e = ?N then truncate_last a (of_nat ?N) v else Some v) = Some v1"
    and cut: "cut_hole (pkt_buff v1) (first_hole v1) a off (int n) = Some (p, first, hs' = [])" "length p = 16384"
    and hs': "holes_ok ?N hs'" "hole_chain (cells p) 0 hs' 0" "hs' \<noteq> [] \<longrightarrow> unat first = head_idx hs' 0"
      "total_len v1 = (if open_end hs' then 0xffff else of_nat ?N)"
    and keep: "\<forall>x < 20. p ! x = pkt_buff v ! x" "\<forall>x < ?N. in_holes hs x \<or> p ! (20 + x) = pkt_buff v ! (20 + x)"
    and inn: "\<forall>x < ?N. in_holes hs' x \<longleftrightarrow> in_holes hs x \<and> \<not> (8 * off \<le> x \<and> x < ?e)"
    using cut_fragment [OF st N(1) frag miss] by blast
  have e: "(word_of_int (int (8 * off) + int n) :: u16) = of_nat ?e"
    by (simp only: of_nat_add [symmetric] of_int_of_nat_eq)
  have v1': "(if ntohs (get16 b (ip + 6)) AND 0x2000 = 0 then truncate_last a (word_of_int (int (8 * off) + int n)) v
      else Some v) = Some v1" using v1 b(5) unfolding e by (cases "?e = ?N") simp_all
  have out: "\<forall>x < ?N. in_holes hs' x \<longrightarrow> \<not> (8 * off \<le> x \<and> x < ?e)" using inn by blast
  define q where "q = put_bytes p (20 + 8 * off) (take n (drop (8 * off) P))"
  note store = store_payload [OF cut(2) hs'(1) N(1) hs'(2) f(2) out, folded q_def]
  define v2 where "v2 = v1\<lparr>pkt_buff := p, first_hole := first\<rparr>"
  have ld: "load16 b (ip + 6) = Some (get16 b (ip + 6))" "load16 b (ip + 2) = Some (get16 b (ip + 2))"
    using b(1) by (simp_all add: mem_simps)
  have l: "int (unat (ntohs (get16 b (ip + 2)))) - 20 = int n" using b(2) by simp
  have small: "(int (8 * off) + int n > 16364) = False" using f(2) N(1) by simp
  have late: "(int off + c_div8 (int n + 7) \<le> int a) = False" using div8 [OF hole(2) f(1)] by simp
  have same: "frag_reset b ip v = Some v" using b(1) by (intro frag_reset_same [OF st N _ b(3)]) simp
  have run: "defragment b ip v = store_fragment b ip (8 * off) (int n) (hs' = []) v2"
    by (simp only: defragment_def ld Option.bind.simps Let_def l b(4) small if_False same hole(1) option.case late v1'
        cut(1) prod.case v2_def)
  have data: "load_bytes b (ip + 20) (nat (int n)) = Some (take n (drop (8 * off) P))"
    using b(1,6) by (simp add: mem_simps)
  have payload: "in_holes hs' x \<or> q ! (20 + x) = P ! x" if x: "x < ?N" for x
  proof (cases "8 * off \<le> x \<and> x < ?e")
    case False
    then have q: "q ! (20 + x) = p ! (20 + x)" by (intro store(4)) auto
    have "in_holes hs x \<or> pkt_buff v ! (20 + x) = P ! x" using st x by (simp add: reassembling_def)
    then show ?thesis using False inn keep(2) x q by metis
  qed (use store(5) in blast)
  have low: "q ! x = hdr ! x" if "x < 20" "x \<noteq> 2" "x \<noteq> 3" for x
    using that st keep(1) store(4) [of x] by (simp add: reassembling_def)
  show ?thesis
  proof (cases "hs' = []")
    case False
    have "reassembling P hdr hs' (v2\<lparr>pkt_buff := q\<rparr>)"
      using store(2,3) hs' low payload by (simp add: reassembling_def v2_def)
    moreover have "defragment b ip v = Some (None, v2\<lparr>pkt_buff := q\<rparr>)"
      using False by (simp add: run store_fragment_def data store(1) v2_def del: nat_int)
    ultimately show ?thesis using False inn by (intro exI [of _ "v2\<lparr>pkt_buff := q\<rparr>"] exI [of _ hs']) simp
  next
    case True
    let ?q = "put16 q 2 (htons (of_nat ?N))"
    have tot: "total_len v1 = of_nat ?N" using hs'(4) True by (simp add: open_end_def)
    have o: "?q ! x = q ! x" if "x \<noteq> 2" "x \<noteq> 3" for x using that by (intro wr16.nth_put_other) auto
    have "reassembling P hdr hs' (v2\<lparr>pkt_buff := ?q\<rparr>)"
      using store(2) hs'(1) low payload True tot by (simp add: reassembling_def v2_def o open_end_def)
    moreover have "ucast (of_nat ?N :: u16) = (of_nat ?N :: u32)"
      using N(1) by (simp add: ucast_of_nat_small)
    moreover have "store16 q 2 (htons (of_nat ?N)) = Some ?q" using store(2) by (simp add: mem_simps)
    then have "defragment b ip v = Some (Some (ucast (of_nat ?N :: u16) + 20), v2\<lparr>pkt_buff := ?q\<rparr>)"
      using True tot by (simp add: run store_fragment_def data store(1) v2_def del: nat_int)
    moreover have "get16 ?q 2 = htons (of_nat ?N)" using store(2) by (simp add: mem_simps)
    ultimately show ?thesis using True inn by (intro exI [of _ "v2\<lparr>pkt_buff := ?q\<rparr>"] exI [of _ hs']) simp
  qed
qed

section \<open>The first fragment\<close>

lemma frag_reset_new:
  assumes "length (pkt_buff v) = 16384" "ip + 20 \<le> length b"
    and fresh: "total_len v = 0 \<or> get16 (pkt_buff v) 4 \<noteq> get16 b (ip + 4)"
  shows "\<exists>p. frag_reset b ip v = Some \<lparr>pkt_buff = p, first_hole = 0, total_len = 0xffff\<rparr> \<and> length p = 16384 \<and>
    cells p 0 = (65535, 0, 0) \<and> (\<forall>x < 20. p ! x = b ! (ip + x))"
proof -
  let ?hdr = "get_bytes b ip 20"
  obtain p1 where 1: "hole_store (pkt_buff v) 0 LAST (NOT 0) = Some p1"
    "recelled (pkt_buff v) p1 {0} ((cells (pkt_buff v))(0 := set_field 0 (unat (NOT 0 :: u16)) (cells (pkt_buff v) 0)))"
    using hole_store_eq [OF assms(1), of 0 LAST "NOT 0"] by auto
  note r1 = recelledD [OF 1(2), unfolded assms(1)]
  obtain p2 where 2: "hole_store p1 0 NEXT 0 = Some p2"
    "recelled p1 p2 {0} ((cells p1)(0 := set_field 2 (unat (0 :: u16)) (cells p1 0)))"
    using hole_store_eq [OF r1(1), of 0 NEXT 0] by auto
  note r2 = recelledD [OF 2(2), unfolded r1(1)]
  obtain p3 where 3: "hole_store p2 0 PREV 0 = Some p3"
    "recelled p2 p3 {0} ((cells p2)(0 := set_field 4 (unat (0 :: u16)) (cells p2 0)))"
    using hole_store_eq [OF r2(1), of 0 PREV 0] by auto
  note r3 = recelledD [OF 3(2), unfolded r2(1)]
  define p where "p = put_bytes p3 0 ?hdr"
  have hdr: "length ?hdr = 20" using assms(2) by simp
  have "unat (NOT 0 :: u16) = 65535" by (simp add: unsigned_minus_1_eq_mask mask_eq_exp_minus_1)
  then have c3: "cells p3 0 = (65535, 0, 0)"
    by (simp add: r3(2) r2(2) r1(2) set_field_def split_def)
  have p: "p = ?hdr @ drop 20 p3" unfolding p_def using hdr r3(1) by (subst put_bytes_eq) auto
  have "cells p 0 = cells p3 0" unfolding p by (simp add: cells_def get16_def nth_append hdr r3(1))
  moreover have "p ! x = b ! (ip + x)" if "x < 20" for x
    using that assms(2) hdr unfolding p by (simp add: nth_append get_bytes_def)
  moreover have "frag_reset b ip v = Some \<lparr>pkt_buff = p, first_hole = 0, total_len = 0xffff\<rparr>"
    using fresh assms 1(1) 2(1) 3(1) hdr r3(1) by (simp add: frag_reset_def mem_simps p_def)
  moreover have "length p = 16384" by (simp add: p_def r3(1))
  ultimately show ?thesis using c3 by (intro exI [of _ p]) simp
qed

lemma defragment_first:
  assumes len: "length (pkt_buff v) = 16384" and N: "length P \<le> 16360" and frag: "is_fragment (length P) 0 n" "n < length P"
    and pkt: "carries_fragment P ident b ip 0 n" and fresh: "total_len v = 0 \<or> get16 (pkt_buff v) 4 \<noteq> ident"
  shows "\<exists>v'. defragment b ip v = Some (None, v') \<and> reassembling P (get_bytes b ip 20) [(n div 8, 65535)] v'"
proof -
  have f: "0 < n" "8 dvd n" using frag by (auto simp: is_fragment_def)
  have b: "ip + 20 + n \<le> length b" "unat (ntohs (get16 b (ip + 2))) = 20 + n" "get16 b (ip + 4) = ident"
    "unat (ntohs (get16 b (ip + 6)) AND 0x1fff) = 0" "(ntohs (get16 b (ip + 6)) AND 0x2000 = 0) = False"
    "get_bytes b (ip + 20) n = take n P" using pkt frag(2) by (auto simp: carries_fragment_def)
  let ?k = "n div 8" and ?v = "\<lambda>p. \<lparr>pkt_buff = p, first_hole = 0, total_len = 0xffff :: u16\<rparr>"
  obtain p where p: "frag_reset b ip v = Some (?v p)" "length p = 16384" "cells p 0 = (65535, 0, 0)"
    "\<forall>x < 20. p ! x = b ! (ip + x)"
    using frag_reset_new [OF len, of ip b] fresh b(1,3) by auto
  obtain w where w: "hole_load p 0 LAST = Some w" "unat w = 65535" using hole_load_eq(1) [OF p(2), of 0] p(3) by auto
  have find0: "find_hole p 0 0 = Some (Some 0)" using w by (subst find_hole.simps) simp
  have k: "?k \<le> 2044" "0 < ?k" "8 * ?k = n" using f frag(2) N by auto
  have nk: "new_hole 0 (int n) = Some ?k" by (simp add: new_hole_def c_div8_def) (simp add: zdiv_int [of n 8, simplified, symmetric])
  obtain p1 where 1: "hole_copy p 0 ?k = Some p1" "recelled p p1 {?k} ((cells p)(?k := cells p 0))"
    using hole_copy_eq [OF p(2) _ k(1), of 0] by auto
  note r1 = recelledD [OF 1(2), unfolded p(2)]
  have c1: "cells p1 ?k = (65535, 0, 0)" using r1(2) k p(3) by simp
  have "hole_load p1 ?k NEXT = Some 0" "hole_load p1 ?k PREV = Some 0"
    using hole_load_eq(2,3) [OF r1(1) k(1)] c1 by (auto simp: unsigned_eq_0_iff)
  then have "move_hole p 0 0 ?k = Some (p1, of_nat ?k, False)" by (simp add: move_hole_def 1(1))
  moreover have cov: "(int (unat w) \<le> int (8 * 0) + int n) = False" using w(2) N frag(2) by (simp only: w(2)) simp
  ultimately have cut: "cut_hole p 0 0 0 (int n) = Some (p1, of_nat ?k, False)"
    unfolding cut_hole_def w(1) Option.bind.simps Let_def cov nk by simp
  have ok: "holes_ok (length P) [(?k, 65535)]" using k frag(2) N by (simp add: holes_ok_def)
  have ch: "hole_chain (cells p1) 0 [(?k, 65535)] 0" by (simp add: c1)
  define q where "q = put_bytes p1 (20 + 8 * 0) (take n (drop (8 * 0) P))"
  have out: "\<forall>x < length P. in_holes [(?k, 65535)] x \<longrightarrow> \<not> (8 * 0 \<le> x \<and> x < 8 * 0 + n)" using k by simp
  have le: "8 * 0 + n \<le> length P" using frag(2) by simp
  note store = store_payload [OF r1(1) ok N ch le out, folded q_def]
  have ld: "load16 b (ip + 6) = Some (get16 b (ip + 6))" "load16 b (ip + 2) = Some (get16 b (ip + 2))"
    using b(1) by (simp_all add: mem_simps)
  have l: "int (unat (ntohs (get16 b (ip + 2)))) - 20 = int n" using b(2) by simp
  have small: "(int (8 * 0) + int n > 16364) = False" using frag(2) N by simp
  have late: "(int 0 + c_div8 (int n + 7) \<le> int 0) = False" using div8 [OF order.refl f(1), of 0] by simp
  have z: "unat (0 :: u16) = 0" "8 * (0 :: nat) = 0" by simp_all
  let ?v1 = "\<lparr>pkt_buff = p1, first_hole = of_nat ?k, total_len = 0xffff\<rparr> :: frag_vars"
  have run: "defragment b ip v = store_fragment b ip 0 (int n) False ?v1"
    unfolding defragment_def ld Option.bind.simps Let_def l b(4) small if_False p(1)
    by (simp only: frag_vars.select_convs z find0 option.case late b(5) if_False Option.bind.simps cut prod.case
        frag_vars.update_convs)
  have "load_bytes b (ip + 20) (nat (int n)) = Some (take n P)" using b(1,6) by (simp add: mem_simps)
  with run store(1) have "defragment b ip v = Some (None, ?v1\<lparr>pkt_buff := q\<rparr>)"
    by (simp add: store_fragment_def)
  moreover have "reassembling P (get_bytes b ip 20) [(?k, 65535)] (?v1\<lparr>pkt_buff := q\<rparr>)"
    unfolding reassembling_def
  proof (intro conjI allI impI)
    fix x assume x: "x < length P"
    show "in_holes [(?k, 65535)] x \<or> pkt_buff (?v1\<lparr>pkt_buff := q\<rparr>) ! (20 + x) = P ! x"
      using store(5) [of x] x k N by (cases "x < n") auto
  next
    fix x :: nat assume x: "x < 20"
    have "q ! x = p1 ! x" using x by (intro store(4)) simp
    also have "\<dots> = p ! x" using 1(2) x by (simp add: recelled_def)
    finally show "pkt_buff (?v1\<lparr>pkt_buff := q\<rparr>) ! x = get_bytes b ip 20 ! x"
      using p(4) x b(1) by (simp add: get_bytes_def)
  qed (use store(2,3) ok k in \<open>simp_all add: open_end_def unat16\<close>)
  ultimately show ?thesis by blast
qed

section \<open>The whole datagram\<close>

fun receive_fragments :: "(bytes \<times> nat) list \<Rightarrow> frag_vars \<Rightarrow> (u32 option list \<times> frag_vars) option" where
  "receive_fragments [] v = Some ([], v)"
| "receive_fragments ((b, ip) # ps) v = do {
     (r, v) \<leftarrow> defragment b ip v;
     (rs, v) \<leftarrow> receive_fragments ps v;
     Some (r # rs, v) }"

definition covers :: "nat \<Rightarrow> nat \<times> nat \<Rightarrow> bool" where
  "covers x f \<longleftrightarrow> 8 * fst f \<le> x \<and> x < 8 * fst f + snd f"

lemma no_holes:
  assumes "holes_ok N hs" "\<And>x. x < N \<Longrightarrow> \<not> in_holes hs x"
  shows "hs = []"
proof (cases hs)
  case (Cons h hs')
  obtain a b where "h = (a, b)" by (cases h)
  with Cons assms(1) have "8 * a < N" "in_holes hs (8 * a)" by (auto simp: holes_ok_def)
  with assms(2) show ?thesis by blast
qed simp

lemma receive_rest:
  assumes st: "reassembling P hdr hs v" and N: "length P \<le> 16360" "0 < length P"
    and frags: "\<forall>f \<in> set fs. is_fragment (length P) (fst f) (snd f)"
    and pkts: "list_all2 (\<lambda>p f. carries_fragment P (get16 hdr 4) (fst p) (snd p) (fst f) (snd f)) ps fs"
    and once: "\<forall>x < length P. length (filter (covers x) fs) = (if in_holes hs x then 1 else 0)" and some: "fs \<noteq> []"
  shows "\<exists>v'. receive_fragments ps v = Some (replicate (length fs - 1) None @ [Some (of_nat (length P) + 20)], v') \<and>
    reassembling P hdr [] v' \<and> get16 (pkt_buff v') 2 = htons (of_nat (length P))"
  using st frags pkts once some
proof (induction fs arbitrary: ps hs v)
  case (Cons f fs)
  obtain b ip ps' where ps: "ps = (b, ip) # ps'" using Cons.prems(3) by (auto simp: list_all2_Cons2)
  let ?in = "\<lambda>x. 8 * fst f \<le> x \<and> x < 8 * fst f + snd f"
  have f: "is_fragment (length P) (fst f) (snd f)" using Cons.prems(2) by simp
  have pkt: "carries_fragment P (get16 hdr 4) b ip (fst f) (snd f)" using Cons.prems(3) by (simp add: ps)
  have miss: "in_holes hs x" if "8 * fst f \<le> x" "x < 8 * fst f + snd f" for x
  proof -
    have "x < length P" using that f by (auto simp: is_fragment_def)
    then show ?thesis using Cons.prems(4) that by (auto simp: covers_def split: if_splits)
  qed
  obtain v' hs' where 1: "defragment b ip v = Some (if hs' = [] then Some (of_nat (length P) + 20) else None, v')"
    "reassembling P hdr hs' v'" "hs' = [] \<longrightarrow> get16 (pkt_buff v') 2 = htons (of_nat (length P))"
    "\<forall>x < length P. in_holes hs' x \<longleftrightarrow> in_holes hs x \<and> \<not> ?in x"
    using defragment_step [OF Cons.prems(1) N f pkt miss] by blast
  have once': "\<forall>x < length P. length (filter (covers x) fs) = (if in_holes hs' x then 1 else 0)"
  proof (intro allI impI)
    fix x assume x: "x < length P"
    have "length (filter (covers x) (f # fs)) = (if in_holes hs x then 1 else 0)" using Cons.prems(4) x by blast
    then show "length (filter (covers x) fs) = (if in_holes hs' x then 1 else 0)"
      using 1(4) x miss [of x] by (cases "?in x") (auto simp: covers_def split: if_splits)
  qed
  have ok: "holes_ok (length P) hs'" using 1(2) by (simp add: reassembling_def)
  show ?case
  proof (cases fs)
    case Nil
    then have "hs' = []" using once' by (intro no_holes [OF ok]) (auto split: if_splits)
    with Nil 1 Cons.prems(3) show ?thesis by (simp add: ps)
  next
    case (Cons g gs)
    have g: "0 < snd g" "8 * fst g + snd g \<le> length P" using Cons.prems(2) Cons by (auto simp: is_fragment_def)
    then have "covers (8 * fst g) g" "8 * fst g < length P" by (auto simp: covers_def)
    then have "in_holes hs' (8 * fst g)" using once' Cons by (auto split: if_splits)
    then have "hs' \<noteq> []" by auto
    moreover obtain v'' where "receive_fragments ps' v' =
        Some (replicate (length fs - 1) None @ [Some (of_nat (length P) + 20)], v'')"
      "reassembling P hdr [] v''" "get16 (pkt_buff v'') 2 = htons (of_nat (length P))"
      using Cons.IH [OF 1(2) _ _ once'] Cons.prems(2,3) Cons by (auto simp: ps)
    ultimately show ?thesis using 1(1) Cons by (simp add: ps)
  qed
qed simp

text \<open>Fragments of a small datagram, to run the theorems on.\<close>

definition example_payload :: bytes where
  "example_payload = map of_nat [1..<22]"

definition example_fragment :: "nat \<Rightarrow> nat \<Rightarrow> bytes" where
  "example_fragment off n =
     (let w = (of_nat off :: u16) OR (if 8 * off + n < 21 then 0x2000 else 0); l = (of_nat (20 + n) :: u16) in
      [0x45, 0, ucast (drop_bit 8 l), ucast l, 0x12, 0x34, ucast (drop_bit 8 w), ucast w, 64, 17, 0, 0, 10, 0, 0, 1, 10, 0, 0, 2]
      @ take n (drop (8 * off) example_payload))"

lemma example_fragments:
  "is_fragment (length example_payload) 0 8" "is_fragment (length example_payload) 1 8" "is_fragment (length example_payload) 2 5"
  "carries_fragment example_payload 0x3412 (example_fragment 0 8) 0 0 8"
  "carries_fragment example_payload 0x3412 (example_fragment 1 8) 0 1 8"
  "carries_fragment example_payload 0x3412 (example_fragment 2 5) 0 2 5"
  "get16 (example_fragment 0 8) 4 = 0x3412"
  by code_simp+

lemma example_cover: "\<forall>x < length example_payload. length (filter (covers x) [(0, 8), (2, 5), (1, 8)]) = 1"
  by code_simp

lemma example_payload_length: "length example_payload = 21"
  by (simp add: example_payload_def)

lemma frag_vars_init_length: "length (pkt_buff frag_vars_init) = 16384" "total_len frag_vars_init = 0"
  by (simp_all add: frag_vars_init_def)

text \<open>
  C14: reassembly does what it is for. A payload of at most 16360 bytes, cut into at least two fragments that cover every
  byte once and arrive in any order after the first one, is put together: all but the last packet
  give nothing, the last one gives the length of the packet, and the buffer holds the payload behind the header
  of the first packet (with the length of the payload, not of the packet, in \<^verbatim>\<open>ip_len\<close>). The packets
  before this one do not matter, except for one with the same identification.
\<close>

theorem defragment_reassembles:
  assumes buf: "length (pkt_buff v) = 16384" and size: "length P \<le> 16360"
    and fresh: "total_len v = 0 \<or> get16 (pkt_buff v) 4 \<noteq> get16 (fst (hd ps)) (snd (hd ps) + 4)"
    and frags: "\<forall>f \<in> set fs. is_fragment (length P) (fst f) (snd f)"
    and pkts: "list_all2 (\<lambda>p f. carries_fragment P (get16 (fst (hd ps)) (snd (hd ps) + 4)) (fst p) (snd p) (fst f) (snd f)) ps fs"
    and once: "\<forall>x < length P. length (filter (covers x) fs) = 1"
    and first: "fst (hd fs) = 0" "2 \<le> length fs"
  shows "\<exists>v'. receive_fragments ps v = Some (replicate (length fs - 1) None @ [Some (of_nat (length P) + 20)], v') \<and>
    get_bytes (pkt_buff v') 20 (length P) = P \<and> get16 (pkt_buff v') 2 = htons (of_nat (length P)) \<and>
    (\<forall>x < 20. x \<noteq> 2 \<and> x \<noteq> 3 \<longrightarrow> pkt_buff v' ! x = fst (hd ps) ! (snd (hd ps) + x))"
proof -
  let ?N = "length P"
  obtain n g fs' where fs: "fs = (0, n) # g # fs'" using first by (cases fs; cases "tl fs") auto
  obtain b ip ps' where ps: "ps = (b, ip) # ps'" using pkts by (auto simp: fs list_all2_Cons2)
  have g: "0 < snd g" "8 * fst g + snd g \<le> ?N" using frags by (auto simp: fs is_fragment_def)
  have nN: "n \<le> ?N" "0 < n" using frags by (auto simp: fs is_fragment_def)
  have "n < ?N"
  proof (rule ccontr)
    assume "\<not> n < ?N"
    then have "covers (8 * fst g) (0, n)" "covers (8 * fst g) g" "8 * fst g < ?N" using g nN by (auto simp: covers_def)
    moreover have "length (filter (covers (8 * fst g)) fs) = 1" using once calculation(3) by blast
    ultimately show False by (simp add: fs)
  qed
  let ?hdr = "get_bytes b ip 20"
  have pkt: "carries_fragment P (get16 b (ip + 4)) b ip 0 n" "is_fragment ?N 0 n" using pkts frags by (auto simp: ps fs)
  have len: "ip + 20 \<le> length b" using pkt(1) by (simp add: carries_fragment_def)
  have id: "get16 ?hdr 4 = get16 b (ip + 4)" using len by (simp add: get16_def get_bytes_def ac_simps)
  have fresh': "total_len v = 0 \<or> get16 (pkt_buff v) 4 \<noteq> get16 b (ip + 4)" using fresh by (simp add: ps)
  obtain v1 where v1: "defragment b ip v = Some (None, v1)" "reassembling P ?hdr [(n div 8, 65535)] v1"
    using defragment_first [OF buf size pkt(2) \<open>n < ?N\<close> pkt(1) fresh'] by blast
  have k: "8 * (n div 8) = n" using pkt(2) \<open>n < ?N\<close> by (auto simp: is_fragment_def)
  have rest: "\<forall>x < ?N. length (filter (covers x) (g # fs')) = (if in_holes [(n div 8, 65535)] x then 1 else 0)"
  proof (intro allI impI)
    fix x assume x: "x < ?N"
    then have "length (filter (covers x) fs) = 1" using once by blast
    then show "length (filter (covers x) (g # fs')) = (if in_holes [(n div 8, 65535)] x then 1 else 0)"
      using k x size by (cases "x < n") (auto simp: fs covers_def)
  qed
  have "\<exists>v'. receive_fragments ps' v1 = Some (replicate (length (g # fs') - 1) None @ [Some (of_nat ?N + 20)], v') \<and>
      reassembling P ?hdr [] v' \<and> get16 (pkt_buff v') 2 = htons (of_nat ?N)"
    using frags pkts \<open>n < ?N\<close> by (intro receive_rest [OF v1(2) size _ _ _ rest]) (auto simp: ps fs id)
  then obtain v' where v': "receive_fragments ps' v1 = Some (replicate (length (g # fs') - 1) None @ [Some (of_nat ?N + 20)], v')"
    "reassembling P ?hdr [] v'" "get16 (pkt_buff v') 2 = htons (of_nat ?N)" by blast
  have p': "length (pkt_buff v') = 16384" "\<forall>x < 20. x \<noteq> 2 \<and> x \<noteq> 3 \<longrightarrow> pkt_buff v' ! x = ?hdr ! x"
    "\<forall>x < ?N. pkt_buff v' ! (20 + x) = P ! x" using v'(2) by (auto simp: reassembling_def)
  have "get_bytes (pkt_buff v') 20 ?N = P"
    using p'(1,3) size by (intro nth_equalityI) (auto simp: get_bytes_def)
  moreover have "\<forall>x < 20. x \<noteq> 2 \<and> x \<noteq> 3 \<longrightarrow> pkt_buff v' ! x = b ! (ip + x)"
    using p'(2) len by (simp add: get_bytes_def)
  moreover have "receive_fragments ps v = Some (replicate (length fs - 1) None @ [Some (of_nat ?N + 20)], v')"
    using v1(1) v'(1) by (simp add: ps fs)
  ultimately show ?thesis using v'(3) by (simp add: ps)
qed

theorem defragment_reassembles_witness:
  "\<exists>v'. receive_fragments [(example_fragment 0 8, 0), (example_fragment 2 5, 0), (example_fragment 1 8, 0)] frag_vars_init =
     Some (replicate (length [(0::nat, 8::nat), (2, 5), (1, 8)] - 1) None @ [Some (of_nat (length example_payload) + 20)], v') \<and>
    get_bytes (pkt_buff v') 20 (length example_payload) = example_payload \<and> get16 (pkt_buff v') 2 = htons (of_nat (length example_payload)) \<and>
    (\<forall>x < 20. x \<noteq> 2 \<and> x \<noteq> 3 \<longrightarrow> pkt_buff v' ! x = fst (hd [(example_fragment 0 8, 0), (example_fragment 2 5, 0), (example_fragment 1 8, 0)]) ! (snd (hd [(example_fragment 0 8, 0), (example_fragment 2 5, 0), (example_fragment 1 8, 0)]) + x))"
  using defragment_reassembles [of frag_vars_init example_payload
      "[(example_fragment 0 8, 0), (example_fragment 2 5, 0), (example_fragment 1 8, 0)]" "[(0, 8), (2, 5), (1, 8)]",
      OF _ _ _ _ _ example_cover]
  by (simp add: frag_vars_init_length example_fragments [unfolded example_payload_length] example_payload_length del: One_nat_def)

section \<open>What goes wrong\<close>

text \<open>How a fragment of a new packet is taken, up to the cut.\<close>

lemma defragment_new:
  assumes len: "length (pkt_buff v) = 16384" and fresh: "total_len v = 0 \<or> get16 (pkt_buff v) 4 \<noteq> get16 b (ip + 4)"
    and b: "ip + 20 \<le> length b" and off: "unat (ntohs (get16 b (ip + 6)) AND 0x1fff) = off"
    and more: "ntohs (get16 b (ip + 6)) AND 0x2000 \<noteq> 0"
    and n: "int (unat (ntohs (get16 b (ip + 2)))) - 20 = n" "int (8 * off) + n \<le> 16364" "0 < int off + c_div8 (n + 7)"
  shows "\<exists>p. length p = 16384 \<and> cells p 0 = (65535, 0, 0) \<and> (\<forall>x < 20. p ! x = b ! (ip + x)) \<and>
    defragment b ip v = cut_hole p 0 0 off n \<bind> (\<lambda>(p, first, done).
      store_fragment b ip (8 * off) n done \<lparr>pkt_buff = p, first_hole = first, total_len = 0xffff\<rparr>)"
proof -
  obtain p where p: "frag_reset b ip v = Some \<lparr>pkt_buff = p, first_hole = 0, total_len = 0xffff\<rparr>" "length p = 16384"
    "cells p 0 = (65535, 0, 0)" "\<forall>x < 20. p ! x = b ! (ip + x)" using frag_reset_new [OF len b fresh] by blast
  obtain w where w: "hole_load p 0 LAST = Some w" "unat w = 65535" using hole_load_eq(1) [OF p(2), of 0] p(3) by auto
  have "8 * off \<le> 65535"
  proof -
    have "unat (ntohs (get16 b (ip + 6)) AND 0x1fff) \<le> unat (0x1fff :: u16)"
      unfolding word_le_nat_alt [symmetric] by (rule word_and_le1)
    then show ?thesis using off by simp
  qed
  then have find0: "find_hole p (8 * off) 0 = Some (Some 0)" using w by (subst find_hole.simps) simp
  have ld: "load16 b (ip + 6) = Some (get16 b (ip + 6))" "load16 b (ip + 2) = Some (get16 b (ip + 2))"
    using b by (simp_all add: mem_simps)
  have small: "(int (8 * off) + n > 16364) = False" "(int off + c_div8 (n + 7) \<le> int 0) = False"
    "(ntohs (get16 b (ip + 6)) AND 0x2000 = 0) = False" using n(2,3) more by simp_all
  have z: "unat (0 :: u16) = 0" by simp
  have "defragment b ip v = cut_hole p 0 0 off n \<bind> (\<lambda>(p, first, done).
      store_fragment b ip (8 * off) n done \<lparr>pkt_buff = p, first_hole = first, total_len = 0xffff\<rparr>)"
    unfolding defragment_def ld Option.bind.simps Let_def n(1) off small if_False p(1)
    by (simp only: frag_vars.select_convs z find0 option.case small if_False Option.bind.simps frag_vars.update_convs)
  with p show ?thesis by blast
qed

text \<open>
  C21: a fragment that starts a new packet away from its beginning and whose total length is below that of its header is
  undefined behaviour: the length is negative, no test stops it, and it is the size of a \<^verbatim>\<open>memcpy\<close>.
\<close>

theorem short_fragment:
  assumes len: "length (pkt_buff v) = 16384" and fresh: "total_len v = 0 \<or> get16 (pkt_buff v) 4 \<noteq> get16 b (ip + 4)"
    and b: "ip + 20 \<le> length b" and off: "3 \<le> unat (ntohs (get16 b (ip + 6)) AND 0x1fff)"
      "unat (ntohs (get16 b (ip + 6)) AND 0x1fff) \<le> 2045"
    and more: "ntohs (get16 b (ip + 6)) AND 0x2000 \<noteq> 0" and short: "unat (ntohs (get16 b (ip + 2))) < 20"
  shows "defragment b ip v = None"
proof -
  let ?n = "int (unat (ntohs (get16 b (ip + 2)))) - 20"
  have n: "- 20 \<le> ?n" "?n < 0" using short by linarith+
  have "-1 \<le> c_div8 (m + 7)" if "- 20 \<le> m" for m using that unfolding c_div8_def by presburger
  from this [OF n(1)] have "-1 \<le> c_div8 (?n + 7)" .
  then have "0 < int (unat (ntohs (get16 b (ip + 6)) AND 0x1fff)) + c_div8 (?n + 7)" using off(1) by linarith
  from defragment_new [OF len fresh b refl more refl _ this] off(2) n(2) obtain p where
    "defragment b ip v = cut_hole p 0 0 (unat (ntohs (get16 b (ip + 6)) AND 0x1fff)) ?n \<bind> (\<lambda>(p, first, done).
      store_fragment b ip (8 * unat (ntohs (get16 b (ip + 6)) AND 0x1fff)) ?n done
        \<lparr>pkt_buff = p, first_hole = first, total_len = 0xffff\<rparr>)" by fastforce
  moreover have "store_fragment b ip s ?n fin v' = None" for s fin v' using n(2) by (simp add: store_fragment_def)
  ultimately show ?thesis by (cases "cut_hole p 0 0 (unat (ntohs (get16 b (ip + 6)) AND 0x1fff)) ?n") auto
qed

theorem short_fragment_witness:
  "defragment [0x45, 0, 0, 10, 0x12, 0x34, 0x20, 3, 64, 17, 0, 0, 10, 0, 0, 1, 10, 0, 0, 2] 0 frag_vars_init = None"
  by (rule short_fragment) (simp add: frag_vars_init_length, simp add: frag_vars_init_length, code_simp+)

text \<open>The only hole, at index 0, split: its cell keeps the number 0 in the link of the other one.\<close>

lemma split_only_hole:
  assumes p: "length p = 16384" "cells p 0 = (65535, 0, 0)" and k: "0 < k" "k \<le> 2044" and off: "8 * off < 65536"
  shows "\<exists>q. split_hole p 0 0 (8 * off) k = Some (q, 0, False) \<and> length q = 16384 \<and>
    cells q 0 = (8 * off, k, 0) \<and> cells q k = (65535, 0, 0) \<and> (\<forall>x < 20. q ! x = p ! x)"
proof -
  have wd: "unat (of_nat k :: u16) = k" "unat (of_nat (8 * off) :: u16) = 8 * off"
    using k off by (intro unat16; simp)+
  obtain q1 where 1: "hole_copy p 0 k = Some q1" "recelled p q1 {k} ((cells p)(k := cells p 0))"
    using hole_copy_eq [OF p(1) _ k(2), of 0] by auto
  note r1 = recelledD [OF 1(2), unfolded p(1)]
  obtain q2 where 2: "hole_store q1 0 LAST (of_nat (8 * off)) = Some q2"
    "recelled q1 q2 {0} ((cells q1)(0 := set_field 0 (unat (of_nat (8 * off) :: u16)) (cells q1 0)))"
    using hole_store_eq [OF r1(1), of 0 LAST "of_nat (8 * off)"] by auto
  note r2 = recelledD [OF 2(2), unfolded r1(1)]
  obtain q3 where 3: "hole_store q2 0 NEXT (of_nat k) = Some q3"
    "recelled q2 q3 {0} ((cells q2)(0 := set_field 2 (unat (of_nat k :: u16)) (cells q2 0)))"
    using hole_store_eq [OF r2(1), of 0 NEXT "of_nat k"] by auto
  note r3 = recelledD [OF 3(2), unfolded r2(1)]
  obtain q4 where 4: "hole_store q3 k PREV (of_nat 0) = Some q4"
    "recelled q3 q4 {k} ((cells q3)(k := set_field 4 (unat (of_nat 0 :: u16)) (cells q3 k)))"
    using hole_store_eq [OF r3(1) k(2), of PREV "of_nat 0"] by auto
  note r4 = recelledD [OF 4(2), unfolded r3(1)]
  have k0: "k \<noteq> 0" using k(1) by simp
  have c4: "cells q4 0 = (8 * off, k, 0)" "cells q4 k = (65535, 0, 0)"
    using k0 k(2) p(2) by (simp_all add: r4(2) r3(2) r2(2) r1(2) set_field_def wd del: of_nat_mult)
  have "hole_load q4 k NEXT = Some 0" using hole_load_eq(2) [OF r4(1) k(2)] c4(2) by (auto simp: unsigned_eq_0_iff)
  then have split: "split_hole p 0 0 (8 * off) k = Some (q4, 0, False)"
    using 1(1) 2(1) 3(1) 4(1) by (simp add: split_hole_def del: of_nat_mult)
  have low4: "q4 ! x = p ! x" if "x < 20" for x
    using that 1(2) 2(2) 3(2) 4(2) by (simp add: recelled_def)
  with split r4(1) c4 show ?thesis by blast
qed

lemma gap_at_start:
  assumes len: "length (pkt_buff v) = 16384" and size: "length P \<le> 16360"
    and fresh: "total_len v = 0 \<or> get16 (pkt_buff v) 4 \<noteq> ident" and off: "0 < off"
    and frags: "is_fragment (length P) off m" "8 * k = 8 * off + m" "8 * k < length P"
    and pkt: "carries_fragment P ident b ip off m"
  shows "\<exists>q. defragment b ip v = Some (None, \<lparr>pkt_buff = q, first_hole = 0, total_len = 0xffff\<rparr>) \<and>
    length q = 16384 \<and> cells q 0 = (8 * off, k, 0) \<and> cells q k = (65535, 0, 0) \<and> get16 q 4 = ident"
proof -
  let ?N = "length P"
  have f: "0 < m" "0 < m" "8 * k < ?N" "8 dvd m" "m div 8 + off = k" "off < k" "k \<le> 2044"
    using frags size off by (auto simp: is_fragment_def)
  have p1: "ip + 20 + m \<le> length b" "int (unat (ntohs (get16 b (ip + 2)))) - 20 = int m" "get16 b (ip + 4) = ident"
    "unat (ntohs (get16 b (ip + 6)) AND 0x1fff) = off" "ntohs (get16 b (ip + 6)) AND 0x2000 \<noteq> 0"
    "get_bytes b (ip + 20) m = take m (drop (8 * off) P)"
    using pkt frags(2) f(3) by (auto simp: carries_fragment_def)
  have new: "total_len v = 0 \<or> get16 (pkt_buff v) 4 \<noteq> get16 b (ip + 4)" using fresh p1(3) by simp
  have "int (8 * off) + int m \<le> 16364" "0 < int off + c_div8 (int m + 7)"
    using frags(2) f(3) size f(1) off by (auto simp: c_div8_def)
  from defragment_new [OF len new _ p1(4,5,2) this] p1(1) obtain p where
    p: "length p = 16384" "cells p 0 = (65535, 0, 0)" "\<forall>x < 20. p ! x = b ! (ip + x)" and
    run: "defragment b ip v = cut_hole p 0 0 off (int m) \<bind> (\<lambda>(p, first, done).
      store_fragment b ip (8 * off) (int m) done \<lparr>pkt_buff = p, first_hole = first, total_len = 0xffff\<rparr>)" by fastforce
  obtain w where w: "hole_load p 0 LAST = Some w" "unat w = 65535" using hole_load_eq(1) [OF p(1), of 0] p(2) by auto
  have "new_hole off (int m) = Some (off + m div 8)"
    by (simp add: new_hole_def c_div8_def) (simp add: zdiv_int [of m 8, simplified, symmetric])
  then have nk: "new_hole off (int m) = Some k" using f(5) by (simp add: add.commute)
  have cov: "(int (unat w) \<le> int (8 * off) + int m) = False" using w(2) frags(2) f(3) size by (simp only: w(2)) simp
  have cut: "cut_hole p 0 0 off (int m) = split_hole p 0 0 (8 * off) k"
    unfolding cut_hole_def w(1) Option.bind.simps Let_def cov nk using off by simp
  have "8 * off < 65536" using f(6,7) by simp
  with split_only_hole [OF p(1,2) _ f(7), of off] f(6) obtain q4 where q4:
    "split_hole p 0 0 (8 * off) k = Some (q4, 0, False)" "length q4 = 16384"
    "cells q4 0 = (8 * off, k, 0)" "cells q4 k = (65535, 0, 0)" "\<forall>x < 20. q4 ! x = p ! x" by auto
  have k0: "k \<noteq> 0" using f(6) by simp
  have ok: "holes_ok ?N [(k, 65535)]" using k0 f(3) size by (simp add: holes_ok_def)
  define q where "q = put_bytes q4 (20 + 8 * off) (take m (drop (8 * off) P))"
  have out: "\<forall>x < ?N. in_holes [(k, 65535)] x \<longrightarrow> \<not> (8 * off \<le> x \<and> x < 8 * off + m)" using frags(2) by simp
  have le: "8 * off + m \<le> ?N" using frags(2) f(3) by simp
  have ch4: "hole_chain (cells q4) 0 [(k, 65535)] 0" by (simp add: q4)
  note store = store_payload [OF q4(2) ok size ch4 le out, folded q_def]
  let ?v1 = "\<lparr>pkt_buff = q, first_hole = 0, total_len = 0xffff\<rparr> :: frag_vars"
  have "load_bytes b (ip + 20) (nat (int m)) = Some (take m (drop (8 * off) P))" using p1(1,6) by (simp add: mem_simps)
  then have run1: "defragment b ip v = Some (None, ?v1)"
    using store(1) by (simp add: run cut q4(1) store_fragment_def)
  have cq: "cells q 0 = (8 * off, k, 0)" "cells q k = (65535, 0, 0)"
    using store(3) store(4) off q4(3) by (auto simp: cells_def get16_def)
  have idq: "get16 q 4 = ident"
    using store(4) q4(5) p(3) p1(3) by (simp add: get16_def add.commute)
  show ?thesis using run1 store(2) cq idq by blast
qed

lemma gap_kept:
  assumes len: "length q = 16384" and size: "length P \<le> 16360" and off: "off < k"
    and cq: "cells q 0 = (8 * off, k, 0)" "cells q k = (65535, 0, 0)" and idq: "get16 q 4 = ident"
    and frag: "0 < n" "8 * k + n = length P" and pkt: "carries_fragment P ident b' ip' k n"
  shows "\<exists>v'. defragment b' ip' \<lparr>pkt_buff = q, first_hole = 0, total_len = 0xffff\<rparr> =
    Some (Some (of_nat (length P) + 20), v') \<and> get16 (pkt_buff v') 20 = of_nat (8 * off)"
proof -
  let ?N = "length P" and ?v1 = "\<lparr>pkt_buff = q, first_hole = 0, total_len = 0xffff\<rparr> :: frag_vars"
  have k: "k \<le> 2044" "k \<noteq> 0" using frag size off by simp_all
  have wd: "unat (of_nat ?N :: u16) = ?N" using size by (intro unat16) simp
  have p2: "ip' + 20 + n \<le> length b'" "int (unat (ntohs (get16 b' (ip' + 2)))) - 20 = int n" "get16 b' (ip' + 4) = ident"
    "unat (ntohs (get16 b' (ip' + 6)) AND 0x1fff) = k" "(ntohs (get16 b' (ip' + 6)) AND 0x2000 = 0) = True"
    "get_bytes b' (ip' + 20) n = take n (drop (8 * k) P)"
    using pkt frag(2) by (auto simp: carries_fragment_def)
  have ld: "load16 b' (ip' + 6) = Some (get16 b' (ip' + 6))" "load16 b' (ip' + 2) = Some (get16 b' (ip' + 2))"
    using p2(1) by (simp_all add: mem_simps)
  have same: "frag_reset b' ip' ?v1 = Some ?v1" using p2(1,3) idq len by (simp add: frag_reset_def mem_simps)
  obtain l0 n0 where h0: "hole_load q 0 LAST = Some l0" "unat l0 = 8 * off" "hole_load q 0 NEXT = Some n0" "unat n0 = k"
    using hole_load_eq(1,2) [OF len, of 0] cq(1) by auto
  obtain lk where hk: "hole_load q k LAST = Some lk" "unat lk = 65535" using hole_load_eq(1) [OF len k(1)] cq(2) by auto
  have "find_hole q (8 * k) k = Some (Some k)" using hk k(1) by (subst find_hole.simps) simp
  moreover have "n0 \<noteq> 0" using h0(4) k(2) by auto
  ultimately have found: "find_hole q (8 * k) 0 = Some (Some k)" using h0 off by (subst find_hole.simps) simp
  obtain q5 where 5: "hole_store q k LAST (of_nat ?N) = Some q5"
    "recelled q q5 {k} ((cells q)(k := set_field 0 (unat (of_nat ?N :: u16)) (cells q k)))"
    using hole_store_eq [OF len k(1), of LAST "of_nat ?N"] by auto
  note r5 = recelledD [OF 5(2), unfolded len]
  have c5: "cells q5 k = (?N, 0, 0)" "cells q5 0 = (8 * off, k, 0)"
    using k(2) k(1) cq by (simp_all add: r5(2) set_field_def wd)
  let ?v2 = "\<lparr>pkt_buff = q5, first_hole = 0, total_len = of_nat ?N\<rparr> :: frag_vars"
  have e: "(word_of_int (int (8 * k) + int n) :: u16) = of_nat ?N"
    by (simp only: of_nat_add [symmetric] of_int_of_nat_eq frag(2))
  have tr: "truncate_last k (word_of_int (int (8 * k) + int n)) ?v1 = Some ?v2" unfolding e by (simp add: truncate_last_def 5(1))
  obtain l5 where l5: "hole_load q5 k LAST = Some l5" "unat l5 = ?N" using hole_load_eq(1) [OF r5(1) k(1)] c5(1) by auto
  have "hole_load q5 k NEXT = Some 0" "hole_load q5 k PREV = Some 0"
    using hole_load_eq(2,3) [OF r5(1) k(1)] c5(1) by (auto simp: unsigned_eq_0_iff)
  then have "remove_hole q5 0 k = Some (q5, 0, True)" by (simp add: remove_hole_def)
  moreover have "(int (unat l5) \<le> int (8 * k) + int n) = True" unfolding l5(2) using frag(2) by simp
  ultimately have cut5: "cut_hole q5 0 k k (int n) = Some (q5, 0, True)"
    unfolding cut_hole_def l5(1) Option.bind.simps Let_def by simp
  have small: "(int (8 * k) + int n > 16364) = False" using frag(2) size by simp
  have late: "(int k + c_div8 (int n + 7) \<le> int k) = False" using div8 [OF order.refl frag(1), of k] by simp
  have z: "unat (0 :: u16) = 0" by simp
  have run2: "defragment b' ip' ?v1 = store_fragment b' ip' (8 * k) (int n) True ?v2"
    unfolding defragment_def ld Option.bind.simps Let_def p2(2,4,5) small if_False if_True same
    by (simp only: frag_vars.select_convs z found option.case late if_False if_True tr Option.bind.simps cut5 prod.case
        frag_vars.update_convs)
  define q6 where "q6 = put_bytes q5 (20 + 8 * k) (take n (drop (8 * k) P))"
  have d: "length (take n (drop (8 * k) P)) = n" using frag(2) by simp
  have "load_bytes b' (ip' + 20) (nat (int n)) = Some (take n (drop (8 * k) P))" using p2(1,6) by (simp add: mem_simps)
  moreover have "store_bytes q5 (20 + 8 * k) (take n (drop (8 * k) P)) = Some q6"
    unfolding q6_def using d frag(2) size r5(1) by (intro store_bytes_Some) simp
  moreover have "store16 q6 2 (htons (of_nat ?N)) = Some (put16 q6 2 (htons (of_nat ?N)))"
    using r5(1) by (simp add: q6_def mem_simps)
  moreover have "ucast (of_nat ?N :: u16) = (of_nat ?N :: u32)" using size by (intro ucast_of_nat_small) simp
  ultimately have run3: "defragment b' ip' ?v1 = Some (Some (of_nat ?N + 20), ?v2\<lparr>pkt_buff := put16 q6 2 (htons (of_nat ?N))\<rparr>)"
    by (simp add: run2 store_fragment_def)
  have "get16 (put16 q6 2 (htons (of_nat ?N))) 20 = get16 q5 20"
    using k(2) r5(1) d by (simp add: q6_def mem_simps)
  also have "\<dots> = of_nat (8 * off)"
  proof -
    have "unat (get16 q5 20) = 8 * off" using c5(2) by (simp add: cells_def)
    then show ?thesis by (metis of_nat_unat ucast_id)
  qed
  finally show ?thesis using run3 by (intro exI) (rule conjI, assumption, simp only: frag_vars.select_convs frag_vars.update_convs)
qed

text \<open>
  C20: a datagram can be reported complete although its first fragment never arrived. When a fragment of the middle and
  then the rest reach a fresh buffer, the hole at index 0 is the predecessor of the other one, and its index is
  taken for \<^verbatim>\<open>prev_hole\<close> of no hole: the packet is returned with the full length, and the bytes at its start are
  the descriptor of the hole that is left.
\<close>

theorem complete_without_first:
  assumes len: "length (pkt_buff v) = 16384" and size: "length P \<le> 16360"
    and fresh: "total_len v = 0 \<or> get16 (pkt_buff v) 4 \<noteq> ident" and off: "0 < off"
    and frags: "is_fragment (length P) off m" "is_fragment (length P) k n" "8 * k = 8 * off + m" "8 * k + n = length P"
    and pkts: "carries_fragment P ident b ip off m" "carries_fragment P ident b' ip' k n"
  shows "\<exists>v'. receive_fragments [(b, ip), (b', ip')] v = Some ([None, Some (of_nat (length P) + 20)], v') \<and>
    get16 (pkt_buff v') 20 = of_nat (8 * off)"
proof -
  have k: "8 * k < length P" "off < k" using frags by (auto simp: is_fragment_def)
  obtain q where q: "defragment b ip v = Some (None, \<lparr>pkt_buff = q, first_hole = 0, total_len = 0xffff\<rparr>)"
    "length q = 16384" "cells q 0 = (8 * off, k, 0)" "cells q k = (65535, 0, 0)" "get16 q 4 = ident"
    using gap_at_start [OF len size fresh off frags(1,3) k(1) pkts(1)] by blast
  have "0 < n" using frags(2) by (simp add: is_fragment_def)
  from gap_kept [OF q(2) size k(2) q(3-5) this frags(4) pkts(2)] q(1) show ?thesis by auto
qed

theorem complete_without_first_witness:
  "\<exists>v'. receive_fragments [(example_fragment 1 8, 0), (example_fragment 2 5, 0)] frag_vars_init = Some ([None, Some (of_nat (length example_payload) + 20)], v') \<and>
    get16 (pkt_buff v') 20 = of_nat (8 * 1)"
  by (rule complete_without_first [where k = 2 and m = 8 and n = 5 and ident = "0x3412"])
    (simp_all add: frag_vars_init_length example_fragments [unfolded example_payload_length] example_payload_length del: One_nat_def)

end
