(* ===== verification/Linklist.thy ===== *)
theory Linklist
  imports Prelude
begin

text \<open>
  The circular doubly linked lists of \<^verbatim>\<open>include/linklist.h\<close>. The heap is the two pointer fields
  of every allocated \<^verbatim>\<open>struct list_head\<close>, as finite maps on addresses; reading or writing a
  field of an address that is not allocated is undefined (\<open>None\<close>). Every operation is the
  sequence of field accesses of the C function. The relation \<open>ring h head xs\<close> says that from the
  head \<open>head\<close> the heap links the entries \<open>xs\<close> both ways; each operation refines the list
  operation it stands for, and touches no entry of another ring.
\<close>

type_synonym addr = nat

record heap =
  nxt :: "addr \<rightharpoonup> addr"
  prv :: "addr \<rightharpoonup> addr"

definition set_next :: "heap \<Rightarrow> addr \<Rightarrow> addr \<Rightarrow> heap option" where
  "set_next h a v = (case nxt h a of None \<Rightarrow> None | Some _ \<Rightarrow> Some (h\<lparr>nxt := (nxt h)(a \<mapsto> v)\<rparr>))"

definition set_prev :: "heap \<Rightarrow> addr \<Rightarrow> addr \<Rightarrow> heap option" where
  "set_prev h a v = (case prv h a of None \<Rightarrow> None | Some _ \<Rightarrow> Some (h\<lparr>prv := (prv h)(a \<mapsto> v)\<rparr>))"

section \<open>Operations\<close>

definition init_list_head :: "heap \<Rightarrow> addr \<Rightarrow> heap option" where
  "init_list_head h list = do { h \<leftarrow> set_next h list list; set_prev h list list }"

definition list_add_between :: "heap \<Rightarrow> addr \<Rightarrow> addr \<Rightarrow> addr \<Rightarrow> heap option" where
  "list_add_between h newitem prev next = do {
     h \<leftarrow> set_prev h next newitem;
     h \<leftarrow> set_next h newitem next;
     h \<leftarrow> set_prev h newitem prev;
     set_next h prev newitem }"

definition list_add :: "heap \<Rightarrow> addr \<Rightarrow> addr \<Rightarrow> heap option" where
  "list_add h newitem head = do {
     next \<leftarrow> nxt h head;
     list_add_between h newitem head next }"

definition list_add_tail :: "heap \<Rightarrow> addr \<Rightarrow> addr \<Rightarrow> heap option" where
  "list_add_tail h newitem head = do {
     prev \<leftarrow> prv h head;
     list_add_between h newitem prev head }"

definition list_del_between :: "heap \<Rightarrow> addr \<Rightarrow> addr \<Rightarrow> heap option" where
  "list_del_between h prev next = do { h \<leftarrow> set_prev h next prev; set_next h prev next }"

definition list_del :: "heap \<Rightarrow> addr \<Rightarrow> heap option" where
  "list_del h entry = do {
     p \<leftarrow> prv h entry;
     n \<leftarrow> nxt h entry;
     h \<leftarrow> list_del_between h p n;
     h \<leftarrow> set_next h entry 0;
     set_prev h entry 0 }"

definition list_replace :: "heap \<Rightarrow> addr \<Rightarrow> addr \<Rightarrow> heap option" where
  "list_replace h old newitem = do {
     n \<leftarrow> nxt h old;
     h \<leftarrow> set_next h newitem n;
     n \<leftarrow> nxt h newitem;
     h \<leftarrow> set_prev h n newitem;
     p \<leftarrow> prv h old;
     h \<leftarrow> set_prev h newitem p;
     p \<leftarrow> prv h newitem;
     set_next h p newitem }"

definition list_replace_init :: "heap \<Rightarrow> addr \<Rightarrow> addr \<Rightarrow> heap option" where
  "list_replace_init h old newitem = do { h \<leftarrow> list_replace h old newitem; init_list_head h old }"

definition list_del_init :: "heap \<Rightarrow> addr \<Rightarrow> heap option" where
  "list_del_init h entry = do {
     p \<leftarrow> prv h entry;
     n \<leftarrow> nxt h entry;
     h \<leftarrow> list_del_between h p n;
     init_list_head h entry }"

definition list_move :: "heap \<Rightarrow> addr \<Rightarrow> addr \<Rightarrow> heap option" where
  "list_move h list head = do {
     p \<leftarrow> prv h list;
     n \<leftarrow> nxt h list;
     h \<leftarrow> list_del_between h p n;
     list_add h list head }"

definition list_move_tail :: "heap \<Rightarrow> addr \<Rightarrow> addr \<Rightarrow> heap option" where
  "list_move_tail h list head = do {
     p \<leftarrow> prv h list;
     n \<leftarrow> nxt h list;
     h \<leftarrow> list_del_between h p n;
     list_add_tail h list head }"

definition list_is_last :: "heap \<Rightarrow> addr \<Rightarrow> addr \<Rightarrow> bool option" where
  "list_is_last h list head = map_option (\<lambda>n. n = head) (nxt h list)"

definition list_empty :: "heap \<Rightarrow> addr \<Rightarrow> bool option" where
  "list_empty h head = map_option (\<lambda>n. n = head) (nxt h head)"

definition list_empty_careful :: "heap \<Rightarrow> addr \<Rightarrow> bool option" where
  "list_empty_careful h head = do {
     next \<leftarrow> nxt h head;
     (if next = head then map_option (\<lambda>p. next = p) (prv h head) else Some False) }"

definition list_is_singular :: "heap \<Rightarrow> addr \<Rightarrow> bool option" where
  "list_is_singular h head = do {
     e \<leftarrow> list_empty h head;
     (if e then Some False else do {
        n \<leftarrow> nxt h head;
        p \<leftarrow> prv h head;
        Some (n = p) }) }"

definition list_cut_position_raw :: "heap \<Rightarrow> addr \<Rightarrow> addr \<Rightarrow> addr \<Rightarrow> heap option" where
  "list_cut_position_raw h list head entry = do {
     newitem_first \<leftarrow> nxt h entry;
     n \<leftarrow> nxt h head;
     h \<leftarrow> set_next h list n;
     n \<leftarrow> nxt h list;
     h \<leftarrow> set_prev h n list;
     h \<leftarrow> set_prev h list entry;
     h \<leftarrow> set_next h entry list;
     h \<leftarrow> set_next h head newitem_first;
     set_prev h newitem_first head }"

definition list_cut_position :: "heap \<Rightarrow> addr \<Rightarrow> addr \<Rightarrow> addr \<Rightarrow> heap option" where
  "list_cut_position h list head entry = do {
     e \<leftarrow> list_empty h head;
     (if e then Some h
      else do {
        s \<leftarrow> list_is_singular h head;
        n \<leftarrow> nxt h head;
        (if s \<and> n \<noteq> entry \<and> head \<noteq> entry then Some h
         else if entry = head then init_list_head h list
         else list_cut_position_raw h list head entry) }) }"

definition list_splice_between :: "heap \<Rightarrow> addr \<Rightarrow> addr \<Rightarrow> addr \<Rightarrow> heap option" where
  "list_splice_between h list prev next = do {
     first \<leftarrow> nxt h list;
     last \<leftarrow> prv h list;
     h \<leftarrow> set_prev h first prev;
     h \<leftarrow> set_next h prev first;
     h \<leftarrow> set_next h last next;
     set_prev h next last }"

definition list_splice :: "heap \<Rightarrow> addr \<Rightarrow> addr \<Rightarrow> heap option" where
  "list_splice h list head = do {
     e \<leftarrow> list_empty h list;
     (if \<not> e then do { n \<leftarrow> nxt h head; list_splice_between h list head n } else Some h) }"

definition list_splice_tail :: "heap \<Rightarrow> addr \<Rightarrow> addr \<Rightarrow> heap option" where
  "list_splice_tail h list head = do {
     e \<leftarrow> list_empty h list;
     (if \<not> e then do { p \<leftarrow> prv h head; list_splice_between h list p head } else Some h) }"

definition list_splice_init :: "heap \<Rightarrow> addr \<Rightarrow> addr \<Rightarrow> heap option" where
  "list_splice_init h list head = do {
     e \<leftarrow> list_empty h list;
     (if \<not> e then do {
        n \<leftarrow> nxt h head;
        h \<leftarrow> list_splice_between h list head n;
        init_list_head h list } else Some h) }"

definition list_splice_tail_init :: "heap \<Rightarrow> addr \<Rightarrow> addr \<Rightarrow> heap option" where
  "list_splice_tail_init h list head = do {
     e \<leftarrow> list_empty h list;
     (if \<not> e then do {
        p \<leftarrow> prv h head;
        h \<leftarrow> list_splice_between h list p head;
        init_list_head h list } else Some h) }"

text \<open>\<open>list_for_each\<close> visits the entries until the cursor is back at the head.\<close>

partial_function (option) list_walk :: "heap \<Rightarrow> addr \<Rightarrow> addr \<Rightarrow> addr list option" where
  "list_walk h head pos = do {
     n \<leftarrow> nxt h pos;
     (if pos = head then Some []
      else do { xs \<leftarrow> list_walk h head n; Some (pos # xs) }) }"

definition list_for_each :: "heap \<Rightarrow> addr \<Rightarrow> addr list option" where
  "list_for_each h head = do { pos \<leftarrow> nxt h head; list_walk h head pos }"

section \<open>Rings\<close>

definition links :: "heap \<Rightarrow> addr \<Rightarrow> addr \<Rightarrow> bool" where
  "links h a b \<longleftrightarrow> nxt h a = Some b \<and> prv h b = Some a"

fun chain :: "heap \<Rightarrow> addr list \<Rightarrow> bool" where
  "chain h (a # b # xs) \<longleftrightarrow> links h a b \<and> chain h (b # xs)"
| "chain h _ \<longleftrightarrow> True"

definition ring :: "heap \<Rightarrow> addr \<Rightarrow> addr list \<Rightarrow> bool" where
  "ring h head xs \<longleftrightarrow> distinct (head # xs) \<and> chain h (head # xs @ [head])"

text \<open>Allocated entries.\<close>

definition node :: "heap \<Rightarrow> addr \<Rightarrow> bool" where
  "node h a \<longleftrightarrow> nxt h a \<noteq> None \<and> prv h a \<noteq> None"

text \<open>The heaps agree outside the entries \<open>A\<close>.\<close>

definition same_outside :: "addr set \<Rightarrow> heap \<Rightarrow> heap \<Rightarrow> bool" where
  "same_outside A h h' \<longleftrightarrow> (\<forall>a. a \<notin> A \<longrightarrow> nxt h' a = nxt h a \<and> prv h' a = prv h a) \<and>
     dom (nxt h') = dom (nxt h) \<and> dom (prv h') = dom (prv h)"

lemma chain_append: "chain h (us @ a # vs) \<longleftrightarrow> chain h (us @ [a]) \<and> chain h (a # vs)"
  by (induction us rule: induct_list012) (auto simp: neq_Nil_conv)

lemma chain_cong:
  assumes "chain h ws" "\<forall>a \<in> set (butlast ws). nxt h' a = nxt h a" "\<forall>a \<in> set (tl ws). prv h' a = prv h a"
  shows "chain h' ws"
  using assms by (induction h ws rule: chain.induct) (auto simp: links_def split: if_splits)

lemma ring_cong: "ring h head xs \<Longrightarrow> same_outside A h h' \<Longrightarrow> set (head # xs) \<inter> A = {} \<Longrightarrow> ring h' head xs"
proof -
  assume r: "ring h head xs" and s: "same_outside A h h'" and d: "set (head # xs) \<inter> A = {}"
  have bl: "butlast (head # xs @ [head]) = head # xs" by (simp add: butlast_append)
  have "chain h' (head # xs @ [head])"
  proof (rule chain_cong)
    show "chain h (head # xs @ [head])" using r by (simp add: ring_def)
    show "\<forall>a \<in> set (butlast (head # xs @ [head])). nxt h' a = nxt h a"
      unfolding bl using s d by (auto simp: same_outside_def)
    show "\<forall>a \<in> set (tl (head # xs @ [head])). prv h' a = prv h a"
      using s d by (auto simp: same_outside_def)
  qed
  then show "ring h' head xs" using r by (simp add: ring_def)
qed

lemma ring_neighbours:
  assumes "ring h head xs"
  shows "nxt h head = Some (hd (xs @ [head]))" "prv h head = Some (last (head # xs))"
proof -
  show "nxt h head = Some (hd (xs @ [head]))"
    using assms by (cases xs) (auto simp: ring_def links_def)
  have "butlast (head # xs) @ [last (head # xs)] = head # xs"
    by (rule append_butlast_last_id) simp
  then have "butlast (head # xs) @ last (head # xs) # [head] = head # xs @ [head]"
    by (metis append.assoc append_Cons append_Nil)
  then have "chain h (butlast (head # xs) @ last (head # xs) # [head])"
    using assms unfolding ring_def by (simp only:)
  then show "prv h head = Some (last (head # xs))"
    by (subst (asm) chain_append) (auto simp: links_def)
qed

text \<open>
  Replacing the entries \<open>ys\<close> between \<open>a\<close> and \<open>b\<close> by \<open>zs\<close>: if \<open>zs\<close> is linked up and joined to
  \<open>a\<close> and \<open>b\<close>, and the rest of the walk is unchanged, the new walk is linked.
\<close>

lemma chain_replace_segment:
  assumes old: "chain h (us @ a # ys @ b # vs)"
    and dist: "distinct (butlast (us @ a # ys @ b # vs))" "distinct (tl (us @ a # ys @ b # vs))"
    and new: "chain h' (a # zs @ [b])"
    and same: "\<And>x. x \<in> set (us @ butlast (b # vs)) \<Longrightarrow> x \<noteq> a \<Longrightarrow> nxt h' x = nxt h x"
      "\<And>x. x \<in> set (tl (us @ [a]) @ vs) \<Longrightarrow> x \<noteq> b \<Longrightarrow> prv h' x = prv h x"
  shows "chain h' (us @ a # zs @ b # vs)"
proof -
  have o: "chain h (us @ [a])" "chain h (b # vs)"
    using old chain_append [of h us a "ys @ b # vs"] chain_append [of h "a # ys" b vs] by auto
  have a: "a \<notin> set us" "a \<notin> set (butlast (b # vs))"
    using dist(1) by (auto simp: butlast_append)
  have b: "b \<notin> set vs" "b \<notin> set (tl (us @ [a]))"
    using dist(2) by (cases us; auto)+
  have "chain h' (us @ [a])"
    using o(1) by (rule chain_cong) (use same a b in auto)
  moreover have "chain h' (b # vs)"
  proof (rule chain_cong)
    show "chain h (b # vs)" by (rule o(2))
    show "\<forall>x \<in> set (butlast (b # vs)). nxt h' x = nxt h x"
      using same(1) a(2) by (metis Un_iff set_append)
    show "\<forall>x \<in> set (tl (b # vs)). prv h' x = prv h x"
      using same(2) b(1) by (metis Un_iff list.sel(3) set_append)
  qed
  ultimately show ?thesis
    using new chain_append [of h' us a "zs @ b # vs"] chain_append [of h' "a # zs" b vs] by auto
qed

text \<open>The walk of a ring around a segment.\<close>

lemma ring_walk:
  "head # (ys @ es @ zs) @ [head] =
    butlast (head # ys) @ last (head # ys) # es @ hd (zs @ [head]) # tl (zs @ [head])"
proof -
  have "head # (ys @ es @ zs) @ [head] = (butlast (head # ys) @ [last (head # ys)]) @ es @ zs @ [head]"
    by (subst append_butlast_last_id) simp_all
  moreover have "zs @ [head] = hd (zs @ [head]) # tl (zs @ [head])" by (cases zs) simp_all
  ultimately show ?thesis by simp
qed

lemma ring_replace_segment:
  fixes head :: addr and ys es zs fs :: "addr list"
  defines "a \<equiv> last (head # ys)" and "b \<equiv> hd (zs @ [head])"
  assumes ring: "ring h head (ys @ es @ zs)" and dist: "distinct (head # ys @ fs @ zs)"
    and new: "chain h' (a # fs @ [b])"
    and same: "\<And>x. x \<in> set (head # ys @ zs) \<Longrightarrow> x \<noteq> a \<Longrightarrow> nxt h' x = nxt h x"
      "\<And>x. x \<in> set (head # ys @ zs) \<Longrightarrow> x \<noteq> b \<Longrightarrow> prv h' x = prv h x"
  shows "ring h' head (ys @ fs @ zs)"
proof -
  let ?us = "butlast (head # ys)" and ?vs = "tl (zs @ [head])"
  have walk: "head # (ys @ gs @ zs) @ [head] = ?us @ a # gs @ b # ?vs" for gs
    unfolding a_def b_def by (rule ring_walk)
  have "chain h (?us @ a # es @ b # ?vs)"
    using ring unfolding ring_def walk [symmetric] by simp
  moreover have "distinct (butlast (?us @ a # es @ b # ?vs))"
    using ring unfolding walk [symmetric] ring_def by (simp add: butlast_append)
  moreover have "distinct (tl (?us @ a # es @ b # ?vs))"
    using ring unfolding walk [symmetric] ring_def by simp
  moreover note new
  moreover have us: "set ?us \<subseteq> set (head # ys)" by (auto dest: in_set_butlastD)
  have "set (b # ?vs) \<subseteq> set (head # zs)" unfolding b_def by (cases zs) auto
  then have bvs: "set ?vs \<subseteq> set (head # zs)" "set (butlast (b # ?vs)) \<subseteq> set (head # zs)"
    by (auto dest: in_set_butlastD)
  have "a \<in> set (head # ys)" unfolding a_def by (rule last_in_set) simp
  then have usa: "set (tl (?us @ [a])) \<subseteq> set (head # ys)"
    using us by (cases ?us) auto
  have "nxt h' x = nxt h x" if "x \<in> set (?us @ butlast (b # ?vs))" "x \<noteq> a" for x
    using that us bvs same(1) [of x] by auto
  moreover have "prv h' x = prv h x" if "x \<in> set (tl (?us @ [a]) @ ?vs)" "x \<noteq> b" for x
    using that usa bvs same(2) [of x] by auto
  ultimately have "chain h' (?us @ a # fs @ b # ?vs)"
    by (rule chain_replace_segment)
  then show ?thesis using dist unfolding ring_def walk [symmetric] by simp
qed

text \<open>The neighbours of an entry.\<close>

lemma ring_entry:
  assumes "ring h head (ys @ e # zs)"
  shows "prv h e = Some (last (head # ys))" "nxt h e = Some (hd (zs @ [head]))"
proof -
  have "chain h (head # (ys @ [e] @ zs) @ [head])" using assms by (simp add: ring_def)
  then have "chain h (butlast (head # ys) @ last (head # ys) # [e] @ hd (zs @ [head]) # tl (zs @ [head]))"
    unfolding ring_walk .
  then have "chain h (last (head # ys) # [e] @ hd (zs @ [head]) # tl (zs @ [head]))"
    by (subst (asm) chain_append) (rule conjunct2)
  then have "links h (last (head # ys)) e \<and> links h e (hd (zs @ [head]))"
    by (simp only: append_Cons append_Nil chain.simps simp_thms)
  then show "prv h e = Some (last (head # ys))" "nxt h e = Some (hd (zs @ [head]))"
    by (simp_all only: links_def simp_thms)
qed

lemma ring_nodes: "ring h head xs \<Longrightarrow> x \<in> set (head # xs) \<Longrightarrow> node h x"
proof (cases "x = head")
  case True
  then show "ring h head xs \<Longrightarrow> node h x" using ring_neighbours [of h head xs] by (simp add: node_def)
next
  case False
  assume "ring h head xs" "x \<in> set (head # xs)"
  with False obtain ys zs where "xs = ys @ x # zs" by (auto simp: in_set_conv_decomp)
  with \<open>ring h head xs\<close> ring_entry [of h head ys x zs] show "node h x" by (simp add: node_def)
qed

section \<open>What the operations do to rings\<close>

lemma list_add_between_eq:
  assumes "node h newitem" "node h a" "node h b"
  shows "list_add_between h newitem a b =
    Some (h\<lparr>nxt := (nxt h)(newitem \<mapsto> b, a \<mapsto> newitem), prv := (prv h)(b \<mapsto> newitem, newitem \<mapsto> a)\<rparr>)"
  using assms by (auto simp: list_add_between_def set_next_def set_prev_def node_def)

lemma ring_add:
  assumes ring: "ring h head (ys @ zs)" and new: "newitem \<notin> set (head # ys @ zs)" "node h newitem"
  shows "\<exists>h'. list_add_between h newitem (last (head # ys)) (hd (zs @ [head])) = Some h' \<and>
    ring h' head (ys @ newitem # zs) \<and> same_outside (set (newitem # head # ys @ zs)) h h'"
proof -
  let ?a = "last (head # ys)" and ?b = "hd (zs @ [head])"
  let ?h = "h\<lparr>nxt := (nxt h)(newitem \<mapsto> ?b, ?a \<mapsto> newitem), prv := (prv h)(?b \<mapsto> newitem, newitem \<mapsto> ?a)\<rparr>"
  have a: "?a \<in> set (head # ys @ zs)" using last_in_set [of "head # ys"] by auto
  have b: "?b \<in> set (head # ys @ zs)" by (cases zs) auto
  have nodes: "node h ?a" "node h ?b" using ring_nodes [OF ring] a b by blast+
  have ne: "?a \<noteq> newitem" "?b \<noteq> newitem" using a b new(1) by metis+
  have "ring ?h head (ys @ [newitem] @ zs)"
  proof (rule ring_replace_segment [where es = "[]"])
    show "ring h head (ys @ [] @ zs)" using ring by simp
    show "distinct (head # ys @ [newitem] @ zs)" using ring new by (auto simp: ring_def)
    show "chain ?h (?a # [newitem] @ [?b])" using ne by (simp add: links_def)
  qed (use new in auto)
  moreover have "same_outside (set (newitem # head # ys @ zs)) h ?h"
    using a b nodes new(2) unfolding same_outside_def node_def by auto
  ultimately show ?thesis
    using list_add_between_eq [OF new(2) nodes] by simp
qed

text \<open>
  \<^verbatim>\<open>list_add\<close> puts a new entry at the front of a ring and changes no entry outside it.
\<close>

theorem list_add_ring:
  assumes ring: "ring h head xs" and new: "newitem \<notin> set (head # xs)" "node h newitem"
  shows "\<exists>h'. list_add h newitem head = Some h' \<and> ring h' head (newitem # xs) \<and>
    same_outside (set (newitem # head # xs)) h h'"
  using ring_add [of h head "[]" xs newitem] assms ring_neighbours(1) [OF ring]
  by (simp add: list_add_def)

lemma list_add_ring_witness:
  "\<exists>h'. list_add \<lparr>nxt = [1 \<mapsto> 1, 2 \<mapsto> 0], prv = [1 \<mapsto> 1, 2 \<mapsto> 0]\<rparr> 2 1 = Some h' \<and> ring h' 1 (2 # []) \<and>
    same_outside (set (2 # 1 # [])) \<lparr>nxt = [1 \<mapsto> 1, 2 \<mapsto> 0], prv = [1 \<mapsto> 1, 2 \<mapsto> 0]\<rparr> h'"
  by (rule list_add_ring) (simp_all add: ring_def links_def node_def)

lemma list_add_tail_ring:
  assumes ring: "ring h head xs" and new: "newitem \<notin> set (head # xs)" "node h newitem"
  shows "\<exists>h'. list_add_tail h newitem head = Some h' \<and> ring h' head (xs @ [newitem]) \<and>
    same_outside (set (newitem # head # xs)) h h'"
  using ring_add [of h head xs "[]" newitem] assms ring_neighbours(2) [OF ring]
  by (simp add: list_add_tail_def)

lemma list_del_between_eq:
  assumes "node h a" "node h b"
  shows "list_del_between h a b = Some (h\<lparr>nxt := (nxt h)(a \<mapsto> b), prv := (prv h)(b \<mapsto> a)\<rparr>)"
  using assms by (auto simp: list_del_between_def set_next_def set_prev_def node_def)

lemma ring_del:
  assumes ring: "ring h head (ys @ e # zs)"
  shows "\<exists>h'. list_del_between h (last (head # ys)) (hd (zs @ [head])) = Some h' \<and>
    ring h' head (ys @ zs) \<and> same_outside (set (head # ys @ zs)) h h'"
proof -
  let ?a = "last (head # ys)" and ?b = "hd (zs @ [head])"
  let ?h = "h\<lparr>nxt := (nxt h)(?a \<mapsto> ?b), prv := (prv h)(?b \<mapsto> ?a)\<rparr>"
  have a: "?a \<in> set (head # ys @ zs)" using last_in_set [of "head # ys"] by auto
  have b: "?b \<in> set (head # ys @ zs)" by (cases zs) auto
  have "set (head # ys @ zs) \<subseteq> set (head # ys @ e # zs)" by auto
  then have nodes: "node h ?a" "node h ?b" using ring_nodes [OF ring] a b by blast+
  have "ring ?h head (ys @ [] @ zs)"
  proof (rule ring_replace_segment [where es = "[e]"])
    show "ring h head (ys @ [e] @ zs)" using ring by simp
    show "distinct (head # ys @ [] @ zs)" using ring by (auto simp: ring_def)
    show "chain ?h (?a # [] @ [?b])" by (simp add: links_def)
  qed auto
  moreover have "same_outside (set (head # ys @ zs)) h ?h"
    using a b nodes unfolding same_outside_def node_def by auto
  ultimately show ?thesis using list_del_between_eq [OF nodes] by simp
qed

lemma same_outside_mono: "same_outside A h h' \<Longrightarrow> A \<subseteq> B \<Longrightarrow> same_outside B h h'"
  by (auto simp: same_outside_def)

lemma same_outside_trans:
  "same_outside A h h' \<Longrightarrow> same_outside A h' h'' \<Longrightarrow> same_outside A h h''"
  by (auto simp: same_outside_def)

lemma same_outside_node: "same_outside A h h' \<Longrightarrow> node h' a \<longleftrightarrow> node h a"
  by (auto simp: same_outside_def node_def domIff dom_def set_eq_iff)

lemma init_list_head_ring:
  assumes "node h a"
  shows "\<exists>h'. init_list_head h a = Some h' \<and> ring h' a [] \<and> same_outside {a} h h'"
  using assms by (auto simp: init_list_head_def set_next_def set_prev_def node_def ring_def links_def
      same_outside_def)

text \<open>Setting both fields of an entry that is on no ring.\<close>

lemma set_both:
  assumes "node h e"
  shows "set_next h e v \<bind> (\<lambda>h. set_prev h e w) = Some (h\<lparr>nxt := (nxt h)(e \<mapsto> v), prv := (prv h)(e \<mapsto> w)\<rparr>)"
    and "same_outside {e} h (h\<lparr>nxt := (nxt h)(e \<mapsto> v), prv := (prv h)(e \<mapsto> w)\<rparr>)"
  using assms by (auto simp: set_next_def set_prev_def node_def same_outside_def)

text \<open>
  C39: \<^verbatim>\<open>list_del\<close> takes an entry out of a ring, poisons its pointers and changes no entry outside the
  ring.
\<close>

theorem list_del_ring:
  assumes ring: "ring h head (ys @ e # zs)"
  shows "\<exists>h'. list_del h e = Some h' \<and> ring h' head (ys @ zs) \<and> nxt h' e = Some 0 \<and> prv h' e = Some 0 \<and>
    same_outside (set (head # ys @ e # zs)) h h'"
proof -
  obtain h1 where h1: "list_del_between h (last (head # ys)) (hd (zs @ [head])) = Some h1"
    "ring h1 head (ys @ zs)" "same_outside (set (head # ys @ zs)) h h1"
    using ring_del [OF ring] by blast
  have "node h e" using ring_nodes [OF ring] by simp
  then have n: "node h1 e" using same_outside_node [OF h1(3)] by simp
  let ?h = "h1\<lparr>nxt := (nxt h1)(e \<mapsto> 0), prv := (prv h1)(e \<mapsto> 0)\<rparr>"
  have "ring ?h head (ys @ zs)"
    using ring_cong [OF h1(2) set_both(2) [OF n]] ring by (auto simp: ring_def)
  moreover have "same_outside (set (head # ys @ e # zs)) h ?h"
    by (rule same_outside_trans [OF same_outside_mono [OF h1(3)] same_outside_mono [OF set_both(2) [OF n]]]) auto
  moreover have "list_del h e = Some ?h"
    by (simp only: list_del_def ring_entry [OF ring] h1(1) Option.bind.bind_lunit set_both(1) [OF n])
  ultimately show ?thesis by (intro exI [of _ ?h]) simp
qed

lemma list_del_ring_witness:
  "\<exists>h'. list_del \<lparr>nxt = [1 \<mapsto> 2, 2 \<mapsto> 1], prv = [1 \<mapsto> 2, 2 \<mapsto> 1]\<rparr> 2 = Some h' \<and> ring h' 1 ([] @ []) \<and>
    nxt h' 2 = Some 0 \<and> prv h' 2 = Some 0 \<and>
    same_outside (set (1 # [] @ 2 # [])) \<lparr>nxt = [1 \<mapsto> 2, 2 \<mapsto> 1], prv = [1 \<mapsto> 2, 2 \<mapsto> 1]\<rparr> h'"
  by (rule list_del_ring) (simp add: ring_def links_def)

lemma list_del_init_ring:
  assumes ring: "ring h head (ys @ e # zs)"
  shows "\<exists>h'. list_del_init h e = Some h' \<and> ring h' head (ys @ zs) \<and> ring h' e [] \<and>
    same_outside (set (head # ys @ e # zs)) h h'"
proof -
  obtain h1 where h1: "list_del_between h (last (head # ys)) (hd (zs @ [head])) = Some h1"
    "ring h1 head (ys @ zs)" "same_outside (set (head # ys @ zs)) h h1"
    using ring_del [OF ring] by blast
  have "node h e" using ring_nodes [OF ring] by simp
  then have n: "node h1 e" using same_outside_node [OF h1(3)] by simp
  from init_list_head_ring [OF n] obtain h2 where h2: "init_list_head h1 e = Some h2" "ring h2 e []"
    "same_outside {e} h1 h2" by blast
  have "ring h2 head (ys @ zs)"
    using ring_cong [OF h1(2) h2(3)] ring by (auto simp: ring_def)
  moreover have "same_outside (set (head # ys @ e # zs)) h h2"
    by (rule same_outside_trans [OF same_outside_mono [OF h1(3)] same_outside_mono [OF h2(3)]]) auto
  moreover have "list_del_init h e = Some h2"
    by (simp only: list_del_init_def ring_entry [OF ring] h1(1) Option.bind.bind_lunit h2(1))
  ultimately show ?thesis using h2(2) by blast
qed

text \<open>Moving an entry to the end of the same ring.\<close>

lemma list_move_tail_ring:
  assumes ring: "ring h head (ys @ e # zs)"
  shows "\<exists>h'. list_move_tail h e head = Some h' \<and> ring h' head (ys @ zs @ [e]) \<and>
    same_outside (set (head # ys @ e # zs)) h h'"
proof -
  obtain h1 where h1: "list_del_between h (last (head # ys)) (hd (zs @ [head])) = Some h1"
    "ring h1 head (ys @ zs)" "same_outside (set (head # ys @ zs)) h h1"
    using ring_del [OF ring] by blast
  have "node h e" using ring_nodes [OF ring] by simp
  then have n: "node h1 e" using same_outside_node [OF h1(3)] by simp
  have "e \<notin> set (head # ys @ zs)" using ring by (auto simp: ring_def)
  from list_add_tail_ring [OF h1(2) this n] obtain h2 where
    h2: "list_add_tail h1 e head = Some h2" "ring h2 head ((ys @ zs) @ [e])"
    "same_outside (set (e # head # ys @ zs)) h1 h2" by blast
  have "list_move_tail h e head = Some h2"
    by (simp only: list_move_tail_def ring_entry [OF ring] h1(1) h2(1) Option.bind.bind_lunit)
  moreover have "same_outside (set (head # ys @ e # zs)) h h2"
    by (rule same_outside_trans [OF same_outside_mono [OF h1(3)] same_outside_mono [OF h2(3)]]) auto
  ultimately show ?thesis using h2(2) by simp
qed

section \<open>Walking a ring\<close>

lemma list_walk_ring:
  assumes "chain h (pos # xs @ [head])" "head \<notin> set (pos # xs)" "nxt h head \<noteq> None"
  shows "list_walk h head pos = Some (pos # xs)"
  using assms
proof (induction xs arbitrary: pos)
  case Nil
  have "list_walk h head head = Some []"
    using Nil.prems(3) by (subst list_walk.simps) auto
  with Nil show ?case by (subst list_walk.simps) (auto simp: links_def)
next
  case (Cons x xs)
  then show ?case by (subst list_walk.simps) (auto simp: links_def)
qed

lemma list_for_each_ring:
  assumes "ring h head xs"
  shows "list_for_each h head = Some xs"
proof (cases xs)
  case Nil
  then have "nxt h head = Some head" using assms by (simp add: ring_def links_def)
  then show ?thesis by (simp add: list_for_each_def Nil list_walk.simps [of h head head])
next
  case (Cons x ys)
  then have "nxt h head = Some x" "chain h (x # ys @ [head])" "head \<notin> set (x # ys)"
    using assms by (auto simp: ring_def links_def)
  then show ?thesis by (simp add: list_for_each_def Cons list_walk_ring)
qed

lemma list_empty_ring: "ring h head xs \<Longrightarrow> list_empty h head = Some (xs = [])"
  using ring_neighbours(1) [of h head xs] by (cases xs) (auto simp: list_empty_def ring_def)

lemma list_is_last_ring: "ring h head (ys @ e # zs) \<Longrightarrow> list_is_last h e head = Some (zs = [])"
  using ring_entry(2) [of h head ys e zs] by (cases zs) (auto simp: list_is_last_def ring_def)

lemma list_is_singular_ring: "ring h head xs \<Longrightarrow> list_is_singular h head = Some (length xs = 1)"
  using ring_neighbours [of h head xs] list_empty_ring [of h head xs]
  by (cases xs) (auto simp: list_is_singular_def ring_def split: if_splits)

section \<open>The interface of a registration list\<close>

text \<open>
  What the PHY and MII layers rely on: entries are appended and visited in the order they
  were registered.
\<close>

locale registry =
  fixes rep :: "'s \<Rightarrow> 'n list \<Rightarrow> bool" and fresh :: "'s \<Rightarrow> 'n \<Rightarrow> bool"
    and push :: "'s \<Rightarrow> 'n \<Rightarrow> 's option" and each :: "'s \<Rightarrow> 'n list option"
  assumes push_rep: "rep s xs \<Longrightarrow> fresh s x \<Longrightarrow> x \<notin> set xs \<Longrightarrow>
      \<exists>s'. push s x = Some s' \<and> rep s' (xs @ [x]) \<and> (\<forall>y. fresh s' y \<longleftrightarrow> fresh s y)"
    and each_rep: "rep s xs \<Longrightarrow> each s = Some xs"
begin

fun pushes :: "'s \<Rightarrow> 'n list \<Rightarrow> 's option" where
  "pushes s [] = Some s"
| "pushes s (x # xs) = do { s \<leftarrow> push s x; pushes s xs }"

lemma pushes_each:
  assumes "rep s xs" "distinct (xs @ ys)" "\<forall>y \<in> set ys. fresh s y"
  shows "\<exists>s'. pushes s ys = Some s' \<and> each s' = Some (xs @ ys)"
  using assms
proof (induction ys arbitrary: s xs)
  case Nil
  then show ?case by (simp add: each_rep)
next
  case (Cons y ys)
  then obtain s1 where "push s y = Some s1" "rep s1 (xs @ [y])" "\<forall>z. fresh s1 z \<longleftrightarrow> fresh s z"
    using push_rep [of s xs y] by auto
  with Cons.IH [of s1 "xs @ [y]"] Cons.prems show ?case by simp
qed

end

interpretation ringl: registry "\<lambda>h xs. ring h head xs" "\<lambda>h x. node h x \<and> x \<noteq> head"
    "\<lambda>h x. list_add_tail h x head" "\<lambda>h. list_for_each h head" for head
proof
  fix h xs x assume "ring h head xs" "node h x \<and> x \<noteq> head" "x \<notin> set xs"
  then show "\<exists>h'. list_add_tail h x head = Some h' \<and> ring h' head (xs @ [x]) \<and>
      (\<forall>y. (node h' y \<and> y \<noteq> head) \<longleftrightarrow> (node h y \<and> y \<noteq> head))"
    using list_add_tail_ring [of h head xs x] same_outside_node by fastforce
qed (rule list_for_each_ring)

end
