(* ===== verification/Alloc.thy ===== *)
theory Alloc
  imports Prelude
begin

text \<open>
  The bump allocators of \<^verbatim>\<open>common.c\<close>: \<^verbatim>\<open>malloc\<close>, \<^verbatim>\<open>calloc\<close> and \<^verbatim>\<open>memalign\<close>, each over a static array
  of 16384 bytes with a 32-bit mark. A result is the offset of the block in its array. Nothing
  is ever freed (\<^verbatim>\<open>free\<close> expands to nothing) and no request is refused: the lemmas give the
  blocks handed out while they fit, and the first request that does not fit.
\<close>

abbreviation (input) ARENA :: nat where "ARENA \<equiv> 16384"

definition memalign_roundup :: "u64 \<Rightarrow> u64 \<Rightarrow> u64 option" where
  "memalign_roundup alignment addr =
     (if alignment = 0 then None
      else let tmp = addr mod alignment
           in Some (if tmp \<noteq> 0 then alignment + addr - tmp else addr))"

text \<open>The mark after the call and the offset returned.\<close>

definition malloc :: "u32 \<Rightarrow> u64 \<Rightarrow> u32 \<times> u64" where
  "malloc sz n = (let sz' = ucast (ucast sz + n) in (sz', ucast sz' - n))"

definition calloc :: "u32 \<Rightarrow> u64 \<Rightarrow> u64 \<Rightarrow> u32 \<times> u64" where
  "calloc sz nelem elsize = (ucast (ucast sz + nelem * elsize), ucast sz)"

text \<open>\<open>buf\<close> is the address of the array.\<close>

definition memalign :: "u64 \<Rightarrow> u32 \<Rightarrow> u64 \<Rightarrow> u64 \<Rightarrow> (u32 \<times> u64) option" where
  "memalign buf sz alignment n = do {
     bufp \<leftarrow> memalign_roundup alignment (buf + ucast sz);
     let sz' = (ucast ((bufp - buf) + n) :: u32);
     Some (sz', ucast sz' - n) }"

section \<open>Blocks\<close>

lemma malloc_eq:
  assumes "unat sz + unat n < 2 ^ 32"
  shows "malloc sz n = (word_of_nat (unat sz + unat n), word_of_nat (unat sz))"
    and "unat (fst (malloc sz n)) = unat sz + unat n" and "unat (snd (malloc sz n)) = unat sz"
proof -
  have s: "unat (ucast sz + n) = unat sz + unat n"
    using assms by (simp add: unat_word_ariths)
  have a: "ucast (ucast sz + n) = (word_of_nat (unat sz + unat n) :: u32)"
    by (metis s of_nat_unat)
  have u: "unat (word_of_nat (unat sz + unat n) :: u32) = unat sz + unat n"
    using assms by (simp only: unsigned_of_nat) (simp add: take_bit_nat_eq_self_iff)
  have "ucast (word_of_nat (unat sz + unat n) :: u32) = (word_of_nat (unat sz + unat n) :: u64)"
    by (metis u of_nat_unat)
  then have "ucast (word_of_nat (unat sz + unat n) :: u32) - n = (ucast sz :: u64)"
    by simp
  then show "malloc sz n = (word_of_nat (unat sz + unat n), word_of_nat (unat sz))"
    by (simp only: malloc_def Let_def a) simp
  then show "unat (fst (malloc sz n)) = unat sz + unat n" "unat (snd (malloc sz n)) = unat sz"
    by (simp_all only: fst_conv snd_conv u) simp
qed

text \<open>The offsets of consecutive requests.\<close>

fun mallocs :: "u32 \<Rightarrow> u64 list \<Rightarrow> u64 list" where
  "mallocs sz [] = []"
| "mallocs sz (n # ns) = (case malloc sz n of (sz', p) \<Rightarrow> p # mallocs sz' ns)"

lemma length_mallocs [simp]: "length (mallocs sz ns) = length ns"
  by (induction sz ns rule: mallocs.induct) (auto split: prod.split)

lemma mallocs_offsets:
  assumes "unat sz + sum_list (map unat ns) < 2 ^ 32" "i < length ns"
  shows "unat (mallocs sz ns ! i) = unat sz + sum_list (map unat (take i ns))"
  using assms
proof (induction ns arbitrary: sz i)
  case (Cons n ns)
  have "unat sz + unat n < 2 ^ 32" using Cons.prems(1) by simp
  note m = malloc_eq [OF this]
  show ?case
  proof (cases i)
    case 0
    then show ?thesis using m(3) by (simp add: case_prod_beta)
  next
    case (Suc j)
    with Cons.IH [of "fst (malloc sz n)" j] Cons.prems m(2) show ?thesis
      by (simp add: case_prod_beta)
  qed
qed simp

text \<open>Blocks that fit the arena are disjoint and inside it.\<close>

text \<open>
  C40: blocks handed out one after the other by \<^verbatim>\<open>malloc\<close> are disjoint and inside the arena, as long as
  the requests fit it together.
\<close>

theorem mallocs_disjoint:
  assumes fit: "unat sz + sum_list (map unat ns) \<le> ARENA" and ij: "i < j" "j < length ns"
  shows "unat (mallocs sz ns ! i) + unat (ns ! i) \<le> unat (mallocs sz ns ! j) \<and>
    unat (mallocs sz ns ! j) + unat (ns ! j) \<le> ARENA"
proof -
  have lim: "unat sz + sum_list (map unat ns) < 2 ^ 32" using fit by simp
  have step: "sum_list (map unat (take (Suc k) ns)) = sum_list (map unat (take k ns)) + unat (ns ! k)"
    if "k < length ns" for k using that by (simp add: take_Suc_conv_app_nth)
  have mono: "sum_list (map unat (take k ns)) \<le> sum_list (map unat (take l ns))" if "k \<le> l" for k l
  proof -
    have "take l ns = take k ns @ take (l - k) (drop k ns)" using that by (metis le_add_diff_inverse take_add)
    then show ?thesis by simp
  qed
  have "sum_list (map unat (take (Suc i) ns)) \<le> sum_list (map unat (take j ns))"
    using ij by (intro mono) simp
  then have 1: "unat (mallocs sz ns ! i) + unat (ns ! i) \<le> unat (mallocs sz ns ! j)"
    using mallocs_offsets [OF lim, of i] mallocs_offsets [OF lim, of j] step [of i] ij by simp
  have "sum_list (map unat (take (Suc j) ns)) \<le> sum_list (map unat ns)"
    using mono [of "Suc j" "length ns"] ij by simp
  then have "unat (mallocs sz ns ! j) + unat (ns ! j) \<le> ARENA"
    using mallocs_offsets [OF lim, of j] step [of j] ij fit by simp
  with 1 show ?thesis by blast
qed

lemma mallocs_disjoint_witness:
  "unat (mallocs 0 [64, 3, 100] ! 0) + unat ([64, 3, 100 :: u64] ! 0) \<le> unat (mallocs 0 [64, 3, 100] ! 2) \<and>
    unat (mallocs 0 [64, 3, 100] ! 2) + unat ([64, 3, 100 :: u64] ! 2) \<le> ARENA"
  by (rule mallocs_disjoint) simp_all

text \<open>The first request past the end is granted all the same.\<close>

text \<open>
  \<^verbatim>\<open>malloc\<close> grants a request that does not fit its arena: the block reaches past the end.
\<close>

theorem malloc_unchecked:
  assumes "unat sz \<le> ARENA" "ARENA < unat sz + unat n" "unat n < 2 ^ 31"
  shows "unat (snd (malloc sz n)) + unat n > ARENA"
  using assms malloc_eq(3) [of sz n] by simp

lemma malloc_unchecked_witness: "unat (snd (malloc 0 20000)) + unat (20000 :: u64) > ARENA"
  by (rule malloc_unchecked) simp_all

text \<open>The alignment of \<open>memalign\<close>.\<close>

text \<open>\<^verbatim>\<open>memalign_roundup\<close> returns the next multiple of the alignment, whether or not it is a power of two.\<close>

lemma memalign_roundup_eq:
  assumes "alignment \<noteq> 0" "unat addr + unat alignment < 2 ^ 64"
  shows "\<exists>r. memalign_roundup alignment addr = Some r \<and> unat alignment dvd unat r \<and>
    unat addr \<le> unat r \<and> unat r < unat addr + unat alignment"
proof -
  let ?a = "unat alignment" and ?b = "unat addr"
  have pos: "0 < ?a" using assms(1) by (simp add: unat_gt_0)
  have m: "unat (addr mod alignment) = ?b mod ?a" by (simp add: unat_mod_distrib)
  show ?thesis
  proof (cases "addr mod alignment = 0")
    case True
    then have "?b mod ?a = 0" using m by simp
    then show ?thesis using True assms(1) pos by (simp add: memalign_roundup_def Let_def dvd_eq_mod_eq_0)
  next
    case False
    then have nz: "?b mod ?a \<noteq> 0" using m by (metis unsigned_eq_0_iff)
    have s: "unat (alignment + addr) = ?a + ?b" using assms(2) by (simp add: unat_word_ariths)
    have lt: "?b mod ?a < ?a" using pos by simp
    then have "addr mod alignment \<le> alignment + addr" using s m by (simp add: word_le_nat_alt)
    then have r: "unat (alignment + addr - addr mod alignment) = ?a + ?b - ?b mod ?a"
      using s m by (simp add: unat_sub)
    have "?a + ?b - ?b mod ?a = ?a + (?b - ?b mod ?a)" using lt by simp
    also have "?b - ?b mod ?a = ?a * (?b div ?a)" by (rule minus_mod_eq_mult_div)
    finally have "?a dvd ?a + ?b - ?b mod ?a" by simp
    moreover have "?b \<le> ?a + ?b - ?b mod ?a" "?a + ?b - ?b mod ?a < ?b + ?a"
      using lt nz by linarith+
    ultimately show ?thesis using False assms(1) r by (simp add: memalign_roundup_def Let_def)
  qed
qed

text \<open>A block of \<^verbatim>\<open>memalign\<close> starts at the next aligned address after the blocks before it.\<close>

lemma memalign_block:
  assumes "0 < unat al" "unat al < 2 ^ 31" "unat buf + unat sz + unat al + unat n < 2 ^ 64" "unat sz + unat al + unat n < 2 ^ 32"
  shows "\<exists>sz' p. memalign buf sz al n = Some (sz', p) \<and> unat al dvd unat buf + unat p \<and>
    unat (buf + p) = unat buf + unat p \<and> unat sz \<le> unat p \<and> unat p < unat sz + unat al \<and> unat sz' = unat p + unat n"
proof -
  have sz: "unat (buf + ucast sz) = unat buf + unat sz"
    using assms(3) by (simp add: unat_word_ariths)
  have "al \<noteq> 0" using assms(1) by auto
  moreover have "unat (buf + ucast sz) + unat al < 2 ^ 64" using assms(3) unfolding sz by linarith
  ultimately obtain r where r: "memalign_roundup al (buf + ucast sz) = Some r" "unat al dvd unat r"
    "unat buf + unat sz \<le> unat r" "unat r < unat buf + unat sz + unat al"
    using memalign_roundup_eq [of al "buf + ucast sz"] unfolding sz by blast
  let ?p = "r - buf"
  have p: "unat ?p = unat r - unat buf" using r(3) by (simp add: unat_sub word_le_nat_alt)
  then have bp: "buf + ?p = r" "unat r = unat buf + unat ?p" using r(3) by simp_all
  have pn: "unat (?p + n) = unat ?p + unat n" using assms(3) p r(4) by (simp add: unat_word_ariths)
  have lim: "unat ?p + unat n < 2 ^ 32" using assms(4) p r(3,4) by linarith
  have sz': "unat (ucast (?p + n) :: u32) = unat ?p + unat n"
    using lim pn by (simp add: unsigned_ucast_eq take_bit_nat_eq_self_iff)
  then have "ucast (ucast (?p + n) :: u32) = ?p + n" by (metis pn of_nat_unat ucast_id)
  then have "memalign buf sz al n = Some (ucast (?p + n), ?p)" using r(1) by (simp add: memalign_def)
  moreover have "unat al dvd unat buf + unat ?p" using r(2) bp(2) by simp
  moreover have "unat (buf + ?p) = unat buf + unat ?p" using bp by simp
  moreover have "unat sz \<le> unat ?p" "unat ?p < unat sz + unat al" using p r(3,4) by linarith+
  ultimately show ?thesis using sz' by blast
qed

end
