(* ===== verification/EthDev.thy ===== *)
theory EthDev
  imports NetState
begin

text \<open>
  The Ethernet device layer of \<^verbatim>\<open>net/eth_legacy.c\<close> and \<^verbatim>\<open>net/eth_common.c\<close>: the circular list of
  registered devices, the current device, the addresses kept in the environment, and the calls
  through the device's function pointers. The loops over the device list end only when the list
  is circular, so they are \<open>partial_function\<close>s; the relation \<open>dev_ring\<close> is the invariant that
  makes them end, and every operation on the list is related to the list of devices it stands
  for. \<^verbatim>\<open>eth_rx\<close>, which calls back into the stack, is in theory Net.
\<close>

section \<open>The device list\<close>

definition eth_set_current_to_next :: "'h sys \<Rightarrow> 'h sys option" where
  "eth_set_current_to_next s = do {
     (_, d) \<leftarrow> deref s (eth_current (eth s));
     Some (upd_eth (\<lambda>v. v\<lparr>eth_current := dev_next d\<rparr>) s) }"

definition eth_set_dev :: "nat option \<Rightarrow> 'h sys \<Rightarrow> 'h sys" where
  "eth_set_dev dev = upd_eth (\<lambda>v. v\<lparr>eth_current := dev\<rparr>)"

text \<open>The search loop of the two lookups, from the device \<open>p\<close> until it is back at \<open>start\<close>.\<close>

partial_function (option) dev_search ::
  "(eth_device \<Rightarrow> bool option) \<Rightarrow> (nat \<rightharpoonup> eth_device) \<Rightarrow> nat option \<Rightarrow> nat option \<Rightarrow> nat option option" where
  "dev_search P ds start p = do {
     a \<leftarrow> p;
     d \<leftarrow> ds a;
     hit \<leftarrow> P d;
     (if hit then Some (Some a)
      else if dev_next d = start then Some None
      else dev_search P ds start (dev_next d)) }"

definition eth_get_dev_by_name :: "eth_vars \<Rightarrow> bytes \<Rightarrow> nat option option" where
  "eth_get_dev_by_name v devname =
     (if eth_devices v = None then Some None
      else dev_search (\<lambda>d. map_option (\<lambda>r. r = 0) (strcmp devname (dev_name d))) (devs v)
        (eth_devices v) (eth_devices v))"

definition eth_get_dev_by_index :: "eth_vars \<Rightarrow> u32 \<Rightarrow> nat option option" where
  "eth_get_dev_by_index v index =
     (if eth_devices v = None then Some None
      else dev_search (\<lambda>d. Some (dev_index d = index)) (devs v) (eth_devices v) (eth_devices v))"

definition eth_get_dev_index :: "'h sys \<Rightarrow> u32 option" where
  "eth_get_dev_index s =
     (case eth_current (eth s) of None \<Rightarrow> Some (-1)
      | Some a \<Rightarrow> map_option (\<lambda>(_, d). dev_index d) (deref s (Some a)))"

text \<open>The current device's address, \<open>None\<close> inside for \<^verbatim>\<open>NULL\<close>.\<close>

definition eth_get_ethaddr :: "'h sys \<Rightarrow> bytes option option" where
  "eth_get_ethaddr s =
     (case eth_current (eth s) of None \<Rightarrow> Some None
      | Some a \<Rightarrow> map_option (\<lambda>(_, d). Some (enetaddr d)) (deref s (Some a)))"

definition eth_get_name :: "'h sys \<Rightarrow> bytes option" where
  "eth_get_name s =
     (case eth_current (eth s) of None \<Rightarrow> Some (c_string ''unknown'')
      | Some a \<Rightarrow> map_option (\<lambda>(_, d). dev_name d) (deref s (Some a)))"

definition eth_is_active :: "'h sys \<Rightarrow> nat option \<Rightarrow> bool option" where
  "eth_is_active s dev =
     (case dev of None \<Rightarrow> Some False
      | Some a \<Rightarrow> map_option (\<lambda>(_, d). dev_state d = ETH_STATE_ACTIVE) (deref s (Some a)))"

definition eth_init_state_only :: "'h sys \<Rightarrow> (int \<times> 'h sys) option" where
  "eth_init_state_only s = do {
     (a, d) \<leftarrow> deref s (eth_current (eth s));
     Some (0, put_dev a (d\<lparr>dev_state := ETH_STATE_ACTIVE\<rparr>) s) }"

definition eth_halt_state_only :: "'h sys \<Rightarrow> 'h sys option" where
  "eth_halt_state_only s = do {
     (a, d) \<leftarrow> deref s (eth_current (eth s));
     Some (put_dev a (d\<lparr>dev_state := ETH_STATE_PASSIVE\<rparr>) s) }"

section \<open>Addresses in the environment\<close>

definition eth_env_get_enetaddr :: "env \<Rightarrow> bytes \<Rightarrow> (bytes \<times> bool) option" where
  "eth_env_get_enetaddr e name = do {
     r \<leftarrow> env_get e name;
     addr \<leftarrow> eth_parse_enetaddr (map_option (env_val e) r);
     Some (addr, is_valid_ethaddr addr) }"

definition eth_env_set_enetaddr :: "u64 \<Rightarrow> env \<Rightarrow> bytes \<Rightarrow> bytes \<Rightarrow> (env \<times> int) option" where
  "eth_env_set_enetaddr sp e name addr = do {
     (_, valid) \<leftarrow> eth_env_get_enetaddr e name;
     (if valid then Some (e, -17)
      else do {
        (buf, _) \<leftarrow> sprintf sp (replicate 18 0) (c_string ''%pM'') [VPtr 1 addr];
        (e, r) \<leftarrow> env_set e name (Some buf);
        Some (e, sint r) }) }"

text \<open>The name of the variable of an interface: \<^verbatim>\<open>ethaddr\<close>, \<^verbatim>\<open>eth1addr\<close> and so on.\<close>

definition enetvar :: "u64 \<Rightarrow> bytes \<Rightarrow> u32 \<Rightarrow> bytes option" where
  "enetvar sp base_name index =
     map_option fst (sprintf sp (replicate 32 0)
       (if index \<noteq> 0 then c_string ''%s%daddr'' else c_string ''%saddr'')
       [VStr (Some base_name), VInt index])"

definition eth_env_get_enetaddr_by_index ::
  "u64 \<Rightarrow> env \<Rightarrow> bytes \<Rightarrow> u32 \<Rightarrow> (bytes \<times> bool) option" where
  "eth_env_get_enetaddr_by_index sp e base_name index = do {
     name \<leftarrow> enetvar sp base_name index;
     eth_env_get_enetaddr e name }"

definition eth_env_set_enetaddr_by_index ::
  "u64 \<Rightarrow> env \<Rightarrow> bytes \<Rightarrow> u32 \<Rightarrow> bytes \<Rightarrow> (env \<times> int) option" where
  "eth_env_set_enetaddr_by_index sp e base_name index addr = do {
     name \<leftarrow> enetvar sp base_name index;
     eth_env_set_enetaddr sp e name addr }"

definition eth_mac_skip :: "u64 \<Rightarrow> env \<Rightarrow> u32 \<Rightarrow> bool option" where
  "eth_mac_skip sp e index = do {
     (name, _) \<leftarrow> sprintf sp (replicate 15 0)
       (if index \<noteq> 0 then c_string ''eth%dmacskip'' else c_string ''ethmacskip'') [VInt index];
     r \<leftarrow> env_get e name;
     Some (r \<noteq> None) }"

section \<open>The current device\<close>

text \<open>Whether the variable \<^verbatim>\<open>ethrotate\<close> is set to \<^verbatim>\<open>no\<close>.\<close>

definition no_rotate :: "env \<Rightarrow> bool option" where
  "no_rotate e = do {
     ethrotate \<leftarrow> env_get e (c_string ''ethrotate'');
     (case ethrotate of None \<Rightarrow> Some False
      | Some r \<Rightarrow> map_option (\<lambda>c. c = 0) (strcmp (env_val e r) (c_string ''no''))) }"

definition eth_current_changed :: "'h sys \<Rightarrow> 'h sys option" where
  "eth_current_changed s = do {
     act \<leftarrow> env_get (envs_of s) (c_string ''ethact'');
     stay \<leftarrow> no_rotate (envs_of s);
     (if stay then Some s
      else if eth_current (eth s) \<noteq> None then do {
        name \<leftarrow> eth_get_name s;
        differs \<leftarrow> (case act of None \<Rightarrow> Some True
          | Some r \<Rightarrow> map_option (\<lambda>c. c \<noteq> 0) (strcmp (env_val (envs_of s) r) name));
        (if differs then do {
           (e, _) \<leftarrow> env_set (envs_of s) (c_string ''ethact'') (Some name);
           Some (s\<lparr>envs_of := e\<rparr>) }
         else Some s) }
      else if act \<noteq> None then do {
        (e, _) \<leftarrow> env_set (envs_of s) (c_string ''ethact'') None;
        Some (s\<lparr>envs_of := e\<rparr>) }
      else Some s) }"

definition eth_try_another :: "bool \<Rightarrow> 'h sys \<Rightarrow> 'h sys option" where
  "eth_try_another first_restart s = do {
     stay \<leftarrow> no_rotate (envs_of s);
     (if stay then Some s
      else if eth_current (eth s) = None then Some s
      else do {
        let s = (if first_restart then upd_eth (\<lambda>v. v\<lparr>first_failed := eth_current v\<rparr>) s else s);
        s \<leftarrow> eth_set_current_to_next s;
        s \<leftarrow> eth_current_changed s;
        Some (if first_failed (eth s) = eth_current (eth s)
              then upd_net (\<lambda>v. v\<lparr>net_restart_wrap := True\<rparr>) s else s) }) }"

text \<open>\<^verbatim>\<open>get_env_id()\<close> is 1 in this build. The static \<open>act\<close> is the row found by an earlier call.\<close>

definition eth_set_current :: "'h sys \<Rightarrow> 'h sys option" where
  "eth_set_current s = do {
     let v = eth s;
     s \<leftarrow> (if act v = None \<or> env_changed_id v \<noteq> 1 then do {
             r \<leftarrow> env_get (envs_of s) (c_string ''ethact'');
             Some (upd_eth (\<lambda>v. v\<lparr>act := r, env_changed_id := 1\<rparr>) s) }
           else Some s);
     s \<leftarrow> (case act (eth s) of
             None \<Rightarrow> do {
               ethprime \<leftarrow> env_get (envs_of s) (c_string ''ethprime'');
               dev \<leftarrow> (case ethprime of None \<Rightarrow> Some None
                 | Some r \<Rightarrow> eth_get_dev_by_name (eth s) (env_val (envs_of s) r));
               Some (eth_set_dev dev s) }
           | Some r \<Rightarrow> do {
               dev \<leftarrow> eth_get_dev_by_name (eth s) (env_val (envs_of s) r);
               Some (eth_set_dev dev s) });
     eth_current_changed s }"

section \<open>The hardware address\<close>

definition default_mac :: bytes where
  "default_mac = [0x6a, 0xe3, 0xd1, 0x16, 0xb0, 0x50]"

definition eth_write_hwaddr :: "'h drv_ops \<Rightarrow> nat \<Rightarrow> bytes \<Rightarrow> u32 \<Rightarrow> 'h sys \<Rightarrow> (int \<times> 'h sys) option" where
  "eth_write_hwaddr ops a base_name eth_number s = do {
     (env_enetaddr, _) \<leftarrow> eth_env_get_enetaddr_by_index (stack_addr ops) (envs_of s) base_name eth_number;
     d \<leftarrow> devs (eth s) a;
     s \<leftarrow> (if \<not> is_zero_ethaddr env_enetaddr then
             Some (put_dev a (d\<lparr>enetaddr := env_enetaddr\<rparr>) s)
           else if is_valid_ethaddr (enetaddr d) then do {
             (e, _) \<leftarrow> eth_env_set_enetaddr_by_index (stack_addr ops) (envs_of s) base_name eth_number (enetaddr d);
             Some (s\<lparr>envs_of := e\<rparr>) }
           else if is_zero_ethaddr (enetaddr d) then
             Some (put_dev a (d\<lparr>enetaddr := default_mac\<rparr>) s)
           else Some s);
     d \<leftarrow> devs (eth s) a;
     call \<leftarrow> (if write_hwaddr d
              then map_option Not (eth_mac_skip (stack_addr ops) (envs_of s) eth_number)
              else Some False);
     (if call then
        (if \<not> is_valid_ethaddr (enetaddr d) then Some (-22, s)
         else do {
           (ret, h) \<leftarrow> drv_write_hwaddr ops a d (hw s);
           Some (ret, s\<lparr>hw := h\<rparr>) })
      else Some (0, s)) }"

datatype env_op = env_op_create | env_op_delete | env_op_overwrite

partial_function (option) on_ethaddr_loop ::
  "'h drv_ops \<Rightarrow> bytes option \<Rightarrow> env_op \<Rightarrow> u32 \<Rightarrow> nat option \<Rightarrow> 'h sys \<Rightarrow> 'h sys option" where
  "on_ethaddr_loop ops val op index p s = do {
     (a, d) \<leftarrow> deref s p;
     s \<leftarrow> (if dev_index d = index then
             (if op = env_op_delete then
                Some (put_dev a (d\<lparr>enetaddr := replicate 6 0\<rparr>) s)
              else do {
                addr \<leftarrow> eth_parse_enetaddr val;
                (_, s) \<leftarrow> eth_write_hwaddr ops a (c_string ''eth'') (dev_index d)
                  (put_dev a (d\<lparr>enetaddr := addr\<rparr>) s);
                Some s })
           else Some s);
     d \<leftarrow> devs (eth s) a;
     (if dev_next d = eth_devices (eth s) then Some s
      else on_ethaddr_loop ops val op index (dev_next d) s) }"

definition on_ethaddr :: "'h drv_ops \<Rightarrow> bytes \<Rightarrow> bytes option \<Rightarrow> env_op \<Rightarrow> 'h sys \<Rightarrow> (int \<times> 'h sys) option" where
  "on_ethaddr ops name val op s =
     (if eth_devices (eth s) = None then Some (0, s)
      else do {
        (index, _) \<leftarrow> simple_strtoul (drop 3 name) 10;
        s \<leftarrow> on_ethaddr_loop ops val op (ucast index) (eth_devices (eth s)) s;
        Some (0, s) })"

section \<open>Registration\<close>

partial_function (option) last_dev :: "(nat \<rightharpoonup> eth_device) \<Rightarrow> nat option \<Rightarrow> nat option \<Rightarrow> nat option" where
  "last_dev ds start p = do {
     a \<leftarrow> p;
     d \<leftarrow> ds a;
     (if dev_next d = start then Some a else last_dev ds start (dev_next d)) }"

definition eth_register :: "nat \<Rightarrow> 'h sys \<Rightarrow> (int \<times> 'h sys) option" where
  "eth_register dev s = do {
     s \<leftarrow> (if eth_devices (eth s) = None then
             eth_current_changed (upd_eth (\<lambda>v. v\<lparr>eth_devices := Some dev, eth_current := Some dev\<rparr>) s)
           else do {
             a \<leftarrow> last_dev (devs (eth s)) (eth_devices (eth s)) (eth_devices (eth s));
             d \<leftarrow> devs (eth s) a;
             Some (put_dev a (d\<lparr>dev_next := Some dev\<rparr>) s) });
     d \<leftarrow> devs (eth s) dev;
     Some (0, upd_eth (\<lambda>v. v\<lparr>reg_index := reg_index v + 1\<rparr>)
       (put_dev dev (d\<lparr>dev_state := ETH_STATE_INIT, dev_next := eth_devices (eth s),
          dev_index := reg_index (eth s)\<rparr>) s)) }"

partial_function (option) dev_before ::
  "(nat \<rightharpoonup> eth_device) \<Rightarrow> nat option \<Rightarrow> nat \<Rightarrow> nat option \<Rightarrow> nat option" where
  "dev_before ds start dev p = do {
     a \<leftarrow> p;
     d \<leftarrow> ds a;
     (if dev_next d \<noteq> start \<and> dev_next d \<noteq> Some dev then dev_before ds start dev (dev_next d)
      else Some a) }"

definition eth_unregister :: "nat \<Rightarrow> 'h sys \<Rightarrow> (int \<times> 'h sys) option" where
  "eth_unregister dev s =
     (if eth_devices (eth s) = None then Some (-19, s)
      else do {
        a \<leftarrow> dev_before (devs (eth s)) (eth_devices (eth s)) dev (eth_devices (eth s));
        cur \<leftarrow> devs (eth s) a;
        (if dev_next cur \<noteq> Some dev then Some (-19, s)
         else do {
           d \<leftarrow> devs (eth s) dev;
           let s = put_dev a (cur\<lparr>dev_next := dev_next d\<rparr>) s;
           d \<leftarrow> devs (eth s) dev;
           let s = (if eth_devices (eth s) = Some dev
              then upd_eth (\<lambda>v. v\<lparr>eth_devices :=
                     (if dev_next d = eth_devices v then None else dev_next d)\<rparr>) s
              else s);
           s \<leftarrow> (if eth_current (eth s) = Some dev
                 then eth_current_changed (upd_eth (\<lambda>v. v\<lparr>eth_current := eth_devices v\<rparr>) s)
                 else Some s);
           Some (0, s) }) })"

text \<open>
  \<^verbatim>\<open>eth_initialize\<close> prepares the MII and PHY layers and the board's controller, which registers
  its device; \<open>board_eth_init\<close> is that part. Then every registered device gets its address.
\<close>

partial_function (option) eth_initialize_loop ::
  "'h drv_ops \<Rightarrow> nat option \<Rightarrow> nat option \<Rightarrow> int \<Rightarrow> 'h sys \<Rightarrow> (int \<times> 'h sys) option" where
  "eth_initialize_loop ops ethprime p num_devices s = do {
     (a, d) \<leftarrow> deref s p;
     prime \<leftarrow> (case ethprime of None \<Rightarrow> Some False
       | Some r \<Rightarrow> map_option (\<lambda>c. c = 0) (strcmp (dev_name d) (env_val (envs_of s) r)));
     let s = (if prime then eth_set_dev (Some a) s else s);
     _ \<leftarrow> strchr (dev_name d) 0x20;
     (_, s) \<leftarrow> eth_write_hwaddr ops a (c_string ''eth'') (dev_index d) s;
     d \<leftarrow> devs (eth s) a;
     (if dev_next d = eth_devices (eth s) then Some (num_devices + 1, s)
      else eth_initialize_loop ops ethprime (dev_next d) (num_devices + 1) s) }"

definition eth_initialize ::
  "'h drv_ops \<Rightarrow> ('h sys \<Rightarrow> 'h sys option) \<Rightarrow> 'h sys \<Rightarrow> (int \<times> 'h sys) option" where
  "eth_initialize ops board_eth_init s = do {
     let s = upd_eth (\<lambda>v. v\<lparr>eth_devices := None, eth_current := None\<rparr>) s;
     s \<leftarrow> board_eth_init s;
     (if eth_devices (eth s) = None then Some (0, s)
      else do {
        ethprime \<leftarrow> env_get (envs_of s) (c_string ''ethprime'');
        (n, s) \<leftarrow> eth_initialize_loop ops ethprime (eth_devices (eth s)) 0 s;
        s \<leftarrow> eth_current_changed s;
        Some (n, s) }) }"

section \<open>The calls through the device\<close>

partial_function (option) eth_init_loop :: "'h drv_ops \<Rightarrow> nat option \<Rightarrow> 'h sys \<Rightarrow> (int \<times> 'h sys) option" where
  "eth_init_loop ops old_current s = do {
     (a, d) \<leftarrow> deref s (eth_current (eth s));
     (r, h) \<leftarrow> drv_init ops a d (hw s);
     let s = s\<lparr>hw := h\<rparr>;
     (if r \<ge> 0 then Some (0, put_dev a (d\<lparr>dev_state := ETH_STATE_ACTIVE\<rparr>) s)
      else do {
        s \<leftarrow> eth_try_another False s;
        (if old_current \<noteq> eth_current (eth s) then eth_init_loop ops old_current s
         else Some (-110, s)) }) }"

definition eth_init :: "'h drv_ops \<Rightarrow> 'h sys \<Rightarrow> (int \<times> 'h sys) option" where
  "eth_init ops s =
     (if eth_current (eth s) = None then Some (-19, s)
      else eth_init_loop ops (eth_current (eth s)) s)"

definition eth_halt :: "'h drv_ops \<Rightarrow> 'h sys \<Rightarrow> 'h sys option" where
  "eth_halt ops s =
     (if eth_current (eth s) = None then Some s
      else do {
        (a, d) \<leftarrow> deref s (eth_current (eth s));
        h \<leftarrow> drv_halt ops a d (hw s);
        Some (put_dev a (d\<lparr>dev_state := ETH_STATE_PASSIVE\<rparr>) (s\<lparr>hw := h\<rparr>)) })"

definition eth_send :: "'h drv_ops \<Rightarrow> bytes \<Rightarrow> u32 \<Rightarrow> 'h sys \<Rightarrow> (int \<times> 'h sys) option" where
  "eth_send ops packet len s =
     (if eth_current (eth s) = None then Some (-19, s)
      else do {
        (a, d) \<leftarrow> deref s (eth_current (eth s));
        (r, h) \<leftarrow> drv_send ops a d packet len (hw s);
        Some (r, s\<lparr>hw := h\<rparr>) })"

definition net_send_packet :: "'h drv_ops \<Rightarrow> bytes \<Rightarrow> u32 \<Rightarrow> 'h sys \<Rightarrow> 'h sys option" where
  "net_send_packet ops packet len s = map_option snd (eth_send ops packet len s)"

section \<open>Multicast addresses\<close>

text \<open>\<open>mcast\<close> is the device's filter operation.\<close>

definition eth_mcast_join ::
  "(nat \<Rightarrow> eth_device \<Rightarrow> bytes \<Rightarrow> u8 \<Rightarrow> 'h \<Rightarrow> (int \<times> 'h) option) option \<Rightarrow> u32 \<Rightarrow> u32 \<Rightarrow> 'h sys
     \<Rightarrow> (int \<times> 'h sys) option" where
  "eth_mcast_join mcast mcast_ip join s =
     (case (eth_current (eth s), mcast) of
        (Some a, Some f) \<Rightarrow> do {
          (a, d) \<leftarrow> deref s (Some a);
          let ip = htonl mcast_ip;
          let mac = [0x1, 0x0, 0x5e, ucast (drop_bit 16 ip AND 0x7f), ucast (drop_bit 8 ip AND 0xff),
                     ucast (ip AND 0xff)];
          (r, h) \<leftarrow> f a d mac (ucast join) (hw s);
          Some (r, s\<lparr>hw := h\<rparr>) }
      | _ \<Rightarrow> Some (-1, s))"

definition crc_bit :: "u32 \<Rightarrow> u32" where
  "crc_bit crc = drop_bit 1 crc XOR (if crc AND 1 \<noteq> 0 then 0xedb88320 else 0)"

definition crc_byte :: "u32 \<Rightarrow> u8 \<Rightarrow> u32" where
  "crc_byte crc b = (crc_bit ^^ 8) (crc XOR ucast b)"

definition bit_reverse32 :: "u32 \<Rightarrow> u32" where
  "bit_reverse32 x0 = (
     let x = drop_bit 16 x0 OR push_bit 16 x0;
         x = (drop_bit 8 x AND 0x00ff00ff) OR (push_bit 8 x AND 0xff00ff00);
         x = (drop_bit 4 x AND 0x0f0f0f0f) OR (push_bit 4 x AND 0xf0f0f0f0);
         x = (drop_bit 2 x AND 0x33333333) OR (push_bit 2 x AND 0xcccccccc)
     in (drop_bit 1 x AND 0x55555555) OR (push_bit 1 x AND 0xaaaaaaaa))"

definition ether_crc :: "nat \<Rightarrow> bytes \<Rightarrow> u32 option" where
  "ether_crc len p = map_option (\<lambda>bs. bit_reverse32 (foldl crc_byte (-1) bs)) (load_bytes p 0 len)"

end
