(* ===== verification/Bench.thy ===== *)
theory Bench
  imports NetState
begin

text \<open>
  A test bench for the stack: a driver that hands over the frames of a queue and records what it
  is asked to send, on a clock that advances by one tick whenever it is read. The concrete runs
  that accompany the properties use it; no property is about it.
\<close>

record bench =
  clock :: u64
  rx_queue :: "bytes list"
  tx_log :: "bytes list"

definition bench_time :: "bench clock" where
  "bench_time h = (clock h, h\<lparr>clock := clock h + 1\<rparr>)"

definition bench_send :: "bytes \<Rightarrow> u32 \<Rightarrow> bench \<Rightarrow> (int \<times> bench) option" where
  "bench_send b len h =
     (if unat len \<le> length b then Some (0, h\<lparr>tx_log := tx_log h @ [take (unat len) b]\<rparr>) else None)"

definition bench_recv :: "bench \<Rightarrow> ((u64 \<times> bytes \<times> u32) option \<times> bench) option" where
  "bench_recv h = (case rx_queue h of [] \<Rightarrow> Some (None, h)
     | p # ps \<Rightarrow> Some (Some (0, p, of_nat (length p)), h\<lparr>rx_queue := ps\<rparr>))"

definition bench_ops :: "bench drv_ops" where
  "bench_ops = \<lparr>drv_time = bench_time, drv_init = \<lambda>_ _ h. Some (0, h),
     drv_send = \<lambda>_ _. bench_send, drv_recv = \<lambda>_ _. bench_recv, drv_recv_done = \<lambda>_ _ _ h. Some (0, h),
     drv_halt = \<lambda>_ _ h. Some h, drv_write_hwaddr = \<lambda>_ _ h. Some (0, h),
     client_rx = \<lambda>_ _ _ _ _ _ s. Some s, client_timeout = \<lambda>_ s. Some s, stack_addr = 0x1000\<rparr>"

text \<open>A stack that is set up, with one device and the address 192.168.100.22.\<close>

definition bench_dev :: eth_device where
  "bench_dev = \<lparr>dev_name = [0x65, 0], enetaddr = [0, 1, 2, 3, 4, 5], iobase = 0, dev_state = ETH_STATE_ACTIVE,
     write_hwaddr = False, dev_next = Some 1, dev_index = 0\<rparr>"

definition bench_eth :: eth_vars where
  "bench_eth = eth_vars_init\<lparr>devs := [1 \<mapsto> bench_dev], eth_devices := Some 1, eth_current := Some 1\<rparr>"

definition bench_net :: net_vars where
  "bench_net = net_vars_init\<lparr>net_ethaddr := [0, 1, 2, 3, 4, 5], net_ip := 0x1664A8C0, net_netmask := 0x00FFFFFF,
     net_tx_packet := Some 0, udp_packet_handler := Some dummy_handler, arp_packet_handler := Some dummy_handler,
     first_call := False\<rparr>"

definition bench_arp :: arp_vars where
  "bench_arp = arp_vars_init\<lparr>arp_tx_packet := Some 0\<rparr>"

definition bench_sys :: "bench sys" where
  "bench_sys = \<lparr>hw = \<lparr>clock = 0, rx_queue = [], tx_log = []\<rparr>, envs_of = env_init, eth = bench_eth,
     net = bench_net, arp = bench_arp, ping = \<lparr>ping_seq_number = 0, net_ping_ip = 0x0364A8C0\<rparr>\<rparr>"

named_theorems bench_simps \<open>the components of the test bench\<close>

lemma bench_ops_sel [bench_simps]:
  "drv_time bench_ops = bench_time" "drv_send bench_ops a d = bench_send"
  "drv_recv bench_ops a d = bench_recv" "drv_init bench_ops a d h = Some (0, h)"
  "drv_recv_done bench_ops a d x h = Some (0, h)" "drv_halt bench_ops a d h = Some h"
  "drv_write_hwaddr bench_ops a d h = Some (0, h)" "client_rx bench_ops k p d1 a1 d2 l s = Some s"
  "client_timeout bench_ops k s = Some s" "stack_addr bench_ops = 0x1000"
  by (simp_all add: bench_ops_def)

lemma bench_sys_sel [bench_simps]:
  "eth bench_sys = bench_eth" "net bench_sys = bench_net" "arp bench_sys = bench_arp"
  "net_ethaddr bench_net = [0, 1, 2, 3, 4, 5]" "net_ip bench_net = 0x1664A8C0"
  "net_tx_packet bench_net = Some 0" "length (net_pkt_buf bench_net) = 7744"
  "udp_packet_handler bench_net = Some dummy_handler" "arp_packet_handler bench_net = Some dummy_handler"
  "arp_tx_packet bench_arp = Some 0" "length (arp_tx_packet_buf bench_arp) = 1600"
  "arp_wait_packet_ethaddr bench_arp = None" "ether_bufs bench_arp = [0 \<mapsto> replicate 6 0]"
  "arp_wait_tx_packet_size bench_arp = 0" "net_arp_wait_packet_ip bench_arp = 0"
  "eth_current bench_eth = Some 1" "devs bench_eth = [1 \<mapsto> bench_dev]" "net_our_vlan bench_net = 0xFFFF"
  by (simp_all add: bench_sys_def bench_net_def bench_arp_def bench_eth_def net_vars_init_def
      arp_vars_init_def eth_vars_init_def)

text \<open>An echo request from 192.168.100.3, as it arrives.\<close>

definition bench_echo :: bytes where
  "bench_echo = [0, 1, 2, 3, 4, 5, 10, 11, 12, 13, 14, 15, 0x08, 0x00,
     0x45, 0, 0, 28, 0, 0, 0x40, 0, 64, 1, 0xf1, 0x76, 0xc0, 0xa8, 100, 3, 0xc0, 0xa8, 100, 22,
     8, 0, 0xf7, 0xff, 0, 0, 0, 0] @ replicate 22 0"

text \<open>An ARP reply of 192.168.100.3, and a request for our address.\<close>

definition bench_arp_frame :: "u8 \<Rightarrow> bytes" where
  "bench_arp_frame op = [0, 1, 2, 3, 4, 5, 10, 11, 12, 13, 14, 15, 0x08, 0x06,
     0, 1, 8, 0, 6, 4, 0, op, 10, 11, 12, 13, 14, 15, 0xc0, 0xa8, 100, 3,
     0, 1, 2, 3, 4, 5, 0xc0, 0xa8, 100, 22] @ replicate 22 0"

end
