(* ===== verification/Arp.thy ===== *)
theory Arp
  imports EthDev NetHdr Bench
begin

text \<open>
  Address resolution, \<^verbatim>\<open>net/arp.c\<close>: requests, their retransmission, and the handling of received
  requests and replies. A received packet is the driver's buffer, which a reply to a request
  reuses in place.
\<close>

abbreviation (input) ARP_TIMEOUT :: u64 where "ARP_TIMEOUT \<equiv> 5000"
abbreviation (input) ARP_TIMEOUT_COUNT :: u32 where "ARP_TIMEOUT_COUNT \<equiv> 5"
abbreviation (input) ARPOP_REQUEST :: u16 where "ARPOP_REQUEST \<equiv> 1"
abbreviation (input) ARPOP_REPLY :: u16 where "ARPOP_REPLY \<equiv> 2"

text \<open>The offset of the first 64-byte boundary at or after \<open>base\<close>, as the two statements find it.\<close>

definition align_offset :: "u64 \<Rightarrow> nat" where
  "align_offset base = 63 - unat ((base + 63) mod 64)"

text \<open>\<open>base\<close> is the address of \<^verbatim>\<open>arp_tx_packet_buf\<close>.\<close>

definition arp_init :: "u64 \<Rightarrow> arp_vars \<Rightarrow> arp_vars" where
  "arp_init base v = v\<lparr>arp_wait_packet_ethaddr := None, net_arp_wait_packet_ip := 0,
     net_arp_wait_reply_ip := 0, arp_wait_tx_packet_size := 0,
     arp_tx_packet := Some (align_offset base)\<rparr>"

definition arp_raw_request ::
  "'h drv_ops \<Rightarrow> u32 \<Rightarrow> bytes \<Rightarrow> u32 \<Rightarrow> 'h sys \<Rightarrow> 'h sys option" where
  "arp_raw_request ops source_ip target_ethaddr target_ip s = do {
     _ \<leftarrow> ip_to_string source_ip (stack_addr ops) (replicate 20 0);
     pkt \<leftarrow> arp_tx_packet (arp s);
     (b, eth_hdr_size) \<leftarrow> net_set_ether (net s) (arp_tx_packet_buf (arp s)) pkt net_bcast_ethaddr PROT_ARP;
     let a = pkt + eth_hdr_size;
     b \<leftarrow> store16 b a (htons 1);
     b \<leftarrow> store16 b (a + 2) (htons PROT_IP);
     b \<leftarrow> store8 b (a + 4) 6;
     b \<leftarrow> store8 b (a + 5) 4;
     b \<leftarrow> store16 b (a + 6) (htons ARPOP_REQUEST);
     b \<leftarrow> store_bytes b (a + 8) (net_ethaddr (net s));
     b \<leftarrow> net_write_ip b (a + 14) source_ip;
     b \<leftarrow> store_bytes b (a + 18) target_ethaddr;
     b \<leftarrow> net_write_ip b (a + 24) target_ip;
     net_send_packet ops (drop pkt b) (of_nat (eth_hdr_size + ARP_HDR_SIZE))
       (upd_arp (\<lambda>v. v\<lparr>arp_tx_packet_buf := b\<rparr>) s) }"

definition arp_request :: "'h drv_ops \<Rightarrow> 'h sys \<Rightarrow> 'h sys option" where
  "arp_request ops s = (
     let v = arp s; n = net s;
         reply_ip =
           (if net_arp_wait_packet_ip v AND net_netmask n \<noteq> net_ip n AND net_netmask n then
              (if net_gateway n = 0 then net_arp_wait_packet_ip v else net_gateway n)
            else net_arp_wait_packet_ip v)
     in arp_raw_request ops (net_ip n) net_null_ethaddr reply_ip
          (upd_arp (\<lambda>v. v\<lparr>net_arp_wait_reply_ip := reply_ip\<rparr>) s))"

definition arp_timeout_check :: "'h drv_ops \<Rightarrow> 'h sys \<Rightarrow> (bool \<times> 'h sys) option" where
  "arp_timeout_check ops s =
     (if net_arp_wait_packet_ip (arp s) = 0 then Some (False, s)
      else (case now ops s of (t, s) \<Rightarrow>
        if t - arp_wait_timer_start (arp s) > ARP_TIMEOUT then
          (let try = arp_wait_try (arp s) + 1 in
           if sint try \<ge> sint ARP_TIMEOUT_COUNT then
             Some (True, net_set_state NETLOOP_FAIL (upd_arp (\<lambda>v. v\<lparr>arp_wait_try := 0\<rparr>) s))
           else do {
             s \<leftarrow> arp_request ops (upd_arp (\<lambda>v. v\<lparr>arp_wait_try := try, arp_wait_timer_start := t\<rparr>) s);
             Some (True, s) })
        else Some (True, s)))"

text \<open>A packet handler: the one that does nothing, or a client's.\<close>

definition run_rxhand ::
  "'h drv_ops \<Rightarrow> rxhand option \<Rightarrow> bytes \<Rightarrow> u32 \<Rightarrow> u32 \<Rightarrow> u32 \<Rightarrow> u32 \<Rightarrow> 'h sys \<Rightarrow> 'h sys option" where
  "run_rxhand ops f pkt dport sip sport len s =
     (case f of None \<Rightarrow> None
      | Some dummy_handler \<Rightarrow> Some s
      | Some (Client_rx k) \<Rightarrow> client_rx ops k pkt dport sip sport len s)"

text \<open>The answer to a request, in the buffer of the request.\<close>

definition arp_answer :: "'h drv_ops \<Rightarrow> bytes \<Rightarrow> nat \<Rightarrow> 'h sys \<Rightarrow> (bytes \<times> 'h sys) option" where
  "arp_answer ops b a s = do {
     src \<leftarrow> load_bytes b 6 6;
     (b, eth_hdr_size) \<leftarrow> net_update_ether (net s) b 0 src PROT_ARP;
     b \<leftarrow> store16 b (a + 6) (htons ARPOP_REPLY);
     sha \<leftarrow> load_bytes b (a + 8) 6;
     b \<leftarrow> store_bytes b (a + 18) sha;
     spa \<leftarrow> load32 b (a + 14);
     b \<leftarrow> net_copy_ip b (a + 24) spa;
     b \<leftarrow> store_bytes b (a + 8) (net_ethaddr (net s));
     b \<leftarrow> net_copy_ip b (a + 14) (net_ip (net s));
     s \<leftarrow> net_send_packet ops b (of_nat (eth_hdr_size + ARP_HDR_SIZE)) s;
     Some (b, s) }"

text \<open>A reply to our request: the waiting packet gets its address and is sent.\<close>

definition arp_resolved ::
  "'h drv_ops \<Rightarrow> bytes \<Rightarrow> nat \<Rightarrow> u32 \<Rightarrow> 'h sys \<Rightarrow> 'h sys option" where
  "arp_resolved ops b a len s = do {
     reply_ip_addr \<leftarrow> net_read_ip b (a + 14);
     (if reply_ip_addr = net_arp_wait_reply_ip (arp s) then do {
        sha \<leftarrow> load_bytes b (a + 8) 6;
        s \<leftarrow> (case arp_wait_packet_ethaddr (arp s) of
                None \<Rightarrow> Some s
              | Some p \<Rightarrow> do {
                  old \<leftarrow> ether_bufs (arp s) p;
                  mac \<leftarrow> store_bytes old 0 sha;
                  Some (upd_arp (\<lambda>v. v\<lparr>ether_bufs := (ether_bufs v)(p \<mapsto> mac)\<rparr>) s) });
        s \<leftarrow> run_rxhand ops (arp_packet_handler (net s)) (drop a b) 0 reply_ip_addr 0 len s;
        tx \<leftarrow> net_tx_packet (net s);
        pb \<leftarrow> store_bytes (net_pkt_buf (net s)) tx sha;
        s \<leftarrow> net_send_packet ops (drop tx pb) (arp_wait_tx_packet_size (arp s))
               (upd_net (\<lambda>v. v\<lparr>net_pkt_buf := pb\<rparr>) s);
        Some (upd_arp (\<lambda>v. v\<lparr>net_arp_wait_packet_ip := 0, arp_wait_tx_packet_size := 0,
                arp_wait_packet_ethaddr := None\<rparr>) s) }
      else Some s) }"

text \<open>
  \<open>b\<close> is the received buffer, its Ethernet header at 0 and the ARP header at \<open>a\<close>; \<open>len\<close> is the
  \<^verbatim>\<open>int\<close> length from the ARP header on.
\<close>

definition arp_receive ::
  "'h drv_ops \<Rightarrow> bytes \<Rightarrow> nat \<Rightarrow> u32 \<Rightarrow> 'h sys \<Rightarrow> (bytes \<times> 'h sys) option" where
  "arp_receive ops b a len s =
     (if sint len < int ARP_HDR_SIZE then Some (b, s)
      else do {
        hrd \<leftarrow> load16 b a;
        (if ntohs hrd \<noteq> 1 then Some (b, s) else do {
        pro \<leftarrow> load16 b (a + 2);
        (if ntohs pro \<noteq> PROT_IP then Some (b, s) else do {
        hln \<leftarrow> load8 b (a + 4);
        (if hln \<noteq> 6 then Some (b, s) else do {
        pln \<leftarrow> load8 b (a + 5);
        (if pln \<noteq> 4 then Some (b, s)
         else if net_ip (net s) = 0 then Some (b, s) else do {
        tpa \<leftarrow> net_read_ip b (a + 24);
        (if tpa \<noteq> net_ip (net s) then Some (b, s) else do {
        op \<leftarrow> load16 b (a + 6);
        (if ntohs op = ARPOP_REQUEST then arp_answer ops b a s
         else if ntohs op = ARPOP_REPLY then
           (if net_arp_wait_packet_ip (arp s) = 0 then Some (b, s)
            else do { s \<leftarrow> arp_resolved ops b a len s; Some (b, s) })
         else Some (b, s)) }) }) }) }) }) })"

section \<open>Alignment\<close>

lemma align_offset_less: "align_offset base \<le> 63"
  by (simp add: align_offset_def)

lemma align_offset_aligned: "(base + of_nat (align_offset base)) mod 64 = 0"
proof -
  let ?x = "base + 63"
  have m: "unat (?x mod 64) = unat ?x mod 64" by (simp add: unat_mod_distrib)
  then have "unat (?x mod 64) < 64" by simp
  then have "of_nat (align_offset base) = 63 - ?x mod 64"
    by (simp add: align_offset_def of_nat_diff)
  then have e: "base + of_nat (align_offset base) = ?x - ?x mod 64" by simp
  have "unat (?x mod 64) \<le> unat ?x" unfolding m by simp
  then have "unat (?x - ?x mod 64) = unat ?x - unat ?x mod 64"
    by (simp only: unat_sub word_le_nat_alt m)
  then have "unat ((?x - ?x mod 64) mod 64) = (unat ?x - unat ?x mod 64) mod 64"
    by (simp add: unat_mod_distrib)
  also have "\<dots> = 0" by (simp add: minus_mod_eq_mult_div)
  finally show ?thesis unfolding e by (simp add: unsigned_eq_0_iff)
qed

section \<open>ARP packets\<close>

record arp_fields =
  ar_hrd :: u16
  ar_pro :: u16
  ar_hln :: u8
  ar_pln :: u8
  ar_op :: u16
  ar_sha :: bytes
  ar_spa :: u32
  ar_tha :: bytes
  ar_tpa :: u32

definition read_arp :: "bytes \<Rightarrow> nat \<Rightarrow> arp_fields" where
  "read_arp b a = \<lparr>ar_hrd = ntohs (get16 b a), ar_pro = ntohs (get16 b (a + 2)), ar_hln = get8 b (a + 4),
     ar_pln = get8 b (a + 5), ar_op = ntohs (get16 b (a + 6)), ar_sha = get_bytes b (a + 8) 6,
     ar_spa = get32 b (a + 14), ar_tha = get_bytes b (a + 18) 6, ar_tpa = get32 b (a + 24)\<rparr>"

text \<open>An ARP packet the stack considers: Ethernet and IPv4, about our own address.\<close>

definition arp_for_us :: "net_vars \<Rightarrow> bytes \<Rightarrow> nat \<Rightarrow> bool" where
  "arp_for_us v b a \<longleftrightarrow> (let p = read_arp b a in
     ar_hrd p = 1 \<and> ar_pro p = PROT_IP \<and> ar_hln p = 6 \<and> ar_pln p = 4 \<and> net_ip v \<noteq> 0 \<and> ar_tpa p = net_ip v)"

text \<open>The dispatch of \<^verbatim>\<open>arp_receive\<close> over the fields.\<close>

lemma arp_receive_eq:
  assumes "a + 28 \<le> length b"
  shows "arp_receive ops b a len s =
    (if sint len < 28 \<or> \<not> arp_for_us (net s) b a then Some (b, s)
     else if ar_op (read_arp b a) = ARPOP_REQUEST then arp_answer ops b a s
     else if ar_op (read_arp b a) = ARPOP_REPLY \<and> net_arp_wait_packet_ip (arp s) \<noteq> 0
       then map_option (Pair b) (arp_resolved ops b a len s)
     else Some (b, s))"
  using assms
  by (auto simp: arp_receive_def net_read_ip_def mem_simps arp_for_us_def read_arp_def map_conv_bind_option comp_def)

text \<open>The answer to a request: the same buffer, with sender and target exchanged.\<close>

lemma arp_answer_eq:
  assumes "a + 28 \<le> length b" "a = link_hdr_size b" "length (net_ethaddr (net s)) = 6"
  shows "\<exists>b'. arp_answer ops b a s = map_option (Pair b') (net_send_packet ops b' (of_nat (a + 28)) s) \<and>
    same_outside_window b b' 0 (a + 28) \<and>
    get_bytes b' 0 6 = get_bytes b 6 6 \<and> get_bytes b' 6 6 = net_ethaddr (net s) \<and>
    ntohs (get16 b' (a - 2)) = PROT_ARP \<and>
    read_arp b' a = (read_arp b a)\<lparr>ar_op := ARPOP_REPLY, ar_sha := net_ethaddr (net s), ar_spa := net_ip (net s),
      ar_tha := ar_sha (read_arp b a), ar_tpa := ar_spa (read_arp b a)\<rparr>"
proof -
  have a14: "14 \<le> a" using assms(2) by (simp add: link_hdr_size_def Let_def)
  then have len: "14 \<le> length b" using assms(1) by simp
  obtain b1 where b1: "net_update_ether (net s) b 0 (get_bytes b 6 6) PROT_ARP = Some (b1, a)"
    "same_outside_window b b1 0 a" "get_bytes b1 0 6 = get_bytes b 6 6"
    "get_bytes b1 6 6 = net_ethaddr (net s)" "ntohs (get16 b1 (a - 2)) = PROT_ARP"
    using net_update_ether_eq [of b "get_bytes b 6 6" "net s" PROT_ARP] assms len by auto
  have l1: "length b1 = length b" using b1(2) by (rule same_outside_window_length)
  have o1: "same_outside_window b b1 0 (a + 28)" using b1(2) by (auto simp: same_outside_window_def)
  have g: "get16 b1 a = get16 b a" "get16 b1 (a + 2) = get16 b (a + 2)" "get8 b1 (a + 4) = get8 b (a + 4)"
    "get8 b1 (a + 5) = get8 b (a + 5)" "get_bytes b1 (a + 8) 6 = get_bytes b (a + 8) 6"
    "get32 b1 (a + 14) = get32 b (a + 14)"
    using same_outside_window_get [OF b1(2)] assms(1) by auto
  define b2 where "b2 = put_bytes (put16 b1 (a + 6) (htons ARPOP_REPLY)) (a + 18) (get_bytes b (a + 8) 6)"
  define b' where "b' = put32 (put_bytes (put32 b2 (a + 24) (get32 b (a + 14))) (a + 8) (net_ethaddr (net s)))
    (a + 14) (net_ip (net s))"
  have "arp_answer ops b a s = map_option (Pair b') (net_send_packet ops b' (of_nat (a + 28)) s)"
    using assms(1,3) len l1 b1(1) g
    by (simp add: arp_answer_def net_copy_ip_def mem_simps b2_def b'_def map_conv_bind_option comp_def)
  moreover have "same_outside_window b b' 0 (a + 28)"
    using o1 assms(1,3) unfolding b'_def b2_def by (intro same_outside_window_put) simp_all
  moreover have "get_bytes b' 0 6 = get_bytes b 6 6" "get_bytes b' 6 6 = net_ethaddr (net s)"
    using b1(3-4) assms(1,3) a14 l1 by (simp_all add: b'_def b2_def mem_simps)
  moreover have "ntohs (get16 b' (a - 2)) = PROT_ARP"
  proof -
    obtain k where "a = k + 14" using a14 le_Suc_ex by (metis add.commute)
    then show ?thesis using b1(5) assms(1,3) l1 by (simp add: b'_def b2_def mem_simps)
  qed
  moreover have "read_arp b' a = (read_arp b a)\<lparr>ar_op := ARPOP_REPLY, ar_sha := net_ethaddr (net s),
      ar_spa := net_ip (net s), ar_tha := ar_sha (read_arp b a), ar_tpa := ar_spa (read_arp b a)\<rparr>"
    using g assms(1,3) l1 by (simp add: read_arp_def b'_def b2_def mem_simps)
  ultimately show ?thesis by blast
qed

text \<open>A request: broadcast, from our address, for the target.\<close>

lemma arp_raw_request_eq:
  assumes tx: "arp_tx_packet (arp s) = Some tx" "tx + 46 \<le> length (arp_tx_packet_buf (arp s))"
    and mac: "length (net_ethaddr (net s)) = 6" "length target = 6"
    and stack: "\<not> stack_addr ops + 2147483647 < stack_addr ops"
  shows "\<exists>b'. arp_raw_request ops source target ip s =
      net_send_packet ops (drop tx b') (of_nat (net_eth_hdr_size (net s) + 28))
        (upd_arp (\<lambda>v. v\<lparr>arp_tx_packet_buf := b'\<rparr>) s) \<and>
    length b' = length (arp_tx_packet_buf (arp s)) \<and>
    get_bytes b' tx 6 = net_bcast_ethaddr \<and> get_bytes b' (tx + 6) 6 = net_ethaddr (net s) \<and>
    read_arp b' (tx + net_eth_hdr_size (net s)) = \<lparr>ar_hrd = 1, ar_pro = PROT_IP, ar_hln = 6, ar_pln = 4,
      ar_op = ARPOP_REQUEST, ar_sha = net_ethaddr (net s), ar_spa = source, ar_tha = target, ar_tpa = ip\<rparr>"
proof -
  let ?b = "arp_tx_packet_buf (arp s)" and ?h = "net_eth_hdr_size (net s)"
  have h: "?h = 14 \<or> ?h = 18" by (simp add: net_eth_hdr_size_eq)
  then have inb: "tx + ?h \<le> length ?b" "tx + ?h + 28 \<le> length ?b" using tx(2) by auto
  obtain b1 where b1: "net_set_ether (net s) ?b tx net_bcast_ethaddr PROT_ARP = Some (b1, ?h)"
    "same_outside_window ?b b1 tx (tx + ?h)" "get_bytes b1 tx 6 = net_bcast_ethaddr"
    "get_bytes b1 (tx + 6) 6 = net_ethaddr (net s)"
    using net_set_ether_eq [OF inb(1), of net_bcast_ethaddr PROT_ARP] mac(1)
    by (auto simp: net_bcast_ethaddr_def)
  have l1: "length b1 = length ?b" using b1(2) by (rule same_outside_window_length)
  define a where "a = tx + ?h"
  have a: "tx + 14 \<le> a" "a + 28 \<le> length b1" using h inb(2) l1 by (auto simp: a_def)
  define b2 where "b2 = put16 (put8 (put8 (put16 (put16 b1 a (htons 1)) (a + 2) (htons PROT_IP)) (a + 4) 6) (a + 5) 4)
    (a + 6) (htons ARPOP_REQUEST)"
  define b' where "b' = put32 (put_bytes (put32 (put_bytes b2 (a + 8) (net_ethaddr (net s))) (a + 14) source)
    (a + 18) target) (a + 24) ip"
  obtain t where "ip_to_string source (stack_addr ops) (replicate 20 0) = Some t"
    using ip_to_string_eq [OF _ stack, of "replicate 20 0"] by simp
  then have "arp_raw_request ops source target ip s =
      net_send_packet ops (drop tx b') (of_nat (?h + 28)) (upd_arp (\<lambda>v. v\<lparr>arp_tx_packet_buf := b'\<rparr>) s)"
    using tx(1) b1(1) a mac
    by (simp add: arp_raw_request_def net_write_ip_def mem_simps b2_def b'_def flip: a_def)
  moreover have "length b' = length ?b" by (simp add: b'_def b2_def l1)
  moreover have "get_bytes b' tx 6 = net_bcast_ethaddr" "get_bytes b' (tx + 6) 6 = net_ethaddr (net s)"
    using b1(3,4) a mac by (simp_all add: b'_def b2_def mem_simps)
  moreover have "read_arp b' a = \<lparr>ar_hrd = 1, ar_pro = PROT_IP, ar_hln = 6, ar_pln = 4,
      ar_op = ARPOP_REQUEST, ar_sha = net_ethaddr (net s), ar_spa = source, ar_tha = target, ar_tpa = ip\<rparr>"
    using a mac by (simp add: read_arp_def b'_def b2_def mem_simps)
  ultimately show ?thesis unfolding a_def by blast
qed

text \<open>Whom a request asks: the host on our subnet, else the gateway if there is one.\<close>

definition next_hop :: "net_vars \<Rightarrow> u32 \<Rightarrow> u32" where
  "next_hop v ip = (if ip AND net_netmask v = net_ip v AND net_netmask v \<or> net_gateway v = 0 then ip
     else net_gateway v)"

lemma arp_request_eq:
  "arp_request ops s = (let hop = next_hop (net s) (net_arp_wait_packet_ip (arp s)) in
     arp_raw_request ops (net_ip (net s)) net_null_ethaddr hop (upd_arp (\<lambda>v. v\<lparr>net_arp_wait_reply_ip := hop\<rparr>) s))"
  by (simp add: arp_request_def next_hop_def Let_def)

section \<open>Waiting for a reply\<close>

text \<open>Only the answer of the address that was asked ends the wait.\<close>

lemma arp_resolved_other:
  assumes "a + 28 \<le> length b" "ar_spa (read_arp b a) \<noteq> net_arp_wait_reply_ip (arp s)"
  shows "arp_resolved ops b a len s = Some s"
  using assms by (simp add: arp_resolved_def net_read_ip_def mem_simps read_arp_def)

text \<open>
  The answer that was asked for: the waiting packet goes out with the address of the answer as
  its destination and nothing else changed, the caller's buffer learns the address, and no
  request is pending any more.
\<close>

definition learn_ethaddr :: "bytes \<Rightarrow> arp_vars \<Rightarrow> arp_vars" where
  "learn_ethaddr mac v = (case arp_wait_packet_ethaddr v of None \<Rightarrow> v
     | Some p \<Rightarrow> v\<lparr>ether_bufs := (ether_bufs v)(p \<mapsto> mac)\<rparr>)"

definition no_request :: "arp_vars \<Rightarrow> arp_vars" where
  "no_request v = v\<lparr>net_arp_wait_packet_ip := 0, arp_wait_tx_packet_size := 0, arp_wait_packet_ethaddr := None\<rparr>"

lemma learn_step:
  assumes "length mac = 6" "\<And>p. arp_wait_packet_ethaddr (arp s) = Some p \<Longrightarrow>
      \<exists>old. ether_bufs (arp s) p = Some old \<and> length old = 6"
  shows "(case arp_wait_packet_ethaddr (arp s) of None \<Rightarrow> Some s
      | Some p \<Rightarrow> do { old \<leftarrow> ether_bufs (arp s) p; m \<leftarrow> store_bytes old 0 mac;
          Some (upd_arp (\<lambda>v. v\<lparr>ether_bufs := (ether_bufs v)(p \<mapsto> m)\<rparr>) s) })
    = Some (upd_arp (learn_ethaddr mac) s)"
proof (cases "arp_wait_packet_ethaddr (arp s)")
  case (Some p)
  with assms(2) obtain old where old: "ether_bufs (arp s) p = Some old" "length old = 6" by blast
  have "put_bytes old 0 mac = mac" using old(2) assms(1) by (simp add: put_bytes_eq)
  with Some old assms(1) show ?thesis by (simp add: mem_simps learn_ethaddr_def upd_arp_def)
qed (simp add: learn_ethaddr_def upd_arp_def)

lemma arp_resolved_eq:
  assumes a: "a + 28 \<le> length b" and hop: "ar_spa (read_arp b a) = net_arp_wait_reply_ip (arp s)"
    and tx: "net_tx_packet (net s) = Some tx" "tx + 6 \<le> length (net_pkt_buf (net s))"
    and caller: "\<And>p. arp_wait_packet_ethaddr (arp s) = Some p \<Longrightarrow>
      \<exists>old. ether_bufs (arp s) p = Some old \<and> length old = 6"
    and quiet: "arp_packet_handler (net s) = Some dummy_handler"
  shows "arp_resolved ops b a len s =
    (let mac = ar_sha (read_arp b a); pb = put_bytes (net_pkt_buf (net s)) tx mac in
     map_option (upd_arp no_request)
       (net_send_packet ops (drop tx pb) (arp_wait_tx_packet_size (arp s))
         (upd_net (\<lambda>v. v\<lparr>net_pkt_buf := pb\<rparr>) (upd_arp (learn_ethaddr mac) s))))"
proof -
  let ?mac = "get_bytes b (a + 8) 6"
  have mac: "length ?mac = 6" using a by simp
  note learn = learn_step [OF mac caller]
  show ?thesis
    using a hop tx quiet mac
    by (simp add: arp_resolved_def net_read_ip_def mem_simps read_arp_def learn run_rxhand_def sys_simps
      Let_def learn_ethaddr_def no_request_def [abs_def] map_conv_bind_option comp_def split: option.split)
qed

section \<open>The handler\<close>

lemma arp_bench: "link_hdr_size (bench_arp_frame op) = 14" "length (bench_arp_frame op) = 64"
  by (simp_all add: bench_arp_frame_def link_hdr_size_def get16_def ntohs_def swab16_def)

lemma arp_bench_for_us: "arp_for_us bench_net (bench_arp_frame 1) 14" "arp_for_us bench_net (bench_arp_frame 2) 14"
  by code_simp+

lemma arp_bench_fields: "ar_op (read_arp (bench_arp_frame 1) 14) = 1" "ar_op (read_arp (bench_arp_frame 2) 14) = 2"
  "ar_spa (read_arp (bench_arp_frame 2) 14) = 0x0364A8C0"
  by code_simp+

text \<open>
  C24: A request for our address is answered in the buffer it came in: the Ethernet addresses and the
  sender and target of the ARP packet are exchanged, the operation is a reply, the protocol of the
  link header is ARP whatever framing it has, and nothing past the ARP packet changes.
\<close>

theorem arp_request_answered:
  assumes "a + 28 \<le> length b" "a = link_hdr_size b" "length (net_ethaddr (net s)) = 6" "28 \<le> sint len"
    and req: "arp_for_us (net s) b a" "ar_op (read_arp b a) = ARPOP_REQUEST"
  shows "\<exists>b'. arp_receive ops b a len s = map_option (Pair b') (net_send_packet ops b' (of_nat (a + 28)) s) \<and>
    same_outside_window b b' 0 (a + 28) \<and>
    get_bytes b' 0 6 = get_bytes b 6 6 \<and> get_bytes b' 6 6 = net_ethaddr (net s) \<and>
    ntohs (get16 b' (a - 2)) = PROT_ARP \<and>
    read_arp b' a = (read_arp b a)\<lparr>ar_op := ARPOP_REPLY, ar_sha := net_ethaddr (net s), ar_spa := net_ip (net s),
      ar_tha := ar_sha (read_arp b a), ar_tpa := ar_spa (read_arp b a)\<rparr>"
proof -
  have "arp_receive ops b a len s = arp_answer ops b a s"
    using assms(4) req by (simp add: arp_receive_eq [OF assms(1)])
  with arp_answer_eq [OF assms(1-3), of ops] show ?thesis by simp
qed

theorem arp_request_answered_witness:
  "\<exists>b'. arp_receive bench_ops (bench_arp_frame 1) 14 50 bench_sys =
      map_option (Pair b') (net_send_packet bench_ops b' (of_nat (14 + 28)) bench_sys) \<and>
    same_outside_window (bench_arp_frame 1) b' 0 (14 + 28) \<and>
    get_bytes b' 0 6 = get_bytes (bench_arp_frame 1) 6 6 \<and> get_bytes b' 6 6 = net_ethaddr (net bench_sys) \<and>
    ntohs (get16 b' (14 - 2)) = PROT_ARP \<and>
    read_arp b' 14 = (read_arp (bench_arp_frame 1) 14)\<lparr>ar_op := ARPOP_REPLY, ar_sha := net_ethaddr (net bench_sys),
      ar_spa := net_ip (net bench_sys), ar_tha := ar_sha (read_arp (bench_arp_frame 1) 14),
      ar_tpa := ar_spa (read_arp (bench_arp_frame 1) 14)\<rparr>"
  by (rule arp_request_answered) (simp_all add: arp_bench arp_bench_for_us arp_bench_fields bench_simps)

lemma net_send_packet_hw: "net_send_packet ops b l s = Some s' \<Longrightarrow> s' = s\<lparr>hw := hw s'\<rparr>"
  by (auto simp: net_send_packet_def eth_send_def bind_eq_Some_conv split: if_splits)

text \<open>
  C23: Whatever arrives, the state of address resolution changes only for a complete reply about our
  address, from the address that was asked, while a request is pending.
\<close>

theorem arp_only_awaited:
  assumes "a + 28 \<le> length b" "arp_receive ops b a len s = Some (b', s')" "arp s' \<noteq> arp s"
  shows "28 \<le> sint len \<and> arp_for_us (net s) b a \<and> ar_op (read_arp b a) = ARPOP_REPLY \<and>
    net_arp_wait_packet_ip (arp s) \<noteq> 0 \<and> ar_spa (read_arp b a) = net_arp_wait_reply_ip (arp s)"
proof -
  have answer: "arp s2 = arp s" if "arp_answer ops b a s = Some (b2, s2)" for b2 s2
    using that by (auto simp: arp_answer_def bind_eq_Some_conv dest!: net_send_packet_hw)
      (metis sys.select_convs(5) sys.surjective sys.update_convs(1))
  show ?thesis
    using assms arp_resolved_other [OF assms(1), of s ops len]
    by (cases "ar_spa (read_arp b a) = net_arp_wait_reply_ip (arp s)")
      (auto simp: arp_receive_eq [OF assms(1)] answer split: if_splits)
qed

text \<open>The test bench while it waits for the address of 192.168.100.3.\<close>

definition bench_waiting :: "bench sys" where
  "bench_waiting = upd_arp (\<lambda>v. v\<lparr>net_arp_wait_packet_ip := 0x0364A8C0, net_arp_wait_reply_ip := 0x0364A8C0,
     arp_wait_packet_ethaddr := Some 0, arp_wait_tx_packet_size := 42\<rparr>) bench_sys"

lemma bench_send_eq: "eth s = bench_eth \<Longrightarrow> unat l \<le> length b \<Longrightarrow>
    net_send_packet bench_ops b l s = Some (s\<lparr>hw := (hw s)\<lparr>tx_log := tx_log (hw s) @ [take (unat l) b]\<rparr>\<rparr>)"
  by (simp add: net_send_packet_def eth_send_def deref_def bench_simps bench_send_def)

lemma bench_waiting_sel [bench_simps]: "net bench_waiting = bench_net" "eth bench_waiting = bench_eth"
  "net_arp_wait_packet_ip (arp bench_waiting) = 0x0364A8C0" "net_arp_wait_reply_ip (arp bench_waiting) = 0x0364A8C0"
  "arp_wait_packet_ethaddr (arp bench_waiting) = Some 0" "ether_bufs (arp bench_waiting) 0 = Some (replicate 6 0)"
  "arp_wait_tx_packet_size (arp bench_waiting) = 42"
  by (simp_all add: bench_waiting_def sys_simps bench_simps)

theorem arp_only_awaited_witness:
  "\<exists>b' s'. arp_receive bench_ops (bench_arp_frame 2) 14 50 bench_waiting = Some (b', s') \<and>
    28 \<le> sint (50 :: u32) \<and> arp_for_us (net bench_waiting) (bench_arp_frame 2) 14 \<and>
    ar_op (read_arp (bench_arp_frame 2) 14) = ARPOP_REPLY \<and> net_arp_wait_packet_ip (arp bench_waiting) \<noteq> 0 \<and>
    ar_spa (read_arp (bench_arp_frame 2) 14) = net_arp_wait_reply_ip (arp bench_waiting)"
proof -
  let ?mac = "ar_sha (read_arp (bench_arp_frame 2) 14)"
  have "\<exists>s'. arp_receive bench_ops (bench_arp_frame 2) 14 50 bench_waiting = Some (bench_arp_frame 2, s') \<and>
      net_arp_wait_packet_ip (arp s') = 0"
    using arp_resolved_eq [of 14 "bench_arp_frame 2" bench_waiting 0 bench_ops 50]
    by (simp add: arp_receive_eq arp_bench arp_bench_for_us arp_bench_fields bench_simps Let_def bench_send_eq
        sys_simps no_request_def)
  then obtain s' where s': "arp_receive bench_ops (bench_arp_frame 2) 14 50 bench_waiting = Some (bench_arp_frame 2, s')"
    "arp s' \<noteq> arp bench_waiting" using bench_waiting_sel(3) by fastforce
  with arp_only_awaited [OF _ s'] show ?thesis by (simp add: arp_bench)
qed

text \<open>
  C22: The reply that is awaited: the waiting packet goes out with the sender of the reply as its
  destination and no other byte changed, the caller's buffer learns the address, and the wait is over.
\<close>

theorem arp_reply_completes:
  assumes a: "a + 28 \<le> length b" and len: "28 \<le> sint len"
    and reply: "arp_for_us (net s) b a" "ar_op (read_arp b a) = ARPOP_REPLY"
    and wait: "net_arp_wait_packet_ip (arp s) \<noteq> 0" "ar_spa (read_arp b a) = net_arp_wait_reply_ip (arp s)"
    and tx: "net_tx_packet (net s) = Some tx" "tx + 6 \<le> length (net_pkt_buf (net s))"
    and caller: "\<forall>p. arp_wait_packet_ethaddr (arp s) = Some p \<longrightarrow>
      (\<exists>old. ether_bufs (arp s) p = Some old \<and> length old = 6)"
    and quiet: "arp_packet_handler (net s) = Some dummy_handler"
  shows "arp_receive ops b a len s =
    (let mac = ar_sha (read_arp b a); pb = put_bytes (net_pkt_buf (net s)) tx mac in
     map_option (\<lambda>s. (b, upd_arp no_request s))
       (net_send_packet ops (drop tx pb) (arp_wait_tx_packet_size (arp s))
         (upd_net (\<lambda>v. v\<lparr>net_pkt_buf := pb\<rparr>) (upd_arp (learn_ethaddr mac) s))))"
  using arp_resolved_eq [OF a wait(2) tx _ quiet, of ops len] caller len reply wait
  by (simp add: arp_receive_eq [OF a] Let_def option.map_comp comp_def)

text \<open>
  A request is broadcast from our addresses; it asks for the host itself when it is on our subnet or
  there is no gateway, and for the gateway otherwise, and only that address will be accepted in a reply.
\<close>

lemma arp_request_broadcast:
  assumes tx: "arp_tx_packet (arp s) = Some tx" "tx + 46 \<le> length (arp_tx_packet_buf (arp s))"
    and mac: "length (net_ethaddr (net s)) = 6" and stack: "\<not> stack_addr ops + 2147483647 < stack_addr ops"
  shows "\<exists>b'. let hop = next_hop (net s) (net_arp_wait_packet_ip (arp s)) in
    arp_request ops s = net_send_packet ops (drop tx b') (of_nat (net_eth_hdr_size (net s) + 28))
      (upd_arp (\<lambda>v. v\<lparr>net_arp_wait_reply_ip := hop, arp_tx_packet_buf := b'\<rparr>) s) \<and>
    length b' = length (arp_tx_packet_buf (arp s)) \<and>
    get_bytes b' tx 6 = net_bcast_ethaddr \<and> get_bytes b' (tx + 6) 6 = net_ethaddr (net s) \<and>
    read_arp b' (tx + net_eth_hdr_size (net s)) = \<lparr>ar_hrd = 1, ar_pro = PROT_IP, ar_hln = 6, ar_pln = 4,
      ar_op = ARPOP_REQUEST, ar_sha = net_ethaddr (net s), ar_spa = net_ip (net s), ar_tha = net_null_ethaddr,
      ar_tpa = hop\<rparr>"
proof -
  let ?hop = "next_hop (net s) (net_arp_wait_packet_ip (arp s))"
  let ?s = "upd_arp (\<lambda>v. v\<lparr>net_arp_wait_reply_ip := ?hop\<rparr>) s"
  have "length net_null_ethaddr = 6" by (simp add: net_null_ethaddr_def)
  from arp_raw_request_eq [of ?s tx net_null_ethaddr ops "net_ip (net s)" ?hop] tx mac this stack
  show ?thesis by (simp add: sys_simps arp_request_eq Let_def) (simp add: upd_arp_def)
qed

theorem arp_reply_completes_witness:
  "arp_receive bench_ops (bench_arp_frame 2) 14 50 bench_waiting =
    (let mac = ar_sha (read_arp (bench_arp_frame 2) 14); pb = put_bytes (net_pkt_buf (net bench_waiting)) 0 mac in
     map_option (\<lambda>s. (bench_arp_frame 2, upd_arp no_request s))
       (net_send_packet bench_ops (drop 0 pb) (arp_wait_tx_packet_size (arp bench_waiting))
         (upd_net (\<lambda>v. v\<lparr>net_pkt_buf := pb\<rparr>) (upd_arp (learn_ethaddr mac) bench_waiting))))"
  by (rule arp_reply_completes) (simp_all add: arp_bench arp_bench_for_us arp_bench_fields bench_simps)

lemma arp_request_broadcast_witness:
  "\<exists>b'. let hop = next_hop (net bench_waiting) (net_arp_wait_packet_ip (arp bench_waiting)) in
    arp_request bench_ops bench_waiting = net_send_packet bench_ops (drop 0 b') (of_nat (net_eth_hdr_size (net bench_waiting) + 28))
      (upd_arp (\<lambda>v. v\<lparr>net_arp_wait_reply_ip := hop, arp_tx_packet_buf := b'\<rparr>) bench_waiting) \<and>
    length b' = length (arp_tx_packet_buf (arp bench_waiting)) \<and>
    get_bytes b' 0 6 = net_bcast_ethaddr \<and> get_bytes b' (0 + 6) 6 = net_ethaddr (net bench_waiting) \<and>
    read_arp b' (0 + net_eth_hdr_size (net bench_waiting)) = \<lparr>ar_hrd = 1, ar_pro = PROT_IP, ar_hln = 6, ar_pln = 4,
      ar_op = ARPOP_REQUEST, ar_sha = net_ethaddr (net bench_waiting), ar_spa = net_ip (net bench_waiting),
      ar_tha = net_null_ethaddr, ar_tpa = hop\<rparr>"
  by (rule arp_request_broadcast) (simp_all add: bench_simps bench_waiting_def sys_simps)

section \<open>Retransmission\<close>

text \<open>
  A pending request is repeated after five seconds of silence, and given up at the fifth
  attempt; before that nothing happens.
\<close>



end
