(* ===== verification/Ping.thy ===== *)
theory Ping
  imports Arp
begin

text \<open>
  ICMP echo, \<^verbatim>\<open>net/ping.c\<close>: the request, which waits for the address of its first hop, and the
  handling of received echo requests and replies.
\<close>

abbreviation (input) ICMP_ECHO_REPLY :: u8 where "ICMP_ECHO_REPLY \<equiv> 0"
abbreviation (input) ICMP_REDIRECT :: u8 where "ICMP_REDIRECT \<equiv> 5"
abbreviation (input) ICMP_ECHO_REQUEST :: u8 where "ICMP_ECHO_REQUEST \<equiv> 8"

definition net_set_timeout_handler :: "'h drv_ops \<Rightarrow> u64 \<Rightarrow> thand option \<Rightarrow> 'h sys \<Rightarrow> 'h sys" where
  "net_set_timeout_handler ops iv f s =
     (if iv = 0 then upd_net (\<lambda>v. v\<lparr>time_handler := None\<rparr>) s
      else (case now ops (upd_net (\<lambda>v. v\<lparr>time_handler := f\<rparr>) s) of (t, s) \<Rightarrow>
        upd_net (\<lambda>v. v\<lparr>time_start := t, time_delta := iv * 1\<rparr>) s))"

definition set_icmp_header ::
  "net_vars \<Rightarrow> ping_vars \<Rightarrow> bytes \<Rightarrow> nat \<Rightarrow> u32 \<Rightarrow> (bytes \<times> net_vars \<times> ping_vars) option" where
  "set_icmp_header v p b ip dest = do {
     (b, v) \<leftarrow> net_set_ip_header v b ip dest (net_ip v);
     b \<leftarrow> store16 b (ip + 2) (htons 28);
     b \<leftarrow> store8 b (ip + 9) IPPROTO_ICMP;
     c \<leftarrow> compute_ip_checksum (drop ip b) 20;
     b \<leftarrow> store16 b (ip + 10) (ucast c);
     let icmp = ip + IP_HDR_SIZE;
     b \<leftarrow> store8 b icmp ICMP_ECHO_REQUEST;
     b \<leftarrow> store8 b (icmp + 1) 0;
     b \<leftarrow> store16 b (icmp + 2) 0;
     b \<leftarrow> store16 b (icmp + 4) 0;
     b \<leftarrow> store16 b (icmp + 6) (htons (ping_seq_number p));
     c \<leftarrow> compute_ip_checksum (drop icmp b) 8;
     b \<leftarrow> store16 b (icmp + 2) (ucast c);
     Some (b, v, p\<lparr>ping_seq_number := ping_seq_number p + 1\<rparr>) }"

definition ping_send :: "'h drv_ops \<Rightarrow> 'h sys \<Rightarrow> (int \<times> 'h sys) option" where
  "ping_send ops s = do {
     let s = upd_arp (\<lambda>v. v\<lparr>net_arp_wait_packet_ip := net_ping_ip (ping s)\<rparr>) s;
     tx \<leftarrow> net_tx_packet (net s);
     (b, eth_hdr_size) \<leftarrow> net_set_ether (net s) (net_pkt_buf (net s)) tx net_null_ethaddr PROT_IP;
     (b, v, p) \<leftarrow> set_icmp_header (net s) (ping s) b (tx + eth_hdr_size) (net_ping_ip (ping s));
     let s = s\<lparr>net := v\<lparr>net_pkt_buf := b\<rparr>, ping := p\<rparr>;
     let s = upd_arp (\<lambda>v. v\<lparr>arp_wait_tx_packet_size := of_nat (eth_hdr_size + IP_ICMP_HDR_SIZE),
       arp_wait_try := 1\<rparr>) s;
     (case now ops s of (t, s) \<Rightarrow> do {
        s \<leftarrow> arp_request ops (upd_arp (\<lambda>v. v\<lparr>arp_wait_timer_start := t\<rparr>) s);
        Some (1, s) }) }"

definition ping_timeout :: "'h drv_ops \<Rightarrow> 'h sys \<Rightarrow> 'h sys option" where
  "ping_timeout ops s = map_option (net_set_state NETLOOP_FAIL) (eth_halt ops s)"

definition ping_start :: "'h drv_ops \<Rightarrow> 'h sys \<Rightarrow> 'h sys option" where
  "ping_start ops s = do {
     _ \<leftarrow> eth_get_name s;
     (_, s) \<leftarrow> ping_send ops (net_set_timeout_handler ops 10000 (Some ping_timeout_handler) s);
     Some s }"

text \<open>
  \<open>b\<close> is the received buffer with the Ethernet header at 0 and the IP header at \<open>ip\<close>; \<open>len\<close> is
  the total length of the IP header, an \<^verbatim>\<open>int\<close>.
\<close>

definition echo_reply :: "'h drv_ops \<Rightarrow> bytes \<Rightarrow> nat \<Rightarrow> u32 \<Rightarrow> 'h sys \<Rightarrow> (bytes \<times> 'h sys) option" where
  "echo_reply ops b ip len s = do {
     src \<leftarrow> load_bytes b 6 6;
     (b, eth_hdr_size) \<leftarrow> net_update_ether (net s) b 0 src PROT_IP;
     b \<leftarrow> store16 b (ip + 10) 0;
     b \<leftarrow> store16 b (ip + 6) 0;
     a \<leftarrow> load32 b (ip + 12);
     b \<leftarrow> net_copy_ip b (ip + 16) a;
     b \<leftarrow> net_copy_ip b (ip + 12) (net_ip (net s));
     c \<leftarrow> compute_ip_checksum (drop ip b) 20;
     b \<leftarrow> store16 b (ip + 10) (ucast c);
     let icmp = ip + IP_HDR_SIZE;
     b \<leftarrow> store8 b icmp ICMP_ECHO_REPLY;
     b \<leftarrow> store16 b (icmp + 2) 0;
     c \<leftarrow> compute_ip_checksum (drop icmp b) (len - 20);
     b \<leftarrow> store16 b (icmp + 2) (ucast c);
     s \<leftarrow> net_send_packet ops b (of_nat eth_hdr_size + len) s;
     Some (b, s) }"

definition ping_receive :: "'h drv_ops \<Rightarrow> bytes \<Rightarrow> nat \<Rightarrow> u32 \<Rightarrow> 'h sys \<Rightarrow> (bytes \<times> 'h sys) option" where
  "ping_receive ops b ip len s = do {
     type \<leftarrow> load8 b (ip + IP_HDR_SIZE);
     (if type = ICMP_ECHO_REPLY then do {
        src_ip \<leftarrow> net_read_ip b (ip + 12);
        Some (b, if src_ip = net_ping_ip (ping s) then net_set_state NETLOOP_SUCCESS s else s) }
      else if type = ICMP_ECHO_REQUEST then echo_reply ops b ip len s
      else Some (b, s)) }"

section \<open>The echo request\<close>

record icmp_fields =
  icmp_type :: u8
  icmp_code :: u8
  echo_id :: u16
  echo_sequence :: u16

definition read_icmp :: "bytes \<Rightarrow> nat \<Rightarrow> icmp_fields" where
  "read_icmp b i = \<lparr>icmp_type = get8 b i, icmp_code = get8 b (i + 1), echo_id = ntohs (get16 b (i + 4)),
     echo_sequence = ntohs (get16 b (i + 6))\<rparr>"

lemma htons_0 [simp]: "htons 0 = 0" and ntohs_0 [simp]: "ntohs 0 = 0"
  by (simp_all add: htons_def ntohs_def swab16_def)

lemma icmp_checksum_filled:
  assumes "ip + 20 + unat n \<le> length b" "unat n \<le> 65535" "4 \<le> unat n" "get16 b (ip + 22) = 0"
  obtains d where "compute_ip_checksum (drop (ip + 20) b) n = Some d"
    "compute_ip_checksum (drop (ip + 20) (put16 b (ip + 22) (ucast d))) n = Some 0"
proof -
  have e: "ip + 22 = ip + 20 + 2" by simp
  have "\<exists>d. compute_ip_checksum (drop (ip + 20) b) n = Some d \<and>
    compute_ip_checksum (drop (ip + 20) (put16 b (ip + 20 + 2) (ucast d))) n = Some 0"
    using assms(1-3) assms(4) [unfolded e] by (intro checksum_field) simp_all
  with that show thesis unfolding e by blast
qed

lemma set_icmp_header_eq:
  assumes inb: "ip + 28 \<le> length b"
  shows "\<exists>b'. set_icmp_header v p b ip dest =
      Some (b', v\<lparr>net_ip_id := net_ip_id v + 1\<rparr>, p\<lparr>ping_seq_number := ping_seq_number p + 1\<rparr>) \<and>
    same_outside_window b b' ip (ip + 28) \<and>
    compute_ip_checksum (drop ip b') 20 = Some 0 \<and> compute_ip_checksum (drop (ip + 20) b') 8 = Some 0 \<and>
    read_ip b' ip = \<lparr>hl_v = 0x45, tos = 0, ip_len = 28, ip_id = ucast (net_ip_id v), ip_off = 0x4000,
      ip_ttl = 255, ip_p = IPPROTO_ICMP, ip_src = net_ip v, ip_dst = dest\<rparr> \<and>
    read_icmp b' (ip + 20) = \<lparr>icmp_type = ICMP_ECHO_REQUEST, icmp_code = 0, echo_id = 0,
      echo_sequence = ping_seq_number p\<rparr>"
proof -
  obtain b1 where b1: "net_set_ip_header v b ip dest (net_ip v) = Some (b1, v\<lparr>net_ip_id := net_ip_id v + 1\<rparr>)"
    and o1: "same_outside_window b b1 ip (ip + 20)" and z1: "get16 b1 (ip + 10) = 0"
    and r1: "read_ip b1 ip = \<lparr>hl_v = 0x45, tos = 0, ip_len = 20, ip_id = ucast (net_ip_id v), ip_off = 0x4000,
      ip_ttl = 255, ip_p = get8 b (ip + 9), ip_src = net_ip v, ip_dst = dest\<rparr>"
    using net_set_ip_header_eq [of ip b v dest "net_ip v"] inb by auto
  have l1: "length b1 = length b" using o1 by (rule same_outside_window_length)
  define b2 where "b2 = put8 (put16 b1 (ip + 2) (htons 28)) (ip + 9) IPPROTO_ICMP"
  have l2: "length b2 = length b" by (simp add: b2_def l1)
  have z2: "get16 b2 (ip + 10) = 0" using z1 inb l1 by (simp add: b2_def mem_simps)
  obtain c where c: "compute_ip_checksum (drop ip b2) 20 = Some c"
    "compute_ip_checksum (drop ip (put16 b2 (ip + 10) (ucast c))) 20 = Some 0"
    using ip_checksum_filled [OF _ z2] inb l2 by auto
  define b3 where "b3 = put16 b2 (ip + 10) (ucast c)"
  define b4 where "b4 = put16 (put16 (put16 (put8 (put8 b3 (ip + 20) ICMP_ECHO_REQUEST) (ip + 21) 0) (ip + 22) 0)
    (ip + 24) 0) (ip + 26) (htons (ping_seq_number p))"
  have l4: "length b4 = length b" by (simp add: b4_def b3_def l2)
  have z4: "get16 b4 (ip + 22) = 0" using inb l2 by (simp add: b4_def b3_def mem_simps)
  obtain d where d: "compute_ip_checksum (drop (ip + 20) b4) 8 = Some d"
    "compute_ip_checksum (drop (ip + 20) (put16 b4 (ip + 22) (ucast d))) 8 = Some 0"
    using icmp_checksum_filled [OF _ _ _ z4, of 8] inb l4 by auto
  define b' where "b' = put16 b4 (ip + 22) (ucast d)"
  have run: "set_icmp_header v p b ip dest =
      Some (b', v\<lparr>net_ip_id := net_ip_id v + 1\<rparr>, p\<lparr>ping_seq_number := ping_seq_number p + 1\<rparr>)"
    using inb l1 l2 b1 c(1) [unfolded b2_def] d(1) [unfolded b4_def b3_def b2_def]
    by (simp add: set_icmp_header_def mem_simps b'_def b4_def b3_def b2_def Let_def add.commute [of _ ip])
  have out: "same_outside_window b b' ip (ip + 28)"
  proof -
    have "same_outside_window b b1 ip (ip + 28)" using o1 by (auto simp: same_outside_window_def)
    then show ?thesis unfolding b'_def b4_def b3_def b2_def by (intro same_outside_window_put) simp_all
  qed
  have "compute_ip_checksum (drop ip b') 20 = compute_ip_checksum (drop ip b3) 20"
    using inb l2 by (intro checksum_cong) (simp_all add: b'_def b4_def b3_def drop_puts take_puts_outside)
  then have sum: "compute_ip_checksum (drop ip b') 20 = Some 0" using c(2) by (simp add: b3_def)
  have isum: "compute_ip_checksum (drop (ip + 20) b') 8 = Some 0" using d(2) by (simp add: b'_def)
  have rip: "read_ip b' ip = \<lparr>hl_v = 0x45, tos = 0, ip_len = 28, ip_id = ucast (net_ip_id v), ip_off = 0x4000,
      ip_ttl = 255, ip_p = IPPROTO_ICMP, ip_src = net_ip v, ip_dst = dest\<rparr>"
    using r1 inb l1 by (simp add: b'_def b4_def b3_def b2_def read_ip_def mem_simps)
  have ric: "read_icmp b' (ip + 20) = \<lparr>icmp_type = ICMP_ECHO_REQUEST, icmp_code = 0, echo_id = 0,
      echo_sequence = ping_seq_number p\<rparr>"
    using inb l2 by (simp add: b'_def b4_def b3_def read_icmp_def mem_simps add.commute [of _ ip])
  show ?thesis using run out sum isum rip ric by blast
qed

section \<open>The echo reply\<close>

text \<open>
  A request of \<open>len\<close> bytes is answered in its own buffer: addresses exchanged, both checksums
  valid, the payload kept, and as many bytes sent as the request had.
\<close>

lemma echo_reply_eq:
  assumes ip: "ip = link_hdr_size b" "ip + 28 \<le> length b" "ip + unat len \<le> length b"
    and len: "20 \<le> unat len" "unat len \<le> 65535" and mac: "length (net_ethaddr (net s)) = 6"
  shows "\<exists>b'. echo_reply ops b ip len s = map_option (Pair b') (net_send_packet ops b' (of_nat ip + len) s) \<and>
    length b' = length b \<and> (\<forall>k \<ge> ip + 24. b' ! k = b ! k) \<and>
    (\<forall>k. 12 \<le> k \<and> k < ip - 2 \<longrightarrow> b' ! k = b ! k) \<and> ntohs (get16 b' (ip - 2)) = PROT_IP \<and>
    get_bytes b' 0 6 = get_bytes b 6 6 \<and> get_bytes b' 6 6 = net_ethaddr (net s) \<and>
    compute_ip_checksum (drop ip b') 20 = Some 0 \<and>
    (24 \<le> unat len \<longrightarrow> compute_ip_checksum (drop (ip + 20) b') (len - 20) = Some 0) \<and>
    read_ip b' ip = (read_ip b ip)\<lparr>ip_off := 0, ip_src := net_ip (net s), ip_dst := ip_src (read_ip b ip)\<rparr> \<and>
    get8 b' (ip + 20) = ICMP_ECHO_REPLY \<and> get8 b' (ip + 21) = get8 b (ip + 21)"
proof -
  have ip14: "14 \<le> ip" using ip(1) by (simp add: link_hdr_size_def Let_def)
  obtain b1 where b1: "net_update_ether (net s) b 0 (get_bytes b 6 6) PROT_IP = Some (b1, ip)"
    "same_outside_window b b1 0 ip" "get_bytes b1 0 6 = get_bytes b 6 6"
    "get_bytes b1 6 6 = net_ethaddr (net s)" "\<forall>k. 12 \<le> k \<and> k < ip - 2 \<longrightarrow> b1 ! k = b ! k"
    "ntohs (get16 b1 (ip - 2)) = PROT_IP"
    using net_update_ether_eq [of b "get_bytes b 6 6" "net s" PROT_IP] ip mac ip14 by auto
  have l1: "length b1 = length b" using b1(2) by (rule same_outside_window_length)
  note g1 = same_outside_window_get [OF b1(2)]
  define src where "src = get32 b (ip + 12)"
  have src1: "get32 b1 (ip + 12) = src" using g1(3) [of "ip + 12"] ip(2) by (simp add: src_def)
  define b2 where "b2 = put32 (put32 (put16 (put16 b1 (ip + 10) 0) (ip + 6) 0) (ip + 16) src) (ip + 12) (net_ip (net s))"
  have l2: "length b2 = length b" by (simp add: b2_def l1)
  have z2: "get16 b2 (ip + 10) = 0" using ip(2) l1 by (simp add: b2_def mem_simps)
  obtain c where c: "compute_ip_checksum (drop ip b2) 20 = Some c"
    "compute_ip_checksum (drop ip (put16 b2 (ip + 10) (ucast c))) 20 = Some 0"
    using ip_checksum_filled [OF _ z2] ip(2) l2 by auto
  define b3 where "b3 = put16 b2 (ip + 10) (ucast c)"
  define b4 where "b4 = put16 (put8 b3 (ip + 20) ICMP_ECHO_REPLY) (ip + 22) 0"
  have l4: "length b4 = length b" by (simp add: b4_def b3_def l2)
  have z4: "get16 b4 (ip + 22) = 0" using ip(2) l2 by (simp add: b4_def b3_def mem_simps)
  have n: "unat (len - 20) = unat len - 20" using len(1) by (simp add: unat_sub word_le_nat_alt)
  obtain d where d: "compute_ip_checksum (drop (ip + 20) b4) (len - 20) = Some d"
    "24 \<le> unat len \<longrightarrow>
      compute_ip_checksum (drop (ip + 20) (put16 b4 (ip + 22) (ucast d))) (len - 20) = Some 0"
  proof (cases "24 \<le> unat len")
    case True
    then have "ip + 20 + unat (len - 20) \<le> length b4" "unat (len - 20) \<le> 65535" "4 \<le> unat (len - 20)"
      using ip(2,3) len l4 n by simp_all
    with that z4 show thesis by (rule_tac icmp_checksum_filled) auto
  next
    case False
    have "unat (len - 20) \<le> length (drop (ip + 20) b4)" "unat (len - 20) \<le> 65535"
      using ip(2,3) len l4 n by simp_all
    with that False show thesis using compute_ip_checksum_eq by blast
  qed
  define b' where "b' = put16 b4 (ip + 22) (ucast d)"
  have run: "echo_reply ops b ip len s = map_option (Pair b') (net_send_packet ops b' (of_nat ip + len) s)"
    using ip(2) ip14 l1 b1(1) src1 c(1) [unfolded b2_def] d(1) [unfolded b4_def b3_def b2_def]
    by (simp add: echo_reply_def net_copy_ip_def mem_simps b'_def b4_def b3_def b2_def map_conv_bind_option comp_def
      Let_def add.commute [of _ ip])
  have out1: "same_outside_window b b' 0 (ip + 24)"
  proof -
    have "same_outside_window b b1 0 (ip + 24)" using b1(2) by (auto simp: same_outside_window_def)
    then show ?thesis unfolding b'_def b4_def b3_def b2_def by (intro same_outside_window_put) simp_all
  qed
  have "compute_ip_checksum (drop ip b') 20 = compute_ip_checksum (drop ip b3) 20"
    using ip(2) l2 by (intro checksum_cong) (simp_all add: b'_def b4_def b3_def drop_puts take_puts_outside)
  then have sum: "compute_ip_checksum (drop ip b') 20 = Some 0" using c(2) by (simp add: b3_def)
  have isum: "24 \<le> unat len \<longrightarrow> compute_ip_checksum (drop (ip + 20) b') (len - 20) = Some 0"
    using d(2) by (simp add: b'_def)
  have macs: "get_bytes b' 0 6 = get_bytes b 6 6" "get_bytes b' 6 6 = net_ethaddr (net s)"
    using b1(3,4) ip(2) ip14 l1 by (simp_all add: b'_def b4_def b3_def b2_def mem_simps)
  have rip: "read_ip b' ip = (read_ip b ip)\<lparr>ip_off := 0, ip_src := net_ip (net s), ip_dst := ip_src (read_ip b ip)\<rparr>"
    using g1 ip(2) l1 by (simp add: read_ip_def b'_def b4_def b3_def b2_def mem_simps flip: src_def)
  have ric: "get8 b' (ip + 20) = ICMP_ECHO_REPLY" "get8 b' (ip + 21) = get8 b (ip + 21)"
    using g1(1) [of "ip + 21"] ip(2) l1 by (simp_all add: b'_def b4_def b3_def b2_def mem_simps)
  have "length b' = length b" "\<forall>k \<ge> ip + 24. b' ! k = b ! k"
    using out1 by (simp_all add: same_outside_window_def)
  moreover have "\<forall>k. 12 \<le> k \<and> k < ip - 2 \<longrightarrow> b' ! k = b ! k" "ntohs (get16 b' (ip - 2)) = PROT_IP"
  proof -
    have "same_outside_window b1 b' ip (ip + 24)"
      unfolding b'_def b4_def b3_def b2_def by (intro same_outside_window_put) simp_all
    then have o: "\<forall>k < ip. b' ! k = b1 ! k" by (simp add: same_outside_window_def)
    with b1(5) show "\<forall>k. 12 \<le> k \<and> k < ip - 2 \<longrightarrow> b' ! k = b ! k" by auto
    have "get16 b' (ip - 2) = get16 b1 (ip - 2)" using o ip14 by (simp add: get16_def)
    with b1(6) show "ntohs (get16 b' (ip - 2)) = PROT_IP" by simp
  qed
  ultimately show ?thesis using run macs sum isum rip ric by blast
qed

text \<open>
  A total length below that of an IP header underflows: the checksum runs over four gigabytes
  and leaves any real buffer.
\<close>

lemma csum_loop_short: "length p + 1 < n \<Longrightarrow> csum_loop p n acc = None"
proof (induction p n acc rule: csum_loop.induct)
  case (1 p n acc)
  show ?case
  proof (cases "2 \<le> length p")
    case True
    then have "csum_loop (drop 2 p) (n - 2) (acc + ucast (get16 p 0)) = None"
      using "1.prems" True by (intro "1.IH") (auto simp: mem_simps)
    with True "1.prems" show ?thesis by (subst csum_loop.simps) (simp add: mem_simps)
  next
    case False
    with "1.prems" show ?thesis by (subst csum_loop.simps) (simp add: load16_def)
  qed
qed

lemma echo_reply_short:
  assumes "unat len < 20" "length b < 2 ^ 32 - 64"
  shows "echo_reply ops b ip len s = None"
proof -
  have n: "unat (len - 20) = unat len + 2 ^ 32 - 20"
  proof -
    have "len < 20" using assms(1) by (simp add: word_less_nat_alt)
    then show ?thesis using unat_sub_if' [of len 20] assms(1) by (simp add: word_le_nat_alt)
  qed
  have short: "compute_ip_checksum p (len - 20) = None" if "length p \<le> length b" for p
    using that assms n by (simp add: compute_ip_checksum_def csum_loop_short)
  show ?thesis
  proof (rule ccontr)
    assume "echo_reply ops b ip len s \<noteq> None"
    then obtain r where "echo_reply ops b ip len s = Some r" by blast
    then show False
      by (auto simp: echo_reply_def net_copy_ip_def net_update_ether_def Let_def bind_eq_Some_conv short
          dest!: store_SomeD split: if_splits)
  qed
qed

section \<open>Dispatch\<close>

lemma ping_receive_eq:
  assumes "ip + 28 \<le> length b"
  shows "ping_receive ops b ip len s =
    (if get8 b (ip + 20) = ICMP_ECHO_REPLY then
       Some (b, if ip_src (read_ip b ip) = net_ping_ip (ping s) then net_set_state NETLOOP_SUCCESS s else s)
     else if get8 b (ip + 20) = ICMP_ECHO_REQUEST then echo_reply ops b ip len s
     else Some (b, s))"
  using assms by (simp add: ping_receive_def net_read_ip_def mem_simps read_ip_def)

section \<open>Sending an echo request\<close>

text \<open>
  C26: Sending an echo request: the whole frame stands in the transmit buffer with verifying checksums, the
  next sequence number and no destination yet, and an ARP request for the next hop goes out first.
\<close>

theorem ping_send_waits:
  assumes tx: "net_tx_packet (net s) = Some tx" "tx + 46 \<le> length (net_pkt_buf (net s))"
    and mac: "length (net_ethaddr (net s)) = 6"
  shows "\<exists>b'. let h = net_eth_hdr_size (net s); ip = net_ping_ip (ping s);
      s0 = upd_arp (\<lambda>v. v\<lparr>net_arp_wait_packet_ip := ip, arp_wait_tx_packet_size := of_nat (h + 28), arp_wait_try := 1\<rparr>)
        (s\<lparr>net := (net s)\<lparr>net_ip_id := net_ip_id (net s) + 1, net_pkt_buf := b'\<rparr>,
           ping := (ping s)\<lparr>ping_seq_number := ping_seq_number (ping s) + 1\<rparr>\<rparr>) in
    ping_send ops s = (case now ops s0 of (t, s1) \<Rightarrow>
      map_option (Pair 1) (arp_request ops (upd_arp (\<lambda>v. v\<lparr>arp_wait_timer_start := t\<rparr>) s1))) \<and>
    same_outside_window (net_pkt_buf (net s)) b' tx (tx + h + 28) \<and>
    get_bytes b' tx 6 = net_null_ethaddr \<and> get_bytes b' (tx + 6) 6 = net_ethaddr (net s) \<and>
    compute_ip_checksum (drop (tx + h) b') 20 = Some 0 \<and> compute_ip_checksum (drop (tx + h + 20) b') 8 = Some 0 \<and>
    read_ip b' (tx + h) = \<lparr>hl_v = 0x45, tos = 0, ip_len = 28, ip_id = ucast (net_ip_id (net s)), ip_off = 0x4000,
      ip_ttl = 255, ip_p = IPPROTO_ICMP, ip_src = net_ip (net s), ip_dst = ip\<rparr> \<and>
    read_icmp b' (tx + h + 20) = \<lparr>icmp_type = ICMP_ECHO_REQUEST, icmp_code = 0, echo_id = 0,
      echo_sequence = ping_seq_number (ping s)\<rparr>"
proof -
  let ?b = "net_pkt_buf (net s)" and ?h = "net_eth_hdr_size (net s)" and ?ip = "net_ping_ip (ping s)"
  have h: "?h = 14 \<or> ?h = 18" by (simp add: net_eth_hdr_size_eq)
  then have inb: "tx + ?h \<le> length ?b" "tx + ?h + 28 \<le> length ?b" using tx(2) by auto
  have null: "length net_null_ethaddr = 6" by (simp add: net_null_ethaddr_def)
  obtain b1 where b1: "net_set_ether (net s) ?b tx net_null_ethaddr PROT_IP = Some (b1, ?h)"
    "same_outside_window ?b b1 tx (tx + ?h)" "get_bytes b1 tx 6 = net_null_ethaddr"
    "get_bytes b1 (tx + 6) 6 = net_ethaddr (net s)"
    using net_set_ether_eq [OF inb(1) null mac, of PROT_IP] by blast
  have l1: "length b1 = length ?b" using b1(2) by (rule same_outside_window_length)
  have inb1: "tx + ?h + 28 \<le> length b1" using inb(2) l1 by simp
  obtain b2 where b2: "set_icmp_header (net s) (ping s) b1 (tx + ?h) ?ip = Some (b2,
      (net s)\<lparr>net_ip_id := net_ip_id (net s) + 1\<rparr>, (ping s)\<lparr>ping_seq_number := ping_seq_number (ping s) + 1\<rparr>)"
    and o2: "same_outside_window b1 b2 (tx + ?h) (tx + ?h + 28)"
    and c2: "compute_ip_checksum (drop (tx + ?h) b2) 20 = Some 0" "compute_ip_checksum (drop (tx + ?h + 20) b2) 8 = Some 0"
    and r2: "read_ip b2 (tx + ?h) = \<lparr>hl_v = 0x45, tos = 0, ip_len = 28, ip_id = ucast (net_ip_id (net s)),
        ip_off = 0x4000, ip_ttl = 255, ip_p = IPPROTO_ICMP, ip_src = net_ip (net s), ip_dst = ?ip\<rparr>"
      "read_icmp b2 (tx + ?h + 20) = \<lparr>icmp_type = ICMP_ECHO_REQUEST, icmp_code = 0, echo_id = 0,
        echo_sequence = ping_seq_number (ping s)\<rparr>"
    using set_icmp_header_eq [OF inb1, of "net s" "ping s" ?ip] by blast
  have "same_outside_window ?b b2 tx (tx + ?h + 28)"
    using b1(2) o2 by (auto simp: same_outside_window_def)
  moreover have "get_bytes b2 tx 6 = get_bytes b1 tx 6" "get_bytes b2 (tx + 6) 6 = get_bytes b1 (tx + 6) 6"
    using o2 h inb1 by (auto simp: same_outside_window_def intro!: get_bytes_eqI)
  moreover have "ping_send ops s = (case now ops (upd_arp (\<lambda>v. v\<lparr>net_arp_wait_packet_ip := ?ip,
        arp_wait_tx_packet_size := of_nat (?h + 28), arp_wait_try := 1\<rparr>)
        (s\<lparr>net := (net s)\<lparr>net_ip_id := net_ip_id (net s) + 1, net_pkt_buf := b2\<rparr>,
           ping := (ping s)\<lparr>ping_seq_number := ping_seq_number (ping s) + 1\<rparr>\<rparr>)) of (t, s1) \<Rightarrow>
      map_option (Pair 1) (arp_request ops (upd_arp (\<lambda>v. v\<lparr>arp_wait_timer_start := t\<rparr>) s1)))"
    using tx(1) b1(1) b2
    by (simp add: ping_send_def sys_simps Let_def map_conv_bind_option comp_def) (simp add: upd_arp_def)
  ultimately show ?thesis using b1(3,4) c2 r2 unfolding Let_def by metis
qed

theorem ping_send_waits_witness:
  "\<exists>b'. let h = net_eth_hdr_size (net bench_sys); ip = net_ping_ip (ping bench_sys);
      s0 = upd_arp (\<lambda>v. v\<lparr>net_arp_wait_packet_ip := ip, arp_wait_tx_packet_size := of_nat (h + 28), arp_wait_try := 1\<rparr>)
        (bench_sys\<lparr>net := (net bench_sys)\<lparr>net_ip_id := net_ip_id (net bench_sys) + 1, net_pkt_buf := b'\<rparr>,
           ping := (ping bench_sys)\<lparr>ping_seq_number := ping_seq_number (ping bench_sys) + 1\<rparr>\<rparr>) in
    ping_send bench_ops bench_sys = (case now bench_ops s0 of (t, s1) \<Rightarrow>
      map_option (Pair 1) (arp_request bench_ops (upd_arp (\<lambda>v. v\<lparr>arp_wait_timer_start := t\<rparr>) s1))) \<and>
    same_outside_window (net_pkt_buf (net bench_sys)) b' 0 (0 + h + 28) \<and>
    get_bytes b' 0 6 = net_null_ethaddr \<and> get_bytes b' (0 + 6) 6 = net_ethaddr (net bench_sys) \<and>
    compute_ip_checksum (drop (0 + h) b') 20 = Some 0 \<and> compute_ip_checksum (drop (0 + h + 20) b') 8 = Some 0 \<and>
    read_ip b' (0 + h) = \<lparr>hl_v = 0x45, tos = 0, ip_len = 28, ip_id = ucast (net_ip_id (net bench_sys)), ip_off = 0x4000,
      ip_ttl = 255, ip_p = IPPROTO_ICMP, ip_src = net_ip (net bench_sys), ip_dst = ip\<rparr> \<and>
    read_icmp b' (0 + h + 20) = \<lparr>icmp_type = ICMP_ECHO_REQUEST, icmp_code = 0, echo_id = 0,
      echo_sequence = ping_seq_number (ping bench_sys)\<rparr>"
  by (rule ping_send_waits) (simp_all add: bench_simps)

end
