(* ===== verification/Net.thy ===== *)
theory Net
  imports Ping
begin

text \<open>
  The core of the stack, \<^verbatim>\<open>net/net.c\<close>: the handlers, the dispatch of received packets, UDP
  transmission, the retry logic, and the main loop, with the callers in \<^verbatim>\<open>main.c\<close>.

  One iteration of the main loop is \<open>net_loop_iter\<close>, whose result says whether the loop
  continues, jumps to \<^verbatim>\<open>restart\<close> or is done; the loop itself may run forever (no packet and a
  clock that stands still) and is a \<open>partial_function\<close>. \<^verbatim>\<open>ctrlc()\<close> is 0 in this build, so the
  branch that aborts the loop is not reached and is left out; so are the protocols other than
  PING, whose start functions are empty macros here.
\<close>

section \<open>Handlers\<close>

definition net_get_udp_handler :: "'h sys \<Rightarrow> rxhand option" where
  "net_get_udp_handler s = udp_packet_handler (net s)"

definition net_set_udp_handler :: "rxhand option \<Rightarrow> 'h sys \<Rightarrow> 'h sys" where
  "net_set_udp_handler f = upd_net (\<lambda>v. v\<lparr>udp_packet_handler :=
     (if f = None then Some dummy_handler else f)\<rparr>)"

definition net_get_arp_handler :: "'h sys \<Rightarrow> rxhand option" where
  "net_get_arp_handler s = arp_packet_handler (net s)"

definition net_set_arp_handler :: "rxhand option \<Rightarrow> 'h sys \<Rightarrow> 'h sys" where
  "net_set_arp_handler f = upd_net (\<lambda>v. v\<lparr>arp_packet_handler :=
     (if f = None then Some dummy_handler else f)\<rparr>)"

definition net_clear_handlers :: "'h drv_ops \<Rightarrow> 'h sys \<Rightarrow> 'h sys" where
  "net_clear_handlers ops s =
     net_set_timeout_handler ops 0 None (net_set_arp_handler None (net_set_udp_handler None s))"

definition net_cleanup_loop :: "'h drv_ops \<Rightarrow> 'h sys \<Rightarrow> 'h sys" where
  "net_cleanup_loop ops s = net_clear_handlers ops s"

section \<open>Environment callbacks\<close>

abbreviation (input) H_PROGRAMMATIC :: u32 where "H_PROGRAMMATIC \<equiv> 0x200"

definition on_ipaddr :: "bytes option \<Rightarrow> u32 \<Rightarrow> 'h sys \<Rightarrow> 'h sys option" where
  "on_ipaddr val flags s =
     (if flags AND H_PROGRAMMATIC \<noteq> 0 then Some s
      else map_option (\<lambda>ip. upd_net (\<lambda>v. v\<lparr>net_ip := ip\<rparr>) s) (string_to_ip val))"

definition on_gatewayip :: "bytes option \<Rightarrow> u32 \<Rightarrow> 'h sys \<Rightarrow> 'h sys option" where
  "on_gatewayip val flags s =
     (if flags AND H_PROGRAMMATIC \<noteq> 0 then Some s
      else map_option (\<lambda>ip. upd_net (\<lambda>v. v\<lparr>net_gateway := ip\<rparr>) s) (string_to_ip val))"

definition on_netmask :: "bytes option \<Rightarrow> u32 \<Rightarrow> 'h sys \<Rightarrow> 'h sys option" where
  "on_netmask val flags s =
     (if flags AND H_PROGRAMMATIC \<noteq> 0 then Some s
      else map_option (\<lambda>ip. upd_net (\<lambda>v. v\<lparr>net_netmask := ip\<rparr>) s) (string_to_ip val))"

definition on_serverip :: "bytes option \<Rightarrow> u32 \<Rightarrow> 'h sys \<Rightarrow> 'h sys option" where
  "on_serverip val flags s =
     (if flags AND H_PROGRAMMATIC \<noteq> 0 then Some s
      else map_option (\<lambda>ip. upd_net (\<lambda>v. v\<lparr>net_server_ip := ip\<rparr>) s) (string_to_ip val))"

definition on_nvlan :: "bytes option \<Rightarrow> u32 \<Rightarrow> 'h sys \<Rightarrow> 'h sys option" where
  "on_nvlan val flags s =
     (if flags AND H_PROGRAMMATIC \<noteq> 0 then Some s
      else map_option (\<lambda>id. upd_net (\<lambda>v. v\<lparr>net_native_vlan := id\<rparr>) s) (string_to_vlan val))"

definition on_vlan :: "bytes option \<Rightarrow> u32 \<Rightarrow> 'h sys \<Rightarrow> 'h sys option" where
  "on_vlan val flags s =
     (if flags AND H_PROGRAMMATIC \<noteq> 0 then Some s
      else map_option (\<lambda>id. upd_net (\<lambda>v. v\<lparr>net_our_vlan := id\<rparr>) s) (string_to_vlan val))"

definition env_get_vlan :: "env \<Rightarrow> bytes \<Rightarrow> u16 option" where
  "env_get_vlan e var = do {
     r \<leftarrow> env_get e var;
     string_to_vlan (map_option (env_val e) r) }"

text \<open>\<^verbatim>\<open>env_get_yesno\<close> is 0 in this build.\<close>

definition net_auto_load :: "'h sys \<Rightarrow> 'h sys" where
  "net_auto_load s = net_set_state NETLOOP_SUCCESS s"

section \<open>Set-up\<close>

definition net_init_loop :: "'h sys \<Rightarrow> 'h sys option" where
  "net_init_loop s =
     (if eth_current (eth s) = None then Some s
      else do {
        addr \<leftarrow> eth_get_ethaddr s;
        a \<leftarrow> addr;
        mac \<leftarrow> load_bytes a 0 6;
        Some (upd_net (\<lambda>v. v\<lparr>net_ethaddr := mac\<rparr>) s) })"

text \<open>\<open>buf\<close> and \<open>arp_buf\<close> are the addresses of \<^verbatim>\<open>net_pkt_buf\<close> and \<^verbatim>\<open>arp_tx_packet_buf\<close>.\<close>

definition net_init :: "'h drv_ops \<Rightarrow> u64 \<Rightarrow> u64 \<Rightarrow> 'h sys \<Rightarrow> 'h sys option" where
  "net_init ops buf arp_buf s =
     net_init_loop
       (if first_call (net s) then
          (let tx = align_offset buf;
               s = upd_net (\<lambda>v. v\<lparr>net_tx_packet := Some tx,
                     net_rx_packets := map (\<lambda>i. tx + (i + 1) * 1536) [0..<4]\<rparr>) s;
               s = upd_arp (arp_init arp_buf) s;
               s = net_clear_handlers ops s
           in upd_net (\<lambda>v. v\<lparr>first_call := False\<rparr>) s)
        else s)"

section \<open>UDP transmission\<close>

text \<open>\<open>ether\<close> names a buffer of the caller, which the answer to an ARP request will fill.\<close>

definition net_send_udp_packet ::
  "'h drv_ops \<Rightarrow> nat \<Rightarrow> u32 \<Rightarrow> u32 \<Rightarrow> u32 \<Rightarrow> u32 \<Rightarrow> 'h sys \<Rightarrow> (int \<times> 'h sys) option" where
  "net_send_udp_packet ops ether dest0 dport sport payload_len s =
     (case net_tx_packet (net s) of
        None \<Rightarrow> Some (-1, s)
      | Some tx \<Rightarrow> do {
          let dest = (if dest0 = 0 then 0xFFFFFFFF else dest0);
          mac \<leftarrow> (if dest = 0xFFFFFFFF then Some net_bcast_ethaddr else ether_bufs (arp s) ether);
          (b, eth_hdr_size) \<leftarrow> net_set_ether (net s) (net_pkt_buf (net s)) tx mac PROT_IP;
          (b, v) \<leftarrow> net_set_udp_header (net s) b (tx + eth_hdr_size) dest dport sport payload_len;
          let pkt_hdr_size = (of_nat (eth_hdr_size + IP_UDP_HDR_SIZE) :: u32);
          let s = s\<lparr>net := v\<lparr>net_pkt_buf := b\<rparr>\<rparr>;
          r \<leftarrow> memcmp mac net_null_ethaddr 6;
          (if r = 0 then do {
             let s = upd_arp (\<lambda>v. v\<lparr>net_arp_wait_packet_ip := dest, arp_wait_packet_ethaddr := Some ether,
               arp_wait_tx_packet_size := pkt_hdr_size + payload_len, arp_wait_try := 1\<rparr>) s;
             (case now ops s of (t, s) \<Rightarrow> do {
                s \<leftarrow> arp_request ops (upd_arp (\<lambda>v. v\<lparr>arp_wait_timer_start := t\<rparr>) s);
                Some (1, s) }) }
           else do {
             s \<leftarrow> net_send_packet ops (drop tx b) (pkt_hdr_size + payload_len) s;
             Some (0, s) }) })"

section \<open>Received packets\<close>

text \<open>Without reassembly a fragment is dropped: the result says whether the packet is whole.\<close>

definition net_defragment :: "bytes \<Rightarrow> nat \<Rightarrow> bool option" where
  "net_defragment b ip = map_option (\<lambda>off. ntohs off AND (0x1fff OR 0x2000) = 0) (load16 b (ip + 6))"

definition receive_icmp :: "'h drv_ops \<Rightarrow> bytes \<Rightarrow> nat \<Rightarrow> u32 \<Rightarrow> 'h sys \<Rightarrow> (bytes \<times> 'h sys) option" where
  "receive_icmp ops b ip len s = do {
     type \<leftarrow> load8 b (ip + IP_HDR_SIZE);
     (if type = ICMP_REDIRECT then Some (b, s)
      else ping_receive ops b ip len s) }"

text \<open>
  The link header of a received frame: protocol, offset of the payload, its length, and the
  VLAN it came from. \<open>None\<close> inside drops the frame.
\<close>

definition frame_header :: "net_vars \<Rightarrow> bytes \<Rightarrow> u32 \<Rightarrow> (u16 \<times> nat \<times> u32 \<times> u16) option option" where
  "frame_header v b len = do {
     p \<leftarrow> load16 b 12;
     let eth_proto = ntohs p;
     (if eth_proto < 1514 then do {
        p \<leftarrow> load16 b 20;
        Some (Some (ntohs p, E802_HDR_SIZE, len - 22, VLAN_NONE)) }
      else if eth_proto \<noteq> PROT_VLAN then
        Some (Some (eth_proto, ETHER_HDR_SIZE, len - 14, VLAN_NONE))
      else if (scast len :: u64) < 18 then Some None
      else if ntohs (net_our_vlan v) AND VLAN_IDMASK = VLAN_NONE then Some None
      else do {
        tag \<leftarrow> load16 b 14;
        p \<leftarrow> load16 b 16;
        Some (Some (ntohs p, VLAN_ETHER_HDR_SIZE, len - 18, ntohs tag AND VLAN_IDMASK)) }) }"

text \<open>Whether a frame from \<open>vlanid\<close> is for the VLAN of this interface.\<close>

definition vlan_matches :: "net_vars \<Rightarrow> u16 \<Rightarrow> bool" where
  "vlan_matches v vlanid = (
     let our = ntohs (net_our_vlan v); myvlanid = (if our = -1 then VLAN_NONE else our);
         nat_v = ntohs (net_native_vlan v); mynvlanid = (if nat_v = -1 then VLAN_NONE else nat_v)
     in if myvlanid AND VLAN_IDMASK \<noteq> VLAN_NONE then
          (if vlanid = VLAN_NONE then mynvlanid AND VLAN_IDMASK else vlanid) = myvlanid AND VLAN_IDMASK
        else True)"

text \<open>\<open>accept_ip\<close> are the tests of an IP packet up to its protocol; the result is its length.\<close>

definition accept_ip :: "net_vars \<Rightarrow> bytes \<Rightarrow> nat \<Rightarrow> u32 \<Rightarrow> u32 option option" where
  "accept_ip v b ip len =
     (if (scast len :: u64) < 28 then Some None
      else do {
        l \<leftarrow> load16 b (ip + 2);
        (if sint len < int (unat (ntohs l)) then Some None else do {
        hl_v \<leftarrow> load8 b ip;
        (if hl_v AND 0xf0 \<noteq> 0x40 then Some None
         else if hl_v AND 0x0f > 0x05 then Some None else do {
        ok \<leftarrow> ip_checksum_ok (drop ip b) 20;
        (if \<not> ok then Some None else do {
        dst_ip \<leftarrow> net_read_ip b (ip + 16);
        (if net_ip v \<noteq> 0 \<and> dst_ip \<noteq> net_ip v \<and> dst_ip \<noteq> 0xFFFFFFFF then Some None else do {
        whole \<leftarrow> net_defragment b ip;
        (if \<not> whole then Some None else Some (Some (ucast (ntohs l)))) }) }) }) }) })"

definition receive_ip :: "'h drv_ops \<Rightarrow> bytes \<Rightarrow> nat \<Rightarrow> u32 \<Rightarrow> 'h sys \<Rightarrow> (bytes \<times> 'h sys) option" where
  "receive_ip ops b ip len0 s = do {
     a \<leftarrow> accept_ip (net s) b ip len0;
     (case a of None \<Rightarrow> Some (b, s)
      | Some len \<Rightarrow> do {
          src_ip \<leftarrow> net_read_ip b (ip + 12);
          p \<leftarrow> load8 b (ip + 9);
          (if p = IPPROTO_ICMP then receive_icmp ops b ip len s
           else if p \<noteq> IPPROTO_UDP then Some (b, s)
           else do {
             dst \<leftarrow> load16 b (ip + 22);
             src \<leftarrow> load16 b (ip + 20);
             l \<leftarrow> load16 b (ip + 24);
             s \<leftarrow> run_rxhand ops (udp_packet_handler (net s)) (drop (ip + IP_UDP_HDR_SIZE) b)
                    (ucast (ntohs dst)) src_ip (ucast (ntohs src)) (ucast (ntohs l) - 8) s;
             Some (b, s) }) }) }"

text \<open>\<open>b\<close> is the memory from \<^verbatim>\<open>in_packet\<close> on, \<open>len\<close> the \<^verbatim>\<open>int\<close> the driver passes.\<close>

definition net_process_received_packet ::
  "'h drv_ops \<Rightarrow> u64 \<Rightarrow> bytes \<Rightarrow> u32 \<Rightarrow> 'h sys \<Rightarrow> (bytes \<times> 'h sys) option" where
  "net_process_received_packet ops in_packet b len s0 = do {
     let s = upd_net (\<lambda>v. v\<lparr>net_rx_packet := in_packet, net_rx_packet_len := len\<rparr>) s0;
     (if (scast len :: u64) < 14 then Some (b, s)
      else do {
        hdr \<leftarrow> frame_header (net s) b len;
        (case hdr of None \<Rightarrow> Some (b, s)
         | Some (eth_proto, ip, len, vlanid) \<Rightarrow>
             (if \<not> vlan_matches (net s) vlanid then Some (b, s)
              else if eth_proto = PROT_ARP then arp_receive ops b ip len s
              else if eth_proto = PROT_IP then receive_ip ops b ip len s
              else Some (b, s))) }) }"

definition eth_rx :: "'h drv_ops \<Rightarrow> 'h sys \<Rightarrow> (int \<times> 'h sys) option" where
  "eth_rx ops s =
     (if eth_current (eth s) = None then Some (-19, s)
      else do {
        (a, d) \<leftarrow> deref s (eth_current (eth s));
        (pkt, h) \<leftarrow> drv_recv ops a d (hw s);
        let s = s\<lparr>hw := h\<rparr>;
        (b, s) \<leftarrow> (case pkt of None \<Rightarrow> Some (None, s)
          | Some (addr, b, len) \<Rightarrow> do {
              (b, s) \<leftarrow> net_process_received_packet ops addr b len s;
              Some (Some b, s) });
        (r, h) \<leftarrow> drv_recv_done ops a d b (hw s);
        Some (r, s\<lparr>hw := h\<rparr>) })"

section \<open>Retries\<close>

text \<open>The limit read from \<^verbatim>\<open>netretry\<close>: forever, or a count.\<close>

definition retry_limit :: "env \<Rightarrow> (bool \<times> u64) option" where
  "retry_limit e = do {
     nretry \<leftarrow> env_get e (c_string ''netretry'');
     (case nretry of None \<Rightarrow> Some (False, 0)
      | Some r \<Rightarrow> do {
          let val = env_val e r;
          y \<leftarrow> strcmp val (c_string ''yes'');
          (if y = 0 then Some (True, 0) else do {
          n \<leftarrow> strcmp val (c_string ''no'');
          (if n = 0 then Some (False, 0) else do {
          o1 \<leftarrow> strcmp val (c_string ''once'');
          (if o1 = 0 then Some (False, 1)
           else map_option (\<lambda>(k, _). (False, k)) (simple_strtoul val 0)) }) }) }) }"

definition net_start_again :: "'h drv_ops \<Rightarrow> 'h sys \<Rightarrow> (int \<times> 'h sys) option" where
  "net_start_again ops s = do {
     (retry_forever, retrycnt) \<leftarrow> retry_limit (envs_of s);
     (if \<not> retry_forever \<and> (scast (net_try_count (net s)) :: u64) > retrycnt then do {
        s \<leftarrow> eth_halt ops s;
        Some (-110, net_set_state NETLOOP_FAIL s) }
      else do {
        s \<leftarrow> eth_halt ops (upd_net (\<lambda>v. v\<lparr>net_try_count := net_try_count v + 1\<rparr>) s);
        s \<leftarrow> eth_try_another (\<not> net_restarted (net s)) s;
        (ret, s) \<leftarrow> eth_init ops s;
        Some (ret,
          if net_restart_wrap (net s) then
            (let s = upd_net (\<lambda>v. v\<lparr>net_restart_wrap := False\<rparr>) s in
             if net_dev_exists (net s) then
               net_set_udp_handler None
                 (net_set_timeout_handler ops 10000 (Some start_again_timeout_handler) s)
             else net_set_state NETLOOP_FAIL s)
          else net_set_state NETLOOP_RESTART s) }) }"

section \<open>The main loop\<close>

definition prereq_ethaddr :: "'h drv_ops \<Rightarrow> 'h sys \<Rightarrow> (int \<times> 'h sys) option" where
  "prereq_ethaddr ops s = do {
     r \<leftarrow> memcmp (net_ethaddr (net s)) (replicate 6 0) 6;
     (if r = 0 then do {
        num \<leftarrow> eth_get_dev_index s;
        (if num = -1 then Some (1, s)
         else do {
           (_, s) \<leftarrow> net_start_again ops s;
           Some (2, s) }) }
      else Some (0, s)) }"

definition net_check_prereq :: "'h drv_ops \<Rightarrow> proto_t \<Rightarrow> 'h sys \<Rightarrow> (int \<times> 'h sys) option" where
  "net_check_prereq ops protocol s =
     (if protocol = PING \<and> net_ping_ip (ping s) = 0 then Some (1, s)
      else if protocol \<in> {TFTPGET, TFTPPUT} \<and> net_server_ip (net s) = 0 then Some (1, s)
      else if protocol \<in> {PING, TFTPGET, TFTPPUT, NETCONS, TFTPSRV} \<and> net_ip (net s) = 0 then Some (1, s)
      else if protocol \<in> {PING, TFTPGET, TFTPPUT, NETCONS, TFTPSRV, BOOTP, CDP, DHCP, LINKLOCAL}
        then prereq_ethaddr ops s
      else Some (0, s))"

datatype 'h loop_result = Continue int "'h sys" | Restart int "'h sys" | Done int "'h sys"

definition run_thand :: "'h drv_ops \<Rightarrow> thand \<Rightarrow> 'h sys \<Rightarrow> 'h sys option" where
  "run_thand ops f s =
     (case f of ping_timeout_handler \<Rightarrow> ping_timeout ops s
      | start_again_timeout_handler \<Rightarrow> Some (net_set_state NETLOOP_RESTART s)
      | Client_timeout k \<Rightarrow> client_timeout ops k s)"

text \<open>The check for a timeout, which disarms the handler before it runs it.\<close>

definition check_timeout :: "'h drv_ops \<Rightarrow> 'h sys \<Rightarrow> 'h sys option" where
  "check_timeout ops s =
     (case time_handler (net s) of None \<Rightarrow> Some s
      | Some x \<Rightarrow>
          (case now ops s of (t, s) \<Rightarrow>
             if t - time_start (net s) > time_delta (net s)
             then run_thand ops x (upd_net (\<lambda>v. v\<lparr>time_handler := None\<rparr>) s)
             else Some s))"

text \<open>\<open>ret\<close> is the local variable of \<^verbatim>\<open>net_loop\<close>.\<close>

definition net_loop_iter :: "'h drv_ops \<Rightarrow> proto_t \<Rightarrow> int \<Rightarrow> 'h sys \<Rightarrow> 'h loop_result option" where
  "net_loop_iter ops protocol ret s = do {
     (waiting, s) \<leftarrow> arp_timeout_check ops s;
     let s = (if waiting then (case now ops s of (t, s) \<Rightarrow> upd_net (\<lambda>v. v\<lparr>time_start := t\<rparr>) s) else s);
     (_, s) \<leftarrow> eth_rx ops s;
     s \<leftarrow> check_timeout ops s;
     (ret, s) \<leftarrow> (if net_state (net s) = NETLOOP_FAIL then net_start_again ops s else Some (ret, s));
     (case net_state (net s) of
        NETLOOP_RESTART \<Rightarrow> Some (Restart ret (upd_net (\<lambda>v. v\<lparr>net_restarted := True\<rparr>) s))
      | NETLOOP_SUCCESS \<Rightarrow> do {
          let s = net_cleanup_loop ops s;
          s \<leftarrow> (if protocol \<noteq> NETCONS then eth_halt ops s else eth_halt_state_only s);
          Some (Done (sint (net_boot_file_size (net s))) s) }
      | NETLOOP_FAIL \<Rightarrow> Some (Done ret (net_cleanup_loop ops s))
      | NETLOOP_CONTINUE \<Rightarrow> Some (Continue ret s)) }"

text \<open>The part from the label \<^verbatim>\<open>restart\<close> to the loop; \<open>Done\<close> when the function returns there.\<close>

definition net_loop_start :: "'h drv_ops \<Rightarrow> proto_t \<Rightarrow> int \<Rightarrow> 'h sys \<Rightarrow> 'h loop_result option" where
  "net_loop_start ops protocol ret s = do {
     s \<leftarrow> net_init_loop (net_set_state NETLOOP_CONTINUE s);
     (r, s) \<leftarrow> net_check_prereq ops protocol s;
     (if r = 1 then do {
        s \<leftarrow> eth_halt ops s;
        Some (Done (-19) s) }
      else if r = 2 then Some (Continue ret s)
      else do {
        let s = upd_net (\<lambda>v. v\<lparr>net_dev_exists := True, net_boot_file_size := 0\<rparr>) s;
        s \<leftarrow> (if protocol = PING then ping_start ops s
              else if protocol = BOOTP then Some (upd_net (\<lambda>v. v\<lparr>net_ip := 0\<rparr>) s)
              else Some s);
        Some (Continue ret s) }) }"

partial_function (option) net_loop_run ::
  "'h drv_ops \<Rightarrow> proto_t \<Rightarrow> 'h loop_result \<Rightarrow> (int \<times> 'h sys) option" where
  "net_loop_run ops protocol r =
     (case r of
        Done ret s \<Rightarrow> Some (ret, s)
      | Restart ret s \<Rightarrow> do {
          r \<leftarrow> net_loop_start ops protocol ret s;
          net_loop_run ops protocol r }
      | Continue ret s \<Rightarrow> do {
          r \<leftarrow> net_loop_iter ops protocol ret s;
          net_loop_run ops protocol r })"

definition net_loop :: "'h drv_ops \<Rightarrow> u64 \<Rightarrow> u64 \<Rightarrow> proto_t \<Rightarrow> 'h sys \<Rightarrow> (int \<times> 'h sys) option" where
  "net_loop ops buf arp_buf protocol s = do {
     s \<leftarrow> net_init ops buf arp_buf
       (upd_net (\<lambda>v. v\<lparr>net_restarted := False, net_dev_exists := False, net_try_count := 1\<rparr>) s);
     s \<leftarrow> eth_halt ops s;
     s \<leftarrow> eth_set_current s;
     (ret, s) \<leftarrow> eth_init ops s;
     (if ret < 0 then do {
        s \<leftarrow> eth_halt ops s;
        Some (ret, s) }
      else net_loop_run ops protocol (Restart ret s)) }"

section \<open>The program\<close>

text \<open>The result says whether the host is reported alive.\<close>

definition do_ping :: "'h drv_ops \<Rightarrow> u64 \<Rightarrow> u64 \<Rightarrow> bytes option \<Rightarrow> 'h sys \<Rightarrow> (bool \<times> 'h sys) option" where
  "do_ping ops buf arp_buf ip s = do {
     a \<leftarrow> string_to_ip ip;
     (r, s) \<leftarrow> net_loop ops buf arp_buf PING (s\<lparr>ping := (ping s)\<lparr>net_ping_ip := a\<rparr>\<rparr>);
     Some (r \<ge> 0, s) }"

definition net_drv_init ::
  "'h drv_ops \<Rightarrow> ('h sys \<Rightarrow> 'h sys option) \<Rightarrow> u64 \<Rightarrow> u64 \<Rightarrow> 'h sys \<Rightarrow> (int \<times> bool \<times> 'h sys) option" where
  "net_drv_init ops board_eth_init buf arp_buf s = do {
     (_, s) \<leftarrow> eth_initialize ops board_eth_init s;
     ip \<leftarrow> string_to_ip (Some (c_string ''192.168.100.22''));
     let s = upd_net (\<lambda>v. v\<lparr>net_ip := ip\<rparr>) s;
     mask \<leftarrow> string_to_ip (Some (c_string ''255.255.255.0''));
     let s = upd_net (\<lambda>v. v\<lparr>net_netmask := mask\<rparr>) s;
     (alive, s) \<leftarrow> do_ping ops buf arp_buf (Some (c_string ''192.168.100.3'')) s;
     Some (0, alive, s) }"

end
