(* ===== verification/Receive.thy ===== *)
theory Receive
  imports Net
begin

text \<open>
  What the stack does with a received frame: which frames reach which handler, that processing
  stays inside the buffers, what is sent in answer and when the state of the main loop changes.
\<close>

section \<open>The invariant of the stack\<close>

text \<open>
  Sizes of the buffers and addresses, offsets of the aligned pointers, and pointers that lead
  somewhere.
\<close>

definition net_wf :: "'h sys \<Rightarrow> bool" where
  "net_wf s \<longleftrightarrow> length (net_ethaddr (net s)) = 6 \<and>
     length (net_pkt_buf (net s)) = 7744 \<and> length (arp_tx_packet_buf (arp s)) = 1600 \<and>
     (\<forall>tx. net_tx_packet (net s) = Some tx \<longrightarrow> tx \<le> 63) \<and>
     (\<forall>tx. arp_tx_packet (arp s) = Some tx \<longrightarrow> tx \<le> 63) \<and>
     (\<forall>p m. ether_bufs (arp s) p = Some m \<longrightarrow> length m = 6) \<and>
     (\<forall>p. arp_wait_packet_ethaddr (arp s) = Some p \<longrightarrow> ether_bufs (arp s) p \<noteq> None) \<and>
     (\<forall>a. eth_current (eth s) = Some a \<longrightarrow> devs (eth s) a \<noteq> None) \<and>
     (\<forall>a d. devs (eth s) a = Some d \<longrightarrow> length (enetaddr d) = 6)"

text \<open>The stack after \<^verbatim>\<open>net_init\<close>.\<close>

definition net_ready :: "'h sys \<Rightarrow> bool" where
  "net_ready s \<longleftrightarrow> net_tx_packet (net s) \<noteq> None \<and> arp_tx_packet (arp s) \<noteq> None \<and>
     udp_packet_handler (net s) \<noteq> None \<and> arp_packet_handler (net s) \<noteq> None"

lemma net_wf_hw [simp]: "net_wf (s\<lparr>hw := h\<rparr>) = net_wf s"
  by (simp add: net_wf_def)

lemma net_wf_state [simp]: "net_wf (net_set_state st s) = net_wf s"
  by (simp add: net_wf_def sys_simps)

lemma net_wf_init: "net_wf (sys_init h)"
  by (simp add: net_wf_def sys_init_def net_vars_init_def arp_vars_init_def eth_vars_init_def)

text \<open>The link header of a frame.\<close>

lemma frame_header_Some:
  assumes "frame_header v b len = Some (Some (proto, ip, len', vlanid))"
  shows "len' = len - of_nat ip" "ip \<in> {14, 18, 22}" "proto > 1514 \<or> ip \<noteq> 14 \<or> proto = 1514"
    "ntohs (get16 b 12) \<noteq> 1514 \<Longrightarrow> ip = link_hdr_size b"
  using assms
  by (auto simp: frame_header_def Let_def link_hdr_size_def bind_eq_Some_conv not_less le_less
      dest!: load_SomeD split: if_splits)

section \<open>Lengths\<close>

lemma sint_nonneg_iff: "0 \<le> sint (x :: u32) \<longleftrightarrow> unat x < 2 ^ 31"
proof
  assume "0 \<le> sint x"
  then have b: "\<not> bit x 31" by (simp add: sint_uint signed_take_bit_nonnegative_iff bit_uint_iff)
  have "take_bit 31 x = x"
  proof (rule bit_word_eqI)
    fix n assume "n < LENGTH(32)"
    then have "n < 31 \<or> n = 31" by auto
    with b show "bit (take_bit 31 x) n = bit x n" by (auto simp: bit_simps)
  qed
  then have "unat x = take_bit 31 (unat x)" by (metis unsigned_take_bit_eq)
  also have "\<dots> < 2 ^ 31" by (simp add: take_bit_eq_mod)
  finally show "unat x < 2 ^ 31" .
qed (simp add: sint_small)

text \<open>What is left of a length after a header of \<open>k\<close> bytes, when it is not negative.\<close>

lemma length_after_header:
  assumes "unat (len :: u32) < 2 ^ 31" "k \<le> 22" "0 \<le> sint (len - of_nat k)"
  shows "k \<le> unat len" "unat (len - of_nat k) = unat len - k"
proof -
  have uk: "unat (of_nat k :: u32) = k" using assms(2) by (simp add: unsigned_of_nat take_bit_nat_eq_self_iff)
  show "k \<le> unat len"
  proof (rule ccontr)
    assume "\<not> k \<le> unat len"
    then have "\<not> of_nat k \<le> len" by (simp add: word_le_nat_alt uk)
    then have "unat (len - of_nat k) = unat len + 2 ^ 32 - k"
      using unat_sub_if' [of len "of_nat k"] by (simp add: word_le_nat_alt uk)
    moreover have "unat (len - of_nat k) < 2 ^ 31" using assms(3) by (simp add: sint_nonneg_iff)
    ultimately show False using assms(2) by simp
  qed
  then show "unat (len - of_nat k) = unat len - k" by (simp add: unat_sub word_le_nat_alt uk)
qed

section \<open>IP packets\<close>

text \<open>The packets that are considered: whole IPv4 packets without options, for this host.\<close>

definition ip_acceptable :: "net_vars \<Rightarrow> bytes \<Rightarrow> nat \<Rightarrow> u32 \<Rightarrow> bool" where
  "ip_acceptable v b ip len \<longleftrightarrow> (let p = read_ip b ip in
     \<not> (scast len :: u64) < 28 \<and> int (unat (ip_len p)) \<le> sint len \<and>
     hl_v p AND 0xf0 = 0x40 \<and> hl_v p AND 0x0f \<le> 5 \<and> ip_checksum_ok (drop ip b) 20 = Some True \<and>
     (net_ip v = 0 \<or> ip_dst p = net_ip v \<or> ip_dst p = 0xFFFFFFFF) \<and>
     ip_off p AND (0x1fff OR 0x2000) = 0)"

lemma accept_ip_eq:
  assumes "ip + 28 \<le> length b"
  shows "accept_ip v b ip len =
    Some (if ip_acceptable v b ip len then Some (ucast (ip_len (read_ip b ip))) else None)"
proof -
  obtain ok where ok: "ip_checksum_ok (drop ip b) 20 = Some ok"
  proof -
    have "unat (20 :: u32) \<le> length (drop ip b)" using assms by simp
    with that show thesis using ip_checksum_ok_defined [of 20 "drop ip b"] by auto
  qed
  then show ?thesis using assms
    by (simp add: accept_ip_def net_read_ip_def net_defragment_def mem_simps ip_acceptable_def read_ip_def
        Let_def not_le not_less split del: if_split cong: if_cong) auto
qed

lemma receive_ip_eq:
  assumes "ip + 28 \<le> length b"
  shows "receive_ip ops b ip len s = (let p = read_ip b ip in
    if \<not> ip_acceptable (net s) b ip len then Some (b, s)
    else if ip_p p = IPPROTO_ICMP then
      (if get8 b (ip + 20) = ICMP_REDIRECT then Some (b, s) else ping_receive ops b ip (ucast (ip_len p)) s)
    else if ip_p p = IPPROTO_UDP then
      map_option (Pair b) (run_rxhand ops (udp_packet_handler (net s)) (drop (ip + 28) b)
        (ucast (ntohs (get16 b (ip + 22)))) (ip_src p) (ucast (ntohs (get16 b (ip + 20))))
        (ucast (ntohs (get16 b (ip + 24))) - 8) s)
    else Some (b, s))"
  using assms
  by (auto simp: receive_ip_def accept_ip_eq receive_icmp_def net_read_ip_def mem_simps Let_def read_ip_def
      map_conv_bind_option comp_def)

section \<open>Processing a frame is defined\<close>

text \<open>
  What the stack asks of the driver and of its clients: the driver can send what lies in the
  buffer it is given, and a client's handler returns and keeps the invariant.
\<close>

definition stack_inv :: "'h sys \<Rightarrow> bool" where
  "stack_inv s \<longleftrightarrow> net_wf s \<and> net_ready s \<and> unat (arp_wait_tx_packet_size (arp s)) \<le> 7680"

definition send_total :: "'h drv_ops \<Rightarrow> bool" where
  "send_total ops \<longleftrightarrow> (\<forall>a d b len h. unat len \<le> length b \<longrightarrow> drv_send ops a d b len h \<noteq> None)"

definition clients_total :: "'h drv_ops \<Rightarrow> bool" where
  "clients_total ops \<longleftrightarrow> (\<forall>k b dport sip sport len s. stack_inv s \<longrightarrow>
     (\<exists>s'. client_rx ops k b dport sip sport len s = Some s' \<and> stack_inv s'))"

lemma stack_inv_hw [simp]: "stack_inv (s\<lparr>hw := h\<rparr>) = stack_inv s"
  by (simp add: stack_inv_def net_ready_def)

lemma stack_inv_state [simp]: "stack_inv (net_set_state st s) = stack_inv s"
  by (simp add: stack_inv_def net_ready_def sys_simps)

lemma stack_inv_rx [simp]:
  "stack_inv (upd_net (\<lambda>v. v\<lparr>net_rx_packet := p, net_rx_packet_len := l\<rparr>) s) = stack_inv s"
  by (simp add: stack_inv_def net_ready_def net_wf_def sys_simps)

lemma unat_of_nat_le: "unat (of_nat n :: 'a::len word) \<le> n"
  by (simp add: unsigned_of_nat take_bit_nat_less_eq_self)

lemma net_send_packet_total:
  assumes "send_total ops" "net_wf s" "unat len \<le> length b"
  shows "\<exists>h. net_send_packet ops b len s = Some (s\<lparr>hw := h\<rparr>)"
proof (cases "eth_current (eth s)")
  case None
  then have "net_send_packet ops b len s = Some (s\<lparr>hw := hw s\<rparr>)"
    by (simp add: net_send_packet_def eth_send_def)
  then show ?thesis by blast
next
  case (Some a)
  with assms(2) obtain d where d: "devs (eth s) a = Some d" by (auto simp: net_wf_def)
  obtain r h where "drv_send ops a d b len (hw s) = Some (r, h)"
    using assms(1,3) unfolding send_total_def by (metis option.exhaust surj_pair)
  with Some d have "net_send_packet ops b len s = Some (s\<lparr>hw := h\<rparr>)"
    by (simp add: net_send_packet_def eth_send_def sys_simps)
  then show ?thesis by blast
qed

lemma run_rxhand_total:
  assumes "clients_total ops" "stack_inv s" "f \<noteq> None"
  shows "\<exists>s'. run_rxhand ops f b dport sip sport len s = Some s' \<and> stack_inv s'"
  using assms by (auto simp: run_rxhand_def clients_total_def split: rxhand.split)

lemma learn_inv: "stack_inv s \<Longrightarrow> length mac = 6 \<Longrightarrow> stack_inv (upd_arp (learn_ethaddr mac) s)"
  by (auto simp: stack_inv_def net_wf_def net_ready_def sys_simps learn_ethaddr_def split: option.split)

lemma arp_answer_total:
  assumes "send_total ops" "stack_inv s" "a + 28 \<le> length b" "a = link_hdr_size b"
  shows "\<exists>b' s'. arp_answer ops b a s = Some (b', s') \<and> stack_inv s' \<and> length b' = length b"
proof -
  have mac: "length (net_ethaddr (net s)) = 6" using assms(2) by (simp add: stack_inv_def net_wf_def)
  obtain b' where b': "arp_answer ops b a s = map_option (Pair b') (net_send_packet ops b' (of_nat (a + 28)) s)"
    "same_outside_window b b' 0 (a + 28)"
    using arp_answer_eq [OF assms(3,4) mac, of ops] by blast
  have l: "length b' = length b" using b'(2) by (rule same_outside_window_length)
  have "unat (of_nat (a + 28) :: u32) \<le> length b'"
    using assms(3) l by (intro order_trans [OF unat_of_nat_le]) simp
  then obtain h where "net_send_packet ops b' (of_nat (a + 28)) s = Some (s\<lparr>hw := h\<rparr>)"
    using net_send_packet_total [OF assms(1)] assms(2) unfolding stack_inv_def by blast
  with b'(1) l assms(2) show ?thesis by simp
qed

lemma arp_resolved_total:
  assumes "send_total ops" "clients_total ops" "stack_inv s" "a + 28 \<le> length b"
  shows "\<exists>s'. arp_resolved ops b a len s = Some s' \<and> stack_inv s'"
proof (cases "get32 b (a + 14) = net_arp_wait_reply_ip (arp s)")
  case False
  with assms(3,4) show ?thesis by (simp add: arp_resolved_def net_read_ip_def mem_simps)
next
  case True
  let ?mac = "get_bytes b (a + 8) 6"
  have mac: "length ?mac = 6" using assms(4) by simp
  have "\<exists>old. ether_bufs (arp s) p = Some old \<and> length old = 6" if "arp_wait_packet_ethaddr (arp s) = Some p" for p
    using that assms(3) by (auto simp: stack_inv_def net_wf_def)
  note learn = learn_step [OF mac this]
  have inv1: "stack_inv (upd_arp (learn_ethaddr ?mac) s)" by (rule learn_inv [OF assms(3) mac])
  have "arp_packet_handler (net (upd_arp (learn_ethaddr ?mac) s)) \<noteq> None"
    using inv1 by (simp add: stack_inv_def net_ready_def)
  from run_rxhand_total [OF assms(2) inv1 this, of "drop a b" 0 "get32 b (a + 14)" 0 len] obtain s2 where
    s2: "run_rxhand ops (arp_packet_handler (net s)) (drop a b) 0 (get32 b (a + 14)) 0 len
      (upd_arp (learn_ethaddr ?mac) s) = Some s2" "stack_inv s2" by (auto simp: sys_simps)
  obtain tx where tx: "net_tx_packet (net s2) = Some tx" "tx \<le> 63" "length (net_pkt_buf (net s2)) = 7744"
    using s2(2) by (auto simp: stack_inv_def net_ready_def net_wf_def)
  define pb where "pb = put_bytes (net_pkt_buf (net s2)) tx ?mac"
  define s3 where "s3 = upd_net (\<lambda>v. v\<lparr>net_pkt_buf := pb\<rparr>) s2"
  have inv3: "stack_inv s3" using s2(2) tx(3)
    by (simp add: s3_def pb_def stack_inv_def net_wf_def net_ready_def sys_simps)
  have "unat (arp_wait_tx_packet_size (arp s2)) \<le> 7680" using s2(2) by (simp add: stack_inv_def)
  also have "\<dots> \<le> length (drop tx pb)" using tx(2,3) by (simp add: pb_def)
  finally obtain h where h: "net_send_packet ops (drop tx pb) (arp_wait_tx_packet_size (arp s2)) s3 = Some (s3\<lparr>hw := h\<rparr>)"
    using net_send_packet_total [OF assms(1)] inv3 unfolding stack_inv_def by blast
  have "stack_inv (upd_arp (\<lambda>v. v\<lparr>net_arp_wait_packet_ip := 0, arp_wait_tx_packet_size := 0,
      arp_wait_packet_ethaddr := None\<rparr>) (s3\<lparr>hw := h\<rparr>))"
    using inv3 by (auto simp: stack_inv_def net_wf_def net_ready_def sys_simps)
  with True assms(4) mac learn s2(1) tx h show ?thesis
    by (simp add: arp_resolved_def net_read_ip_def mem_simps sys_simps pb_def s3_def)
qed

lemma arp_receive_total:
  assumes "send_total ops" "clients_total ops" "stack_inv s" "a + 28 \<le> length b" "a = link_hdr_size b"
  shows "\<exists>b' s'. arp_receive ops b a len s = Some (b', s') \<and> stack_inv s' \<and> length b' = length b"
proof -
  obtain b1 s1 where "arp_answer ops b a s = Some (b1, s1)" "stack_inv s1" "length b1 = length b"
    using arp_answer_total [OF assms(1,3-5)] by blast
  moreover obtain s2 where "arp_resolved ops b a len s = Some s2" "stack_inv s2"
    using arp_resolved_total [OF assms(1-4)] by blast
  ultimately show ?thesis using assms(3) by (auto simp: arp_receive_eq [OF assms(4)])
qed

text \<open>The length of an acceptable packet lies inside the frame.\<close>

lemma ip_acceptable_length:
  assumes "ip_acceptable v b ip (len - of_nat ip)" "ip \<le> 22" "unat len < 2 ^ 31" "unat len \<le> length b"
  shows "ip + unat (ip_len (read_ip b ip)) \<le> unat len" "ip + unat (ip_len (read_ip b ip)) \<le> length b"
proof -
  let ?l = "unat (ip_len (read_ip b ip))"
  have l: "int ?l \<le> sint (len - of_nat ip)" using assms(1) by (simp add: ip_acceptable_def Let_def)
  then have pos: "0 \<le> sint (len - of_nat ip)" by linarith
  note h = length_after_header [OF assms(3,2) pos]
  have "unat (len - of_nat ip) < 2 ^ 31" using pos by (simp add: sint_nonneg_iff)
  then have "sint (len - of_nat ip) = int (unat (len - of_nat ip))" by (rule sint_small)
  with l h show "ip + ?l \<le> unat len" by linarith
  with assms(4) show "ip + ?l \<le> length b" by linarith
qed

lemma receive_ip_total:
  assumes ops: "send_total ops" "clients_total ops" and inv: "stack_inv s"
    and ip: "ip = link_hdr_size b" "50 \<le> length b" and len: "unat len < 2 ^ 31" "unat len \<le> length b"
    and long: "ip_acceptable (net s) b ip (len - of_nat ip) \<Longrightarrow> 20 \<le> unat (ip_len (read_ip b ip))"
  shows "\<exists>b' s'. receive_ip ops b ip (len - of_nat ip) s = Some (b', s') \<and> stack_inv s' \<and> length b' = length b"
proof -
  let ?p = "read_ip b ip" and ?len = "len - of_nat ip :: u32"
  have i22: "ip \<le> 22" using ip(1) by (simp add: link_hdr_size_def Let_def)
  then have b: "ip + 28 \<le> length b" using ip(2) by simp
  have mac: "length (net_ethaddr (net s)) = 6" using inv by (simp add: stack_inv_def net_wf_def)
  have echo: "\<exists>b' s'. echo_reply ops b ip (ucast (ip_len ?p)) s = Some (b', s') \<and> stack_inv s' \<and> length b' = length b"
    if acc: "ip_acceptable (net s) b ip ?len"
  proof -
    have l: "ip + unat (ip_len ?p) \<le> length b" by (rule ip_acceptable_length [OF acc i22 len])
    have u: "unat (ucast (ip_len ?p) :: u32) = unat (ip_len ?p)" by (rule unat_ucast_up16)
    have "ip + unat (ucast (ip_len ?p) :: u32) \<le> length b" "20 \<le> unat (ucast (ip_len ?p) :: u32)"
      "unat (ucast (ip_len ?p) :: u32) \<le> 65535" using l long acc by (simp_all only: u) simp
    from echo_reply_eq [OF ip(1) b this mac, of ops] obtain b' where b':
      "echo_reply ops b ip (ucast (ip_len ?p)) s =
        map_option (Pair b') (net_send_packet ops b' (of_nat ip + ucast (ip_len ?p)) s)"
      "length b' = length b" by blast
    have e: "of_nat ip + ucast (ip_len ?p) = (of_nat (ip + unat (ip_len ?p)) :: u32)"
      by simp
    have "unat (of_nat ip + ucast (ip_len ?p) :: u32) \<le> length b'"
      unfolding e using l b'(2) by (intro order_trans [OF unat_of_nat_le]) simp
    then obtain h where "net_send_packet ops b' (of_nat ip + ucast (ip_len ?p)) s = Some (s\<lparr>hw := h\<rparr>)"
      using net_send_packet_total [OF ops(1)] inv unfolding stack_inv_def by blast
    with b' inv show ?thesis by simp
  qed
  have udp: "\<exists>s'. run_rxhand ops (udp_packet_handler (net s)) c dport sip sport l s = Some s' \<and> stack_inv s'"
    for c dport sip sport l
    using inv by (intro run_rxhand_total [OF ops(2)]) (auto simp: stack_inv_def net_ready_def)
  show ?thesis
    using inv echo udp [of "drop (ip + 28) b" "ucast (ntohs (get16 b (ip + 22)))" "ip_src ?p"
        "ucast (ntohs (get16 b (ip + 20)))" "ucast (ntohs (get16 b (ip + 24))) - 8"]
    by (auto simp: receive_ip_eq [OF b] ping_receive_eq [OF b] Let_def)
qed

section \<open>Which frames reach a handler\<close>

lemma frame_header_rx [simp]:
  "frame_header (v\<lparr>net_rx_packet := p, net_rx_packet_len := l\<rparr>) b len = frame_header v b len"
  "vlan_matches (v\<lparr>net_rx_packet := p, net_rx_packet_len := l\<rparr>) vlanid = vlan_matches v vlanid"
  "ip_acceptable (v\<lparr>net_rx_packet := p, net_rx_packet_len := l\<rparr>) b ip len = ip_acceptable v b ip len"
  by (simp_all add: frame_header_def vlan_matches_def ip_acceptable_def)

text \<open>The frame carries \<open>proto\<close> and comes from the VLAN of the interface.\<close>

definition delivers :: "net_vars \<Rightarrow> bytes \<Rightarrow> u32 \<Rightarrow> u16 \<Rightarrow> bool" where
  "delivers v b len proto \<longleftrightarrow>
     (case frame_header v b len of Some (Some (p, _, _, vlanid)) \<Rightarrow> p = proto \<and> vlan_matches v vlanid
      | _ \<Rightarrow> False)"

definition rx_noted :: "u64 \<Rightarrow> u32 \<Rightarrow> 'h sys \<Rightarrow> 'h sys" where
  "rx_noted addr len = upd_net (\<lambda>v. v\<lparr>net_rx_packet := addr, net_rx_packet_len := len\<rparr>)"

lemma rx_noted_sel [sys_simps]:
  "eth (rx_noted p l s) = eth s" "net (rx_noted p l s) = (net s)\<lparr>net_rx_packet := p, net_rx_packet_len := l\<rparr>"
  "arp (rx_noted p l s) = arp s" "ping (rx_noted p l s) = ping s" "hw (rx_noted p l s) = hw s"
  "envs_of (rx_noted p l s) = envs_of s"
  by (simp_all add: rx_noted_def sys_simps)

lemma unat_scast: "unat (len :: u32) < 2 ^ 31 \<Longrightarrow> unat (scast len :: u64) = unat len"
proof -
  assume a: "unat len < 2 ^ 31"
  have "(scast len :: u64) = word_of_int (sint len)" by (rule scast_eq)
  also have "\<dots> = of_nat (unat len)" using sint_small [OF a] by simp
  finally show "unat (scast len :: u64) = unat len"
    using a by (simp add: unsigned_of_nat take_bit_nat_eq_self_iff)
qed

lemma long_enough: "14 \<le> unat (len :: u32) \<Longrightarrow> unat len < 2 ^ 31 \<Longrightarrow> \<not> (scast len :: u64) < 14"
  by (simp add: word_less_nat_alt unat_scast)

lemma process_eq:
  assumes "14 \<le> unat len" "unat len < 2 ^ 31" "64 \<le> length b"
  shows "net_process_received_packet ops addr b len s =
    (if delivers (net s) b len PROT_ARP then
       arp_receive ops b (link_hdr_size b) (len - of_nat (link_hdr_size b)) (rx_noted addr len s)
     else if delivers (net s) b len PROT_IP then
       receive_ip ops b (link_hdr_size b) (len - of_nat (link_hdr_size b)) (rx_noted addr len s)
     else Some (b, rx_noted addr len s))"
proof -
  have def: "frame_header (net s) b len \<noteq> None"
    using assms(3) by (auto simp: frame_header_def mem_simps Let_def)
  show ?thesis
  proof (cases "frame_header (net s) b len")
    case (Some hdr)
    show ?thesis
    proof (cases hdr)
      case None
      with Some long_enough [OF assms(1,2)] show ?thesis
        by (simp add: net_process_received_packet_def delivers_def sys_simps rx_noted_def)
    next
      case (Some f)
      obtain proto ip l vlanid where f: "f = (proto, ip, l, vlanid)" by (cases f)
      with Some \<open>frame_header (net s) b len = Some hdr\<close>
      have fh: "frame_header (net s) b len = Some (Some (proto, ip, l, vlanid))" by simp
      have l: "l = len - of_nat ip" by (rule frame_header_Some(1) [OF fh])
      have "proto = 1514 \<or> ip = link_hdr_size b"
      proof (cases "ntohs (get16 b 12) = 1514")
        case True
        with fh assms(3) show ?thesis by (simp add: frame_header_def mem_simps)
      qed (simp add: frame_header_Some(4) [OF fh])
      with l fh long_enough [OF assms(1,2)] show ?thesis
        by (auto simp: net_process_received_packet_def delivers_def sys_simps rx_noted_def Let_def)
    qed
  qed (simp add: def)
qed

section \<open>Echo requests and replies\<close>

text \<open>The frame carries an ICMP message of type \<open>type\<close> that the stack looks at.\<close>

definition carries_icmp :: "net_vars \<Rightarrow> bytes \<Rightarrow> u32 \<Rightarrow> u8 \<Rightarrow> bool" where
  "carries_icmp v b len type \<longleftrightarrow> (let ip = link_hdr_size b in
     delivers v b len PROT_IP \<and> ip_acceptable v b ip (len - of_nat ip) \<and>
     ip_p (read_ip b ip) = IPPROTO_ICMP \<and> get8 b (ip + 20) = type)"

lemma link_hdr_size_bounds: "14 \<le> link_hdr_size b" "link_hdr_size b \<le> 22"
  by (simp_all add: link_hdr_size_def Let_def)

lemma delivers_unique: "delivers v b len p \<Longrightarrow> delivers v b len q \<Longrightarrow> p = q"
  by (auto simp: delivers_def split: option.splits prod.splits)

lemma acceptable_long:
  assumes "ip_acceptable v b ip (len - of_nat ip)" "ip \<le> 22" "unat len < 2 ^ 31"
  shows "ip \<le> unat len"
proof -
  have "int (unat (ip_len (read_ip b ip))) \<le> sint (len - of_nat ip)"
    using assms(1) by (simp add: ip_acceptable_def Let_def)
  then have "0 \<le> sint (len - of_nat ip)" by linarith
  then show ?thesis using length_after_header(1) [OF assms(3,2)] by blast
qed

lemma process_ip:
  assumes "unat len < 2 ^ 31" "64 \<le> length b" "delivers (net s) b len PROT_IP"
    "ip_acceptable (net s) b (link_hdr_size b) (len - of_nat (link_hdr_size b))"
  shows "net_process_received_packet ops addr b len s =
    receive_ip ops b (link_hdr_size b) (len - of_nat (link_hdr_size b)) (rx_noted addr len s)"
proof -
  have "14 \<le> unat len"
    using acceptable_long [OF assms(4) link_hdr_size_bounds(2) assms(1)] link_hdr_size_bounds(1) [of b] by simp
  then show ?thesis
    using process_eq [OF _ assms(1,2), of ops addr s] assms(3) delivers_unique [of "net s" b len PROT_IP PROT_ARP] by auto
qed

lemma process_icmp:
  assumes "unat len < 2 ^ 31" "64 \<le> length b" "carries_icmp (net s) b len type" "type \<noteq> ICMP_REDIRECT"
  shows "net_process_received_packet ops addr b len s = (let ip = link_hdr_size b in
    ping_receive ops b ip (ucast (ip_len (read_ip b ip))) (rx_noted addr len s))"
proof -
  note c = assms(3) [unfolded carries_icmp_def Let_def]
  have b: "link_hdr_size b + 28 \<le> length b" using link_hdr_size_bounds(2) [of b] assms(2) by simp
  show ?thesis
    using process_ip [OF assms(1,2), of s ops addr] c assms(4)
    by (simp add: receive_ip_eq [OF b] sys_simps Let_def)
qed

lemma arp_receive_state:
  assumes "a + 28 \<le> length b" "arp_packet_handler (net s) = Some dummy_handler" "arp_receive ops b a len s = Some (b', s')"
  shows "net_state (net s') = net_state (net s)"
proof -
  have send: "net s2 = net s1" if "net_send_packet ops c l s1 = Some s2" for c l s1 s2
    using net_send_packet_hw [OF that] by (metis sys.select_convs(4) sys.surjective sys.update_convs(1))
  have answer: "net_state (net s2) = net_state (net s)" if "arp_answer ops b a s = Some (b2, s2)" for b2 s2
    using that by (auto simp: arp_answer_def bind_eq_Some_conv dest: send)
  have resolved: "net_state (net s2) = net_state (net s)" if "arp_resolved ops b a len s = Some s2" for s2
    using that assms(2)
    by (auto simp: arp_resolved_def bind_eq_Some_conv run_rxhand_def sys_simps split: if_splits option.splits
        dest!: send)
  show ?thesis using assms(3) by (auto simp: arp_receive_eq [OF assms(1)] answer resolved split: if_splits)
qed

lemma send_net: "net_send_packet ops c l s1 = Some s2 \<Longrightarrow> net s2 = net s1"
  using net_send_packet_hw by (metis sys.select_convs(4) sys.surjective sys.update_convs(1))

lemma echo_reply_net: "echo_reply ops b ip len s = Some (b', s') \<Longrightarrow> net s' = net s"
  by (auto simp: echo_reply_def bind_eq_Some_conv Let_def dest: send_net)

section \<open>UDP packets\<close>

lemma process_udp:
  assumes "unat len < 2 ^ 31" "64 \<le> length b" "delivers (net s) b len PROT_IP"
    and ip: "ip = link_hdr_size b" "ip_acceptable (net s) b ip (len - of_nat ip)" "ip_p (read_ip b ip) = IPPROTO_UDP"
  shows "net_process_received_packet ops addr b len s =
    map_option (Pair b) (run_rxhand ops (udp_packet_handler (net s)) (drop (ip + 28) b)
      (ucast (ntohs (get16 b (ip + 22)))) (ip_src (read_ip b ip)) (ucast (ntohs (get16 b (ip + 20))))
      (ucast (ntohs (get16 b (ip + 24))) - 8) (rx_noted addr len s))"
proof -
  have b: "ip + 28 \<le> length b" using link_hdr_size_bounds(2) [of b] assms(2) ip(1) by simp
  show ?thesis
    using process_ip [OF assms(1-3), of ops addr] ip
    by (simp add: receive_ip_eq [OF b [unfolded ip(1)]] sys_simps Let_def)
qed

section \<open>The test bench\<close>

lemma bench_net_fields [bench_simps]: "net_native_vlan bench_net = 0xFFFF" "net_state bench_net = NETLOOP_CONTINUE"
  by (simp_all add: bench_net_def net_vars_init_def)

lemma bench_inv: "stack_inv bench_sys"
  by (auto simp: stack_inv_def net_wf_def net_ready_def bench_simps bench_dev_def)

lemma bench_total: "send_total bench_ops" "clients_total bench_ops"
  by (simp_all add: send_total_def clients_total_def bench_simps bench_send_def)

lemma bench_echo_facts: "length bench_echo = 64" "link_hdr_size bench_echo = 14"
  by (simp_all add: bench_echo_def link_hdr_size_def get16_def ntohs_def swab16_def)

lemma bench_echo_ip: "ip_len (read_ip bench_echo 14) = 28" "ip_src (read_ip bench_echo 14) = 0x0364A8C0"
  by code_simp+

text \<open>The frame as a request, and as a reply.\<close>

definition bench_reply :: bytes where
  "bench_reply = bench_echo[34 := 0]"

lemma bench_header: "hl_v (read_ip bench_echo 14) = 0x45" "ip_off (read_ip bench_echo 14) = 0x4000"
  "ip_p (read_ip bench_echo 14) = 1" "ip_dst (read_ip bench_echo 14) = 0x1664A8C0"
  "ip_checksum_ok (drop 14 bench_echo) 20 = Some True" "ntohs (get16 bench_echo 12) = 0x800" "get8 bench_echo 34 = 8"
  by code_simp+

lemma bench_reply_facts: "length bench_reply = 64" "link_hdr_size bench_reply = 14"
  "read_ip bench_reply 14 = read_ip bench_echo 14" "ntohs (get16 bench_reply 12) = 0x800"
  "ip_checksum_ok (drop 14 bench_reply) 20 = Some True" "get8 bench_reply 34 = 0"
  by code_simp+

lemma bench_vlan: "ntohs 0xFFFF = 0xFFFF"
  by code_simp

lemma bench_icmp: "carries_icmp bench_net bench_echo 60 8" "carries_icmp bench_net bench_reply 60 0"
  by (simp_all add: carries_icmp_def delivers_def bench_echo_facts bench_header ip_acceptable_def bench_echo_ip
      frame_header_def mem_simps vlan_matches_def bench_simps bench_reply_facts bench_vlan)

text \<open>The request with a total length of 19 bytes, and a checksum that fits.\<close>

definition bench_short :: bytes where
  "bench_short = bench_echo[17 := 19, 25 := 0x7f]"

lemma bench_short_facts: "length bench_short = 64" "link_hdr_size bench_short = 14"
  "ip_len (read_ip bench_short 14) = 19" "hl_v (read_ip bench_short 14) = 0x45"
  "ip_off (read_ip bench_short 14) = 0x4000" "ip_p (read_ip bench_short 14) = 1"
  "ip_dst (read_ip bench_short 14) = 0x1664A8C0" "ntohs (get16 bench_short 12) = 0x800"
  "ip_checksum_ok (drop 14 bench_short) 20 = Some True" "get8 bench_short 34 = 8"
  by code_simp+

lemma bench_short_icmp: "carries_icmp bench_net bench_short 60 8"
  by (simp add: carries_icmp_def delivers_def bench_short_facts ip_acceptable_def
      frame_header_def mem_simps vlan_matches_def bench_simps bench_vlan)

section \<open>What a received frame does\<close>

text \<open>
  The stack stays inside its buffers on every frame: with a driver that can send and clients that
  return, processing is defined, keeps the invariant of the stack and the size of the buffer, for any
  bytes and any length the buffer holds, except an accepted IP packet shorter than its own header.
\<close>

lemma process_total:
  assumes ops: "send_total ops" "clients_total ops" and inv: "stack_inv s"
    and buf: "64 \<le> length b" "unat len \<le> length b" "unat len < 2 ^ 31"
    and long: "ip_acceptable (net s) b (link_hdr_size b) (len - of_nat (link_hdr_size b)) \<Longrightarrow>
      20 \<le> unat (ip_len (read_ip b (link_hdr_size b)))"
  shows "\<exists>b' s'. net_process_received_packet ops addr b len s = Some (b', s') \<and> stack_inv s' \<and>
    length b' = length b"
proof -
  let ?s = "upd_net (\<lambda>v. v\<lparr>net_rx_packet := addr, net_rx_packet_len := len\<rparr>) s"
  have inv': "stack_inv ?s" using inv by simp
  have "frame_header (net ?s) b len \<noteq> None"
    using buf(1) by (auto simp: frame_header_def mem_simps Let_def)
  then obtain hdr where hdr: "frame_header (net ?s) b len = Some hdr" by blast
  show ?thesis
  proof (cases "(scast len :: u64) < 14")
    case True
    then show ?thesis using inv' by (simp add: net_process_received_packet_def)
  next
    case False
    show ?thesis
    proof (cases hdr)
      case None
      with False hdr inv' show ?thesis by (simp add: net_process_received_packet_def)
    next
      case (Some f)
      obtain proto ip len' vlanid where f: "f = (proto, ip, len', vlanid)" by (cases f)
      have fh: "frame_header (net ?s) b len = Some (Some (proto, ip, len', vlanid))" using hdr Some f by simp
      have special: "proto = 1514 \<or> ip = link_hdr_size b"
      proof (cases "ntohs (get16 b 12) = 1514")
        case True
        with fh buf(1) show ?thesis by (simp add: frame_header_def mem_simps)
      qed (simp add: frame_header_Some(4) [OF fh])
      have l': "len' = len - of_nat ip" by (rule frame_header_Some(1) [OF fh])
      have "link_hdr_size b \<le> 22" by (simp add: link_hdr_size_def Let_def)
      then have b: "link_hdr_size b + 28 \<le> length b" using buf(1) by simp
      obtain ba sa where arp: "arp_receive ops b (link_hdr_size b) len' ?s = Some (ba, sa)" "stack_inv sa"
        "length ba = length b" using arp_receive_total [OF ops inv' b refl] by blast
      obtain bi si where ipr: "receive_ip ops b (link_hdr_size b) (len - of_nat (link_hdr_size b)) ?s = Some (bi, si)"
        "stack_inv si" "length bi = length b"
        using receive_ip_total [OF ops inv' refl _ buf(3,2)] long buf(1) by (auto simp: sys_simps ip_acceptable_def)
      show ?thesis
        using False fh special inv' arp ipr l' by (auto simp: net_process_received_packet_def Let_def)
    qed
  qed
qed

text \<open>
  C7: An echo request for us is answered in its own buffer with as many bytes as its IP packet has: source and
  destination exchanged, not fragmented, both checksums verifying, payload, link framing and VLAN kept.
\<close>

theorem echo_request_answered:
  assumes "unat len < 2 ^ 31" "64 \<le> length b" "unat len \<le> length b" "length (net_ethaddr (net s)) = 6"
    and req: "carries_icmp (net s) b len ICMP_ECHO_REQUEST" "20 \<le> unat (ip_len (read_ip b (link_hdr_size b)))"
  shows "\<exists>b'. let ip = link_hdr_size b; p = read_ip b ip in
    net_process_received_packet ops addr b len s =
      map_option (Pair b') (net_send_packet ops b' (of_nat ip + ucast (ip_len p)) (rx_noted addr len s)) \<and>
    ip + unat (ip_len p) \<le> unat len \<and> length b' = length b \<and> (\<forall>k \<ge> ip + 24. b' ! k = b ! k) \<and>
    (\<forall>k. 12 \<le> k \<and> k < ip - 2 \<longrightarrow> b' ! k = b ! k) \<and> ntohs (get16 b' (ip - 2)) = PROT_IP \<and>
    get_bytes b' 0 6 = get_bytes b 6 6 \<and> get_bytes b' 6 6 = net_ethaddr (net s) \<and>
    compute_ip_checksum (drop ip b') 20 = Some 0 \<and>
    (24 \<le> unat (ip_len p) \<longrightarrow> compute_ip_checksum (drop (ip + 20) b') (ucast (ip_len p) - 20) = Some 0) \<and>
    read_ip b' ip = p\<lparr>ip_off := 0, ip_src := net_ip (net s), ip_dst := ip_src p\<rparr> \<and>
    get8 b' (ip + 20) = ICMP_ECHO_REPLY \<and> get8 b' (ip + 21) = get8 b (ip + 21)"
proof -
  let ?ip = "link_hdr_size b"
  let ?p = "read_ip b ?ip"
  note c = req(1) [unfolded carries_icmp_def Let_def]
  have b: "?ip + 28 \<le> length b" using link_hdr_size_bounds(2) [of b] assms(2) by simp
  have l: "?ip + unat (ip_len ?p) \<le> unat len"
    using c ip_acceptable_length(1) [OF _ link_hdr_size_bounds(2) assms(1,3)] by blast
  have u: "unat (ucast (ip_len ?p) :: u32) = unat (ip_len ?p)" by (rule unat_ucast_up16)
  have "?ip + unat (ucast (ip_len ?p) :: u32) \<le> length b" "20 \<le> unat (ucast (ip_len ?p) :: u32)"
    "unat (ucast (ip_len ?p) :: u32) \<le> 65535" using l req(2) assms(3) by (simp_all only: u) simp_all
  note e = echo_reply_eq [OF refl b this, of "rx_noted addr len s" ops]
  have "net_process_received_packet ops addr b len s = echo_reply ops b ?ip (ucast (ip_len ?p)) (rx_noted addr len s)"
    using process_icmp [OF assms(1,2) req(1)] c by (simp add: ping_receive_eq [OF b] Let_def)
  with e assms(4) l show ?thesis by (simp add: sys_simps Let_def u)
qed

theorem echo_request_answered_witness:
  "\<exists>b'. let ip = link_hdr_size bench_echo; p = read_ip bench_echo ip in
    net_process_received_packet bench_ops 0 bench_echo (60 :: u32) bench_sys =
      map_option (Pair b') (net_send_packet bench_ops b' (of_nat ip + ucast (ip_len p)) (rx_noted 0 (60 :: u32) bench_sys)) \<and>
    ip + unat (ip_len p) \<le> unat (60 :: u32) \<and> length b' = length bench_echo \<and> (\<forall>k \<ge> ip + 24. b' ! k = bench_echo ! k) \<and>
    (\<forall>k. 12 \<le> k \<and> k < ip - 2 \<longrightarrow> b' ! k = bench_echo ! k) \<and> ntohs (get16 b' (ip - 2)) = PROT_IP \<and>
    get_bytes b' 0 6 = get_bytes bench_echo 6 6 \<and> get_bytes b' 6 6 = net_ethaddr (net bench_sys) \<and>
    compute_ip_checksum (drop ip b') 20 = Some 0 \<and>
    (24 \<le> unat (ip_len p) \<longrightarrow> compute_ip_checksum (drop (ip + 20) b') (ucast (ip_len p) - 20) = Some 0) \<and>
    read_ip b' ip = p\<lparr>ip_off := 0, ip_src := net_ip (net bench_sys), ip_dst := ip_src p\<rparr> \<and>
    get8 b' (ip + 20) = ICMP_ECHO_REPLY \<and> get8 b' (ip + 21) = get8 bench_echo (ip + 21)"
  by (rule echo_request_answered) (simp_all add: bench_simps bench_icmp bench_echo_facts bench_echo_ip)

text \<open>
  C19: An echo request whose IP total length is below 20 passes every test of the receive path, and then makes
  the checksum run over four gigabytes: the behaviour is undefined for any buffer that exists.
\<close>

theorem short_echo_request:
  assumes "unat len < 2 ^ 31" "64 \<le> length b" "length b < 2 ^ 32 - 64"
    and req: "carries_icmp (net s) b len ICMP_ECHO_REQUEST" "unat (ip_len (read_ip b (link_hdr_size b))) < 20"
  shows "net_process_received_packet ops addr b len s = None"
proof -
  let ?ip = "link_hdr_size b"
  have b: "?ip + 28 \<le> length b" using link_hdr_size_bounds(2) [of b] assms(2) by simp
  have "unat (ucast (ip_len (read_ip b ?ip)) :: u32) < 20" using req(2) by (simp only: unat_ucast_up16)
  then have "echo_reply ops b ?ip (ucast (ip_len (read_ip b ?ip))) (rx_noted addr len s) = None"
    by (rule echo_reply_short [OF _ assms(3)])
  then show ?thesis
    using process_icmp [OF assms(1,2) req(1)] req(1)
    by (simp add: ping_receive_eq [OF b] Let_def carries_icmp_def)
qed

theorem short_echo_request_witness:
  "net_process_received_packet bench_ops 0 bench_short 60 bench_sys = None"
  by (rule short_echo_request) (simp_all add: bench_simps bench_short_icmp bench_short_facts)

text \<open>
  C8: The main loop is told of success exactly when an ICMP echo reply, in an acceptable IP packet on our VLAN,
  comes from the address that is pinged; no other frame does it (neither identifier nor sequence number
  of the reply are looked at).
\<close>

theorem success_only_on_reply:
  assumes "unat len < 2 ^ 31" "64 \<le> length b" "net_state (net s) \<noteq> NETLOOP_SUCCESS"
    and quiet: "arp_packet_handler (net s) = Some dummy_handler" "udp_packet_handler (net s) = Some dummy_handler"
    and run: "net_process_received_packet ops addr b len s = Some (b', s')"
  shows "net_state (net s') = NETLOOP_SUCCESS \<longleftrightarrow>
    carries_icmp (net s) b len ICMP_ECHO_REPLY \<and> ip_src (read_ip b (link_hdr_size b)) = net_ping_ip (ping s)"
proof -
  let ?ip = "link_hdr_size b"
  have b: "?ip + 28 \<le> length b" using link_hdr_size_bounds(2) [of b] assms(2) by simp
  consider "unat len < 14" | "14 \<le> unat len" "delivers (net s) b len PROT_ARP"
    | "14 \<le> unat len" "\<not> delivers (net s) b len PROT_ARP" "delivers (net s) b len PROT_IP"
    | "14 \<le> unat len" "\<not> delivers (net s) b len PROT_ARP" "\<not> delivers (net s) b len PROT_IP" by linarith
  then show ?thesis
  proof cases
    case 1
    then have "\<not> ip_acceptable (net s) b ?ip (len - of_nat ?ip)"
      using acceptable_long [OF _ link_hdr_size_bounds(2) assms(1)] link_hdr_size_bounds(1) [of b] by force
    moreover have "net s' = (net s)\<lparr>net_rx_packet := addr, net_rx_packet_len := len\<rparr>"
    proof -
      have "(scast len :: u64) < 14" using 1 assms(1) by (simp add: word_less_nat_alt unat_scast)
      then show ?thesis using run by (auto simp: net_process_received_packet_def sys_simps)
    qed
    ultimately show ?thesis using assms(3) by (simp add: carries_icmp_def)
  next
    case 2
    then have "arp_receive ops b ?ip (len - of_nat ?ip) (rx_noted addr len s) = Some (b', s')"
      using run process_eq [OF 2(1) assms(1,2), of ops addr s] by simp
    from arp_receive_state [OF b _ this] quiet have "net_state (net s') = net_state (net s)" by (simp add: sys_simps)
    moreover have "\<not> delivers (net s) b len PROT_IP" using 2(2) delivers_unique [of "net s" b len PROT_IP PROT_ARP] by auto
    ultimately show ?thesis using assms(3) by (simp add: carries_icmp_def)
  next
    case 3
    then have "receive_ip ops b ?ip (len - of_nat ?ip) (rx_noted addr len s) = Some (b', s')"
      using run process_eq [OF 3(1) assms(1,2), of ops addr s] by simp
    with quiet assms(3) 3 show ?thesis
      by (auto simp: receive_ip_eq [OF b] ping_receive_eq [OF b] carries_icmp_def sys_simps Let_def run_rxhand_def
          split: if_splits dest: echo_reply_net)
  next
    case 4
    then show ?thesis
      using run process_eq [OF 4(1) assms(1,2), of ops addr s] assms(3) by (auto simp: carries_icmp_def sys_simps)
  qed
qed

theorem success_only_on_reply_witness:
  "\<exists>b' s'. net_process_received_packet bench_ops 0 bench_reply 60 bench_sys = Some (b', s') \<and>
    (net_state (net s') = NETLOOP_SUCCESS \<longleftrightarrow>
      carries_icmp (net bench_sys) bench_reply 60 ICMP_ECHO_REPLY \<and>
      ip_src (read_ip bench_reply (link_hdr_size bench_reply)) = net_ping_ip (ping bench_sys))"
proof -
  obtain b' s' where run: "net_process_received_packet bench_ops 0 bench_reply 60 bench_sys = Some (b', s')"
    using process_icmp [of 60 bench_reply bench_sys 0 bench_ops 0]
    by (simp add: bench_simps bench_icmp bench_reply_facts ping_receive_eq)
  from success_only_on_reply [OF _ _ _ _ _ run] show ?thesis
    by (simp add: run bench_simps bench_reply_facts)
qed

end
