(* ===== verification/Exchange.thy ===== *)
theory Exchange
  imports Receive
begin

text \<open>
  Two stacks on one wire: what one of them sends, the other receives. The link header that
  \<^verbatim>\<open>net_set_ether\<close> writes is the one \<^verbatim>\<open>net_process_received_packet\<close> reads, a UDP packet reaches the
  handler of the receiver, and an echo request comes back as the reply the sender waits for.
\<close>

section \<open>The link header\<close>

text \<open>The VLAN that frames without a tag belong to.\<close>

definition native_vlan :: "net_vars \<Rightarrow> u16" where
  "native_vlan v = (if ntohs (net_native_vlan v) = -1 then VLAN_NONE else ntohs (net_native_vlan v)) AND VLAN_IDMASK"

lemma vlan_matches_eq: "vlan_matches v vlanid \<longleftrightarrow> my_vlan v = VLAN_NONE \<or>
    (if vlanid = VLAN_NONE then native_vlan v else vlanid) = my_vlan v"
  by (simp add: vlan_matches_def my_vlan_def native_vlan_def Let_def)

text \<open>Which of two interfaces hears the other.\<close>

definition hears :: "net_vars \<Rightarrow> net_vars \<Rightarrow> bool" where
  "hears v w \<longleftrightarrow> (if my_vlan w = VLAN_NONE then my_vlan v = VLAN_NONE \<or> native_vlan v = my_vlan v
     else my_vlan v = my_vlan w)"

lemma my_vlan_masked: "my_vlan v AND VLAN_IDMASK = my_vlan v"
  by (simp add: my_vlan_def and.assoc)

lemma frame_header_sent:
  assumes "22 \<le> length b" "h = net_eth_hdr_size w" "prot > 1514" "prot \<noteq> PROT_VLAN"
    and hdr: "ntohs (get16 b 12) = (if my_vlan w = VLAN_NONE then prot else PROT_VLAN)"
      "my_vlan w \<noteq> VLAN_NONE \<longrightarrow> ntohs (get16 b 14) = my_vlan w \<and> ntohs (get16 b 16) = prot"
    and len: "18 \<le> unat len" "unat len < 2 ^ 31"
  shows "frame_header v b len = Some (if my_vlan w \<noteq> VLAN_NONE \<and> my_vlan v = VLAN_NONE then None
    else Some (prot, h, len - of_nat h, my_vlan w))"
proof -
  have l: "\<not> (scast len :: u64) < 18" using len by (simp add: word_less_nat_alt unat_scast)
  show ?thesis
  proof (cases "my_vlan w = VLAN_NONE")
    case True
    then show ?thesis using assms by (simp add: frame_header_def mem_simps net_eth_hdr_size_eq)
  next
    case False
    then show ?thesis using assms l
      by (simp add: frame_header_def mem_simps net_eth_hdr_size_eq my_vlan_masked flip: my_vlan_none)
  qed
qed

lemma delivers_sent:
  assumes "22 \<le> length b" "prot > 1514" "prot \<noteq> PROT_VLAN"
    and hdr: "ntohs (get16 b 12) = (if my_vlan w = VLAN_NONE then prot else PROT_VLAN)"
      "my_vlan w \<noteq> VLAN_NONE \<longrightarrow> ntohs (get16 b 14) = my_vlan w \<and> ntohs (get16 b 16) = prot"
    and len: "18 \<le> unat len" "unat len < 2 ^ 31"
  shows "delivers v b len prot \<longleftrightarrow> hears v w" "link_hdr_size b = net_eth_hdr_size w"
proof -
  show "delivers v b len prot \<longleftrightarrow> hears v w"
    using frame_header_sent [OF assms(1) refl assms(2-7), of v]
    by (auto simp: delivers_def hears_def vlan_matches_eq)
  show "link_hdr_size b = net_eth_hdr_size w"
    using assms(2-5) by (auto simp: link_hdr_size_def net_eth_hdr_size_eq Let_def)
qed

text \<open>
  C10: The link header a stack writes is the one it reads: a frame is delivered with its protocol exactly when
  receiver and sender are on the same VLAN, where a frame without a tag belongs to the native VLAN of a
  tagged receiver.
\<close>

theorem link_delivery:
  assumes "22 \<le> length b" "length dest = 6" "length (net_ethaddr w) = 6" "prot > 1514" "prot \<noteq> PROT_VLAN"
    and sent: "net_set_ether w b 0 dest prot = Some (b', h)" and len: "18 \<le> unat len" "unat len < 2 ^ 31"
  shows "delivers v b' len prot \<longleftrightarrow> hears v w"
proof -
  have "0 + net_eth_hdr_size w \<le> length b" using assms(1) by (simp add: net_eth_hdr_size_eq)
  from net_set_ether_eq [OF this assms(2,3), of prot] sent
  have hdr: "same_outside_window b b' 0 (net_eth_hdr_size w)"
    "ntohs (get16 b' 12) = (if my_vlan w = VLAN_NONE then prot else PROT_VLAN)"
    "my_vlan w \<noteq> VLAN_NONE \<longrightarrow> ntohs (get16 b' 14) = my_vlan w \<and> ntohs (get16 b' 16) = prot" by auto
  have "22 \<le> length b'" using assms(1) same_outside_window_length [OF hdr(1)] by simp
  from delivers_sent(1) [OF this assms(4,5) hdr(2,3) len] show ?thesis .
qed

theorem link_delivery_witness:
  "\<exists>b' h. net_set_ether bench_net (replicate 22 0) 0 net_bcast_ethaddr PROT_IP = Some (b', h) \<and>
    (delivers bench_net b' 42 PROT_IP \<longleftrightarrow> hears bench_net bench_net)"
proof -
  have l: "0 + net_eth_hdr_size bench_net \<le> length (replicate 22 (0 :: u8))" by (simp add: net_eth_hdr_size_eq)
  have m: "length net_bcast_ethaddr = 6" "length (net_ethaddr bench_net) = 6"
    by (simp_all add: net_bcast_ethaddr_def bench_simps)
  from net_set_ether_eq [OF l m, of PROT_IP] obtain b' where
    sent: "net_set_ether bench_net (replicate 22 0) 0 net_bcast_ethaddr PROT_IP = Some (b', net_eth_hdr_size bench_net)" by blast
  with link_delivery [OF _ m _ _ sent, of 42 bench_net] show ?thesis by auto
qed

section \<open>UDP\<close>

lemma acceptable_sent:
  assumes "unat l < 2 ^ 31" "28 \<le> unat l" "unat (ip_len (read_ip b ip)) \<le> unat l"
    "hl_v (read_ip b ip) = 0x45" "ip_off (read_ip b ip) = 0x4000 \<or> ip_off (read_ip b ip) = 0"
    "compute_ip_checksum (drop ip b) 20 = Some 0"
    "net_ip v = 0 \<or> ip_dst (read_ip b ip) = net_ip v \<or> ip_dst (read_ip b ip) = 0xFFFFFFFF"
  shows "ip_acceptable v b ip l"
proof -
  have "int (unat (ip_len (read_ip b ip))) \<le> sint l" using assms(3) sint_small [OF assms(1)] by linarith
  moreover have "\<not> (scast l :: u64) < 28" using assms(1,2) by (simp add: word_less_nat_alt unat_scast)
  ultimately show ?thesis
    using assms(4-7) verifies_ok by (auto simp: ip_acceptable_def Let_def simp del: of_nat_unat)
qed

lemma unat_of_nat_small: "n < 2 ^ 32 \<Longrightarrow> unat (of_nat n :: u32) = n"
  by (simp add: unsigned_of_nat take_bit_nat_eq_self_iff)

lemma unat_frame_length: "h \<le> 18 \<Longrightarrow> unat n \<le> 65507 \<Longrightarrow> unat (of_nat (h + 28) + n :: u32) = h + 28 + unat n"
proof -
  assume a: "h \<le> 18" "unat n \<le> 65507"
  have "(of_nat (h + 28) + n :: u32) = of_nat (h + 28 + unat n)" by simp
  moreover have "h + 28 + unat n < 2 ^ 32" using a by simp
  ultimately show "unat (of_nat (h + 28) + n) = h + 28 + unat n" by (simp only: unat_of_nat_small)
qed

lemma unat_ucast_small: "unat (x :: u32) < 65536 \<Longrightarrow> unat (ucast x :: u16) = unat x"
  by (simp add: unsigned_ucast_eq take_bit_nat_eq_self_iff)

text \<open>
  C9: A UDP packet sent on one stack reaches the handler of the other: with the ports, the address of the sender
  and the length it was sent with, the payload unchanged, for every payload up to 65507 bytes.
\<close>

theorem udp_delivered:
  assumes b: "64 \<le> length b" "h + 28 + unat n + unat n mod 2 \<le> length b" "unat n \<le> 65507"
    and mac: "length mac = 6" "length (net_ethaddr w) = 6"
    and sent: "net_set_ether w b 0 mac PROT_IP = Some (b1, h)"
      "net_set_udp_header w b1 h dest dport sport n = Some (b2, w')"
    and rx: "hears (net s) w" "net_ip (net s) = 0 \<or> dest = net_ip (net s) \<or> dest = 0xFFFFFFFF"
  shows "net_process_received_packet ops addr b2 (of_nat (h + 28) + n) s =
      map_option (Pair b2) (run_rxhand ops (udp_packet_handler (net s)) (drop (h + 28) b2)
        (ucast (ucast dport :: u16)) (net_ip w) (ucast (ucast sport :: u16)) n (rx_noted addr (of_nat (h + 28) + n) s)) \<and>
    (\<forall>k. h + 28 \<le> k \<and> k < h + 28 + unat n \<longrightarrow> b2 ! k = b ! k)"
proof -
  let ?len = "of_nat (h + 28) + n :: u32"
  have "0 + net_eth_hdr_size w \<le> length b" using b(1) by (simp add: net_eth_hdr_size_eq)
  from net_set_ether_eq [OF this mac, of PROT_IP] sent(1)
  have hdr: "h = net_eth_hdr_size w" "same_outside_window b b1 0 h"
    "ntohs (get16 b1 12) = (if my_vlan w = VLAN_NONE then PROT_IP else PROT_VLAN)"
    "my_vlan w \<noteq> VLAN_NONE \<longrightarrow> ntohs (get16 b1 14) = my_vlan w \<and> ntohs (get16 b1 16) = PROT_IP" by auto
  have h: "h = 14 \<or> h = 18" using hdr(1) by (simp add: net_eth_hdr_size_eq)
  have l1: "length b1 = length b" using same_outside_window_length [OF hdr(2)] .
  have inb: "h + 28 + unat n + unat n mod 2 \<le> length b1" using b(2) l1 by simp
  from net_set_udp_header_eq [OF b(3) inb, of w dest dport sport] sent(2)
  have o2: "length b2 = length b1" "\<forall>k. k < h \<or> h + 28 \<le> k \<and> k \<noteq> h + 28 + unat n \<longrightarrow> b2 ! k = b1 ! k"
    and c2: "compute_ip_checksum (drop h b2) 20 = Some 0"
    and r2: "read_ip b2 h = \<lparr>hl_v = 0x45, tos = 0, ip_len = ucast (28 + n), ip_id = ucast (net_ip_id w),
      ip_off = 0x4000, ip_ttl = 255, ip_p = 17, ip_src = net_ip w, ip_dst = dest\<rparr>"
      "ntohs (get16 b2 (h + 20)) = ucast sport" "ntohs (get16 b2 (h + 22)) = ucast dport"
      "ntohs (get16 b2 (h + 24)) = ucast (8 + n)" by auto
  have g: "get16 b2 12 = get16 b1 12" "h = 18 \<longrightarrow> get16 b2 14 = get16 b1 14 \<and> get16 b2 16 = get16 b1 16"
    using o2(2) h by (auto simp: get16_def)
  have ulen: "unat ?len = h + 28 + unat n" using h b(3) by (intro unat_frame_length) auto
  have long: "unat ?len < 2 ^ 31" "18 \<le> unat ?len" unfolding ulen using b(3) h by auto
  have l2: "64 \<le> length b2" "22 \<le> length b2" using b(1) l1 o2(1) by simp_all
  have v: "my_vlan w \<noteq> VLAN_NONE \<longrightarrow> h = 18" using hdr(1) by (simp add: net_eth_hdr_size_eq)
  have del: "delivers (net s) b2 ?len PROT_IP" "link_hdr_size b2 = h"
    using delivers_sent(1) [OF l2(2), where prot = PROT_IP and w = w and len = ?len and v = "net s"]
      delivers_sent(2) [OF l2(2), where prot = PROT_IP and w = w and len = ?len] hdr g v long rx(1) by auto
  have u28: "unat (28 + n) = 28 + unat n" "unat (8 + n) = 8 + unat n"
    using b(3) by (simp_all add: unat_add_lem [THEN iffD1])
  have sub: "?len - of_nat h = 28 + n" by simp
  have acc: "ip_acceptable (net s) b2 h (?len - of_nat h)"
    unfolding sub using c2 r2(1) rx(2) u28 b(3) by (intro acceptable_sent) (auto simp: unat_ucast_small)
  have "(ucast (ucast (8 + n) :: u16) :: u32) = 8 + n"
    using u28(2) b(3) by (intro word_unat_eq_iff [THEN iffD2]) (simp add: unat_ucast_up16 unat_ucast_small)
  then have "(ucast (ucast (8 + n) :: u16) :: u32) - 8 = n" by simp
  with process_udp [OF long(1) l2(1) del(1) del(2) [symmetric] acc, of ops addr] r2
  have "net_process_received_packet ops addr b2 ?len s =
      map_option (Pair b2) (run_rxhand ops (udp_packet_handler (net s)) (drop (h + 28) b2)
        (ucast (ucast dport :: u16)) (net_ip w) (ucast (ucast sport :: u16)) n (rx_noted addr ?len s))" by simp
  moreover have "\<forall>k. h + 28 \<le> k \<and> k < h + 28 + unat n \<longrightarrow> b2 ! k = b ! k"
    using o2(2) hdr(2) by (auto simp: same_outside_window_def)
  ultimately show ?thesis by blast
qed

lemma bench_hears: "hears bench_net bench_net"
  by (simp add: hears_def my_vlan_def bench_simps bench_vlan)

lemma bench_ether:
  obtains b1 where "net_set_ether bench_net (replicate 64 0) 0 [10, 11, 12, 13, 14, 15] PROT_IP = Some (b1, 14)"
    "length b1 = 64"
proof -
  have h: "net_eth_hdr_size bench_net = 14" by (simp add: net_eth_hdr_size_eq my_vlan_def bench_simps bench_vlan)
  then have "0 + net_eth_hdr_size bench_net \<le> length (replicate 64 (0 :: u8))" by simp
  from net_set_ether_eq [OF this, of "[10, 11, 12, 13, 14, 15]" PROT_IP] h that show thesis
    by (auto simp: bench_simps same_outside_window_def)
qed

theorem udp_delivered_witness:
  "\<exists>b1 b2 w'. net_set_udp_header bench_net b1 14 0x1664A8C0 69 1024 5 = Some (b2, w') \<and>
    net_process_received_packet bench_ops 0 b2 (of_nat (14 + 28) + 5) bench_sys =
      map_option (Pair b2) (run_rxhand bench_ops (udp_packet_handler (net bench_sys)) (drop (14 + 28) b2)
        (ucast (ucast (69 :: u32) :: u16)) (net_ip bench_net) (ucast (ucast (1024 :: u32) :: u16)) 5
        (rx_noted 0 (of_nat (14 + 28) + 5) bench_sys)) \<and>
    (\<forall>k. 14 + 28 \<le> k \<and> k < 14 + 28 + unat (5 :: u32) \<longrightarrow> b2 ! k = replicate 64 0 ! k)"
proof -
  obtain b1 where b1: "net_set_ether bench_net (replicate 64 0) 0 [10, 11, 12, 13, 14, 15] PROT_IP = Some (b1, 14)"
    "length b1 = 64" by (rule bench_ether)
  obtain b2 w' where b2: "net_set_udp_header bench_net b1 14 0x1664A8C0 69 1024 5 = Some (b2, w')"
    using net_set_udp_header_eq [where len = 5 and ip = 14 and b = b1 and v = bench_net and dest = "0x1664A8C0"
      and dport = 69 and sport = 1024] b1(2) by auto
  from udp_delivered [OF _ _ _ _ _ b1(1) b2, where s = bench_sys and ops = bench_ops and addr = 0] b2 show ?thesis
    by (force simp: bench_simps bench_hears)
qed

section \<open>Ping\<close>

lemma carries_icmp_sent:
  assumes "64 \<le> length b" "h = net_eth_hdr_size w"
    and hdr: "ntohs (get16 b 12) = (if my_vlan w = VLAN_NONE then PROT_IP else PROT_VLAN)"
      "my_vlan w \<noteq> VLAN_NONE \<longrightarrow> ntohs (get16 b 14) = my_vlan w \<and> ntohs (get16 b 16) = PROT_IP"
    and ip: "compute_ip_checksum (drop h b) 20 = Some 0" "hl_v (read_ip b h) = 0x45" "ip_len (read_ip b h) = 28"
      "ip_off (read_ip b h) = 0x4000 \<or> ip_off (read_ip b h) = 0" "ip_p (read_ip b h) = IPPROTO_ICMP"
      "ip_dst (read_ip b h) = net_ip v" "hears v w"
  shows "carries_icmp v b (of_nat (h + 28)) (get8 b (h + 20))" "link_hdr_size b = h"
proof -
  let ?len = "of_nat (h + 28) :: u32"
  have h: "h \<le> 18" using assms(2) by (simp add: net_eth_hdr_size_eq)
  then have ulen: "unat ?len = h + 28" by (intro unat_of_nat_small) simp
  have long: "unat ?len < 2 ^ 31" "18 \<le> unat ?len" unfolding ulen using h by auto
  have l: "22 \<le> length b" using assms(1) by simp
  have del: "delivers v b ?len PROT_IP" "link_hdr_size b = h"
    using delivers_sent(1) [OF l, where prot = PROT_IP and w = w and len = ?len and v = v]
      delivers_sent(2) [OF l, where prot = PROT_IP and w = w and len = ?len] hdr long ip(7) assms(2) by auto
  have sub: "?len - of_nat h = 28" by simp
  have "ip_acceptable v b h (?len - of_nat h)"
    unfolding sub using ip by (intro acceptable_sent) auto
  with del ip(5) show "carries_icmp v b ?len (get8 b (h + 20))" by (simp add: carries_icmp_def)
  show "link_hdr_size b = h" by (rule del(2))
qed

text \<open>
  C2: Two stacks of this code ping each other: the echo request of one is answered by the other, and the answer,
  received, ends the loop of the first with success.
\<close>

theorem ping_exchange:
  assumes b: "64 \<le> length b" and mac: "length mac = 6" "length (net_ethaddr w) = 6"
    and sent: "net_set_ether w b 0 mac PROT_IP = Some (b1, h)" "set_icmp_header w p b1 h dest = Some (b2, w', p')"
    and peer: "hears (net peer) w" "net_ip (net peer) = dest" "length (net_ethaddr (net peer)) = 6"
    and host: "net_ip (net host) = net_ip w" "my_vlan (net host) = my_vlan w" "net_ping_ip (ping host) = dest"
  shows "\<exists>b3. net_process_received_packet ops addr b2 (of_nat (h + 28)) peer =
      map_option (Pair b3) (net_send_packet ops b3 (of_nat (h + 28)) (rx_noted addr (of_nat (h + 28)) peer)) \<and>
    net_process_received_packet ops' addr' b3 (of_nat (h + 28)) host =
      Some (b3, net_set_state NETLOOP_SUCCESS (rx_noted addr' (of_nat (h + 28)) host))"
proof -
  let ?len = "of_nat (h + 28) :: u32"
  have "0 + net_eth_hdr_size w \<le> length b" using b by (simp add: net_eth_hdr_size_eq)
  from net_set_ether_eq [OF this mac, of PROT_IP] sent(1)
  have hdr: "h = net_eth_hdr_size w" "same_outside_window b b1 0 h"
    "ntohs (get16 b1 12) = (if my_vlan w = VLAN_NONE then PROT_IP else PROT_VLAN)"
    "my_vlan w \<noteq> VLAN_NONE \<longrightarrow> ntohs (get16 b1 14) = my_vlan w \<and> ntohs (get16 b1 16) = PROT_IP" by auto
  have h: "h = 14 \<or> h = 18" and v: "my_vlan w \<noteq> VLAN_NONE \<longrightarrow> h = 18"
    using hdr(1) by (simp_all add: net_eth_hdr_size_eq)
  have l1: "length b1 = length b" using same_outside_window_length [OF hdr(2)] .
  have inb: "h + 28 \<le> length b1" using b l1 h by auto
  from set_icmp_header_eq [OF inb, of w p dest] sent(2)
  have o2: "same_outside_window b1 b2 h (h + 28)" and c2: "compute_ip_checksum (drop h b2) 20 = Some 0"
    and r2: "read_ip b2 h = \<lparr>hl_v = 0x45, tos = 0, ip_len = 28, ip_id = ucast (net_ip_id w), ip_off = 0x4000,
      ip_ttl = 255, ip_p = IPPROTO_ICMP, ip_src = net_ip w, ip_dst = dest\<rparr>"
      "get8 b2 (h + 20) = ICMP_ECHO_REQUEST" by (auto simp: read_icmp_def)
  have l2: "64 \<le> length b2" using same_outside_window_length [OF o2] l1 b by simp
  have g2: "get16 b2 12 = get16 b1 12" "h = 18 \<longrightarrow> get16 b2 14 = get16 b1 14 \<and> get16 b2 16 = get16 b1 16"
    using o2 h by (auto simp: get16_def same_outside_window_def)
  have req: "carries_icmp (net peer) b2 ?len ICMP_ECHO_REQUEST" "link_hdr_size b2 = h"
    using carries_icmp_sent [OF l2 hdr(1), of "net peer"] hdr(3,4) g2 v c2 r2 peer(1,2) by auto
  have "h + 28 < 2 ^ 32" using h by auto
  then have ulen: "unat ?len = h + 28" by (rule unat_of_nat_small)
  have long: "unat ?len < 2 ^ 31" "unat ?len \<le> length b2" unfolding ulen using h l2 by auto
  have e: "of_nat h + ucast (28 :: u16) = ?len" by simp
  from echo_request_answered [OF long(1) l2 long(2) peer(3) req(1), of ops addr] r2(1)
  obtain b3 where b3: "net_process_received_packet ops addr b2 ?len peer =
      map_option (Pair b3) (net_send_packet ops b3 ?len (rx_noted addr ?len peer))"
    and l3: "length b3 = length b2" and k3: "\<forall>k. 12 \<le> k \<and> k < h - 2 \<longrightarrow> b3 ! k = b2 ! k"
      "ntohs (get16 b3 (h - 2)) = PROT_IP"
    and c3: "compute_ip_checksum (drop h b3) 20 = Some 0"
    and r3: "read_ip b3 h = (read_ip b2 h)\<lparr>ip_off := 0, ip_src := net_ip (net peer), ip_dst := ip_src (read_ip b2 h)\<rparr>"
      "get8 b3 (h + 20) = ICMP_ECHO_REPLY"
    unfolding req(2) Let_def e by auto
  have g3: "ntohs (get16 b3 12) = ntohs (get16 b1 12)"
    "h = 18 \<longrightarrow> get16 b3 14 = get16 b1 14 \<and> ntohs (get16 b3 16) = PROT_IP"
    using h k3 g2 hdr(1,3) by (auto simp: get16_def net_eth_hdr_size_eq split: if_splits)
  have l3': "64 \<le> length b3" using l2 l3 by simp
  have same: "hears (net host) w" using host(2) by (simp add: hears_def)
  have rep: "carries_icmp (net host) b3 ?len ICMP_ECHO_REPLY" "link_hdr_size b3 = h"
    using carries_icmp_sent [OF l3' hdr(1), of "net host"] hdr(3,4) g3 v c3 r3 r2(1) host(1) same by auto
  have "h + 28 \<le> length b3" using l3' h by auto
  with process_icmp [OF long(1) l3' rep(1), of ops' addr'] rep(2) r3 peer(2) host(3)
  have "net_process_received_packet ops' addr' b3 ?len host =
      Some (b3, net_set_state NETLOOP_SUCCESS (rx_noted addr' ?len host))"
    by (simp add: ping_receive_eq sys_simps Let_def)
  with b3 show ?thesis by blast
qed

theorem ping_exchange_witness:
  "\<exists>b2 b3. net_process_received_packet bench_ops 0 b2 (of_nat (14 + 28)) bench_sys =
      map_option (Pair b3) (net_send_packet bench_ops b3 (of_nat (14 + 28)) (rx_noted 0 (of_nat (14 + 28)) bench_sys)) \<and>
    net_process_received_packet bench_ops 0 b3 (of_nat (14 + 28)) (bench_sys\<lparr>ping := \<lparr>ping_seq_number = 1, net_ping_ip = 0x1664A8C0\<rparr>\<rparr>) =
      Some (b3, net_set_state NETLOOP_SUCCESS (rx_noted 0 (of_nat (14 + 28))
        (bench_sys\<lparr>ping := \<lparr>ping_seq_number = 1, net_ping_ip = 0x1664A8C0\<rparr>\<rparr>)))"
proof -
  obtain b1 where b1: "net_set_ether bench_net (replicate 64 0) 0 [10, 11, 12, 13, 14, 15] PROT_IP = Some (b1, 14)"
    "length b1 = 64" by (rule bench_ether)
  obtain b2 w' p' where b2: "set_icmp_header bench_net (ping bench_sys) b1 14 0x1664A8C0 = Some (b2, w', p')"
    using set_icmp_header_eq [where ip = 14 and b = b1 and v = bench_net and p = "ping bench_sys"
      and dest = "0x1664A8C0"] b1(2) by auto
  from ping_exchange [OF _ _ _ b1(1) b2, where peer = bench_sys and ops = bench_ops and ops' = bench_ops and addr = 0 and addr' = 0
      and host = "bench_sys\<lparr>ping := \<lparr>ping_seq_number = 1, net_ping_ip = 0x1664A8C0\<rparr>\<rparr>"]
  show ?thesis by (auto simp: bench_simps bench_hears)
qed

end
