(* ===== verification/Loop.thy ===== *)
theory Loop
  imports Receive
begin

text \<open>
  The main loop during a ping: the invariant of its states, when it reports the host alive, and
  what the retry logic makes of a failure.
\<close>

section \<open>The invariant of a ping\<close>

text \<open>No client is registered, retries are off, and \<open>ip\<close> is the address to be reached.\<close>

definition pinging :: "u32 \<Rightarrow> 'h sys \<Rightarrow> bool" where
  "pinging ip s \<longleftrightarrow> udp_packet_handler (net s) = Some dummy_handler \<and>
     arp_packet_handler (net s) = Some dummy_handler \<and>
     time_handler (net s) \<in> {None, Some ping_timeout_handler} \<and>
     retry_limit (envs_of s) = Some (False, 0) \<and> net_try_count (net s) = 1 \<and> net_ping_ip (ping s) = ip"

text \<open>Two states that agree on what the loop decides by.\<close>

definition same_ping :: "'h sys \<Rightarrow> 'h sys \<Rightarrow> bool" where
  "same_ping s s' \<longleftrightarrow> envs_of s' = envs_of s \<and> net_ping_ip (ping s') = net_ping_ip (ping s) \<and>
     udp_packet_handler (net s') = udp_packet_handler (net s) \<and>
     arp_packet_handler (net s') = arp_packet_handler (net s) \<and> time_handler (net s') = time_handler (net s) \<and>
     net_try_count (net s') = net_try_count (net s) \<and> net_state (net s') = net_state (net s)"

lemma same_ping_refl [simp]: "same_ping s s"
  by (simp add: same_ping_def)

lemma same_ping_trans: "same_ping s s1 \<Longrightarrow> same_ping s1 s2 \<Longrightarrow> same_ping s s2"
  by (simp add: same_ping_def)

lemma same_ping_pinging: "same_ping s s' \<Longrightarrow> pinging ip s' = pinging ip s"
  by (simp add: same_ping_def pinging_def)

lemma same_ping_upd [simp]:
  "same_ping s (s1\<lparr>hw := h\<rparr>) = same_ping s s1" "same_ping s (upd_arp f s1) = same_ping s s1"
  "same_ping s (rx_noted p l s1) = same_ping s s1" "same_ping s (put_dev a d s1) = same_ping s s1"
  "same_ping (upd_arp f s) s1 = same_ping s s1" "same_ping (rx_noted p l s) s1 = same_ping s s1"
  by (simp_all add: same_ping_def sys_simps)

lemma send_same_ping: "net_send_packet ops c l s1 = Some s2 \<Longrightarrow> same_ping s1 s2"
  using net_send_packet_hw [of ops c l s1 s2] by (metis same_ping_refl same_ping_upd(1))

lemma now_same_ping: "now ops s = (t, s1) \<Longrightarrow> same_ping s s1"
  using now_eq by (metis same_ping_refl same_ping_upd(1))

lemma arp_raw_request_same_ping: "arp_raw_request ops source target ip s = Some s' \<Longrightarrow> same_ping s s'"
  by (auto simp: arp_raw_request_def bind_eq_Some_conv Let_def dest!: send_same_ping)

lemma arp_request_same_ping: "arp_request ops s = Some s' \<Longrightarrow> same_ping s s'"
  by (auto simp: arp_request_eq Let_def dest!: arp_raw_request_same_ping)

lemma arp_receive_same_ping:
  assumes "a + 28 \<le> length b" "arp_packet_handler (net s) = Some dummy_handler" "arp_receive ops b a len s = Some (b', s')"
  shows "same_ping s s'"
proof -
  have answer: "same_ping s s2" if "arp_answer ops b a s = Some (b2, s2)" for b2 s2
    using that by (auto simp: arp_answer_def bind_eq_Some_conv dest: send_same_ping)
  have resolved: "same_ping s s2" if "arp_resolved ops b a len s = Some s2" for s2
    using that assms(2)
    by (auto simp: arp_resolved_def bind_eq_Some_conv run_rxhand_def sys_simps split: if_splits option.splits
        dest!: send_same_ping) (simp_all add: same_ping_def sys_simps)
  show ?thesis using assms(3) by (auto simp: arp_receive_eq [OF assms(1)] answer resolved split: if_splits)
qed

text \<open>A frame that is an echo reply from \<open>ip\<close>.\<close>

definition echo_reply_from :: "u32 \<Rightarrow> bytes \<Rightarrow> bool" where
  "echo_reply_from ip b \<longleftrightarrow> (let p = read_ip b (link_hdr_size b) in
     ip_p p = IPPROTO_ICMP \<and> ip_src p = ip \<and> get8 b (link_hdr_size b + 20) = ICMP_ECHO_REPLY)"

lemma echo_reply_same_ping: "echo_reply ops b ip len s = Some (b', s') \<Longrightarrow> same_ping s s'"
  by (auto simp: echo_reply_def bind_eq_Some_conv Let_def dest: send_same_ping)

lemma receive_ip_same_ping:
  assumes "ip + 28 \<le> length b" "ip = link_hdr_size b" "udp_packet_handler (net s) = Some dummy_handler"
    "\<not> echo_reply_from (net_ping_ip (ping s)) b" "receive_ip ops b ip len s = Some (b', s')"
  shows "same_ping s s'"
  using assms
  by (auto simp: receive_ip_eq ping_receive_eq run_rxhand_def echo_reply_from_def Let_def split: if_splits
      dest: echo_reply_same_ping)

lemma process_same_ping:
  assumes "unat len < 2 ^ 31" "64 \<le> length b" "pinging ip s" "\<not> echo_reply_from ip b"
    and run: "net_process_received_packet ops addr b len s = Some (b', s')"
  shows "same_ping s s'"
proof -
  let ?ip = "link_hdr_size b"
  have b: "?ip + 28 \<le> length b" using link_hdr_size_bounds(2) [of b] assms(2) by simp
  have quiet: "arp_packet_handler (net (rx_noted addr len s)) = Some dummy_handler"
    "udp_packet_handler (net (rx_noted addr len s)) = Some dummy_handler"
    "net_ping_ip (ping (rx_noted addr len s)) = ip"
    using assms(3) by (simp_all add: pinging_def sys_simps)
  show ?thesis
  proof (cases "unat len < 14")
    case True
    then have "(scast len :: u64) < 14" using assms(1) by (simp add: word_less_nat_alt unat_scast)
    then show ?thesis using run by (auto simp: net_process_received_packet_def simp flip: rx_noted_def)
  next
    case False
    then have "14 \<le> unat len" by simp
    note e = process_eq [OF this assms(1,2), of ops addr s]
    show ?thesis
      using run assms(4) quiet arp_receive_same_ping [OF b quiet(1)] receive_ip_same_ping [OF b refl quiet(2)]
      by (auto simp: e split: if_splits)
  qed
qed

section \<open>One round of the loop\<close>

lemma eth_halt_same_ping: "eth_halt ops s = Some s' \<Longrightarrow> same_ping s s'"
  by (auto simp: eth_halt_def bind_eq_Some_conv split: if_splits)

lemma arp_timeout_check_same_ping:
  assumes "arp_timeout_check ops s = Some (w, s')"
  shows "same_ping s s' \<or> (\<exists>s1. same_ping s s1 \<and> s' = net_set_state NETLOOP_FAIL s1)"
proof (cases "net_arp_wait_packet_ip (arp s) = 0")
  case False
  obtain t s1 where n: "now ops s = (t, s1)" by (cases "now ops s")
  then have s1: "same_ping s s1" by (rule now_same_ping)
  have r: "same_ping s s2" if "arp_request ops (upd_arp f s1) = Some s2" for f s2
    using arp_request_same_ping [OF that] s1 same_ping_trans by auto
  have "arp s1 = arp s" using now_sel(3) [of ops s] n by simp
  with False assms n s1 r show ?thesis
    by (auto simp: arp_timeout_check_def Let_def bind_eq_Some_conv split: if_splits)
      (metis same_ping_upd(2))
qed (use assms in \<open>simp add: arp_timeout_check_def\<close>)

lemma net_start_again_gives_up:
  assumes "retry_limit (envs_of s) = Some (False, 0)" "net_try_count (net s) = 1"
    "net_start_again ops s = Some (r, s')"
  shows "r = -110" "\<exists>s1. same_ping s s1 \<and> s' = net_set_state NETLOOP_FAIL s1"
proof -
  have "(scast (1 :: u32) :: u64) = 1" by simp
  with assms show "r = -110" "\<exists>s1. same_ping s s1 \<and> s' = net_set_state NETLOOP_FAIL s1"
    by (auto simp: net_start_again_def bind_eq_Some_conv dest: eth_halt_same_ping)
qed

lemma pinging_state [simp]: "pinging ip (net_set_state st s) = pinging ip s"
  by (simp add: pinging_def sys_simps)

lemma pinging_time [simp]: "pinging ip (upd_net (\<lambda>v. v\<lparr>time_start := t\<rparr>) s) = pinging ip s"
  by (simp add: pinging_def sys_simps)

text \<open>The driver never delivers an echo reply of \<open>ip\<close>, and delivers whole buffers.\<close>

definition silent :: "'h drv_ops \<Rightarrow> u32 \<Rightarrow> bool" where
  "silent ops ip \<longleftrightarrow> (\<forall>a d h addr b len h'. drv_recv ops a d h = Some (Some (addr, b, len), h') \<longrightarrow>
     unat len < 2 ^ 31 \<and> 64 \<le> length b \<and> \<not> echo_reply_from ip b)"

lemma eth_rx_same_ping:
  assumes "silent ops ip" "pinging ip s" "eth_rx ops s = Some (r, s')"
  shows "same_ping s s'"
proof (cases "eth_current (eth s)")
  case (Some a)
  with assms(3) obtain d pkt h where d: "deref s (Some a) = Some (a, d)" "drv_recv ops a d (hw s) = Some (pkt, h)"
    by (auto simp: eth_rx_def bind_eq_Some_conv dest: deref_SomeD)
  show ?thesis
  proof (cases pkt)
    case None
    with assms(3) Some d show ?thesis by (auto simp: eth_rx_def bind_eq_Some_conv)
  next
    case (Some f)
    obtain addr b len where f: "f = (addr, b, len)" by (cases f)
    have "unat len < 2 ^ 31" "64 \<le> length b" "\<not> echo_reply_from ip b"
      using assms(1) [unfolded silent_def, rule_format, of a d "hw s" addr b len h] d(2) Some f by simp_all
    moreover have "pinging ip (s\<lparr>hw := h\<rparr>)" using assms(2) by (simp add: pinging_def)
    ultimately have "same_ping (s\<lparr>hw := h\<rparr>) s2"
      if "net_process_received_packet ops addr b len (s\<lparr>hw := h\<rparr>) = Some (b2, s2)" for b2 s2
      using that by (intro process_same_ping)
    then have "same_ping s s2"
      if "net_process_received_packet ops addr b len (s\<lparr>hw := h\<rparr>) = Some (b2, s2)" for b2 s2
      using that by (force simp: same_ping_def)
    then show ?thesis
      using assms(3) \<open>eth_current (eth s) = Some a\<close> d Some f by (auto simp: eth_rx_def bind_eq_Some_conv)
  qed
qed (use assms in \<open>simp add: eth_rx_def\<close>)

definition running :: "u32 \<Rightarrow> 'h sys \<Rightarrow> bool" where
  "running ip s \<longleftrightarrow> pinging ip s \<and> net_state (net s) \<in> {NETLOOP_CONTINUE, NETLOOP_FAIL}"

lemma running_same: "same_ping s s' \<Longrightarrow> running ip s' = running ip s"
  using same_ping_pinging [of s s' ip] by (simp add: running_def) (simp add: same_ping_def)

lemma running_fail: "running ip s \<Longrightarrow> running ip (net_set_state NETLOOP_FAIL s)"
  by (simp add: running_def sys_simps)

lemma check_timeout_running:
  assumes "running ip s" "check_timeout ops s = Some s'"
  shows "running ip s'"
proof -
  obtain t s1 where n: "now ops s = (t, s1)" by (cases "now ops s")
  then have s1: "running ip s1" using running_same [OF now_same_ping] assms(1) by blast
  have "running ip (upd_net (\<lambda>v. v\<lparr>time_handler := None\<rparr>) s1)"
    using s1 by (simp add: running_def pinging_def sys_simps)
  then have h: "running ip s2" if "eth_halt ops (upd_net (\<lambda>v. v\<lparr>time_handler := None\<rparr>) s1) = Some s2" for s2
    using running_same [OF eth_halt_same_ping [OF that]] by blast
  have "time_handler (net s) \<in> {None, Some ping_timeout_handler}"
    using assms(1) by (simp add: running_def pinging_def)
  with assms n s1 show ?thesis
    by (auto simp: check_timeout_def run_thand_def ping_timeout_def split: if_splits intro: running_fail [OF h])
qed

text \<open>One round either goes on with the invariant, or ends in failure.\<close>

lemma net_loop_iter_silent:
  assumes "silent ops ip" "running ip s" "net_loop_iter ops PING ret s = Some r"
  shows "(\<exists>s'. r = Continue ret s' \<and> running ip s') \<or> (\<exists>s'. r = Done (-110) s')"
proof -
  from assms(3) obtain w sa where a: "arp_timeout_check ops s = Some (w, sa)"
    by (auto simp: net_loop_iter_def bind_eq_Some_conv)
  define sb where "sb = (if w then (case now ops sa of (t, s) \<Rightarrow> upd_net (\<lambda>v. v\<lparr>time_start := t\<rparr>) s) else sa)"
  from assms(3) a obtain x sc where c: "eth_rx ops sb = Some (x, sc)"
    by (auto simp: net_loop_iter_def bind_eq_Some_conv sb_def Let_def)
  from assms(3) a c obtain sd where d: "check_timeout ops sc = Some sd"
    by (auto simp: net_loop_iter_def bind_eq_Some_conv sb_def Let_def)
  have ra: "running ip sa"
    using arp_timeout_check_same_ping [OF a] assms(2) running_same running_fail by metis
  have rb: "running ip sb"
  proof (cases w)
    case True
    obtain t s1 where n: "now ops sa = (t, s1)" by (cases "now ops sa")
    then have "running ip s1" using ra running_same [OF now_same_ping] by blast
    then show ?thesis by (simp add: sb_def True n running_def sys_simps)
  qed (use ra in \<open>simp add: sb_def\<close>)
  have "running ip sc" using eth_rx_same_ping [OF assms(1) _ c] rb running_same by (auto simp: running_def)
  then have rd: "running ip sd" using check_timeout_running d by blast
  show ?thesis
  proof (cases "net_state (net sd) = NETLOOP_FAIL")
    case True
    from assms(3) a c d True obtain r0 s3 where g: "net_start_again ops sd = Some (r0, s3)"
      by (auto simp: net_loop_iter_def bind_eq_Some_conv sb_def Let_def)
    have "retry_limit (envs_of sd) = Some (False, 0)" "net_try_count (net sd) = 1"
      using rd by (simp_all add: running_def pinging_def)
    from net_start_again_gives_up [OF this g] have "r0 = -110" "net_state (net s3) = NETLOOP_FAIL"
      by (auto simp: sys_simps)
    with assms(3) a c d True g show ?thesis by (auto simp: net_loop_iter_def sb_def Let_def)
  next
    case False
    then have "net_state (net sd) = NETLOOP_CONTINUE" using rd by (simp add: running_def)
    with assms(3) a c d False rd show ?thesis by (auto simp: net_loop_iter_def sb_def Let_def)
  qed
qed

section \<open>The whole loop\<close>

lemma net_start_again_running:
  assumes "pinging ip s" "net_start_again ops s = Some (r, s')"
  shows "running ip s'"
proof -
  have "retry_limit (envs_of s) = Some (False, 0)" "net_try_count (net s) = 1"
    using assms(1) by (simp_all add: pinging_def)
  from net_start_again_gives_up(2) [OF this assms(2)] obtain s1 where
    "same_ping s s1" "s' = net_set_state NETLOOP_FAIL s1" by blast
  with assms(1) show ?thesis by (simp add: running_def sys_simps same_ping_pinging)
qed

lemma set_icmp_header_vars:
  "set_icmp_header v p b ip dest = Some (b', v', p') \<Longrightarrow>
    v' = v\<lparr>net_ip_id := net_ip_id v + 1\<rparr> \<and> p' = p\<lparr>ping_seq_number := ping_seq_number p + 1\<rparr>"
  by (auto simp: set_icmp_header_def net_set_ip_header_def bind_eq_Some_conv Let_def)

lemma ping_send_same_ping:
  assumes "ping_send ops s = Some (x, s')"
  shows "same_ping s s'"
proof -
  let ?s1 = "upd_arp (\<lambda>v. v\<lparr>net_arp_wait_packet_ip := net_ping_ip (ping s)\<rparr>) s"
  from assms obtain tx b1 h where tx: "net_tx_packet (net s) = Some tx"
    and b1: "net_set_ether (net s) (net_pkt_buf (net s)) tx net_null_ethaddr PROT_IP = Some (b1, h)"
    by (auto simp: ping_send_def bind_eq_Some_conv sys_simps Let_def)
  from assms tx b1 obtain b v p where b: "set_icmp_header (net s) (ping s) b1 (tx + h) (net_ping_ip (ping s)) = Some (b, v, p)"
    by (auto simp: ping_send_def bind_eq_Some_conv sys_simps Let_def)
  define s2 where "s2 = upd_arp (\<lambda>v. v\<lparr>arp_wait_tx_packet_size := of_nat (h + 28), arp_wait_try := 1\<rparr>)
    (?s1\<lparr>net := v\<lparr>net_pkt_buf := b\<rparr>, ping := p\<rparr>)"
  obtain t s3 where t: "now ops s2 = (t, s3)" by (cases "now ops s2")
  have a: "arp_request ops (upd_arp (\<lambda>v. v\<lparr>arp_wait_timer_start := t\<rparr>) s3) = Some s'"
    using assms tx b1 b t by (auto simp: ping_send_def bind_eq_Some_conv sys_simps Let_def s2_def)
  have "same_ping s s2"
    using set_icmp_header_vars [OF b] by (simp add: same_ping_def s2_def upd_arp_def)
  moreover note now_same_ping [OF t] arp_request_same_ping [OF a]
  ultimately show ?thesis by (auto intro: same_ping_trans)
qed

lemma ping_start_running:
  assumes "running ip s" "ping_start ops s = Some s'"
  shows "running ip s'"
proof -
  obtain t s1 where t: "now ops (upd_net (\<lambda>v. v\<lparr>time_handler := Some ping_timeout_handler\<rparr>) s) = (t, s1)"
    by (cases "now ops (upd_net (\<lambda>v. v\<lparr>time_handler := Some ping_timeout_handler\<rparr>) s)")
  have "running ip (upd_net (\<lambda>v. v\<lparr>time_handler := Some ping_timeout_handler\<rparr>) s)"
    using assms(1) by (simp add: running_def pinging_def sys_simps)
  then have "running ip s1" using running_same [OF now_same_ping [OF t]] by blast
  then have r: "running ip (upd_net (\<lambda>v. v\<lparr>time_start := t, time_delta := 10000\<rparr>) s1)"
    by (simp add: running_def pinging_def sys_simps)
  from assms(2) t obtain x where
    "ping_send ops (upd_net (\<lambda>v. v\<lparr>time_start := t, time_delta := 10000\<rparr>) s1) = Some (x, s')"
    by (auto simp: ping_start_def net_set_timeout_handler_def bind_eq_Some_conv)
  from running_same [OF ping_send_same_ping [OF this]] r show ?thesis by blast
qed

text \<open>What the part before the loop leaves behind.\<close>

lemma net_loop_start_running:
  assumes "pinging ip s" "net_loop_start ops PING ret s = Some r"
  shows "(\<exists>ret s'. r = Continue ret s' \<and> running ip s') \<or> (\<exists>s'. r = Done (-19) s')"
proof -
  from assms(2) obtain s1 where s1: "net_init_loop (net_set_state NETLOOP_CONTINUE s) = Some s1"
    by (auto simp: net_loop_start_def bind_eq_Some_conv)
  have r1: "running ip s1"
    using s1 assms(1)
    by (auto simp: net_init_loop_def bind_eq_Some_conv running_def pinging_def sys_simps split: if_splits)
  from assms(2) s1 obtain c s2 where c: "net_check_prereq ops PING s1 = Some (c, s2)"
    by (auto simp: net_loop_start_def bind_eq_Some_conv)
  have again: "running ip s3" if "net_start_again ops s1 = Some (x, s3)" for x s3
    using net_start_again_running [OF _ that] r1 by (auto simp: running_def)
  have r2: "running ip s2" using c r1
    by (auto simp: net_check_prereq_def prereq_ethaddr_def bind_eq_Some_conv split: if_splits dest: again)
  have "running ip (upd_net (\<lambda>v. v\<lparr>net_dev_exists := True, net_boot_file_size := 0\<rparr>) s2)"
    using r2 by (simp add: running_def pinging_def sys_simps)
  with assms(2) s1 c r2 show ?thesis
    by (auto simp: net_loop_start_def bind_eq_Some_conv Let_def split: if_splits dest: ping_start_running)
qed

text \<open>
  A host that never answers is never reported alive: when no received frame is an echo reply from the
  address that is pinged, and retries are off, a main loop that returns returns an error.
\<close>

theorem silent_host_not_alive:
  assumes "silent ops ip" "pinging ip s" "net_loop_run ops PING (Restart ret s) = Some (r, s')"
  shows "r < 0"
proof -
  define good where "good x \<longleftrightarrow> (case x of Continue _ s \<Rightarrow> running ip s | Restart _ s \<Rightarrow> pinging ip s | Done r _ \<Rightarrow> r < 0)"
    for x :: "'a loop_result"
  have "silent o1 ip \<longrightarrow> p = PING \<longrightarrow> good x \<longrightarrow> fst y < 0" if "net_loop_run o1 p x = Some y" for o1 p x y
    using that
  proof (rule net_loop_run.raw_induct [rotated], intro impI)
    fix run :: "'a drv_ops \<Rightarrow> proto_t \<Rightarrow> 'a loop_result \<Rightarrow> (int \<times> 'a sys) option" and o1 p x y
    assume IH: "\<And>o1 p x y. run o1 p x = Some y \<Longrightarrow> silent o1 ip \<longrightarrow> p = PING \<longrightarrow> good x \<longrightarrow> fst y < 0"
      and step: "(case x of Done ret s \<Rightarrow> Some (ret, s) | Restart ret s \<Rightarrow> net_loop_start o1 p ret s \<bind> run o1 p
        | Continue ret s \<Rightarrow> net_loop_iter o1 p ret s \<bind> run o1 p) = Some y"
      and hyps: "silent o1 ip" "p = PING" "good x"
    show "fst y < 0"
    proof (cases x)
      case (Done r s)
      with step hyps(3) show ?thesis by (auto simp: good_def)
    next
      case (Restart ret s)
      with step obtain x' where x': "net_loop_start o1 p ret s = Some x'" "run o1 p x' = Some y"
        by (auto simp: bind_eq_Some_conv)
      then have "good x'" using net_loop_start_running [of ip s o1 ret x'] hyps Restart by (auto simp: good_def)
      with IH [OF x'(2)] hyps show ?thesis by blast
    next
      case (Continue ret s)
      with step obtain x' where x': "net_loop_iter o1 p ret s = Some x'" "run o1 p x' = Some y"
        by (auto simp: bind_eq_Some_conv)
      then have "good x'" using net_loop_iter_silent [of o1 ip s ret x'] hyps Continue by (auto simp: good_def)
      with IH [OF x'(2)] hyps show ?thesis by blast
    qed
  qed
  from this [OF assms(3)] assms(1,2) show ?thesis by (simp add: good_def)
qed

text \<open>The test bench with a driver that receives nothing, and a device without an address.\<close>

definition mute_ops :: "bench drv_ops" where
  "mute_ops = bench_ops\<lparr>drv_recv := \<lambda>_ _ h. Some (None, h)\<rparr>"

definition bench_blank :: "bench sys" where
  "bench_blank = bench_sys\<lparr>net := bench_net\<lparr>net_pkt_buf := [], net_try_count := 1\<rparr>,
     arp := bench_arp\<lparr>arp_tx_packet_buf := []\<rparr>,
     eth := bench_eth\<lparr>devs := [1 \<mapsto> bench_dev\<lparr>enetaddr := replicate 6 0\<rparr>]\<rparr>\<rparr>"

lemma bench_blank_run:
  "(case net_loop_start mute_ops PING 0 bench_blank of Some (Continue ret s) \<Rightarrow>
     (case net_loop_iter mute_ops PING ret s of Some (Done r s') \<Rightarrow> Some r | _ \<Rightarrow> None) | _ \<Rightarrow> None) = Some (-110)"
  by code_simp

lemma bench_blank_retry: "retry_limit env_init = Some (False, 0)"
  by code_simp

theorem silent_host_not_alive_witness:
  "\<exists>r s'. net_loop_run mute_ops PING (Restart 0 bench_blank) = Some (r, s') \<and> r < 0"
proof -
  obtain ret s r s' where "net_loop_start mute_ops PING 0 bench_blank = Some (Continue ret s)"
    "net_loop_iter mute_ops PING ret s = Some (Done r s')"
    using bench_blank_run by (auto split: option.splits loop_result.splits)
  then have run: "net_loop_run mute_ops PING (Restart 0 bench_blank) = Some (r, s')"
    by (simp add: net_loop_run.simps)
  have "silent mute_ops 0x0364A8C0" by (simp add: silent_def mute_ops_def)
  moreover have "pinging 0x0364A8C0 bench_blank"
    by (simp add: pinging_def bench_blank_def bench_simps bench_blank_retry)
      (simp add: bench_net_def net_vars_init_def bench_sys_def bench_blank_retry)
  ultimately show ?thesis using run silent_host_not_alive [OF _ _ run] by blast
qed

end
