(* ===== verification/Miiphy.thy ===== *)
theory Miiphy
  imports NetState Vsprintf Alloc
begin

text \<open>
  The MII layer, \<^verbatim>\<open>net/miiphyutil.c\<close>, with the structures of \<^verbatim>\<open>net/phy.h\<close> and \<^verbatim>\<open>net/miiphy.h\<close> and the
  small functions of \<^verbatim>\<open>include/mii.h\<close>. Buses, PHY devices and PHY drivers are objects of a heap;
  the \<^verbatim>\<open>list_head\<close> rings of the source are the lists they stand for (theory Linklist relates the
  two). Function pointers are a datatype: a function of the source, or one a client brings, which
  the record \<open>mii_ops\<close> interprets.
\<close>

section \<open>Structures\<close>

datatype mii_fn = legacy_miiphy | Bus_fn nat

record mii_dev =
  mii_name :: bytes
  mii_priv :: "nat option"
  mii_read :: "mii_fn option"
  mii_write :: "mii_fn option"
  mii_reset :: "nat option"
  phymap :: "nat option list"
  phy_mask :: u32

record legacy_mii_dev =
  ldev_read :: nat
  ldev_write :: nat

datatype phy_fn = Genphy | Drv_fn nat

record phy_driver =
  drv_name :: bytes
  drv_uid :: u32
  drv_mask :: u32
  drv_mmds :: u32
  drv_features :: u32
  drv_probe :: "nat option"
  drv_config :: "phy_fn option"
  drv_startup :: "phy_fn option"
  drv_shutdown :: "phy_fn option"

record phy_device =
  phy_bus :: nat
  phy_drv :: "nat option"      \<comment> \<open>\<open>None\<close> is \<^verbatim>\<open>genphy_driver\<close>\<close>
  phy_dev :: "nat option"
  speed :: u32
  duplex :: u32
  link :: bool
  port :: u32
  interface :: u32
  advertising :: u32
  supported :: u32
  mmds :: u32
  autoneg :: u32
  addr :: u32
  pause :: u32
  asym_pause :: u32
  phy_id :: u32
  flags :: u32

record mii_vars =
  mii_heap :: "nat \<rightharpoonup> mii_dev"
  ldevs :: "nat \<rightharpoonup> legacy_mii_dev"
  phydevs :: "nat \<rightharpoonup> phy_device"
  drivers :: "nat \<rightharpoonup> phy_driver"
  mii_devs :: "nat list"
  current_mii :: "nat option"
  phy_drivers :: "nat list"
  mii_mark :: u32              \<comment> \<open>\<^verbatim>\<open>sz\<close> of \<^verbatim>\<open>malloc\<close>\<close>

text \<open>An \<^verbatim>\<open>int\<close> result is an \<^typ>\<open>int\<close>; an \<^verbatim>\<open>int\<close> argument that is a register or an address is a word.\<close>

record 'h mii_ops =
  bus_fn_read :: "nat \<Rightarrow> nat \<Rightarrow> u32 \<Rightarrow> u32 \<Rightarrow> u32 \<Rightarrow> 'h \<Rightarrow> (int \<times> 'h) option"
  bus_fn_write :: "nat \<Rightarrow> nat \<Rightarrow> u32 \<Rightarrow> u32 \<Rightarrow> u32 \<Rightarrow> u16 \<Rightarrow> 'h \<Rightarrow> (int \<times> 'h) option"
  bus_fn_reset :: "nat \<Rightarrow> nat \<Rightarrow> 'h \<Rightarrow> 'h option"
  ldev_fn_read :: "nat \<Rightarrow> bytes \<Rightarrow> u8 \<Rightarrow> u8 \<Rightarrow> 'h \<Rightarrow> (int \<times> u16 \<times> 'h) option"
  ldev_fn_write :: "nat \<Rightarrow> bytes \<Rightarrow> u8 \<Rightarrow> u8 \<Rightarrow> u16 \<Rightarrow> 'h \<Rightarrow> (int \<times> 'h) option"

section \<open>Buses\<close>

fun find_bus :: "(nat \<rightharpoonup> mii_dev) \<Rightarrow> bytes \<Rightarrow> nat list \<Rightarrow> nat option option" where
  "find_bus heap devname [] = Some None"
| "find_bus heap devname (b # bs) = do {
     d \<leftarrow> heap b;
     r \<leftarrow> strcmp (mii_name d) devname;
     (if r = 0 then Some (Some b) else find_bus heap devname bs) }"

definition miiphy_get_dev_by_name :: "mii_vars \<Rightarrow> bytes option \<Rightarrow> nat option option" where
  "miiphy_get_dev_by_name v devname =
     (case devname of None \<Rightarrow> Some None | Some n \<Rightarrow> find_bus (mii_heap v) n (mii_devs v))"

definition miiphy_init :: "mii_vars \<Rightarrow> mii_vars" where
  "miiphy_init v = v\<lparr>mii_devs := [], current_mii := None\<rparr>"

definition legacy_miiphy_read ::
  "'h mii_ops \<Rightarrow> mii_vars \<Rightarrow> nat \<Rightarrow> u32 \<Rightarrow> u32 \<Rightarrow> u32 \<Rightarrow> 'h \<Rightarrow> (int \<times> 'h) option" where
  "legacy_miiphy_read ops v bus adr devad reg h = do {
     d \<leftarrow> mii_heap v bus;
     p \<leftarrow> mii_priv d;
     l \<leftarrow> ldevs v p;
     (ret, val, h) \<leftarrow> ldev_fn_read ops (ldev_read l) (mii_name d) (ucast adr) (ucast reg) h;
     Some (if ret \<noteq> 0 then -1 else int (unat val), h) }"

definition legacy_miiphy_write ::
  "'h mii_ops \<Rightarrow> mii_vars \<Rightarrow> nat \<Rightarrow> u32 \<Rightarrow> u32 \<Rightarrow> u32 \<Rightarrow> u16 \<Rightarrow> 'h \<Rightarrow> (int \<times> 'h) option" where
  "legacy_miiphy_write ops v bus adr devad reg val h = do {
     d \<leftarrow> mii_heap v bus;
     p \<leftarrow> mii_priv d;
     l \<leftarrow> ldevs v p;
     ldev_fn_write ops (ldev_write l) (mii_name d) (ucast adr) (ucast reg) val h }"

text \<open>The calls \<^verbatim>\<open>bus->read\<close> and \<^verbatim>\<open>bus->write\<close>.\<close>

definition bus_read :: "'h mii_ops \<Rightarrow> mii_vars \<Rightarrow> nat \<Rightarrow> u32 \<Rightarrow> u32 \<Rightarrow> u32 \<Rightarrow> 'h \<Rightarrow> (int \<times> 'h) option" where
  "bus_read ops v bus adr devad reg h = do {
     d \<leftarrow> mii_heap v bus;
     f \<leftarrow> mii_read d;
     (case f of legacy_miiphy \<Rightarrow> legacy_miiphy_read ops v bus adr devad reg h
      | Bus_fn k \<Rightarrow> bus_fn_read ops k bus adr devad reg h) }"

definition bus_write ::
  "'h mii_ops \<Rightarrow> mii_vars \<Rightarrow> nat \<Rightarrow> u32 \<Rightarrow> u32 \<Rightarrow> u32 \<Rightarrow> u16 \<Rightarrow> 'h \<Rightarrow> (int \<times> 'h) option" where
  "bus_write ops v bus adr devad reg val h = do {
     d \<leftarrow> mii_heap v bus;
     f \<leftarrow> mii_write d;
     (case f of legacy_miiphy \<Rightarrow> legacy_miiphy_write ops v bus adr devad reg val h
      | Bus_fn k \<Rightarrow> bus_fn_write ops k bus adr devad reg val h) }"

text \<open>A block of the arena is named by its offset. \<^verbatim>\<open>sizeof(struct mii_dev)\<close> is 344.\<close>

definition mdio_alloc :: "mii_vars \<Rightarrow> nat \<times> mii_vars" where
  "mdio_alloc v = (case malloc (mii_mark v) 344 of (sz, p) \<Rightarrow>
     (unat p, v\<lparr>mii_mark := sz, mii_heap := (mii_heap v)(unat p \<mapsto>
        \<lparr>mii_name = replicate 32 0, mii_priv = None, mii_read = None, mii_write = None, mii_reset = None,
         phymap = replicate 32 None, phy_mask = 0\<rparr>)\<rparr>))"

definition add_bus :: "nat \<Rightarrow> mii_vars \<Rightarrow> mii_vars" where
  "add_bus b v = v\<lparr>mii_devs := mii_devs v @ [b],
     current_mii := (if current_mii v = None then Some b else current_mii v)\<rparr>"

definition miiphy_register :: "bytes \<Rightarrow> nat \<Rightarrow> nat \<Rightarrow> mii_vars \<Rightarrow> mii_vars option" where
  "miiphy_register name rd_fn wr_fn v = do {
     dup \<leftarrow> miiphy_get_dev_by_name v (Some name);
     (if dup \<noteq> None then Some v
      else (case mdio_alloc v of (b, v) \<Rightarrow>
        (case malloc (mii_mark v) 16 of (sz, l) \<Rightarrow> do {
          d \<leftarrow> mii_heap v b;
          n \<leftarrow> strncpy (mii_name d) 0 name 32;
          n \<leftarrow> store8 n 31 0;
          Some (add_bus b (v\<lparr>mii_mark := sz,
            ldevs := (ldevs v)(unat l \<mapsto> \<lparr>ldev_read = rd_fn, ldev_write = wr_fn\<rparr>),
            mii_heap := (mii_heap v)(b \<mapsto> d\<lparr>mii_name := n, mii_read := Some legacy_miiphy,
              mii_write := Some legacy_miiphy, mii_priv := Some (unat l)\<rparr>)\<rparr>)) }))) }"

definition mdio_register :: "nat option \<Rightarrow> mii_vars \<Rightarrow> (int \<times> mii_vars) option" where
  "mdio_register bus v =
     (case bus of None \<Rightarrow> Some (-1, v)
      | Some b \<Rightarrow> do {
          d \<leftarrow> mii_heap v b;
          (if mii_read d = None \<or> mii_write d = None then Some (-1, v)
           else do {
             dup \<leftarrow> miiphy_get_dev_by_name v (Some (mii_name d));
             (if dup \<noteq> None then Some (-1, v) else Some (0, add_bus b v)) }) })"

definition mdio_register_seq :: "u64 \<Rightarrow> nat \<Rightarrow> u32 \<Rightarrow> mii_vars \<Rightarrow> (int \<times> mii_vars) option" where
  "mdio_register_seq sp bus seq v = do {
     d \<leftarrow> mii_heap v bus;
     (n, ret, _) \<leftarrow> snprintf sp (mii_name d) 32 (c_string ''eth%d'') [VInt seq];
     let v = v\<lparr>mii_heap := (mii_heap v)(bus \<mapsto> d\<lparr>mii_name := n\<rparr>)\<rparr>;
     (if sint ret < 0 then Some (sint ret, v) else mdio_register (Some bus) v) }"

definition mdio_unregister :: "nat option \<Rightarrow> mii_vars \<Rightarrow> int \<times> mii_vars" where
  "mdio_unregister bus v =
     (case bus of None \<Rightarrow> (0, v)
      | Some b \<Rightarrow> (0, v\<lparr>mii_devs := remove1 b (mii_devs v),
          current_mii := (if current_mii v = Some b then None else current_mii v)\<rparr>))"

definition miiphy_set_current_dev :: "bytes option \<Rightarrow> mii_vars \<Rightarrow> (int \<times> mii_vars) option" where
  "miiphy_set_current_dev devname v = do {
     dev \<leftarrow> miiphy_get_dev_by_name v devname;
     (case dev of None \<Rightarrow> Some (1, v) | Some b \<Rightarrow> Some (0, v\<lparr>current_mii := Some b\<rparr>)) }"

definition mdio_get_current_dev :: "mii_vars \<Rightarrow> nat option" where
  "mdio_get_current_dev v = current_mii v"

definition miiphy_get_current_dev :: "mii_vars \<Rightarrow> bytes option option" where
  "miiphy_get_current_dev v =
     (case current_mii v of None \<Rightarrow> Some None
      | Some b \<Rightarrow> map_option (\<lambda>d. Some (mii_name d)) (mii_heap v b))"

definition miiphy_get_active_dev :: "bytes \<Rightarrow> mii_vars \<Rightarrow> (nat option \<times> mii_vars) option" where
  "miiphy_get_active_dev devname v = do {
     same \<leftarrow> (case current_mii v of None \<Rightarrow> Some False
       | Some b \<Rightarrow> do { d \<leftarrow> mii_heap v b; map_option (\<lambda>r. r = 0) (strcmp (mii_name d) devname) });
     (if same then Some (current_mii v, v)
      else do {
        (r, v) \<leftarrow> miiphy_set_current_dev (Some devname) v;
        Some (if r \<noteq> 0 then None else current_mii v, v) }) }"

text \<open>The PHY that serves an interface: the first entry of a map whose device has the name.\<close>

fun find_phydev :: "mii_vars \<Rightarrow> (nat \<rightharpoonup> eth_device) \<Rightarrow> bytes \<Rightarrow> nat option list \<Rightarrow> nat option option" where
  "find_phydev v ds ethname [] = Some None"
| "find_phydev v ds ethname (None # ps) = find_phydev v ds ethname ps"
| "find_phydev v ds ethname (Some p # ps) = do {
     d \<leftarrow> phydevs v p;
     (case phy_dev d of None \<Rightarrow> find_phydev v ds ethname ps
      | Some e \<Rightarrow> do {
          ed \<leftarrow> ds e;
          r \<leftarrow> strcmp (dev_name ed) ethname;
          (if r = 0 then Some (Some p) else find_phydev v ds ethname ps) }) }"

fun find_phydev_buses :: "mii_vars \<Rightarrow> (nat \<rightharpoonup> eth_device) \<Rightarrow> bytes \<Rightarrow> nat list \<Rightarrow> nat option option" where
  "find_phydev_buses v ds ethname [] = Some None"
| "find_phydev_buses v ds ethname (b # bs) = do {
     d \<leftarrow> mii_heap v b;
     r \<leftarrow> find_phydev v ds ethname (phymap d);
     (case r of Some p \<Rightarrow> Some (Some p) | None \<Rightarrow> find_phydev_buses v ds ethname bs) }"

definition mdio_phydev_for_ethname :: "mii_vars \<Rightarrow> (nat \<rightharpoonup> eth_device) \<Rightarrow> bytes \<Rightarrow> nat option option" where
  "mdio_phydev_for_ethname v ds ethname = find_phydev_buses v ds ethname (mii_devs v)"

section \<open>Registers by name\<close>

text \<open>The value read, \<open>None\<close> inside when the call returns 1; the MDIO device of clause 22.\<close>

definition miiphy_read ::
  "'h mii_ops \<Rightarrow> u32 \<Rightarrow> bytes \<Rightarrow> u8 \<Rightarrow> u8 \<Rightarrow> mii_vars \<Rightarrow> 'h \<Rightarrow> (u16 option \<times> mii_vars \<times> 'h) option" where
  "miiphy_read ops devad_none devname adr reg v h = do {
     (bus, v) \<leftarrow> miiphy_get_active_dev devname v;
     (case bus of None \<Rightarrow> Some (None, v, h)
      | Some b \<Rightarrow> do {
          (ret, h) \<leftarrow> bus_read ops v b (ucast adr) devad_none (ucast reg) h;
          Some (if ret < 0 then None else Some (word_of_int ret), v, h) }) }"

definition miiphy_write ::
  "'h mii_ops \<Rightarrow> u32 \<Rightarrow> bytes \<Rightarrow> u8 \<Rightarrow> u8 \<Rightarrow> u16 \<Rightarrow> mii_vars \<Rightarrow> 'h \<Rightarrow> (int \<times> mii_vars \<times> 'h) option" where
  "miiphy_write ops devad_none devname adr reg value v h = do {
     (bus, v) \<leftarrow> miiphy_get_active_dev devname v;
     (case bus of None \<Rightarrow> Some (1, v, h)
      | Some b \<Rightarrow> do {
          (ret, h) \<leftarrow> bus_write ops v b (ucast adr) devad_none (ucast reg) value h;
          Some (ret, v, h) }) }"

abbreviation (input) R_BMCR :: u8 where "R_BMCR \<equiv> 0x00"
abbreviation (input) R_BMSR :: u8 where "R_BMSR \<equiv> 0x01"
abbreviation (input) R_PHYSID1 :: u8 where "R_PHYSID1 \<equiv> 0x02"
abbreviation (input) R_PHYSID2 :: u8 where "R_PHYSID2 \<equiv> 0x03"
abbreviation (input) R_ADVERTISE :: u8 where "R_ADVERTISE \<equiv> 0x04"
abbreviation (input) R_LPA :: u8 where "R_LPA \<equiv> 0x05"

text \<open>Organisation, model and revision from the two identification registers.\<close>

definition id_fields :: "u32 \<Rightarrow> u32 \<times> u8 \<times> u8" where
  "id_fields reg = (drop_bit 10 reg, ucast (drop_bit 4 reg AND 0x3F), ucast (reg AND 0x0F))"

definition miiphy_info ::
  "'h mii_ops \<Rightarrow> u32 \<Rightarrow> bytes \<Rightarrow> u8 \<Rightarrow> mii_vars \<Rightarrow> 'h \<Rightarrow> ((u32 \<times> u8 \<times> u8) option \<times> mii_vars \<times> 'h) option" where
  "miiphy_info ops devad_none devname adr v h = do {
     (r, v, h) \<leftarrow> miiphy_read ops devad_none devname adr R_PHYSID2 v h;
     (case r of None \<Rightarrow> Some (None, v, h)
      | Some id2 \<Rightarrow>
          (if id2 = 0xFFFF then Some (None, v, h)
           else do {
             (r, v, h) \<leftarrow> miiphy_read ops devad_none devname adr R_PHYSID1 v h;
             (case r of None \<Rightarrow> Some (None, v, h)
              | Some id1 \<Rightarrow> Some (Some (id_fields (ucast id2 OR push_bit 16 (ucast id1))), v, h)) })) }"

text \<open>Speed and duplex share the way to their registers; without \<^verbatim>\<open>CONFIG_PHY_GIGE\<close>.\<close>

definition miiphy_mode ::
  "'h mii_ops \<Rightarrow> u32 \<Rightarrow> bytes \<Rightarrow> u8 \<Rightarrow> u16 \<Rightarrow> u16 \<Rightarrow> nat \<Rightarrow> nat \<Rightarrow> mii_vars \<Rightarrow> 'h \<Rightarrow> (nat \<times> mii_vars \<times> 'h) option" where
  "miiphy_mode ops devad_none devname adr lpa_bits bmcr_bit high low v h = do {
     (r, v, h) \<leftarrow> miiphy_read ops devad_none devname adr R_BMCR v h;
     (case r of None \<Rightarrow> Some (low, v, h)
      | Some bmcr \<Rightarrow>
          (if bmcr AND 0x1000 \<noteq> 0 then do {
             (r, v, h) \<leftarrow> miiphy_read ops devad_none devname adr R_LPA v h;
             (case r of None \<Rightarrow> Some (low, v, h)
              | Some anlpar \<Rightarrow> do {
                  (r, v, h) \<leftarrow> miiphy_read ops devad_none devname adr R_ADVERTISE v h;
                  (case r of None \<Rightarrow> Some (low, v, h)
                   | Some adv \<Rightarrow> Some (if (anlpar AND adv) AND lpa_bits \<noteq> 0 then high else low, v, h)) }) }
           else Some (if bmcr AND bmcr_bit \<noteq> 0 then high else low, v, h))) }"

abbreviation (input) LPA_10FULL :: u16 where "LPA_10FULL \<equiv> 0x0040"
abbreviation (input) LPA_100HALF :: u16 where "LPA_100HALF \<equiv> 0x0080"
abbreviation (input) LPA_100FULL :: u16 where "LPA_100FULL \<equiv> 0x0100"
abbreviation (input) LPA_100BASE4 :: u16 where "LPA_100BASE4 \<equiv> 0x0200"

definition miiphy_speed :: "'h mii_ops \<Rightarrow> u32 \<Rightarrow> bytes \<Rightarrow> u8 \<Rightarrow> mii_vars \<Rightarrow> 'h \<Rightarrow> (nat \<times> mii_vars \<times> 'h) option" where
  "miiphy_speed ops devad_none devname adr =
     miiphy_mode ops devad_none devname adr (LPA_100FULL OR LPA_100HALF OR LPA_100BASE4) 0x2000 100 10"

definition miiphy_duplex :: "'h mii_ops \<Rightarrow> u32 \<Rightarrow> bytes \<Rightarrow> u8 \<Rightarrow> mii_vars \<Rightarrow> 'h \<Rightarrow> (nat \<times> mii_vars \<times> 'h) option" where
  "miiphy_duplex ops devad_none devname adr =
     miiphy_mode ops devad_none devname adr (LPA_10FULL OR LPA_100FULL) 0x0100 44 22"

definition miiphy_is_1000base_x :: "bytes \<Rightarrow> u8 \<Rightarrow> bool" where
  "miiphy_is_1000base_x devname adr = False"

section \<open>Negotiation\<close>

definition mii_nway_result :: "u32 \<Rightarrow> u32" where
  "mii_nway_result negotiated =
     (if negotiated AND 0x0100 \<noteq> 0 then 0x0100
      else if negotiated AND 0x0200 \<noteq> 0 then 0x0200
      else if negotiated AND 0x0080 \<noteq> 0 then 0x0080
      else if negotiated AND 0x0040 \<noteq> 0 then 0x0040
      else 0x0020)"

definition mii_duplex :: "u32 \<Rightarrow> u32 \<Rightarrow> u32" where
  "mii_duplex duplex_lock negotiated =
     (if duplex_lock \<noteq> 0 then 1
      else if mii_nway_result negotiated AND (0x0040 OR 0x0100) \<noteq> 0 then 1 else 0)"

abbreviation (input) FLOW_CTRL_TX :: u8 where "FLOW_CTRL_TX \<equiv> 0x01"
abbreviation (input) FLOW_CTRL_RX :: u8 where "FLOW_CTRL_RX \<equiv> 0x02"
abbreviation (input) ADVERTISE_PAUSE_CAP :: u16 where "ADVERTISE_PAUSE_CAP \<equiv> 0x0400"
abbreviation (input) ADVERTISE_PAUSE_ASYM :: u16 where "ADVERTISE_PAUSE_ASYM \<equiv> 0x0800"

definition mii_resolve_flowctrl_fdx :: "u16 \<Rightarrow> u16 \<Rightarrow> u8" where
  "mii_resolve_flowctrl_fdx lcladv rmtadv =
     (if lcladv AND rmtadv AND ADVERTISE_PAUSE_CAP \<noteq> 0 then FLOW_CTRL_TX OR FLOW_CTRL_RX
      else if lcladv AND rmtadv AND ADVERTISE_PAUSE_ASYM \<noteq> 0 then
        (if lcladv AND ADVERTISE_PAUSE_CAP \<noteq> 0 then FLOW_CTRL_RX
         else if rmtadv AND ADVERTISE_PAUSE_CAP \<noteq> 0 then FLOW_CTRL_TX else 0)
      else 0)"

section \<open>The list of buses\<close>

definition bus_name :: "mii_vars \<Rightarrow> nat \<Rightarrow> bytes" where
  "bus_name v b = (case mii_heap v b of None \<Rightarrow> [] | Some d \<Rightarrow> c_str (mii_name d))"

text \<open>Every bus is a block of the arena with a terminated name, and no two names are equal.\<close>

definition mii_wf :: "mii_vars \<Rightarrow> bool" where
  "mii_wf v \<longleftrightarrow> distinct (mii_devs v) \<and> distinct (map (bus_name v) (mii_devs v)) \<and>
     (\<forall>b \<in> set (mii_devs v). b < unat (mii_mark v) \<and>
       (\<exists>d. mii_heap v b = Some d \<and> length (mii_name d) = 32 \<and> terminated (mii_name d)))"

lemma find_bus_eq:
  assumes "\<forall>b \<in> set bs. \<exists>d. heap b = Some d \<and> terminated (mii_name d)" "terminated devname"
  shows "find_bus heap devname bs =
    Some (find (\<lambda>b. (case heap b of None \<Rightarrow> [] | Some d \<Rightarrow> c_str (mii_name d)) = c_str devname) bs)"
  using assms(1)
proof (induction bs)
  case (Cons b bs)
  then obtain d where d: "heap b = Some d" "terminated (mii_name d)" by auto
  obtain r where "strcmp (mii_name d) devname = Some r" "r = 0 \<longleftrightarrow> c_str (mii_name d) = c_str devname"
    using strcmp_Some [OF d(2) assms(2)] by blast
  with Cons d show ?case by auto
qed simp

lemma get_dev_by_name_eq:
  assumes "mii_wf v" "terminated devname"
  shows "miiphy_get_dev_by_name v (Some devname) = Some (find (\<lambda>b. bus_name v b = c_str devname) (mii_devs v))"
  using assms by (simp add: miiphy_get_dev_by_name_def bus_name_def mii_wf_def) (subst find_bus_eq; fastforce)

lemma find_append: "find P (xs @ ys) = (case find P xs of None \<Rightarrow> find P ys | Some x \<Rightarrow> Some x)"
  by (induction xs) auto

lemma find_None: "find P xs = None \<longleftrightarrow> (\<forall>x \<in> set xs. \<not> P x)"
  by (induction xs) auto

lemma find_cong2: "(\<And>x. x \<in> set xs \<Longrightarrow> P x \<longleftrightarrow> Q x) \<Longrightarrow> find P xs = find Q xs"
  by (induction xs) auto

lemma registered_name:
  assumes "terminated name" "length (c_str name) < 32"
  shows "\<exists>n. strncpy (replicate 32 0) 0 name 32 = Some n \<and> length n = 32 \<and>
    (\<exists>n'. store8 n 31 0 = Some n' \<and> length n' = 32 \<and> terminated n' \<and> c_str n' = c_str name)"
proof -
  obtain rest where name: "name = c_str name @ 0 # rest" and nz: "0 \<notin> set (c_str name)"
    using assms(1) by (rule terminated_split)
  let ?n = "put_bytes (replicate 32 0) 0 (c_str name @ [0])"
  have n: "?n = c_str name @ replicate (32 - length (c_str name)) 0"
    using assms(2) by (subst put_bytes_eq) (simp_all add: Suc_diff_Suc flip: replicate_Suc)
  have "strncpy (replicate 32 0) 0 name 32 = Some ?n"
    using assms(2) nz by (subst name) (simp add: strncpy_eq)
  moreover have "?n[31 := 0] = ?n"
  proof -
    have "?n ! 31 = 0" using assms(2) unfolding n by (simp add: nth_append)
    then show ?thesis by (metis list_update_id)
  qed
  moreover have "c_str ?n = c_str name"
  proof -
    obtain k where "32 - length (c_str name) = Suc k" using assms(2) by (metis Suc_diff_Suc)
    then have "?n = c_str name @ 0 # replicate k 0" unfolding n by simp
    then show ?thesis using nz by simp
  qed
  moreover have "terminated ?n" using assms(2) unfolding n by (simp add: terminated_def)
  moreover have "length ?n = 32" by simp
  ultimately show ?thesis by (auto simp: store8_def put8_def)
qed

lemma miiphy_register_finds:
  assumes wf: "mii_wf v" and name: "terminated name" "length (c_str name) < 32"
    and room: "unat (mii_mark v) + 360 < 2 ^ 32"
  shows "\<exists>v'. miiphy_register name rd_fn wr_fn v = Some v' \<and> mii_wf v' \<and>
    (if c_str name \<in> bus_name v ` set (mii_devs v) then v' = v
     else \<exists>b l d. mii_devs v' = mii_devs v @ [b] \<and> miiphy_get_dev_by_name v' (Some name) = Some (Some b) \<and>
       mii_heap v' b = Some d \<and> mii_read d = Some legacy_miiphy \<and> mii_write d = Some legacy_miiphy \<and>
       mii_priv d = Some l \<and> ldevs v' l = Some \<lparr>ldev_read = rd_fn, ldev_write = wr_fn\<rparr> \<and>
       (\<forall>m. terminated m \<and> c_str m \<noteq> c_str name \<longrightarrow>
         miiphy_get_dev_by_name v' (Some m) = miiphy_get_dev_by_name v (Some m)))"
proof (cases "c_str name \<in> bus_name v ` set (mii_devs v)")
  case True
  then have "find (\<lambda>b. bus_name v b = c_str name) (mii_devs v) \<noteq> None" by (auto simp: find_None)
  with wf name(1) True show ?thesis by (auto simp: miiphy_register_def get_dev_by_name_eq)
next
  case False
  then have none: "find (\<lambda>b. bus_name v b = c_str name) (mii_devs v) = None" by (force simp: find_None)
  let ?b = "unat (mii_mark v)"
  have "?b + unat (344 :: u64) < 2 ^ 32" using room by simp
  note m1 = malloc_eq [OF this]
  obtain sz p where a1: "malloc (mii_mark v) 344 = (sz, p)" "unat sz = ?b + 344" "unat p = ?b"
    using m1(2,3) by (cases "malloc (mii_mark v) 344") simp
  have "unat sz + unat (16 :: u64) < 2 ^ 32" using room a1(2) by simp
  note m2 = malloc_eq [OF this]
  obtain sz2 l where a2: "malloc sz 16 = (sz2, l)" "unat sz2 = ?b + 360" "unat l = ?b + 344"
    using m2(2,3) a1(2) by (cases "malloc sz 16") simp
  obtain n n' where n: "strncpy (replicate 32 0) 0 name 32 = Some n" "store8 n 31 0 = Some n'"
    "length n' = 32" "terminated n'" "c_str n' = c_str name" using registered_name [OF name] by blast
  define d where "d = \<lparr>mii_name = n', mii_priv = Some (unat l), mii_read = Some legacy_miiphy,
    mii_write = Some legacy_miiphy, mii_reset = None, phymap = replicate 32 None, phy_mask = 0\<rparr>"
  define v' where "v' = add_bus ?b (v\<lparr>mii_mark := sz2,
    ldevs := (ldevs v)(unat l \<mapsto> \<lparr>ldev_read = rd_fn, ldev_write = wr_fn\<rparr>),
    mii_heap := (mii_heap v)(?b \<mapsto> d)\<rparr>)"
  have run: "miiphy_register name rd_fn wr_fn v = Some v'"
    using none n a1 a2
    by (simp add: miiphy_register_def get_dev_by_name_eq [OF wf name(1)] mdio_alloc_def v'_def d_def)
  have fresh: "?b \<notin> set (mii_devs v)" using wf by (auto simp: mii_wf_def)
  have names: "bus_name v' c = bus_name v c" if "c \<in> set (mii_devs v)" for c
    using that fresh by (auto simp: bus_name_def v'_def add_bus_def)
  have new: "bus_name v' ?b = c_str name" using n(5) by (simp add: bus_name_def v'_def add_bus_def d_def)
  have devs: "mii_devs v' = mii_devs v @ [?b]" by (simp add: v'_def add_bus_def)
  have heap: "mii_heap v' c = mii_heap v c" if "c \<in> set (mii_devs v)" for c
    using that fresh by (auto simp: v'_def add_bus_def)
  have newd: "mii_heap v' ?b = Some d" "unat (mii_mark v') = ?b + 360"
    "ldevs v' (unat l) = Some \<lparr>ldev_read = rd_fn, ldev_write = wr_fn\<rparr>"
    using a2(2) by (simp_all add: v'_def add_bus_def)
  have map: "map (bus_name v') (mii_devs v) = map (bus_name v) (mii_devs v)" using names by simp
  have wf': "mii_wf v'"
    using wf fresh False n(3,4) unfolding mii_wf_def devs
    by (simp add: map new newd d_def) (force simp: heap)
  have look: "miiphy_get_dev_by_name v' (Some m) =
      Some (case find (\<lambda>b. bus_name v b = c_str m) (mii_devs v) of
        None \<Rightarrow> (if c_str name = c_str m then Some ?b else None) | Some x \<Rightarrow> Some x)" if "terminated m" for m
  proof -
    have "find (\<lambda>b. bus_name v' b = c_str m) (mii_devs v) = find (\<lambda>b. bus_name v b = c_str m) (mii_devs v)"
      by (rule find_cong2) (simp add: names)
    then show ?thesis by (simp add: get_dev_by_name_eq [OF wf' that] devs find_append new cong: option.case_cong)
  qed
  have found: "miiphy_get_dev_by_name v' (Some name) = Some (Some ?b)" using look [OF name(1)] none by simp
  have other: "\<forall>m. terminated m \<and> c_str m \<noteq> c_str name \<longrightarrow>
      miiphy_get_dev_by_name v' (Some m) = miiphy_get_dev_by_name v (Some m)"
    using look get_dev_by_name_eq [OF wf] by (auto split: option.split)
  show ?thesis using run wf' False devs found newd(1,3) other by (auto simp: d_def)
qed

section \<open>Flow control\<close>

text \<open>What the other end resolves: what one side sends, the other receives.\<close>

definition swap_flow :: "u8 \<Rightarrow> u8" where
  "swap_flow cap = (if cap AND FLOW_CTRL_TX \<noteq> 0 then FLOW_CTRL_RX else 0) OR
     (if cap AND FLOW_CTRL_RX \<noteq> 0 then FLOW_CTRL_TX else 0)"

lemma single_bit: "x AND 0x400 = 0 \<longleftrightarrow> \<not> bit x 10" "x AND 0x800 = 0 \<longleftrightarrow> \<not> bit x 11" for x :: u16
proof -
  have "(0x400 :: u16) = 2 ^ 10" "(0x800 :: u16) = 2 ^ 11" by simp_all
  then show "x AND 0x400 = 0 \<longleftrightarrow> \<not> bit x 10" "x AND 0x800 = 0 \<longleftrightarrow> \<not> bit x 11"
    by (simp_all only: and_exp_eq_0_iff_not_bit)
qed

lemma common_bit: "x AND y AND 0x400 = 0 \<longleftrightarrow> \<not> (bit x 10 \<and> bit y 10)"
  "x AND y AND 0x800 = 0 \<longleftrightarrow> \<not> (bit x 11 \<and> bit y 11)" for x y :: u16
  unfolding and.assoc [symmetric] single_bit by (simp_all add: bit_and_iff)

theorem flowctrl_mirror:
  "mii_resolve_flowctrl_fdx rmtadv lcladv = swap_flow (mii_resolve_flowctrl_fdx lcladv rmtadv)"
  by (simp add: mii_resolve_flowctrl_fdx_def common_bit single_bit swap_flow_def)

end
