(* ===== verification/EthRing.thy ===== *)
theory EthRing
  imports EthDev Miiphy Bench
begin

text \<open>
  The list of Ethernet devices as the list of its members: \<open>dev_ring\<close> says that the pointers of the
  devices form a ring. Registration appends to it, the two lookups search it in its order, and
  the rotation of \<^verbatim>\<open>eth_init\<close> over it ends.
\<close>

section \<open>The ring\<close>

definition dev_ring :: "eth_vars \<Rightarrow> nat list \<Rightarrow> bool" where
  "dev_ring v as \<longleftrightarrow> distinct as \<and> eth_devices v = (if as = [] then None else Some (hd as)) \<and>
     (\<forall>i < length as. \<exists>d. devs v (as ! i) = Some d \<and> dev_next d = Some (as ! (Suc i mod length as)) \<and>
        short_string (dev_name d))"

lemma dev_ringD:
  assumes "dev_ring v as" "i < length as"
  obtains d where "devs v (as ! i) = Some d" "dev_next d = Some (as ! (Suc i mod length as))" "short_string (dev_name d)"
  using assms unfolding dev_ring_def by blast

lemma ring_next:
  assumes "distinct as" "i < length as"
  shows "as ! (Suc i mod length as) = hd as \<longleftrightarrow> Suc i = length as"
proof (cases "Suc i = length as")
  case True
  then have "as \<noteq> []" by auto
  with True show ?thesis by (simp add: hd_conv_nth)
next
  case False
  then have "Suc i < length as" using assms by simp
  moreover from this have "as ! Suc i \<noteq> as ! 0" using assms(1) by (subst nth_eq_iff_index_eq) auto
  moreover have "hd as = as ! 0" using assms(2) by (intro hd_conv_nth) auto
  ultimately show ?thesis by auto
qed

text \<open>The device a pointer of the ring leads to, and a search.\<close>

definition dev_at :: "eth_vars \<Rightarrow> nat \<Rightarrow> eth_device" where
  "dev_at v a = the (devs v a)"

lemma dev_search_eq:
  assumes ring: "dev_ring v as" and i: "i < length as"
    and P: "\<And>a. a \<in> set as \<Longrightarrow> P (dev_at v a) = Some (Q a)"
  shows "dev_search P (devs v) (Some (hd as)) (Some (as ! i)) = Some (find Q (drop i as))"
  using i
proof (induction "length as - i" arbitrary: i rule: less_induct)
  case less
  obtain d where d: "devs v (as ! i) = Some d" "dev_next d = Some (as ! (Suc i mod length as))"
    by (rule dev_ringD [OF ring less.prems])
  have "P d = Some (Q (as ! i))" using P [of "as ! i"] less.prems d by (simp add: dev_at_def)
  moreover have drop: "drop i as = as ! i # drop (Suc i) as" using less.prems by (simp add: Cons_nth_drop_Suc)
  moreover have "as ! (Suc i mod length as) = hd as \<longleftrightarrow> Suc i = length as"
    using ring less.prems by (intro ring_next) (auto simp: dev_ring_def)
  moreover have "Suc i \<noteq> length as \<Longrightarrow> Suc i < length as" using less.prems by simp
  moreover have "Suc i < length as \<Longrightarrow>
      dev_search P (devs v) (Some (hd as)) (Some (as ! Suc i)) = Some (find Q (drop (Suc i) as))"
    using less by simp
  ultimately show ?case using d by (subst dev_search.simps) auto
qed

lemma dev_search_hd:
  assumes "dev_ring v as" "as \<noteq> []" "\<And>a. a \<in> set as \<Longrightarrow> P (dev_at v a) = Some (Q a)"
  shows "dev_search P (devs v) (eth_devices v) (eth_devices v) = Some (find Q as)"
proof -
  have "dev_search P (devs v) (Some (hd as)) (Some (as ! 0)) = Some (find Q (drop 0 as))"
    using assms(2) by (intro dev_search_eq [OF assms(1)] assms(3)) simp_all
  with assms(1,2) show ?thesis by (simp add: dev_ring_def hd_conv_nth)
qed

text \<open>Two devices, of which only the second comes up.\<close>

definition two_devs :: "bench sys" where
  "two_devs = (sys_init \<lparr>clock = 0, rx_queue = [], tx_log = []\<rparr>)\<lparr>eth := eth_vars_init\<lparr>
     devs := [1 \<mapsto> bench_dev\<lparr>dev_next := Some 2\<rparr>, 2 \<mapsto> bench_dev\<lparr>dev_name := [0x66, 0], dev_index := 1\<rparr>],
     eth_devices := Some 1, eth_current := Some 1\<rparr>\<rparr>"

definition second_only :: "bench drv_ops" where
  "second_only = bench_ops\<lparr>drv_init := \<lambda>a d h. Some (if a = 2 then 0 else -1, h)\<rparr>"

lemma two_devs_ring: "dev_ring (eth two_devs) [1, 2]"
proof -
  have "short_string [0x65, 0]" "short_string [0x66, 0]" by code_simp+
  then show ?thesis
    by (auto simp: dev_ring_def two_devs_def sys_init_def bench_dev_def less_Suc_eq numeral_2_eq_2)
qed

lemma two_devs_env: "env_wf (envs_of two_devs)" "no_rotate (envs_of two_devs) = Some False"
proof -
  have e: "envs_of two_devs = env_init" by (simp add: two_devs_def sys_init_def)
  show "env_wf (envs_of two_devs)" by (simp add: e env_init_wf)
  show "no_rotate (envs_of two_devs) = Some False" unfolding e by code_simp
qed

text \<open>
  C34: \<^verbatim>\<open>eth_get_dev_by_name\<close> returns the first device of the list, in the order of registration, that has the
  name, and \<^verbatim>\<open>NULL\<close> when there is none: the walk over the ring ends.
\<close>

theorem get_dev_by_name_ring:
  assumes "dev_ring v as" "terminated name"
  shows "eth_get_dev_by_name v name = Some (find (\<lambda>a. c_str (dev_name (dev_at v a)) = c_str name) as)"
proof (cases "as = []")
  case False
  have "map_option (\<lambda>r. r = 0) (strcmp name (dev_name (dev_at v a))) =
      Some (c_str (dev_name (dev_at v a)) = c_str name)" if "a \<in> set as" for a
  proof -
    obtain i where i: "i < length as" "as ! i = a" using \<open>a \<in> set as\<close> by (auto simp: in_set_conv_nth)
    obtain d where "devs v a = Some d" "short_string (dev_name d)" by (rule dev_ringD [OF assms(1) i(1), unfolded i(2)])
    then have "terminated (dev_name (dev_at v a))" by (simp add: dev_at_def short_string_def)
    from strcmp_Some [OF assms(2) this] obtain r where
      "strcmp name (dev_name (dev_at v a)) = Some r" "r = 0 \<longleftrightarrow> c_str name = c_str (dev_name (dev_at v a))" .
    then show ?thesis by auto
  qed
  with dev_search_hd [OF assms(1) False] False assms(1) show ?thesis
    by (simp add: eth_get_dev_by_name_def dev_ring_def)
qed (use assms in \<open>simp add: eth_get_dev_by_name_def dev_ring_def\<close>)

theorem get_dev_by_name_ring_witness:
  "eth_get_dev_by_name (eth two_devs) [0x66, 0] = Some (find (\<lambda>a. c_str (dev_name (dev_at (eth two_devs) a)) = c_str [0x66, 0]) [1, 2])"
  by (rule get_dev_by_name_ring [OF two_devs_ring]) code_simp

lemma get_dev_by_index_ring:
  assumes "dev_ring v as"
  shows "eth_get_dev_by_index v index = Some (find (\<lambda>a. dev_index (dev_at v a) = index) as)"
proof (cases "as = []")
  case False
  with dev_search_hd [OF assms False] assms show ?thesis by (simp add: eth_get_dev_by_index_def dev_ring_def)
qed (use assms in \<open>simp add: eth_get_dev_by_index_def dev_ring_def\<close>)

lemma last_dev_ring:
  assumes ring: "dev_ring v as" and i: "i < length as"
  shows "last_dev (devs v) (Some (hd as)) (Some (as ! i)) = Some (last as)"
  using i
proof (induction "length as - i" arbitrary: i rule: less_induct)
  case less
  obtain d where d: "devs v (as ! i) = Some d" "dev_next d = Some (as ! (Suc i mod length as))"
    by (rule dev_ringD [OF ring less.prems])
  have hd: "as ! (Suc i mod length as) = hd as \<longleftrightarrow> Suc i = length as"
    using ring less.prems by (intro ring_next) (auto simp: dev_ring_def)
  show ?case
  proof (cases "Suc i = length as")
    case True
    then have "as ! i = last as" using less.prems by (metis diff_Suc_1 last_conv_nth length_greater_0_conv zero_less_Suc)
    with True d hd show ?thesis by (subst last_dev.simps) simp
  next
    case False
    then have "Suc i < length as" using less.prems by simp
    with less d hd show ?thesis by (subst last_dev.simps) auto
  qed
qed

section \<open>The environment follows the current device\<close>

definition cur_named :: "'h sys \<Rightarrow> bool" where
  "cur_named s \<longleftrightarrow> (\<exists>a d. eth_current (eth s) = Some a \<and> devs (eth s) a = Some d \<and> short_string (dev_name d))"

lemma short_consts:
  "short_string (c_string ''ethact'')" "c_str (c_string ''ethact'') \<noteq> []"
  "terminated (c_string ''ethrotate'')" "c_str (c_string ''ethrotate'') \<noteq> []" "terminated (c_string ''no'')"
  by code_simp+

lemma env_val_terminated:
  assumes "env_wf e" "i < 20"
  shows "terminated (env_val e i)"
proof -
  have "terminated (take 20 (row (vals e) i))" using assms by (simp add: env_wf_def)
  then show ?thesis unfolding env_val_def by (rule terminated_take)
qed

lemma env_get_cases:
  assumes "env_wf e" "terminated n" "c_str n \<noteq> []"
  obtains "env_get e n = Some None" | i where "env_get e n = Some (Some i)" "terminated (env_val e i)"
proof (cases "env_lookup e (c_str n) = None")
  case True
  then show ?thesis using env_get_eq [OF assms] that(1) by simp
next
  case False
  then show ?thesis using env_get_eq [OF assms] env_val_terminated [OF assms(1) env_slot_less] that(2) by simp
qed

lemma no_rotate_defined:
  assumes "env_wf e"
  shows "\<exists>b. no_rotate e = Some b"
proof (rule env_get_cases [OF assms short_consts(3,4)])
  fix i assume i: "env_get e (c_string ''ethrotate'') = Some (Some i)" "terminated (env_val e i)"
  obtain r where "strcmp (env_val e i) (c_string ''no'') = Some r" using strcmp_defined [OF i(2) short_consts(5)] by blast
  with i(1) show ?thesis unfolding no_rotate_def by simp
next
  assume "env_get e (c_string ''ethrotate'') = Some None"
  then show ?thesis unfolding no_rotate_def by (intro exI [of _ False]) simp
qed

lemma current_changed_ok:
  assumes wf: "env_wf (envs_of s)" and cur: "cur_named s"
  shows "\<exists>e. eth_current_changed s = Some (s\<lparr>envs_of := e\<rparr>) \<and> env_wf e"
proof -
  obtain a d where d: "eth_current (eth s) = Some a" "devs (eth s) a = Some d" "short_string (dev_name d)"
    using cur by (auto simp: cur_named_def)
  define key where "key = c_string ''ethact''"
  have key: "short_string key" "c_str key \<noteq> []" unfolding key_def by (rule short_consts)+
  let ?e = "envs_of s"
  let ?new = "env_put ?e (c_str key) (c_str (dev_name d))"
  obtain stay where stay: "no_rotate ?e = Some stay" using no_rotate_defined [OF wf] by blast
  have t: "terminated key" "terminated (dev_name d)" using key(1) d(3) by (simp_all add: short_string_def)
  have set: "env_set ?e key (Some (dev_name d)) = Some (?new, 0)" by (rule env_set_eq [OF wf key d(3)])
  have wf': "env_wf ?new" using wf d(3) key(1) by (intro env_put_wf env_text_c_str)
  have name: "eth_get_name s = Some (dev_name d)" using d by (simp add: eth_get_name_def deref_def)
  have same: "s\<lparr>envs_of := ?e\<rparr> = s" by simp
  show ?thesis
  proof (rule env_get_cases [OF wf t(1) key(2)])
    assume "env_get ?e key = Some None"
    then show ?thesis using stay name set wf wf' d(1) same
      unfolding eth_current_changed_def key_def [symmetric] by (cases stay) (auto intro: exI [of _ ?e])
  next
    fix i assume i: "env_get ?e key = Some (Some i)" "terminated (env_val ?e i)"
    obtain r where "strcmp (env_val ?e i) (dev_name d) = Some r" using strcmp_defined [OF i(2) t(2)] by blast
    then show ?thesis using i(1) stay name set wf wf' d(1) same
      unfolding eth_current_changed_def key_def [symmetric]
      by (cases stay; cases "r = 0") (auto intro: exI [of _ ?e])
  qed
qed

section \<open>Registration\<close>

lemma ring_append:
  assumes ring: "dev_ring v as" and new: "a \<notin> set as"
    and v': "eth_devices v' = Some (hd (as @ [a]))"
      "\<And>x. devs v' x = (if x = a then Some (d\<lparr>dev_next := Some (hd (as @ [a]))\<rparr>)
        else if as \<noteq> [] \<and> x = last as then map_option (\<lambda>d. d\<lparr>dev_next := Some a\<rparr>) (devs v x) else devs v x)"
    and name: "short_string (dev_name d)"
  shows "dev_ring v' (as @ [a])"
  unfolding dev_ring_def
proof (intro conjI allI impI)
  show "distinct (as @ [a])" using ring new by (simp add: dev_ring_def)
  show "eth_devices v' = (if as @ [a] = [] then None else Some (hd (as @ [a])))" using v'(1) by simp
  fix i assume i: "i < length (as @ [a])"
  show "\<exists>d. devs v' ((as @ [a]) ! i) = Some d \<and> dev_next d = Some ((as @ [a]) ! (Suc i mod length (as @ [a]))) \<and>
    short_string (dev_name d)"
  proof (cases "i = length as")
    case True
    then show ?thesis using v'(2) [of a] name by (cases as) (simp_all add: nth_append)
  next
    case False
    then have i: "i < length as" using i by simp
    then obtain d' where d': "devs v (as ! i) = Some d'" "dev_next d' = Some (as ! (Suc i mod length as))"
      "short_string (dev_name d')" using dev_ringD [OF ring] by blast
    have na: "as ! i \<noteq> a" using i new nth_mem by blast
    have last: "as ! i = last as \<longleftrightarrow> Suc i = length as"
    proof -
      have "last as = as ! (length as - 1)" using i by (intro last_conv_nth) auto
      then show ?thesis using ring i by (auto simp: dev_ring_def nth_eq_iff_index_eq)
    qed
    show ?thesis
    proof (cases "Suc i = length as")
      case True
      then show ?thesis using v'(2) [of "as ! i"] na last d' i by (auto simp: nth_append)
    next
      case False
      then show ?thesis using v'(2) [of "as ! i"] na last d' i by (auto simp: nth_append)
    qed
  qed
qed

lemma eth_register_appends:
  assumes ring: "dev_ring (eth s) as" and new: "a \<notin> set as" "devs (eth s) a = Some d" "short_string (dev_name d)"
    and wf: "env_wf (envs_of s)"
  shows "\<exists>s'. eth_register a s = Some (0, s') \<and> dev_ring (eth s') (as @ [a]) \<and> env_wf (envs_of s') \<and>
    eth_current (eth s') = (if as = [] then Some a else eth_current (eth s)) \<and>
    reg_index (eth s') = reg_index (eth s) + 1 \<and> dev_index (dev_at (eth s') a) = reg_index (eth s) \<and>
    (\<exists>d'. devs (eth s') a = Some d' \<and> dev_name d' = dev_name d \<and> iobase d' = iobase d \<and> enetaddr d' = enetaddr d) \<and>
    net s' = net s \<and> hw s' = hw s"
proof (cases "as = []")
  case True
  define s1 where "s1 = upd_eth (\<lambda>v. v\<lparr>eth_devices := Some a, eth_current := Some a\<rparr>) s"
  have "cur_named s1" using new by (simp add: cur_named_def s1_def sys_simps)
  moreover have "env_wf (envs_of s1)" using wf by (simp add: s1_def sys_simps)
  ultimately obtain e where e: "eth_current_changed s1 = Some (s1\<lparr>envs_of := e\<rparr>)" "env_wf e"
    using current_changed_ok by blast
  have none: "eth_devices (eth s) = None" using ring True by (simp add: dev_ring_def)
  define d' where "d' = d\<lparr>dev_state := ETH_STATE_INIT, dev_next := Some a, dev_index := reg_index (eth s)\<rparr>"
  define s' where "s' = upd_eth (\<lambda>v. v\<lparr>reg_index := reg_index v + 1\<rparr>) (put_dev a d' (s1\<lparr>envs_of := e\<rparr>))"
  have run: "eth_register a s = Some (0, s')"
    using none e(1) new(2) unfolding s1_def [symmetric] eth_register_def
    by (simp add: s'_def d'_def) (simp add: s1_def sys_simps)
  have "dev_ring (eth s') (as @ [a])"
    using True new(3)
    by (intro ring_append [OF ring new(1), where d = d']) (simp_all add: s'_def d'_def s1_def sys_simps)
  with run True e(2) show ?thesis by (simp add: s'_def s1_def d'_def sys_simps dev_at_def)
next
  case False
  have some: "eth_devices (eth s) = Some (hd as)" using ring False by (simp add: dev_ring_def)
  have lasta: "last as \<in> set as" "last as \<noteq> a" using False new(1) by auto
  have last: "last_dev (devs (eth s)) (eth_devices (eth s)) (eth_devices (eth s)) = Some (last as)"
    using last_dev_ring [OF ring, of 0] False by (simp add: some hd_conv_nth)
  obtain dl where dl: "devs (eth s) (last as) = Some dl"
    using dev_ringD [OF ring, of "length as - 1"] False by (auto simp: last_conv_nth)
  define d' where "d' = d\<lparr>dev_state := ETH_STATE_INIT, dev_next := Some (hd as), dev_index := reg_index (eth s)\<rparr>"
  define s' where "s' = upd_eth (\<lambda>v. v\<lparr>reg_index := reg_index v + 1\<rparr>)
    (put_dev a d' (put_dev (last as) (dl\<lparr>dev_next := Some a\<rparr>) s))"
  have run: "eth_register a s = Some (0, s')"
    using some last dl new(2) lasta(2) by (simp add: eth_register_def s'_def d'_def sys_simps)
  have "dev_ring (eth s') (as @ [a])"
    using False new(3) some dl lasta
    by (intro ring_append [OF ring new(1), where d = d']) (simp_all add: s'_def d'_def sys_simps)
  with run False wf show ?thesis by (simp add: s'_def d'_def sys_simps dev_at_def)
qed

section \<open>The rotation\<close>

lemma no_rotate_eq:
  assumes "env_wf e"
  shows "no_rotate e = Some (env_lookup e (c_str (c_string ''ethrotate'')) = Some (c_str (c_string ''no'')))"
proof -
  define key no where kn: "key = c_string ''ethrotate''" "no = c_string ''no''"
  have key: "terminated key" "c_str key \<noteq> []" "terminated no" unfolding kn by (rule short_consts)+
  let ?i = "env_slot e (c_str key)"
  have t: "terminated (env_val e ?i)" using env_val_terminated [OF assms env_slot_less] .
  obtain r where r: "strcmp (env_val e ?i) no = Some r" "r = 0 \<longleftrightarrow> c_str (env_val e ?i) = c_str no"
    by (rule strcmp_Some [OF t key(3)])
  have "terminated (take 20 (row (vals e) ?i))" using assms env_slot_less by (simp add: env_wf_def)
  then have "c_str (env_val e ?i) = row_str (vals e) ?i" unfolding env_val_def by (rule row_str_eq)
  with r have "no_rotate e = Some (env_lookup e (c_str key) \<noteq> None \<and> row_str (vals e) ?i = c_str no)"
    unfolding no_rotate_def kn(1) [symmetric] kn(2) [symmetric] env_get_eq [OF assms key(1,2)] by simp
  then show ?thesis unfolding kn(1) [symmetric] kn(2) [symmetric] by (auto simp: env_lookup_def)
qed

lemma act_not_rotate: "c_str (c_string ''ethrotate'') \<noteq> c_str (c_string ''ethact'')"
  by code_simp

text \<open>What the environment becomes: the current device's name may be stored.\<close>

definition follows :: "env \<Rightarrow> env \<Rightarrow> bool" where
  "follows e e' \<longleftrightarrow> env_wf e' \<and> (no_rotate e = Some False \<longrightarrow> no_rotate e' = Some False)"

lemma follows_put:
  assumes "env_wf e" "env_text v"
  shows "follows e (env_put e (c_str (c_string ''ethact'')) v)"
proof -
  have t: "env_text (c_str (c_string ''ethact''))" using short_consts(1) by (rule env_text_c_str)
  note wf = env_put_wf [OF assms(1) t assms(2)]
  show ?thesis
    using wf by (simp add: follows_def no_rotate_eq [OF wf] no_rotate_eq [OF assms(1)]
        env_lookup_put_other [OF assms(1) t assms(2) act_not_rotate])
qed

lemma current_changed_follows:
  assumes wf: "env_wf (envs_of s)" and cur: "cur_named s" and e: "eth_current_changed s = Some s'"
  shows "follows (envs_of s) (envs_of s')"
proof -
  obtain a d where d: "eth_current (eth s) = Some a" "devs (eth s) a = Some d" "short_string (dev_name d)"
    using cur by (auto simp: cur_named_def)
  define key where "key = c_string ''ethact''"
  have key: "short_string key" "c_str key \<noteq> []" unfolding key_def by (rule short_consts)+
  have name: "eth_get_name s = Some (dev_name d)" using d by (simp add: eth_get_name_def deref_def)
  let ?e = "envs_of s"
  have set: "env_set ?e key (Some (dev_name d)) = Some (env_put ?e (c_str key) (c_str (dev_name d)), 0)"
    by (rule env_set_eq [OF wf key d(3)])
  have new: "follows ?e (env_put ?e (c_str key) (c_str (dev_name d)))"
    unfolding key_def by (rule follows_put [OF wf]) (rule env_text_c_str [OF d(3)])
  have old: "follows ?e ?e" using wf by (simp add: follows_def)
  have "s' = s \<or> s' = s\<lparr>envs_of := env_put ?e (c_str key) (c_str (dev_name d))\<rparr>"
    using e d(1) unfolding eth_current_changed_def key_def [symmetric]
    by (auto simp: name set bind_eq_Some_conv split: if_splits option.splits)
  with new old show ?thesis by auto
qed

lemma ring_put_state:
  assumes "dev_ring v as" "devs v a = Some d"
  shows "dev_ring (v\<lparr>devs := (devs v)(a \<mapsto> d\<lparr>dev_state := st\<rparr>)\<rparr>) as"
  using assms unfolding dev_ring_def by fastforce

text \<open>One step of the rotation.\<close>

lemma try_another_rotates:
  assumes ring: "dev_ring (eth s) as" and i: "i < length as" "eth_current (eth s) = Some (as ! i)"
    and wf: "env_wf (envs_of s)" "no_rotate (envs_of s) = Some False"
  shows "\<exists>s'. eth_try_another False s = Some s' \<and> eth s' = (eth s)\<lparr>eth_current := Some (as ! (Suc i mod length as))\<rparr> \<and>
    hw s' = hw s \<and> env_wf (envs_of s') \<and> no_rotate (envs_of s') = Some False"
proof -
  obtain d where d: "devs (eth s) (as ! i) = Some d" "dev_next d = Some (as ! (Suc i mod length as))"
    by (rule dev_ringD [OF ring i(1)])
  let ?n = "as ! (Suc i mod length as)"
  define s1 where "s1 = upd_eth (\<lambda>v. v\<lparr>eth_current := Some ?n\<rparr>) s"
  have s1: "eth_set_current_to_next s = Some s1" using i(2) d by (simp add: eth_set_current_to_next_def deref_def s1_def)
  have "Suc i mod length as < length as" using i(1) by (intro mod_less_divisor) auto
  then obtain dn where "devs (eth s) ?n = Some dn" "short_string (dev_name dn)" by (rule dev_ringD [OF ring])
  then have named: "cur_named s1" by (simp add: cur_named_def s1_def sys_simps)
  have wf1: "env_wf (envs_of s1)" using wf by (simp add: s1_def sys_simps)
  obtain e where e: "eth_current_changed s1 = Some (s1\<lparr>envs_of := e\<rparr>)" using current_changed_ok [OF wf1 named] by blast
  have "follows (envs_of s) e" using current_changed_follows [OF wf1 named e] by (simp add: s1_def sys_simps)
  then have fo: "env_wf e" "no_rotate e = Some False" using wf(2) by (simp_all add: follows_def)
  show ?thesis using i(2) wf(2) s1 e fo by (simp add: eth_try_another_def s1_def sys_simps)
qed

text \<open>The devices from the \<open>k\<close>-th after \<open>i\<close> round to \<open>i\<close>.\<close>

definition ring_from :: "nat list \<Rightarrow> nat \<Rightarrow> nat \<Rightarrow> nat list" where
  "ring_from as i k = map (\<lambda>j. as ! ((i + j) mod length as)) [k..<length as]"

lemma ring_from_0: "i < length as \<Longrightarrow> ring_from as i 0 = rotate i as"
  by (rule nth_equalityI) (simp_all add: ring_from_def nth_rotate add.commute)

lemma eth_init_loop_tries:
  assumes hw: "\<And>a d h. \<exists>r h'. drv_init ops a d h = Some (r, h') \<and> (0 \<le> r \<longleftrightarrow> ok a)"
    and ring: "dev_ring (eth s) as" and i: "i < length as" and k: "k < length as"
    and cur: "eth_current (eth s) = Some (as ! ((i + k) mod length as))"
    and wf: "env_wf (envs_of s)" "no_rotate (envs_of s) = Some False"
  shows "\<exists>s' r. eth_init_loop ops (Some (as ! i)) s = Some (r, s') \<and> dev_ring (eth s') as \<and>
    (case find ok (ring_from as i k) of
       Some a \<Rightarrow> r = 0 \<and> eth_current (eth s') = Some a \<and> dev_state (dev_at (eth s') a) = ETH_STATE_ACTIVE
     | None \<Rightarrow> r = -110 \<and> eth_current (eth s') = Some (as ! i))"
  using ring k cur wf
proof (induction "length as - k" arbitrary: k s rule: less_induct)
  case less
  let ?n = "length as"
  define j where "j = (i + k) mod ?n"
  have j: "j < ?n" unfolding j_def using i by (intro mod_less_divisor) auto
  have cur: "eth_current (eth s) = Some (as ! j)" using less.prems(3) by (simp add: j_def)
  obtain d where d: "devs (eth s) (as ! j) = Some d" by (rule dev_ringD [OF less.prems(1) j])
  obtain r h where r: "drv_init ops (as ! j) d (hw s) = Some (r, h)" "0 \<le> r \<longleftrightarrow> ok (as ! j)" using hw by blast
  have list: "ring_from as i k = as ! j # ring_from as i (Suc k)"
    using less.prems(2) by (simp add: ring_from_def j_def upt_conv_Cons)
  show ?case
  proof (cases "ok (as ! j)")
    case True
    define s' where "s' = put_dev (as ! j) (d\<lparr>dev_state := ETH_STATE_ACTIVE\<rparr>) (s\<lparr>hw := h\<rparr>)"
    have "eth_init_loop ops (Some (as ! i)) s = Some (0, s')"
      using cur d r True by (subst eth_init_loop.simps) (simp add: deref_def s'_def)
    moreover have "dev_ring (eth s') as" using ring_put_state [OF less.prems(1) d] by (simp add: s'_def sys_simps)
    ultimately show ?thesis using True cur by (simp add: list s'_def sys_simps dev_at_def)
  next
    case False
    define s1 where "s1 = s\<lparr>hw := h\<rparr>"
    obtain s2 where s2: "eth_try_another False s1 = Some s2" "eth s2 = (eth s)\<lparr>eth_current := Some (as ! (Suc j mod ?n))\<rparr>"
      "env_wf (envs_of s2)" "no_rotate (envs_of s2) = Some False"
      using try_another_rotates [of s1 as j] less.prems(1,4,5) j cur by (auto simp: s1_def)
    have step: "eth_init_loop ops (Some (as ! i)) s =
        (if as ! i \<noteq> as ! (Suc j mod ?n) then eth_init_loop ops (Some (as ! i)) s2 else Some (-110, s2))"
      using cur d r False s2 by (subst eth_init_loop.simps) (simp add: deref_def s1_def [symmetric])
    have next_j: "Suc j mod ?n = (i + Suc k) mod ?n" by (simp add: j_def mod_Suc_eq)
    have ring2: "dev_ring (eth s2) as" using less.prems(1) s2(2) by (simp add: dev_ring_def)
    have dist: "distinct as" using less.prems(1) by (simp add: dev_ring_def)
    show ?thesis
    proof (cases "Suc k = ?n")
      case True
      then have "Suc j mod ?n = i" using i by (simp add: next_j)
      then have "eth_init_loop ops (Some (as ! i)) s = Some (-110, s2)" "ring_from as i (Suc k) = []"
        using step True by (simp_all add: ring_from_def)
      then show ?thesis using False ring2 s2(2) \<open>Suc j mod ?n = i\<close> by (simp add: list)
    next
      case more: False
      then have k: "Suc k < ?n" using less.prems(2) by simp
      have "(i + Suc k) mod ?n \<noteq> i"
      proof
        assume "(i + Suc k) mod ?n = i"
        then have "(i + Suc k) mod ?n = (i + 0) mod ?n" using i by simp
        then have "Suc k mod ?n = 0 mod ?n" unfolding nat_mod_eq_iff by (metis add_left_cancel group_cancel.add1 nat_mod_eq_iff)
        then show False using k by simp
      qed
      moreover have "(i + Suc k) mod ?n < ?n" using i by (intro mod_less_divisor) auto
      ultimately have "as ! i \<noteq> as ! (Suc j mod ?n)" using dist i by (simp add: next_j nth_eq_iff_index_eq)
      moreover have "eth_current (eth s2) = Some (as ! ((i + Suc k) mod ?n))" using s2(2) by (simp add: next_j)
      ultimately show ?thesis
        using less.hyps [OF _ ring2 k _ s2(3,4)] less.prems(2) step False by (simp add: list)
    qed
  qed
qed

text \<open>
  C18: with rotation on, \<^verbatim>\<open>eth_init\<close> ends on every list of devices: it tries them from the current one on, makes
  the first that comes up current and active and returns 0, and returns \<^verbatim>\<open>-ETIMEDOUT\<close>, back at the
  device it started with, when none does.
\<close>

theorem eth_init_tries:
  assumes hw: "\<And>a d h. \<exists>r h'. drv_init ops a d h = Some (r, h') \<and> (0 \<le> r \<longleftrightarrow> ok a)"
    and ring: "dev_ring (eth s) as" and i: "i < length as" "eth_current (eth s) = Some (as ! i)"
    and wf: "env_wf (envs_of s)" "no_rotate (envs_of s) = Some False"
  shows "\<exists>s' r. eth_init ops s = Some (r, s') \<and> dev_ring (eth s') as \<and>
    (case find ok (rotate i as) of
       Some a \<Rightarrow> r = 0 \<and> eth_current (eth s') = Some a \<and> dev_state (dev_at (eth s') a) = ETH_STATE_ACTIVE
     | None \<Rightarrow> r = -110 \<and> eth_current (eth s') = Some (as ! i))"
proof -
  have "as \<noteq> []" using i(1) by auto
  with eth_init_loop_tries [OF hw ring i(1), of 0] i wf show ?thesis by (simp add: eth_init_def ring_from_0)
qed

theorem eth_init_tries_witness:
  "\<exists>s' r. eth_init second_only two_devs = Some (r, s') \<and> dev_ring (eth s') [1, 2] \<and>
    (case find (\<lambda>a. a = 2) (rotate 0 [1, 2]) of
       Some a \<Rightarrow> r = 0 \<and> eth_current (eth s') = Some a \<and> dev_state (dev_at (eth s') a) = ETH_STATE_ACTIVE
     | None \<Rightarrow> r = -110 \<and> eth_current (eth s') = Some ([1, 2] ! 0))"
proof (rule eth_init_tries [OF _ two_devs_ring _ _ two_devs_env])
  show "\<exists>r h'. drv_init second_only a d h = Some (r, h') \<and> (0 \<le> r \<longleftrightarrow> a = 2)" for a d h by (simp add: second_only_def)
  show "eth_current (eth two_devs) = Some ([1, 2] ! 0)" by (simp add: two_devs_def)
qed simp

end
