(* ===== verification/Machine.thy ===== *)
theory Machine
  imports Loop EthRing
begin

text \<open>
  The main loop as a transition system: its states are the three positions of \<open>loop_result\<close>, its
  steps one pass through the code before the loop or one round of it. A step that is undefined
  behaviour does not exist, so a loop that gets stuck before it is done has gone wrong. The
  theorems say that this never happens, on any device list, with any frames, whatever the devices
  answer, and that the loop as a function is the run of the steps.
\<close>

section \<open>Transition systems\<close>

text \<open>An invariant that steps keep, and under which a state that is not final has a step.\<close>

locale safe_steps =
  fixes step :: "'s \<Rightarrow> 's \<Rightarrow> bool" and final :: "'s \<Rightarrow> bool" and good :: "'s \<Rightarrow> bool"
  assumes keeps: "good x \<Longrightarrow> step x y \<Longrightarrow> good y"
    and moves: "good x \<Longrightarrow> \<not> final x \<Longrightarrow> \<exists>y. step x y"
begin

lemma good_steps: "step\<^sup>*\<^sup>* x y \<Longrightarrow> good x \<Longrightarrow> good y"
  by (induction rule: rtranclp_induct) (auto intro: keeps)

lemma never_stuck: "step\<^sup>*\<^sup>* x y \<Longrightarrow> good x \<Longrightarrow> good y \<and> (final y \<or> (\<exists>z. step y z))"
  using good_steps moves by blast

end

text \<open>When a measure decreases as well, a final state is reached.\<close>

locale ending_steps = safe_steps step final good
  for step :: "'s \<Rightarrow> 's \<Rightarrow> bool" and final :: "'s \<Rightarrow> bool" and good :: "'s \<Rightarrow> bool" +
  fixes rank :: "('s \<times> 's) set"
  assumes wf_rank: "wf rank"
    and decreases: "good x \<Longrightarrow> \<not> final x \<Longrightarrow> step x y \<Longrightarrow> (y, x) \<in> rank"
begin

lemma ends: "good x \<Longrightarrow> \<exists>y. step\<^sup>*\<^sup>* x y \<and> final y \<and> good y"
proof (induction x rule: wf_induct_rule [OF wf_rank])
  case (1 x)
  show ?case
  proof (cases "final x")
    case False
    then obtain y where y: "step x y" using moves [OF 1(2)] by blast
    with 1 False obtain z where "step\<^sup>*\<^sup>* y z" "final z" "good z" using decreases keeps by blast
    with y show ?thesis by (meson converse_rtranclp_into_rtranclp)
  qed (use 1 in blast)
qed

end

section \<open>The steps of the loop\<close>

inductive loop_step :: "'h drv_ops \<Rightarrow> proto_t \<Rightarrow> 'h loop_result \<Rightarrow> 'h loop_result \<Rightarrow> bool"
  for ops :: "'h drv_ops" and p :: proto_t where
  start: "net_loop_start ops p ret s = Some x \<Longrightarrow> loop_step ops p (Restart ret s) x"
| round: "net_loop_iter ops p ret s = Some x \<Longrightarrow> loop_step ops p (Continue ret s) x"

inductive_cases done_stepE: "loop_step ops p (Done ret s) x"

inductive_simps loop_step_simps [simp]:
  "loop_step ops p (Restart ret s) x" "loop_step ops p (Continue ret s) x" "loop_step ops p (Done ret s) x"

abbreviation loop_steps :: "'h drv_ops \<Rightarrow> proto_t \<Rightarrow> 'h loop_result \<Rightarrow> 'h loop_result \<Rightarrow> bool" where
  "loop_steps ops p \<equiv> (loop_step ops p)\<^sup>*\<^sup>*"

lemma steps_run: "loop_steps ops p x (Done r s) \<Longrightarrow> net_loop_run ops p x = Some (r, s)"
proof (induction rule: converse_rtranclp_induct)
  case base
  then show ?case by (simp add: net_loop_run.simps)
next
  case (step x y)
  then show ?case by (cases x) (simp_all add: net_loop_run.simps [of _ _ "Restart _ _"] net_loop_run.simps [of _ _ "Continue _ _"])
qed

lemma run_steps:
  assumes "net_loop_run ops p x = Some y"
  shows "loop_steps ops p x (Done (fst y) (snd y))"
  using assms
proof (rule net_loop_run.raw_induct [rotated])
  fix run :: "'a drv_ops \<Rightarrow> proto_t \<Rightarrow> 'a loop_result \<Rightarrow> (int \<times> 'a sys) option" and o1 q x y
  assume IH: "\<And>o1 q x y. run o1 q x = Some y \<Longrightarrow> loop_steps o1 q x (Done (fst y) (snd y))"
    and run: "(case x of Done ret s \<Rightarrow> Some (ret, s) | Restart ret s \<Rightarrow> net_loop_start o1 q ret s \<bind> run o1 q
      | Continue ret s \<Rightarrow> net_loop_iter o1 q ret s \<bind> run o1 q) = Some y"
  show "loop_steps o1 q x (Done (fst y) (snd y))"
    using run by (cases x) (auto simp: bind_eq_Some_conv intro: converse_rtranclp_into_rtranclp dest: IH)
qed


section \<open>The invariant\<close>

text \<open>The environment is well formed, and the current device is one of the ring of devices.\<close>

definition devices_ok :: "'h sys \<Rightarrow> bool" where
  "devices_ok s \<longleftrightarrow> env_wf (envs_of s) \<and> (\<exists>as. dev_ring (eth s) as \<and> (\<exists>a \<in> set as. eth_current (eth s) = Some a))"

definition machine_inv :: "'h sys \<Rightarrow> bool" where
  "machine_inv s \<longleftrightarrow> stack_inv s \<and> devices_ok s"

text \<open>A frame as the driver may hand it over: a whole buffer, and no IP packet shorter than its header.\<close>

definition whole_frame :: "bytes \<Rightarrow> u32 \<Rightarrow> bool" where
  "whole_frame b len \<longleftrightarrow> 64 \<le> length b \<and> unat len \<le> length b \<and> unat len < 2 ^ 31 \<and>
     (\<forall>v. ip_acceptable v b (link_hdr_size b) (len - of_nat (link_hdr_size b)) \<longrightarrow>
       20 \<le> unat (ip_len (read_ip b (link_hdr_size b))))"

text \<open>What the loop asks of its devices and clients: that their functions return.\<close>

definition driver_ok :: "'h drv_ops \<Rightarrow> bool" where
  "driver_ok ops \<longleftrightarrow> send_total ops \<and> \<not> stack_addr ops + 2147483647 < stack_addr ops \<and>
     (\<forall>a d h. drv_init ops a d h \<noteq> None \<and> drv_halt ops a d h \<noteq> None \<and> (\<forall>b. drv_recv_done ops a d b h \<noteq> None)) \<and>
     (\<forall>a d h. \<exists>f h'. drv_recv ops a d h = Some (f, h') \<and> (\<forall>addr b len. f = Some (addr, b, len) \<longrightarrow> whole_frame b len))"

definition clients_ok :: "'h drv_ops \<Rightarrow> bool" where
  "clients_ok ops \<longleftrightarrow> clients_total ops \<and>
     (\<forall>k b dport sip sport len s s'. client_rx ops k b dport sip sport len s = Some s' \<longrightarrow> devices_ok s \<longrightarrow> devices_ok s') \<and>
     (\<forall>k s. machine_inv s \<longrightarrow> (\<exists>s'. client_timeout ops k s = Some s' \<and> machine_inv s'))"

lemma devices_ok_cong: "eth s' = eth s \<Longrightarrow> envs_of s' = envs_of s \<Longrightarrow> devices_ok s' = devices_ok s"
  by (simp add: devices_ok_def)

lemma devices_ok_upd [simp]:
  "devices_ok (s\<lparr>hw := h\<rparr>) = devices_ok s" "devices_ok (upd_net f s) = devices_ok s"
  "devices_ok (upd_arp g s) = devices_ok s" "devices_ok (net_set_state st s) = devices_ok s"
  "devices_ok (rx_noted p l s) = devices_ok s" "devices_ok (s\<lparr>net := v, ping := q\<rparr>) = devices_ok s"
  by (simp_all add: devices_ok_def sys_simps)

lemma machine_inv_hw [simp]: "machine_inv (s\<lparr>hw := h\<rparr>) = machine_inv s"
  by (simp add: machine_inv_def)

lemma machine_inv_state [simp]: "machine_inv (net_set_state st s) = machine_inv s"
  by (simp add: machine_inv_def)

lemma now_inv: "now ops s = (t, s') \<Longrightarrow> machine_inv s' = machine_inv s"
  using now_eq [of ops s t s'] by (metis machine_inv_hw)

section \<open>Frames\<close>

lemma send_devices: "net_send_packet ops b l s = Some s' \<Longrightarrow> devices_ok s' = devices_ok s"
  using net_send_packet_hw [of ops b l s s'] by (metis devices_ok_upd(1))

lemma client_devices:
  "clients_ok ops \<Longrightarrow> client_rx ops k b dport sip sport len s = Some s' \<Longrightarrow> devices_ok s \<Longrightarrow> devices_ok s'"
  unfolding clients_ok_def by blast

lemma client_timeout_inv:
  "clients_ok ops \<Longrightarrow> machine_inv s \<Longrightarrow> \<exists>s'. client_timeout ops k s = Some s' \<and> machine_inv s'"
  unfolding clients_ok_def by blast

lemma run_rxhand_devices:
  "clients_ok ops \<Longrightarrow> run_rxhand ops f b dport sip sport len s = Some s' \<Longrightarrow> devices_ok s \<Longrightarrow> devices_ok s'"
  by (auto simp: run_rxhand_def split: option.splits rxhand.splits dest: client_devices)

lemma arp_receive_devices:
  assumes "clients_ok ops" "devices_ok s" "a + 28 \<le> length b" "arp_receive ops b a len s = Some (b', s')"
  shows "devices_ok s'"
proof -
  have answer: "devices_ok s2" if "arp_answer ops b a s = Some (b2, s2)" for b2 s2
    using that assms(2) by (auto simp: arp_answer_def bind_eq_Some_conv dest: send_devices)
  have resolved: "devices_ok s2" if "arp_resolved ops b a len s = Some s2" for s2
    using that assms(2)
    by (auto simp: arp_resolved_def bind_eq_Some_conv split: if_splits option.splits
        dest!: send_devices run_rxhand_devices [OF assms(1)])
  show ?thesis using assms(2,4) by (auto simp: arp_receive_eq [OF assms(3)] answer resolved split: if_splits)
qed

lemma receive_ip_devices:
  assumes "clients_ok ops" "devices_ok s" "ip + 28 \<le> length b" "receive_ip ops b ip len s = Some (b', s')"
  shows "devices_ok s'"
proof -
  have "devices_ok s2" if "echo_reply ops b ip l s = Some (b2, s2)" for l b2 s2
    using that assms(2) by (auto simp: echo_reply_def bind_eq_Some_conv Let_def dest: send_devices)
  then show ?thesis
    using assms(2,4) by (auto simp: receive_ip_eq [OF assms(3)] ping_receive_eq [OF assms(3)] Let_def
        split: if_splits dest: run_rxhand_devices [OF assms(1)])
qed

lemma process_inv:
  assumes "driver_ok ops" "clients_ok ops" "machine_inv s" "whole_frame b len"
  shows "\<exists>b' s'. net_process_received_packet ops loc b len s = Some (b', s') \<and> machine_inv s'"
proof -
  let ?ip = "link_hdr_size b"
  have ops: "send_total ops" "clients_total ops" using assms(1,2) by (simp_all add: driver_ok_def clients_ok_def)
  have buf: "64 \<le> length b" "unat len \<le> length b" "unat len < 2 ^ 31" using assms(4) by (simp_all add: whole_frame_def)
  have inv: "stack_inv s" using assms(3) by (simp add: machine_inv_def)
  obtain b' s' where run: "net_process_received_packet ops loc b len s = Some (b', s')" "stack_inv s'"
    using process_total [OF ops inv buf, of loc] assms(4) by (auto simp: whole_frame_def)
  have dev: "devices_ok (rx_noted loc len s)" using assms(3) by (simp add: machine_inv_def)
  have b: "?ip + 28 \<le> length b" using link_hdr_size_bounds(2) [of b] buf(1) by simp
  have "devices_ok s'"
  proof (cases "unat len < 14")
    case True
    then have "(scast len :: u64) < 14" using buf(3) by (simp add: word_less_nat_alt unat_scast)
    then show ?thesis using run(1) dev by (auto simp: net_process_received_packet_def simp flip: rx_noted_def)
  next
    case False
    then have "14 \<le> unat len" by simp
    note e = process_eq [OF this buf(3,1), of ops loc s]
    show ?thesis using run(1) dev arp_receive_devices [OF assms(2) dev b] receive_ip_devices [OF assms(2) dev b]
      by (auto simp: e split: if_splits)
  qed
  with run show ?thesis by (auto simp: machine_inv_def)
qed


section \<open>Requests and timeouts\<close>

lemma driver_okD:
  assumes "driver_ok ops"
  shows "send_total ops" "\<not> stack_addr ops + 2147483647 < stack_addr ops"
    "\<exists>r h'. drv_init ops a d h = Some (r, h')" "\<exists>h'. drv_halt ops a d h = Some h'"
    "\<exists>r h'. drv_recv_done ops a d b h = Some (r, h')"
    "\<exists>f h'. drv_recv ops a d h = Some (f, h') \<and> (\<forall>loc b len. f = Some (loc, b, len) \<longrightarrow> whole_frame b len)"
  using assms unfolding driver_ok_def by auto

lemma stack_invD:
  assumes "stack_inv s"
  shows "length (net_ethaddr (net s)) = 6" "length (net_pkt_buf (net s)) = 7744" "length (arp_tx_packet_buf (arp s)) = 1600"
    "\<exists>tx \<le> 63. net_tx_packet (net s) = Some tx" "\<exists>tx \<le> 63. arp_tx_packet (arp s) = Some tx"
    "eth_current (eth s) = Some a \<Longrightarrow> \<exists>d. devs (eth s) a = Some d \<and> length (enetaddr d) = 6" "net_wf s"
  using assms by (auto simp: stack_inv_def net_wf_def net_ready_def)

lemma arp_request_inv:
  assumes "driver_ok ops" "machine_inv s"
  shows "\<exists>s'. arp_request ops s = Some s' \<and> machine_inv s'"
proof -
  note ops = driver_okD [OF assms(1)]
  have inv: "stack_inv s" using assms(2) by (simp add: machine_inv_def)
  define hop where "hop = next_hop (net s) (net_arp_wait_packet_ip (arp s))"
  define s1 where "s1 = upd_arp (\<lambda>v. v\<lparr>net_arp_wait_reply_ip := hop\<rparr>) s"
  have inv1: "stack_inv s1" using inv by (simp add: s1_def stack_inv_def net_wf_def net_ready_def sys_simps)
  obtain tx where tx: "arp_tx_packet (arp s1) = Some tx" "tx \<le> 63" using stack_invD(5) [OF inv1] by blast
  have l: "length (arp_tx_packet_buf (arp s1)) = 1600" by (rule stack_invD(3) [OF inv1])
  have "tx + 46 \<le> length (arp_tx_packet_buf (arp s1))" using tx(2) l by simp
  from arp_raw_request_eq [OF tx(1) this stack_invD(1) [OF inv1] _ ops(2), of net_null_ethaddr "net_ip (net s)" hop]
  obtain b' where b': "arp_raw_request ops (net_ip (net s)) net_null_ethaddr hop s1 =
      net_send_packet ops (drop tx b') (of_nat (net_eth_hdr_size (net s1) + 28))
        (upd_arp (\<lambda>v. v\<lparr>arp_tx_packet_buf := b'\<rparr>) s1)" "length b' = 1600"
    using l by (auto simp: net_null_ethaddr_def)
  define s2 where "s2 = upd_arp (\<lambda>v. v\<lparr>arp_tx_packet_buf := b'\<rparr>) s1"
  have inv2: "stack_inv s2" using inv1 b'(2) by (simp add: s2_def stack_inv_def net_wf_def net_ready_def sys_simps)
  have "unat (of_nat (net_eth_hdr_size (net s1) + 28) :: u32) \<le> length (drop tx b')"
    using tx(2) b'(2) by (intro order_trans [OF unat_of_nat_le]) (auto simp: net_eth_hdr_size_eq)
  from net_send_packet_total [OF ops(1) stack_invD(7) [OF inv2] this] obtain h where
    "net_send_packet ops (drop tx b') (of_nat (net_eth_hdr_size (net s1) + 28)) s2 = Some (s2\<lparr>hw := h\<rparr>)" by blast
  then have "arp_request ops s = Some (s2\<lparr>hw := h\<rparr>)"
    using b'(1) by (simp add: arp_request_eq Let_def s2_def s1_def hop_def)
  moreover have "machine_inv (s2\<lparr>hw := h\<rparr>)" using inv2 assms(2) by (simp add: machine_inv_def s2_def s1_def)
  ultimately show ?thesis by blast
qed

lemma machine_inv_arp_timer [simp]:
  "machine_inv (upd_arp (\<lambda>v. v\<lparr>arp_wait_timer_start := t\<rparr>) s) = machine_inv s"
  "machine_inv (upd_arp (\<lambda>v. v\<lparr>arp_wait_try := k\<rparr>) s) = machine_inv s"
  "machine_inv (upd_arp (\<lambda>v. v\<lparr>arp_wait_try := k, arp_wait_timer_start := t\<rparr>) s) = machine_inv s"
  by (simp_all add: machine_inv_def stack_inv_def net_wf_def net_ready_def sys_simps)

lemma machine_inv_net_timer [simp]:
  "machine_inv (upd_net (\<lambda>v. v\<lparr>time_start := t\<rparr>) s) = machine_inv s"
  "machine_inv (upd_net (\<lambda>v. v\<lparr>time_start := t, time_delta := d\<rparr>) s) = machine_inv s"
  "machine_inv (upd_net (\<lambda>v. v\<lparr>time_handler := f\<rparr>) s) = machine_inv s"
  "machine_inv (upd_net (\<lambda>v. v\<lparr>net_restarted := r\<rparr>) s) = machine_inv s"
  "machine_inv (upd_net (\<lambda>v. v\<lparr>net_restart_wrap := r\<rparr>) s) = machine_inv s"
  "machine_inv (upd_net (\<lambda>v. v\<lparr>net_try_count := c\<rparr>) s) = machine_inv s"
  "machine_inv (upd_net (\<lambda>v. v\<lparr>net_ip := i\<rparr>) s) = machine_inv s"
  "machine_inv (upd_net (\<lambda>v. v\<lparr>net_dev_exists := e, net_boot_file_size := z\<rparr>) s) = machine_inv s"
  by (simp_all add: machine_inv_def stack_inv_def net_wf_def net_ready_def sys_simps)

lemma machine_inv_handlers:
  "machine_inv s \<Longrightarrow> machine_inv (net_set_udp_handler f s)" "machine_inv s \<Longrightarrow> machine_inv (net_set_arp_handler f s)"
  "machine_inv s \<Longrightarrow> machine_inv (net_set_timeout_handler ops iv g s)"
proof -
  assume inv: "machine_inv s"
  show "machine_inv (net_set_udp_handler f s)" "machine_inv (net_set_arp_handler f s)"
    using inv by (simp_all add: machine_inv_def stack_inv_def net_wf_def net_ready_def sys_simps
        net_set_udp_handler_def net_set_arp_handler_def)
  obtain t s1 where t: "now ops (upd_net (\<lambda>v. v\<lparr>time_handler := g\<rparr>) s) = (t, s1)"
    by (cases "now ops (upd_net (\<lambda>v. v\<lparr>time_handler := g\<rparr>) s)")
  show "machine_inv (net_set_timeout_handler ops iv g s)"
    using inv now_inv [OF t] t by (simp add: net_set_timeout_handler_def)
qed

lemma cleanup_inv: "machine_inv s \<Longrightarrow> machine_inv (net_cleanup_loop ops s)"
  by (simp add: net_cleanup_loop_def net_clear_handlers_def machine_inv_handlers)

lemma arp_timeout_check_inv:
  assumes "driver_ok ops" "machine_inv s"
  shows "\<exists>w s'. arp_timeout_check ops s = Some (w, s') \<and> machine_inv s'"
proof -
  obtain t s1 where t: "now ops s = (t, s1)" by (cases "now ops s")
  have inv: "machine_inv s1" using now_inv [OF t] assms(2) by simp
  have "\<exists>s2. arp_request ops (upd_arp (\<lambda>v. v\<lparr>arp_wait_try := k, arp_wait_timer_start := t\<rparr>) s1) = Some s2 \<and> machine_inv s2"
    for k using inv by (intro arp_request_inv [OF assms(1)]) simp
  then obtain s2 where "arp_request ops (upd_arp (\<lambda>v. v\<lparr>arp_wait_try := arp_wait_try (arp s1) + 1, arp_wait_timer_start := t\<rparr>) s1) =
    Some s2" "machine_inv s2" by blast
  then show ?thesis using t inv assms(2) by (auto simp: arp_timeout_check_def Let_def)
qed


section \<open>Devices\<close>

lemma machine_invD:
  assumes "machine_inv s"
  shows "stack_inv s" "devices_ok s" "env_wf (envs_of s)"
    "\<exists>a d. eth_current (eth s) = Some a \<and> devs (eth s) a = Some d \<and> length (enetaddr d) = 6 \<and> short_string (dev_name d)"
proof -
  show inv: "stack_inv s" "devices_ok s" using assms by (simp_all add: machine_inv_def)
  then show "env_wf (envs_of s)" by (simp add: devices_ok_def)
  obtain as a where a: "dev_ring (eth s) as" "a \<in> set as" "eth_current (eth s) = Some a"
    using inv(2) by (auto simp: devices_ok_def)
  then obtain i where i: "i < length as" "as ! i = a" by (auto simp: in_set_conv_nth)
  obtain d where "devs (eth s) a = Some d" "short_string (dev_name d)" by (rule dev_ringD [OF a(1) i(1), unfolded i(2)])
  with a(3) stack_invD(6) [OF inv(1) a(3)] show
    "\<exists>a d. eth_current (eth s) = Some a \<and> devs (eth s) a = Some d \<and> length (enetaddr d) = 6 \<and> short_string (dev_name d)"
    by auto
qed

lemma put_state_inv:
  assumes "machine_inv s" "devs (eth s) a = Some d"
  shows "machine_inv (put_dev a (d\<lparr>dev_state := st\<rparr>) s)"
proof -
  have "stack_inv (put_dev a (d\<lparr>dev_state := st\<rparr>) s)"
    using machine_invD(1) [OF assms(1)] assms(2) by (auto simp: stack_inv_def net_wf_def net_ready_def sys_simps)
  moreover have "devices_ok (put_dev a (d\<lparr>dev_state := st\<rparr>) s)"
    using machine_invD(2) [OF assms(1)] ring_put_state [OF _ assms(2)] by (auto simp: devices_ok_def sys_simps)
  ultimately show ?thesis by (simp add: machine_inv_def)
qed

lemma eth_halt_inv:
  assumes "driver_ok ops" "machine_inv s"
  shows "\<exists>s'. eth_halt ops s = Some s' \<and> machine_inv s'"
proof -
  obtain a d where d: "eth_current (eth s) = Some a" "devs (eth s) a = Some d" using machine_invD(4) [OF assms(2)] by blast
  obtain h where h: "drv_halt ops a d (hw s) = Some h" using driver_okD(4) [OF assms(1)] by blast
  have "machine_inv (put_dev a (d\<lparr>dev_state := ETH_STATE_PASSIVE\<rparr>) (s\<lparr>hw := h\<rparr>))"
    using assms(2) d(2) by (intro put_state_inv) simp_all
  with d h show ?thesis by (simp add: eth_halt_def sys_simps)
qed

lemma eth_halt_state_only_inv:
  assumes "machine_inv s"
  shows "\<exists>s'. eth_halt_state_only s = Some s' \<and> machine_inv s'"
proof -
  obtain a d where d: "eth_current (eth s) = Some a" "devs (eth s) a = Some d" using machine_invD(4) [OF assms] by blast
  then show ?thesis using put_state_inv [OF assms d(2)] by (simp add: eth_halt_state_only_def sys_simps)
qed

lemma eth_rx_inv:
  assumes "driver_ok ops" "clients_ok ops" "machine_inv s"
  shows "\<exists>r s'. eth_rx ops s = Some (r, s') \<and> machine_inv s'"
proof -
  note ops = driver_okD [OF assms(1)]
  obtain a d where d: "eth_current (eth s) = Some a" "devs (eth s) a = Some d" using machine_invD(4) [OF assms(3)] by blast
  obtain f h where f: "drv_recv ops a d (hw s) = Some (f, h)" "\<forall>loc b len. f = Some (loc, b, len) \<longrightarrow> whole_frame b len"
    using ops(6) by blast
  have inv: "machine_inv (s\<lparr>hw := h\<rparr>)" using assms(3) by simp
  have finish: "\<exists>r s'. (do { (r, h) \<leftarrow> drv_recv_done ops a d b (hw s1); Some (r, s1\<lparr>hw := h\<rparr>) }) = Some (r, s') \<and> machine_inv s'"
    if "machine_inv s1" for s1 b
  proof -
    obtain r h' where "drv_recv_done ops a d b (hw s1) = Some (r, h')" using ops(5) by blast
    with that show ?thesis by simp
  qed
  show ?thesis
  proof (cases f)
    case None
    then show ?thesis using finish [OF inv] d f(1) by (simp add: eth_rx_def sys_simps)
  next
    case (Some g)
    obtain loc b len where g: "g = (loc, b, len)" by (cases g)
    then have "whole_frame b len" using f(2) Some by simp
    from process_inv [OF assms(1,2) inv this, of loc] obtain b' s1 where
      "net_process_received_packet ops loc b len (s\<lparr>hw := h\<rparr>) = Some (b', s1)" "machine_inv s1" by blast
    with finish [of s1 "Some b'"] d f(1) Some g show ?thesis by (simp add: eth_rx_def sys_simps)
  qed
qed


lemma run_thand_inv:
  assumes "driver_ok ops" "clients_ok ops" "machine_inv s"
  shows "\<exists>s'. run_thand ops f s = Some s' \<and> machine_inv s'"
proof (cases f)
  case ping_timeout_handler
  then show ?thesis using eth_halt_inv [OF assms(1,3)] by (auto simp: run_thand_def ping_timeout_def)
next
  case (Client_timeout k)
  then show ?thesis using client_timeout_inv [OF assms(2,3)] by (simp add: run_thand_def)
qed (use assms in \<open>simp add: run_thand_def\<close>)

lemma check_timeout_inv:
  assumes "driver_ok ops" "clients_ok ops" "machine_inv s"
  shows "\<exists>s'. check_timeout ops s = Some s' \<and> machine_inv s'"
proof (cases "time_handler (net s)")
  case (Some f)
  obtain t s1 where t: "now ops s = (t, s1)" by (cases "now ops s")
  have inv: "machine_inv s1" "machine_inv (upd_net (\<lambda>v. v\<lparr>time_handler := None\<rparr>) s1)"
    using now_inv [OF t] assms(3) by simp_all
  with Some t run_thand_inv [OF assms(1,2) inv(2), of f] show ?thesis by (simp add: check_timeout_def)
qed (use assms in \<open>simp add: check_timeout_def\<close>)

section \<open>Retries\<close>

lemma strtoul_loop_defined: "terminated cs \<Longrightarrow> \<exists>r. strtoul_loop cs base acc = Some r"
proof (induction cs arbitrary: acc)
  case (Cons c cs)
  have "\<not> isxdigit 0" by code_simp
  with Cons show ?case by (auto simp: terminated_def)
qed (simp add: terminated_def)

lemma fixup_radix_defined:
  assumes "terminated cs"
  shows "\<exists>ds b. parse_integer_fixup_radix cs base = Some (ds, b) \<and> terminated ds"
proof -
  have x: "tolower 0 \<noteq> 0x78" by code_simp
  obtain c cs1 where cs: "cs = c # cs1" using assms by (cases cs) (auto simp: terminated_def)
  show ?thesis
  proof (cases "c = 0x30")
    case True
    with assms cs have t1: "terminated cs1" by (simp add: terminated_def)
    then obtain c1 cs2 where cs1: "cs1 = c1 # cs2" by (cases cs1) (auto simp: terminated_def)
    show ?thesis
    proof (cases "tolower c1 = 0x78")
      case True
      with x have "c1 \<noteq> 0" by auto
      with t1 cs1 have t2: "terminated cs2" by (simp add: terminated_def)
      then obtain c2 cs3 where "cs2 = c2 # cs3" by (cases cs2) (auto simp: terminated_def)
      with cs cs1 t2 assms True \<open>c = 0x30\<close> show ?thesis
        by (auto simp: parse_integer_fixup_radix_def load8_def get8_def)
    next
      case False
      with cs cs1 assms \<open>c = 0x30\<close> show ?thesis by (auto simp: parse_integer_fixup_radix_def load8_def get8_def)
    qed
  next
    case False
    with cs assms show ?thesis by (auto simp: parse_integer_fixup_radix_def load8_def get8_def)
  qed
qed

lemma simple_strtoul_defined: "terminated cs \<Longrightarrow> \<exists>r. simple_strtoul cs base = Some r"
  using fixup_radix_defined [of cs base] strtoul_loop_defined by (fastforce simp: simple_strtoul_def)

lemma retry_consts:
  "terminated (c_string ''netretry'')" "c_str (c_string ''netretry'') \<noteq> []" "terminated (c_string ''yes'')"
  "terminated (c_string ''no'')" "terminated (c_string ''once'')"
  by code_simp+

lemma retry_limit_defined:
  assumes "env_wf e"
  shows "\<exists>f k. retry_limit e = Some (f, k)"
proof (rule env_get_cases [OF assms retry_consts(1,2)])
  fix i assume i: "env_get e (c_string ''netretry'') = Some (Some i)" "terminated (env_val e i)"
  obtain y where y: "strcmp (env_val e i) (c_string ''yes'') = Some y" using strcmp_defined [OF i(2) retry_consts(3)] by blast
  obtain n where n: "strcmp (env_val e i) (c_string ''no'') = Some n" using strcmp_defined [OF i(2) retry_consts(4)] by blast
  obtain c where c: "strcmp (env_val e i) (c_string ''once'') = Some c" using strcmp_defined [OF i(2) retry_consts(5)] by blast
  obtain k r where "simple_strtoul (env_val e i) 0 = Some (k, r)" using simple_strtoul_defined [OF i(2), of 0] by auto
  with i y n c show ?thesis unfolding retry_limit_def by (auto simp: Let_def)
next
  assume "env_get e (c_string ''netretry'') = Some None"
  then show ?thesis unfolding retry_limit_def by auto
qed


text \<open>Other parts of the state do not matter to the devices; moving on to a device of the ring keeps the invariant.\<close>

lemma set_current_inv:
  assumes "machine_inv s" "dev_ring (eth s) as" "a \<in> set as"
  shows "machine_inv (upd_eth (\<lambda>v. v\<lparr>eth_current := Some a\<rparr>) s)"
proof -
  obtain i where i: "i < length as" "as ! i = a" using assms(3) by (auto simp: in_set_conv_nth)
  obtain d where "devs (eth s) a = Some d" by (rule dev_ringD [OF assms(2) i(1), unfolded i(2)])
  then have "stack_inv (upd_eth (\<lambda>v. v\<lparr>eth_current := Some a\<rparr>) s)"
    using machine_invD(1) [OF assms(1)] by (auto simp: stack_inv_def net_wf_def net_ready_def sys_simps)
  moreover have "dev_ring ((eth s)\<lparr>eth_current := Some a\<rparr>) as" using assms(2) by (simp add: dev_ring_def)
  ultimately show ?thesis
    using machine_invD(3) [OF assms(1)] assms(3) by (auto simp: machine_inv_def devices_ok_def sys_simps)
qed

lemma current_changed_inv:
  assumes "machine_inv s"
  shows "\<exists>e. eth_current_changed s = Some (s\<lparr>envs_of := e\<rparr>) \<and> machine_inv (s\<lparr>envs_of := e\<rparr>)"
proof -
  have "cur_named s" using machine_invD(4) [OF assms] by (auto simp: cur_named_def)
  from current_changed_ok [OF machine_invD(3) [OF assms] this] obtain e where
    e: "eth_current_changed s = Some (s\<lparr>envs_of := e\<rparr>)" "env_wf e" by blast
  have "machine_inv (s\<lparr>envs_of := e\<rparr>)"
    using assms e(2) by (simp add: machine_inv_def devices_ok_def stack_inv_def net_wf_def net_ready_def)
  with e(1) show ?thesis by blast
qed

lemma machine_inv_failed [simp]:
  "machine_inv (upd_eth (\<lambda>v. v\<lparr>first_failed := f v\<rparr>) s) = machine_inv s"
  by (simp add: machine_inv_def devices_ok_def dev_ring_def stack_inv_def net_wf_def net_ready_def sys_simps)

lemma eth_try_another_inv:
  assumes "machine_inv s"
  shows "\<exists>s'. eth_try_another fr s = Some s' \<and> machine_inv s' \<and> hw s' = hw s"
proof -
  obtain as a where as: "dev_ring (eth s) as" "a \<in> set as" "eth_current (eth s) = Some a"
    using machine_invD(2) [OF assms] by (auto simp: devices_ok_def)
  then obtain i where i: "i < length as" "as ! i = a" by (auto simp: in_set_conv_nth)
  obtain d where d: "devs (eth s) a = Some d" "dev_next d = Some (as ! (Suc i mod length as))"
    by (rule dev_ringD [OF as(1) i(1), unfolded i(2)])
  define s1 where "s1 = (if fr then upd_eth (\<lambda>v. v\<lparr>first_failed := eth_current v\<rparr>) s else s)"
  have s1: "machine_inv s1" "dev_ring (eth s1) as" "eth_current (eth s1) = Some a" "devs (eth s1) a = Some d" "hw s1 = hw s"
    using assms as d by (auto simp: s1_def sys_simps dev_ring_def)
  let ?n = "as ! (Suc i mod length as)"
  have "Suc i mod length as < length as" using i(1) by (intro mod_less_divisor) auto
  then have n: "?n \<in> set as" by (rule nth_mem)
  define s2 where "s2 = upd_eth (\<lambda>v. v\<lparr>eth_current := Some ?n\<rparr>) s1"
  have inv2: "machine_inv s2" unfolding s2_def by (rule set_current_inv [OF s1(1,2) n])
  obtain e where e: "eth_current_changed s2 = Some (s2\<lparr>envs_of := e\<rparr>)" "machine_inv (s2\<lparr>envs_of := e\<rparr>)"
    using current_changed_inv [OF inv2] by blast
  obtain stay where stay: "no_rotate (envs_of s) = Some stay"
    using no_rotate_defined [OF machine_invD(3) [OF assms]] by blast
  have nxt: "eth_set_current_to_next s1 = Some s2"
    using s1(3,4) d(2) by (simp add: eth_set_current_to_next_def deref_def s2_def)
  have hw2: "hw s2 = hw s" using s1(5) by (simp add: s2_def sys_simps)
  show ?thesis
  proof (cases stay)
    case False
    then have "eth_try_another fr s = Some (let s' = s2\<lparr>envs_of := e\<rparr> in
      if first_failed (eth s') = eth_current (eth s') then upd_net (\<lambda>v. v\<lparr>net_restart_wrap := True\<rparr>) s' else s')"
      using stay as(3) nxt e(1) by (simp add: eth_try_another_def Let_def s1_def)
    with e(2) hw2 show ?thesis by (auto simp: Let_def sys_simps)
  qed (use assms stay in \<open>simp add: eth_try_another_def\<close>)
qed


text \<open>The rotation of \<^verbatim>\<open>eth_init\<close> ends whatever the devices answer, each time they are asked.\<close>

lemma eth_init_loop_inv:
  assumes ops: "driver_ok ops" and i: "i < length as" and "k < length as" "machine_inv s" "dev_ring (eth s) as"
    "eth_current (eth s) = Some (as ! ((i + k) mod length as))" "k = 0 \<or> no_rotate (envs_of s) = Some False"
  shows "\<exists>r s'. eth_init_loop ops (Some (as ! i)) s = Some (r, s') \<and> machine_inv s'"
  using assms(3-)
proof (induction "length as - k" arbitrary: k s rule: less_induct)
  case less
  let ?n = "length as"
  define j where "j = (i + k) mod ?n"
  have j: "j < ?n" unfolding j_def using i by (intro mod_less_divisor) auto
  have cur: "eth_current (eth s) = Some (as ! j)" using less.prems(4) by (simp add: j_def)
  obtain d where d: "devs (eth s) (as ! j) = Some d" by (rule dev_ringD [OF less.prems(3) j])
  obtain r h where r: "drv_init ops (as ! j) d (hw s) = Some (r, h)" using driver_okD(3) [OF ops] by blast
  define s1 where "s1 = s\<lparr>hw := h\<rparr>"
  have inv1: "machine_inv s1" using less.prems(2) by (simp add: s1_def)
  show ?case
  proof (cases "0 \<le> r")
    case True
    have "machine_inv (put_dev (as ! j) (d\<lparr>dev_state := ETH_STATE_ACTIVE\<rparr>) s1)"
      using put_state_inv [OF inv1] d by (simp add: s1_def)
    then show ?thesis using cur d r True by (subst eth_init_loop.simps) (simp add: deref_def s1_def)
  next
    case False
    obtain s2 where s2: "eth_try_another False s1 = Some s2" "machine_inv s2" using eth_try_another_inv [OF inv1] by blast
    have step: "eth_init_loop ops (Some (as ! i)) s =
        (if Some (as ! i) \<noteq> eth_current (eth s2) then eth_init_loop ops (Some (as ! i)) s2 else Some (-110, s2))"
      using cur d r False s2 by (subst eth_init_loop.simps) (simp add: deref_def s1_def [symmetric])
    obtain stay where stay: "no_rotate (envs_of s) = Some stay"
      using no_rotate_defined [OF machine_invD(3) [OF less.prems(2)]] by blast
    show ?thesis
    proof (cases stay)
      case True
      then have "k = 0" using less.prems(5) stay by simp
      then have "eth_current (eth s2) = Some (as ! i)"
        using s2(1) stay True cur i by (auto simp: eth_try_another_def s1_def j_def)
      with step s2(2) show ?thesis by simp
    next
      case rot: False
      have e2: "eth s2 = (eth s)\<lparr>eth_current := Some (as ! (Suc j mod ?n))\<rparr>" "no_rotate (envs_of s2) = Some False"
        using try_another_rotates [of s1 as j] less.prems(3) machine_invD(3) [OF inv1] stay rot j cur s2(1)
        by (auto simp: s1_def)
      have next_j: "Suc j mod ?n = (i + Suc k) mod ?n" by (simp add: j_def mod_Suc_eq)
      show ?thesis
      proof (cases "Suc k = ?n")
        case True
        then have "Suc j mod ?n = i" using i by (simp add: next_j)
        with step e2(1) s2(2) show ?thesis by simp
      next
        case more: False
        then have "Suc k < ?n" using less.prems(1) by simp
        moreover have "dev_ring (eth s2) as" using less.prems(3) e2(1) by (simp add: dev_ring_def)
        moreover have "eth_current (eth s2) = Some (as ! ((i + Suc k) mod ?n))" using e2(1) by (simp add: next_j)
        ultimately show ?thesis
          using less.hyps [of "Suc k" s2] less.prems(1) s2(2) e2(2) step by auto
      qed
    qed
  qed
qed

lemma eth_init_inv:
  assumes "driver_ok ops" "machine_inv s"
  shows "\<exists>r s'. eth_init ops s = Some (r, s') \<and> machine_inv s'"
proof -
  obtain as a where as: "dev_ring (eth s) as" "a \<in> set as" "eth_current (eth s) = Some a"
    using machine_invD(2) [OF assms(2)] by (auto simp: devices_ok_def)
  then obtain i where "i < length as" "as ! i = a" by (auto simp: in_set_conv_nth)
  with eth_init_loop_inv [OF assms(1), of i as 0 s] assms(2) as show ?thesis by (cases as) (auto simp: eth_init_def)
qed

lemma net_start_again_inv:
  assumes "driver_ok ops" "machine_inv s"
  shows "\<exists>r s'. net_start_again ops s = Some (r, s') \<and> machine_inv s'"
proof -
  obtain forever cnt where lim: "retry_limit (envs_of s) = Some (forever, cnt)"
    using retry_limit_defined [OF machine_invD(3) [OF assms(2)]] by blast
  obtain s0 where s0: "eth_halt ops s = Some s0" "machine_inv s0" using eth_halt_inv [OF assms] by blast
  define s1 where "s1 = upd_net (\<lambda>v. v\<lparr>net_try_count := net_try_count (net s) + 1\<rparr>) s"
  have s1': "upd_net (\<lambda>v. v\<lparr>net_try_count := net_try_count v + 1\<rparr>) s = s1" by (simp add: s1_def upd_net_def)
  have "machine_inv s1" using assms(2) by (simp add: s1_def)
  then obtain s2 where s2: "eth_halt ops s1 = Some s2" "machine_inv s2" using eth_halt_inv [OF assms(1)] by blast
  obtain s3 where s3: "eth_try_another (\<not> net_restarted (net s2)) s2 = Some s3" "machine_inv s3"
    using eth_try_another_inv [OF s2(2)] by blast
  obtain r s4 where s4: "eth_init ops s3 = Some (r, s4)" "machine_inv s4" using eth_init_inv [OF assms(1) s3(2)] by blast
  have "machine_inv (upd_net (\<lambda>v. v\<lparr>net_restart_wrap := False\<rparr>) s4)" using s4(2) by simp
  then show ?thesis using lim s0 s1' s2(1) s3(1) s4
    by (simp add: net_start_again_def Let_def machine_inv_handlers)
qed


section \<open>One step\<close>

text \<open>Whatever position a step leads to, its state has the invariant.\<close>

fun result_inv :: "'h loop_result \<Rightarrow> bool" where
  "result_inv (Continue ret s) = machine_inv s"
| "result_inv (Restart ret s) = machine_inv s"
| "result_inv (Done ret s) = machine_inv s"

lemma net_loop_iter_inv:
  assumes "driver_ok ops" "clients_ok ops" "machine_inv s"
  shows "\<exists>x. net_loop_iter ops p ret s = Some x \<and> result_inv x"
proof -
  obtain w s1 where s1: "arp_timeout_check ops s = Some (w, s1)" "machine_inv s1"
    using arp_timeout_check_inv [OF assms(1,3)] by blast
  obtain t s2 where t: "now ops s1 = (t, s2)" by (cases "now ops s1")
  define s3 where "s3 = (if w then upd_net (\<lambda>v. v\<lparr>time_start := t\<rparr>) s2 else s1)"
  have "machine_inv s3" using s1(2) now_inv [OF t] by (simp add: s3_def)
  then obtain r s4 where s4: "eth_rx ops s3 = Some (r, s4)" "machine_inv s4" using eth_rx_inv [OF assms(1,2)] by blast
  obtain s5 where s5: "check_timeout ops s4 = Some s5" "machine_inv s5" using check_timeout_inv [OF assms(1,2) s4(2)] by blast
  obtain ret6 s6 where s6: "(if net_state (net s5) = NETLOOP_FAIL then net_start_again ops s5 else Some (ret, s5)) = Some (ret6, s6)"
    "machine_inv s6"
    using net_start_again_inv [OF assms(1) s5(2)] s5(2) by (cases "net_state (net s5) = NETLOOP_FAIL") auto
  have clean: "machine_inv (net_cleanup_loop ops s6)" by (rule cleanup_inv [OF s6(2)])
  obtain s7 where s7: "eth_halt ops (net_cleanup_loop ops s6) = Some s7" "machine_inv s7" using eth_halt_inv [OF assms(1) clean] by blast
  obtain s8 where s8: "eth_halt_state_only (net_cleanup_loop ops s6) = Some s8" "machine_inv s8"
    using eth_halt_state_only_inv [OF clean] by blast
  have "(if w then (case now ops s1 of (t, s) \<Rightarrow> upd_net (\<lambda>v. v\<lparr>time_start := t\<rparr>) s) else s1) = s3"
    using t by (simp add: s3_def)
  then show ?thesis
    using s1(1) s4(1) s5(1) s6 s7 s8 clean
    by (cases "net_state (net s6)") (simp_all add: net_loop_iter_def Let_def)
qed


lemma ping_send_inv:
  assumes "driver_ok ops" "machine_inv s"
  shows "\<exists>s'. ping_send ops s = Some (1, s') \<and> machine_inv s'"
proof -
  let ?b = "net_pkt_buf (net s)" and ?h = "net_eth_hdr_size (net s)" and ?ip = "net_ping_ip (ping s)"
  note inv = stack_invD [OF machine_invD(1) [OF assms(2)]]
  obtain tx where tx: "net_tx_packet (net s) = Some tx" "tx \<le> 63" using inv(4) by blast
  have h: "?h \<le> 18" by (simp add: net_eth_hdr_size_eq)
  then have inb: "tx + ?h \<le> length ?b" "tx + ?h + 28 \<le> length ?b" using tx(2) inv(2) by simp_all
  have null: "length net_null_ethaddr = 6" by (simp add: net_null_ethaddr_def)
  obtain b1 where b1: "net_set_ether (net s) ?b tx net_null_ethaddr PROT_IP = Some (b1, ?h)"
    "same_outside_window ?b b1 tx (tx + ?h)" using net_set_ether_eq [OF inb(1) null inv(1), of PROT_IP] by blast
  have l1: "length b1 = 7744" using same_outside_window_length [OF b1(2)] inv(2) by simp
  then have "tx + ?h + 28 \<le> length b1" using inb(2) inv(2) by simp
  from set_icmp_header_eq [OF this, of "net s" "ping s" ?ip] obtain b2 where
    b2: "set_icmp_header (net s) (ping s) b1 (tx + ?h) ?ip = Some (b2,
      (net s)\<lparr>net_ip_id := net_ip_id (net s) + 1\<rparr>, (ping s)\<lparr>ping_seq_number := ping_seq_number (ping s) + 1\<rparr>)"
    "same_outside_window b1 b2 (tx + ?h) (tx + ?h + 28)" by blast
  have l2: "length b2 = 7744" using same_outside_window_length [OF b2(2)] l1 by simp
  define s1 where "s1 = upd_arp (\<lambda>v. v\<lparr>net_arp_wait_packet_ip := ?ip, arp_wait_tx_packet_size := of_nat (?h + 28), arp_wait_try := 1\<rparr>)
    (s\<lparr>net := (net s)\<lparr>net_ip_id := net_ip_id (net s) + 1, net_pkt_buf := b2\<rparr>,
       ping := (ping s)\<lparr>ping_seq_number := ping_seq_number (ping s) + 1\<rparr>\<rparr>)"
  have run: "ping_send ops s = (case now ops s1 of (t, s) \<Rightarrow>
      map_option (Pair 1) (arp_request ops (upd_arp (\<lambda>v. v\<lparr>arp_wait_timer_start := t\<rparr>) s)))"
    using tx(1) b1(1) b2(1)
    by (simp add: ping_send_def sys_simps Let_def map_conv_bind_option comp_def) (simp add: upd_arp_def s1_def)
  have "unat (of_nat (?h + 28) :: u32) \<le> 7680" using h by (intro order_trans [OF unat_of_nat_le]) simp
  then have "stack_inv s1"
    using machine_invD(1) [OF assms(2)] l2 by (simp add: s1_def stack_inv_def net_wf_def net_ready_def sys_simps del: of_nat_add)
  then have inv1: "machine_inv s1" using machine_invD(2) [OF assms(2)] by (simp add: machine_inv_def s1_def)
  obtain t s2 where t: "now ops s1 = (t, s2)" by (cases "now ops s1")
  have "machine_inv (upd_arp (\<lambda>v. v\<lparr>arp_wait_timer_start := t\<rparr>) s2)" using now_inv [OF t] inv1 by simp
  from arp_request_inv [OF assms(1) this] run t show ?thesis by auto
qed

lemma net_init_loop_inv:
  assumes "machine_inv s"
  shows "\<exists>s'. net_init_loop s = Some s' \<and> machine_inv s'"
proof -
  obtain a d where d: "eth_current (eth s) = Some a" "devs (eth s) a = Some d" "length (enetaddr d) = 6"
    using machine_invD(4) [OF assms] by blast
  then have "net_init_loop s = Some (upd_net (\<lambda>v. v\<lparr>net_ethaddr := get_bytes (enetaddr d) 0 6\<rparr>) s)"
    by (simp add: net_init_loop_def eth_get_ethaddr_def deref_def mem_simps)
  moreover have "machine_inv (upd_net (\<lambda>v. v\<lparr>net_ethaddr := get_bytes (enetaddr d) 0 6\<rparr>) s)"
    using assms d(3) by (simp add: machine_inv_def stack_inv_def net_wf_def net_ready_def sys_simps)
  ultimately show ?thesis by blast
qed

lemma net_check_prereq_inv:
  assumes "driver_ok ops" "machine_inv s"
  shows "\<exists>r s'. net_check_prereq ops p s = Some (r, s') \<and> machine_inv s'"
proof -
  obtain a d where d: "eth_current (eth s) = Some a" "devs (eth s) a = Some d"
    using machine_invD(4) [OF assms(2)] by blast
  have "length (net_ethaddr (net s)) = 6" by (rule stack_invD(1) [OF machine_invD(1) [OF assms(2)]])
  then obtain r where r: "memcmp (net_ethaddr (net s)) (replicate 6 0) 6 = Some r"
    using memcmp_defined [of 6 "net_ethaddr (net s)" "replicate 6 0"] by auto
  obtain x s1 where "net_start_again ops s = Some (x, s1)" "machine_inv s1" using net_start_again_inv [OF assms] by blast
  then have "\<exists>r s'. prereq_ethaddr ops s = Some (r, s') \<and> machine_inv s'"
    using r d assms(2) by (simp add: prereq_ethaddr_def eth_get_dev_index_def deref_def)
  then show ?thesis using assms(2) by (simp add: net_check_prereq_def)
qed

lemma net_loop_start_inv:
  assumes "driver_ok ops" "machine_inv s"
  shows "\<exists>x. net_loop_start ops p ret s = Some x \<and> result_inv x"
proof -
  obtain s1 where s1: "net_init_loop (net_set_state NETLOOP_CONTINUE s) = Some s1" "machine_inv s1"
    using net_init_loop_inv [of "net_set_state NETLOOP_CONTINUE s"] assms(2) by auto
  obtain r s2 where s2: "net_check_prereq ops p s1 = Some (r, s2)" "machine_inv s2"
    using net_check_prereq_inv [OF assms(1) s1(2)] by blast
  obtain s3 where s3: "eth_halt ops s2 = Some s3" "machine_inv s3" using eth_halt_inv [OF assms(1) s2(2)] by blast
  define s4 where "s4 = upd_net (\<lambda>v. v\<lparr>net_dev_exists := True, net_boot_file_size := 0\<rparr>) s2"
  have inv4: "machine_inv s4" using s2(2) by (simp add: s4_def)
  obtain a d where "eth_current (eth s4) = Some a" "devs (eth s4) a = Some d" using machine_invD(4) [OF inv4] by blast
  then have name: "\<exists>n. eth_get_name s4 = Some n" by (simp add: eth_get_name_def deref_def)
  have "machine_inv (net_set_timeout_handler ops 10000 (Some ping_timeout_handler) s4)" by (rule machine_inv_handlers(3) [OF inv4])
  from ping_send_inv [OF assms(1) this] name obtain s5 where s5: "ping_start ops s4 = Some s5" "machine_inv s5"
    by (auto simp: ping_start_def)
  show ?thesis using s1(1) s2 s3 s5 inv4 by (simp add: net_loop_start_def Let_def s4_def [symmetric])
qed

section \<open>The loop never gets stuck\<close>

text \<open>The steps as a transition system with this invariant; the hypotheses on the driver are part of it.\<close>

definition at_end :: "'h loop_result \<Rightarrow> bool" where
  "at_end x \<longleftrightarrow> (case x of Done _ _ \<Rightarrow> True | _ \<Rightarrow> False)"

definition loop_good :: "'h drv_ops \<Rightarrow> 'h loop_result \<Rightarrow> bool" where
  "loop_good ops x \<longleftrightarrow> driver_ok ops \<and> clients_ok ops \<and> result_inv x"

lemma loop_good_step:
  assumes "loop_step ops p x y" "loop_good ops x"
  shows "loop_good ops y"
  using assms
proof cases
  case (start ret s)
  then show ?thesis using assms(2) net_loop_start_inv [of ops s p ret] by (simp add: loop_good_def)
next
  case (round ret s)
  then show ?thesis using assms(2) net_loop_iter_inv [of ops s p ret] by (simp add: loop_good_def)
qed

lemma loop_good_moves:
  assumes "loop_good ops x" "\<not> at_end x"
  shows "\<exists>y. loop_step ops p x y"
proof (cases x)
  case (Continue ret s)
  then show ?thesis using assms(1) net_loop_iter_inv [of ops s p ret] by (auto simp: loop_good_def)
next
  case (Restart ret s)
  then show ?thesis using assms(1) net_loop_start_inv [of ops s p ret] by (auto simp: loop_good_def)
qed (use assms(2) in \<open>simp add: at_end_def\<close>)

interpretation main_loop: safe_steps "loop_step ops p" at_end "loop_good ops" for ops p
  by unfold_locales (rule loop_good_step loop_good_moves; assumption)+

text \<open>A machine to run the theorems on: its state is the tick count, and its one device hears nothing.\<close>

definition idle_ops :: "nat drv_ops" where
  "idle_ops = \<lparr>drv_time = \<lambda>h. (of_nat h, h + 1), drv_init = \<lambda>_ _ h. Some (0, h), drv_send = \<lambda>_ _ _ _ h. Some (0, h + 1),
     drv_recv = \<lambda>_ _ h. Some (None, h + 1), drv_recv_done = \<lambda>_ _ _ h. Some (0, h), drv_halt = \<lambda>_ _ h. Some h,
     drv_write_hwaddr = \<lambda>_ _ h. Some (0, h), client_rx = \<lambda>_ _ _ _ _ _ s. Some s, client_timeout = \<lambda>_ s. Some s,
     stack_addr = 0x1000\<rparr>"

definition idle_sys :: "nat sys" where
  "idle_sys = \<lparr>hw = 0, envs_of = env_init, eth = bench_eth, net = bench_net\<lparr>net_try_count := 1\<rparr>,
     arp = bench_arp, ping = \<lparr>ping_seq_number = 0, net_ping_ip = 0x0364A8C0\<rparr>\<rparr>"

lemma idle_ok: "driver_ok idle_ops" "clients_ok idle_ops" "machine_inv idle_sys"
proof -
  show "driver_ok idle_ops" "clients_ok idle_ops"
    by (simp_all add: driver_ok_def clients_ok_def send_total_def clients_total_def idle_ops_def)
  have "short_string [0x65, 0]" by code_simp
  then have "dev_ring bench_eth [1]" by (simp add: dev_ring_def bench_eth_def bench_dev_def)
  then have "devices_ok idle_sys" by (auto simp: devices_ok_def idle_sys_def env_init_wf bench_eth_def)
  moreover have "stack_inv idle_sys"
    by (auto simp: stack_inv_def net_wf_def net_ready_def idle_sys_def bench_simps bench_dev_def split: if_splits)
  ultimately show "machine_inv idle_sys" by (simp add: machine_inv_def)
qed



end
