(* ===== verification/Ending.thy ===== *)
theory Ending
  imports Machine
begin

text \<open>
  Pinging a host that never answers ends. While the address of the next hop is awaited, at most
  four requests go out, five seconds apart, and the clock of the ping is put off; once the address
  is known, or nothing is awaited, ten seconds remain. So the loop ends on a clock that advances,
  whatever frames arrive meanwhile, as long as the clock does not overflow: the driver's functions
  may take up to \<open>d\<close> ticks each, and the whole run has to fit below \<open>2 ^ 31\<close> milliseconds, where
  the \<^verbatim>\<open>int\<close> of \<^verbatim>\<open>runtime_tick\<close> changes its sign.
\<close>

section \<open>Time\<close>

definition within :: "('h \<Rightarrow> nat) \<Rightarrow> nat \<Rightarrow> 'h \<Rightarrow> 'h \<Rightarrow> bool" where
  "within time k h h' \<longleftrightarrow> time h \<le> time h' \<and> time h' \<le> time h + k"

definition timed :: "'h drv_ops \<Rightarrow> ('h \<Rightarrow> nat) \<Rightarrow> nat \<Rightarrow> bool" where
  "timed ops time d \<longleftrightarrow> ticking (drv_time ops) time d \<and>
     (\<forall>a e b l h r h'. drv_send ops a e b l h = Some (r, h') \<longrightarrow> within time d h h') \<and>
     (\<forall>a e h f h'. drv_recv ops a e h = Some (f, h') \<longrightarrow> within time d h h') \<and>
     (\<forall>a e b h r h'. drv_recv_done ops a e b h = Some (r, h') \<longrightarrow> within time d h h')"

lemma timedD:
  assumes "timed ops time d"
  shows "ticking (drv_time ops) time d" "drv_send ops a e b l h = Some (r, h') \<Longrightarrow> within time d h h'"
    "drv_recv ops a e h = Some (f, h') \<Longrightarrow> within time d h h'"
    "drv_recv_done ops a e x h = Some (r, h') \<Longrightarrow> within time d h h'"
  using assms unfolding timed_def by blast+

lemma within_trans: "within time j h h1 \<Longrightarrow> within time k h1 h2 \<Longrightarrow> within time (j + k) h h2"
  by (simp add: within_def)

lemma within_0 [simp]: "within time k h h"
  by (simp add: within_def)

text \<open>The clock in milliseconds, before its sign changes.\<close>

abbreviation (input) overflow :: nat where "overflow \<equiv> 24000 * 2 ^ 31"

lemma ms_bounds:
  "24000 * (n div 24000) \<le> n" "n < 24000 * (n div 24000 + 1)" "24000 * k \<le> n \<Longrightarrow> k \<le> n div 24000" for k n :: nat
  using dividend_less_times_div [of 24000 n] by (simp_all add: less_eq_div_iff_mult_less_eq mult.commute)

lemma now_ms:
  assumes "timed ops time d" "now ops s = (t, s')" "time (hw s) < overflow"
  shows "unat t = time (hw s) div 24000" "time (hw s) < time (hw s')" "time (hw s') \<le> time (hw s) + d"
proof -
  obtain cnt h where c: "drv_time ops (hw s) = (cnt, h)" by (cases "drv_time ops (hw s)")
  note tick = tickingD [OF timedD(1) [OF assms(1)] c]
  have t: "t = scast (ucast (cnt div 24000) :: u32)" "hw s' = h"
    using assms(2) c by (auto simp: now_def get_timer_eq split: prod.splits)
  show "time (hw s) < time (hw s')" "time (hw s') \<le> time (hw s) + d" using tick t(2) by simp_all
  have cnt: "unat cnt = time (hw s)" using tick(1) assms(3) by simp
  have ms: "unat (cnt div 24000) = time (hw s) div 24000" by (simp add: unat_div_distrib cnt)
  have small: "time (hw s) div 24000 < 2 ^ 31" using assms(3) by (simp add: less_mult_imp_div_less mult.commute)
  then have "unat (ucast (cnt div 24000) :: u32) = time (hw s) div 24000"
    by (simp add: unsigned_ucast_eq take_bit_nat_eq_self_iff ms)
  with small show "unat t = time (hw s) div 24000" by (simp add: t(1) unat_scast)
qed

lemma elapsed_iff:
  assumes "unat (start :: u64) \<le> unat t" "k < 2 ^ 64"
  shows "t - start > of_nat k \<longleftrightarrow> unat start + k < unat t"
proof -
  have "unat (t - start) = unat t - unat start" using assms(1) by (simp add: unat_sub word_le_nat_alt)
  moreover have "unat (of_nat k :: u64) = k" using assms(2) by (simp add: unsigned_of_nat take_bit_nat_eq_self_iff)
  ultimately show ?thesis using assms(1) by (simp add: word_less_nat_alt) linarith
qed

section \<open>What a frame can change\<close>

text \<open>The timer stays, address resolution stays or is done, and at most one packet is sent.\<close>

definition sends :: "'h drv_ops \<Rightarrow> 'h \<Rightarrow> 'h \<Rightarrow> bool" where
  "sends ops h h' \<longleftrightarrow> h' = h \<or> (\<exists>a d b l r. drv_send ops a d b l h = Some (r, h'))"

definition quiet_step :: "'h drv_ops \<Rightarrow> 'h sys \<Rightarrow> 'h sys \<Rightarrow> bool" where
  "quiet_step ops s s' \<longleftrightarrow> time_start (net s') = time_start (net s) \<and> time_delta (net s') = time_delta (net s) \<and>
     (arp s' = arp s \<or> net_arp_wait_packet_ip (arp s') = 0) \<and> sends ops (hw s) (hw s')"

lemma sends_within: "timed ops time d \<Longrightarrow> sends ops h h' \<Longrightarrow> within time d h h'"
  by (auto simp: sends_def dest: timedD(2))

lemma send_sends: "net_send_packet ops b l s = Some s' \<Longrightarrow> net s' = net s \<and> arp s' = arp s \<and> sends ops (hw s) (hw s')"
  by (auto simp: net_send_packet_def eth_send_def bind_eq_Some_conv sends_def split: if_splits)

lemma quiet_refl [simp]: "quiet_step ops s s"
  by (simp add: quiet_step_def sends_def)

lemma quiet_rx: "quiet_step ops (rx_noted p l s) s' \<longleftrightarrow> quiet_step ops s s'"
  "quiet_step ops s (net_set_state st s') \<longleftrightarrow> quiet_step ops s s'"
  by (simp_all add: quiet_step_def sys_simps)

lemma quiet_send: "net_send_packet ops b l s = Some s' \<Longrightarrow> quiet_step ops s s'"
  using send_sends [of ops b l s s'] by (simp add: quiet_step_def)

lemma arp_receive_quiet:
  assumes "a + 28 \<le> length b" "arp_packet_handler (net s) = Some dummy_handler" "arp_receive ops b a len s = Some (b', s')"
  shows "quiet_step ops s s'"
proof -
  have answer: "quiet_step ops s s2" if "arp_answer ops b a s = Some (b2, s2)" for b2 s2
    using that by (auto simp: arp_answer_def bind_eq_Some_conv dest: quiet_send)
  have resolved: "quiet_step ops s s2" if "arp_resolved ops b a len s = Some s2" for s2
    using that assms(2)
    by (auto simp: arp_resolved_def bind_eq_Some_conv run_rxhand_def sys_simps split: if_splits option.splits
        dest!: quiet_send) (simp_all add: quiet_step_def sys_simps)
  show ?thesis using assms(3) by (auto simp: arp_receive_eq [OF assms(1)] answer resolved split: if_splits)
qed

lemma receive_ip_quiet:
  assumes "ip + 28 \<le> length b" "udp_packet_handler (net s) = Some dummy_handler" "receive_ip ops b ip len s = Some (b', s')"
  shows "quiet_step ops s s'"
proof -
  have "quiet_step ops s s2" if "echo_reply ops b ip l s = Some (b2, s2)" for l b2 s2
    using that by (auto simp: echo_reply_def bind_eq_Some_conv Let_def dest: quiet_send)
  then show ?thesis using assms(2,3)
    by (auto simp: receive_ip_eq [OF assms(1)] ping_receive_eq [OF assms(1)] run_rxhand_def quiet_rx Let_def split: if_splits)
qed

lemma process_quiet:
  assumes "unat len < 2 ^ 31" "64 \<le> length b" "pinging ip s"
    and run: "net_process_received_packet ops loc b len s = Some (b', s')"
  shows "quiet_step ops s s'"
proof -
  have b: "link_hdr_size b + 28 \<le> length b" using link_hdr_size_bounds(2) [of b] assms(2) by simp
  have quiet: "arp_packet_handler (net (rx_noted loc len s)) = Some dummy_handler"
    "udp_packet_handler (net (rx_noted loc len s)) = Some dummy_handler"
    using assms(3) by (simp_all add: pinging_def sys_simps)
  have same: "quiet_step ops s (rx_noted loc len s)" by (simp add: quiet_step_def sys_simps sends_def)
  show ?thesis
  proof (cases "unat len < 14")
    case True
    then have "(scast len :: u64) < 14" using assms(1) by (simp add: word_less_nat_alt unat_scast)
    then show ?thesis using run same by (auto simp: net_process_received_packet_def simp flip: rx_noted_def)
  next
    case False
    then have "14 \<le> unat len" by simp
    note e = process_eq [OF this assms(1,2), of ops loc s]
    show ?thesis
      using run same arp_receive_quiet [OF b quiet(1)] receive_ip_quiet [OF b quiet(2)]
      by (auto simp: e quiet_rx split: if_splits)
  qed
qed

text \<open>The poll of the device: a frame is received, a packet is sent, the buffer goes back.\<close>

lemma eth_rx_quiet:
  assumes timed: "timed ops time d" and "silent ops ip" "pinging ip s" "eth_rx ops s = Some (r, s')"
  shows "within time (3 * d) (hw s) (hw s')"
    "time_start (net s') = time_start (net s)" "time_delta (net s') = time_delta (net s)"
    "arp s' = arp s \<or> net_arp_wait_packet_ip (arp s') = 0"
proof -
  have "within time (3 * d) (hw s) (hw s') \<and> time_start (net s') = time_start (net s) \<and>
    time_delta (net s') = time_delta (net s) \<and> (arp s' = arp s \<or> net_arp_wait_packet_ip (arp s') = 0)"
  proof (cases "eth_current (eth s)")
    case (Some a)
    with assms(4) obtain e f h where e: "deref s (Some a) = Some (a, e)" "drv_recv ops a e (hw s) = Some (f, h)"
      by (auto simp: eth_rx_def bind_eq_Some_conv dest: deref_SomeD)
    have w1: "within time d (hw s) h" by (rule timedD(3) [OF timed e(2)])
    show ?thesis
    proof (cases f)
      case None
      with assms(4) Some e obtain x where x: "drv_recv_done ops a e None h = Some (x, hw s')" "s' = s\<lparr>hw := hw s'\<rparr>"
        by (auto simp: eth_rx_def bind_eq_Some_conv)
      have "within time (3 * d) (hw s) (hw s')" using w1 timedD(4) [OF timed x(1)] by (simp add: within_def)
      moreover have "net s' = net s" "arp s' = arp s" by (subst x(2), simp)+
      ultimately show ?thesis by simp
    next
      case g: (Some g)
      obtain loc b len where g: "f = Some (loc, b, len)" using g by (cases g) simp
      have "unat len < 2 ^ 31" "64 \<le> length b"
        using assms(2) [unfolded silent_def, rule_format, of a e "hw s" loc b len h] e(2) g by simp_all
      moreover have "pinging ip (s\<lparr>hw := h\<rparr>)" using assms(3) by (simp add: pinging_def)
      moreover obtain b2 s2 x where s2: "net_process_received_packet ops loc b len (s\<lparr>hw := h\<rparr>) = Some (b2, s2)"
        "drv_recv_done ops a e (Some b2) (hw s2) = Some (x, hw s')" "s' = s2\<lparr>hw := hw s'\<rparr>"
        using assms(4) Some e g by (auto simp: eth_rx_def bind_eq_Some_conv)
      ultimately have q: "quiet_step ops (s\<lparr>hw := h\<rparr>) s2" by (intro process_quiet)
      then have "within time d h (hw s2)" using sends_within [OF timed] by (simp add: quiet_step_def)
      with w1 timedD(4) [OF timed s2(2)] have "within time (3 * d) (hw s) (hw s')" by (simp add: within_def)
      moreover have "net s' = net s2" "arp s' = arp s2" by (subst s2(3), simp)+
      ultimately show ?thesis using q by (simp add: quiet_step_def)
    qed
  qed (use assms(4) in \<open>simp add: eth_rx_def\<close>)
  then show "within time (3 * d) (hw s) (hw s')" "time_start (net s') = time_start (net s)"
    "time_delta (net s') = time_delta (net s)" "arp s' = arp s \<or> net_arp_wait_packet_ip (arp s') = 0" by blast+
qed


section \<open>Deadlines\<close>

text \<open>
  When the wait for an answer to the last ARP request is over, when the ping is, and a bound of
  the whole run: \<open>c\<close> is what one round may take.
\<close>

definition arp_end :: "nat \<Rightarrow> 'h sys \<Rightarrow> nat" where
  "arp_end c s = 24000 * (unat (arp_wait_timer_start (arp s)) + 5001) + c"

definition ping_end :: "nat \<Rightarrow> 'h sys \<Rightarrow> nat" where
  "ping_end c s = 24000 * (unat (time_start (net s)) + 10001) + c"

definition deadline :: "nat \<Rightarrow> 'h sys \<Rightarrow> nat" where
  "deadline c s = (if net_arp_wait_packet_ip (arp s) = 0 then ping_end c s
     else arp_end c s + (4 - unat (arp_wait_try (arp s))) * (24000 * 5001 + c) + (24000 * 10001 + c))"

definition on_time :: "('h \<Rightarrow> nat) \<Rightarrow> nat \<Rightarrow> 'h sys \<Rightarrow> bool" where
  "on_time time c s \<longleftrightarrow> time_handler (net s) = Some ping_timeout_handler \<and> time_delta (net s) = 10000 \<and>
     deadline c s + c < overflow \<and>
     (if net_arp_wait_packet_ip (arp s) = 0
      then 24000 * unat (time_start (net s)) \<le> time (hw s) \<and> time (hw s) \<le> ping_end c s
      else 1 \<le> unat (arp_wait_try (arp s)) \<and> unat (arp_wait_try (arp s)) \<le> 4 \<and>
        24000 * unat (arp_wait_timer_start (arp s)) \<le> time (hw s) \<and> time (hw s) \<le> arp_end c s)"

text \<open>How far the run has come, downwards.\<close>

definition phase :: "'h sys \<Rightarrow> nat" where
  "phase s = (if net_arp_wait_packet_ip (arp s) = 0 then 0 else 5 - unat (arp_wait_try (arp s)))"

lemma arp_request_arp:
  assumes "arp_request ops s = Some s'"
  shows "net s' = net s" "net_arp_wait_packet_ip (arp s') = net_arp_wait_packet_ip (arp s)"
    "arp_wait_try (arp s') = arp_wait_try (arp s)" "arp_wait_timer_start (arp s') = arp_wait_timer_start (arp s)"
    "sends ops (hw s) (hw s')"
proof -
  have "net s' = net s \<and> net_arp_wait_packet_ip (arp s') = net_arp_wait_packet_ip (arp s) \<and>
    arp_wait_try (arp s') = arp_wait_try (arp s) \<and> arp_wait_timer_start (arp s') = arp_wait_timer_start (arp s) \<and>
    sends ops (hw s) (hw s')"
    using assms
    by (auto simp: arp_request_def arp_raw_request_def bind_eq_Some_conv Let_def sys_simps dest!: send_sends)
  then show "net s' = net s" "net_arp_wait_packet_ip (arp s') = net_arp_wait_packet_ip (arp s)"
    "arp_wait_try (arp s') = arp_wait_try (arp s)" "arp_wait_timer_start (arp s') = arp_wait_timer_start (arp s)"
    "sends ops (hw s) (hw s')" by blast+
qed


section \<open>One round in time\<close>

text \<open>Waiting for an answer: one more request, none, or the failure. Time for the rest of the round is left.\<close>

lemma arp_check_on_time:
  assumes timed: "timed ops time d" and on: "on_time time (7 * d) s" and wait: "net_arp_wait_packet_ip (arp s) \<noteq> 0"
    and run: "arp_timeout_check ops s = Some (w, s1)"
  shows "w" "net_state (net s1) \<noteq> NETLOOP_FAIL \<Longrightarrow> net s1 = net s \<and> net_arp_wait_packet_ip (arp s1) \<noteq> 0 \<and>
    1 \<le> unat (arp_wait_try (arp s1)) \<and> unat (arp_wait_try (arp s1)) \<le> 4 \<and> unat (arp_wait_try (arp s)) \<le> unat (arp_wait_try (arp s1)) \<and>
    24000 * unat (arp_wait_timer_start (arp s1)) \<le> time (hw s1) \<and> time (hw s) < time (hw s1) \<and>
    time (hw s1) + 5 * d \<le> arp_end (7 * d) s1 \<and> deadline (7 * d) s1 \<le> deadline (7 * d) s"
proof -
  obtain t s0 where t: "now ops s = (t, s0)" by (cases "now ops s")
  have same: "net s0 = net s" "arp s0 = arp s" using now_sel(2,3) [of ops s] t by simp_all
  let ?start = "unat (arp_wait_timer_start (arp s))" and ?tries = "unat (arp_wait_try (arp s))"
  have o: "1 \<le> ?tries" "?tries \<le> 4" "24000 * ?start \<le> time (hw s)" "time (hw s) \<le> arp_end (7 * d) s"
    "deadline (7 * d) s + 7 * d < overflow"
    using on wait by (simp_all add: on_time_def)
  have dl: "deadline (7 * d) s = arp_end (7 * d) s + (4 - ?tries) * (24000 * 5001 + 7 * d) + (24000 * 10001 + 7 * d)"
    using wait by (simp add: deadline_def)
  have "time (hw s) < overflow" using o(4,5) dl by linarith
  note ms = now_ms [OF timed t this]
  have tl: "24000 * unat t \<le> time (hw s)" "time (hw s) < 24000 * (unat t + 1)" unfolding ms(1) by (rule ms_bounds)+
  have le: "?start \<le> unat t" unfolding ms(1) by (rule ms_bounds(3) [OF o(3)])
  have el: "t - arp_wait_timer_start (arp s) > 5000 \<longleftrightarrow> ?start + 5000 < unat t" using elapsed_iff [OF le, of 5000] by simp
  show "w" using run wait t same by (auto simp: arp_timeout_check_def bind_eq_Some_conv Let_def split: if_splits)
  assume ok: "net_state (net s1) \<noteq> NETLOOP_FAIL"
  show "net s1 = net s \<and> net_arp_wait_packet_ip (arp s1) \<noteq> 0 \<and>
    1 \<le> unat (arp_wait_try (arp s1)) \<and> unat (arp_wait_try (arp s1)) \<le> 4 \<and> ?tries \<le> unat (arp_wait_try (arp s1)) \<and>
    24000 * unat (arp_wait_timer_start (arp s1)) \<le> time (hw s1) \<and> time (hw s) < time (hw s1) \<and>
    time (hw s1) + 5 * d \<le> arp_end (7 * d) s1 \<and> deadline (7 * d) s1 \<le> deadline (7 * d) s"
  proof (cases "?start + 5000 < unat t")
    case False
    then have "s1 = s0" using run wait t same el by (simp add: arp_timeout_check_def)
    moreover have "time (hw s0) + 5 * d \<le> arp_end (7 * d) s" using False tl(2) ms(3) by (simp add: arp_end_def)
    moreover have "arp_end (7 * d) s0 = arp_end (7 * d) s" "deadline (7 * d) s0 = deadline (7 * d) s"
      by (simp_all add: arp_end_def deadline_def ping_end_def same)
    ultimately show ?thesis using same wait o ms by simp
  next
    case True
    let ?next = "arp_wait_try (arp s) + 1"
    have un: "unat ?next = ?tries + 1" using o(2) by (simp add: unat_word_ariths)
    then have si: "sint ?next = int (?tries + 1)" using o(2) sint_small [of ?next] by simp
    have lt: "\<not> sint ?next \<ge> sint (5 :: u32)"
      using run wait t same el True ok by (auto simp: arp_timeout_check_def Let_def sys_simps)
    have "sint (5 :: u32) = 5" by simp
    with lt have four: "?tries + 1 \<le> 4" using si by linarith
    obtain r where r: "arp_request ops (upd_arp (\<lambda>v. v\<lparr>arp_wait_try := ?next, arp_wait_timer_start := t\<rparr>) s0) = Some s1"
      using run wait t same el True lt by (auto simp: arp_timeout_check_def Let_def bind_eq_Some_conv)
    note q = arp_request_arp [OF r, unfolded sys_simps same, simplified]
    have w: "within time d (hw s0) (hw s1)" by (rule sends_within [OF timed q(5)])
    have e: "arp_end (7 * d) s1 = 24000 * (unat t + 5001) + 7 * d" by (simp add: arp_end_def q)
    have "4 - ?tries = Suc (4 - (?tries + 1))" using four by simp
    then have left: "(4 - ?tries) * (24000 * 5001 + 7 * d) = (24000 * 5001 + 7 * d) + (4 - (?tries + 1)) * (24000 * 5001 + 7 * d)"
      by (simp only: mult_Suc)
    have "24000 * (unat t + 5001) + 7 * d + rest + last \<le> arp_end (7 * d) s + (24000 * 5001 + 7 * d + rest) + last" for rest last
      using tl(1) o(4) by simp
    then have "deadline (7 * d) s1 \<le> deadline (7 * d) s"
      using q(2) wait by (simp only: dl deadline_def e q(3) un left if_False)
    moreover have "time (hw s1) + 5 * d \<le> arp_end (7 * d) s1"
      using tl(2) ms(3) w by (simp add: e within_def)
    ultimately show ?thesis using q wait un four o(1) tl(1) ms(2) w by (simp add: within_def)
  qed
qed

text \<open>The timer of the ping.\<close>

lemma check_timeout_on_time:
  assumes timed: "timed ops time d" and h: "time_handler (net s) = Some ping_timeout_handler" "time_delta (net s) = 10000"
    and start: "24000 * unat (time_start (net s)) \<le> time (hw s)" and small: "time (hw s) < overflow"
    and run: "check_timeout ops s = Some s1" and ok: "net_state (net s1) \<noteq> NETLOOP_FAIL"
  shows "net s1 = net s" "arp s1 = arp s" "time (hw s) < time (hw s1)" "time (hw s1) \<le> time (hw s) + d"
    "time (hw s1) \<le> ping_end (7 * d) s"
proof -
  obtain t s0 where t: "now ops s = (t, s0)" by (cases "now ops s")
  have same: "net s0 = net s" "arp s0 = arp s" using now_sel(2,3) [of ops s] t by simp_all
  note ms = now_ms [OF timed t small]
  have tl: "time (hw s) < 24000 * (unat t + 1)" unfolding ms(1) by (rule ms_bounds)
  have le: "unat (time_start (net s)) \<le> unat t" unfolding ms(1) by (rule ms_bounds(3) [OF start])
  have el: "t - time_start (net s) > 10000 \<longleftrightarrow> unat (time_start (net s)) + 10000 < unat t"
    using elapsed_iff [OF le, of 10000] by simp
  have quiet: "\<not> unat (time_start (net s)) + 10000 < unat t"
    using run ok h t same el
    by (auto simp: check_timeout_def run_thand_def ping_timeout_def sys_simps bind_eq_Some_conv)
  then have "s1 = s0" using run h t same el by (simp add: check_timeout_def)
  then show "net s1 = net s" "arp s1 = arp s" "time (hw s) < time (hw s1)" "time (hw s1) \<le> time (hw s) + d"
    "time (hw s1) \<le> ping_end (7 * d) s"
    using same ms quiet tl by (simp_all add: ping_end_def)
qed


text \<open>The stages of a round after which the loop goes on.\<close>

lemma round_stages:
  assumes "silent ops ip" "running ip s" "net_loop_iter ops PING ret s = Some (Continue ret' s')"
  obtains w s1 s3 r s4 where "arp_timeout_check ops s = Some (w, s1)"
    "s3 = (if w then (case now ops s1 of (t, s) \<Rightarrow> upd_net (\<lambda>v. v\<lparr>time_start := t\<rparr>) s) else s1)"
    "eth_rx ops s3 = Some (r, s4)" "check_timeout ops s4 = Some s'" "net_state (net s') = NETLOOP_CONTINUE"
    "running ip s3" "same_ping s3 s4" "net_state (net s1) \<noteq> NETLOOP_FAIL" "net_state (net s) \<noteq> NETLOOP_FAIL"
proof -
  from assms(3) obtain w s1 where a: "arp_timeout_check ops s = Some (w, s1)"
    by (auto simp: net_loop_iter_def bind_eq_Some_conv)
  define s3 where "s3 = (if w then (case now ops s1 of (t, s) \<Rightarrow> upd_net (\<lambda>v. v\<lparr>time_start := t\<rparr>) s) else s1)"
  from assms(3) a obtain r s4 where b: "eth_rx ops s3 = Some (r, s4)"
    by (auto simp: net_loop_iter_def bind_eq_Some_conv s3_def Let_def)
  from assms(3) a b obtain s5 where c: "check_timeout ops s4 = Some s5"
    by (auto simp: net_loop_iter_def bind_eq_Some_conv s3_def Let_def)
  have r1: "running ip s1" using arp_timeout_check_same_ping [OF a] assms(2) running_same running_fail by metis
  have r3: "running ip s3" "net_state (net s3) = net_state (net s1)"
  proof -
    obtain t s2 where t: "now ops s1 = (t, s2)" by (cases "now ops s1")
    have "running ip s2" using r1 running_same [OF now_same_ping [OF t]] by simp
    then show "running ip s3" using r1 t by (simp add: s3_def running_def sys_simps)
    show "net_state (net s3) = net_state (net s1)"
      using now_sel(2) [of ops s1] t by (simp add: s3_def sys_simps)
  qed
  have p4: "same_ping s3 s4" using eth_rx_same_ping [OF assms(1) _ b] r3(1) by (simp add: running_def)
  then have r4: "running ip s4" using running_same r3(1) by blast
  have r5: "running ip s5" by (rule check_timeout_running [OF r4 c])
  have ok: "net_state (net s5) \<noteq> NETLOOP_FAIL"
  proof
    assume fail: "net_state (net s5) = NETLOOP_FAIL"
    from assms(3) a b c fail obtain x s6 where g: "net_start_again ops s5 = Some (x, s6)"
      by (auto simp: net_loop_iter_def bind_eq_Some_conv s3_def Let_def)
    have "retry_limit (envs_of s5) = Some (False, 0)" "net_try_count (net s5) = 1"
      using r5 by (simp_all add: running_def pinging_def)
    from net_start_again_gives_up [OF this g] have "net_state (net s6) = NETLOOP_FAIL" by (auto simp: sys_simps)
    with assms(3) a b c fail g show False by (auto simp: net_loop_iter_def s3_def Let_def)
  qed
  then have cont: "net_state (net s5) = NETLOOP_CONTINUE" using r5 by (simp add: running_def)
  with assms(3) a b c have "s' = s5" by (auto simp: net_loop_iter_def s3_def Let_def)
  have keep: "net_state (net s4) \<noteq> NETLOOP_FAIL"
  proof
    assume fail: "net_state (net s4) = NETLOOP_FAIL"
    obtain t s' where t: "now ops s4 = (t, s')" by (cases "now ops s4")
    have "net s' = net s4" using now_sel(2) [of ops s4] t by simp
    moreover have "time_handler (net s4) \<in> {None, Some ping_timeout_handler}" using r4 by (simp add: running_def pinging_def)
    ultimately have "net_state (net s5) = NETLOOP_FAIL"
      using c t fail by (auto simp: check_timeout_def run_thand_def ping_timeout_def sys_simps split: if_splits)
    with ok show False by simp
  qed
  have ok1: "net_state (net s1) \<noteq> NETLOOP_FAIL" using keep p4 r3(2) by (simp add: same_ping_def)
  moreover have "net_state (net s) \<noteq> NETLOOP_FAIL"
    using arp_timeout_check_same_ping [OF a] ok1 by (auto simp: same_ping_def sys_simps)
  ultimately show thesis using that [OF a s3_def b] c cont r3(1) p4 \<open>s' = s5\<close> by blast
qed

lemma round_on_time:
  assumes timed: "timed ops time d" and net: "silent ops ip" "running ip s"
    and on: "net_state (net s) \<noteq> NETLOOP_FAIL \<Longrightarrow> on_time time (7 * d) s"
    and run: "net_loop_iter ops PING ret s = Some (Continue ret' s')"
  shows "on_time time (7 * d) s' \<and> net_state (net s') \<noteq> NETLOOP_FAIL \<and> time (hw s) < time (hw s') \<and> phase s' \<le> phase s"
proof -
  obtain w s1 s3 r s4 where st: "arp_timeout_check ops s = Some (w, s1)"
    "s3 = (if w then (case now ops s1 of (t, s) \<Rightarrow> upd_net (\<lambda>v. v\<lparr>time_start := t\<rparr>) s) else s1)"
    "eth_rx ops s3 = Some (r, s4)" "check_timeout ops s4 = Some s'" "net_state (net s') = NETLOOP_CONTINUE"
    "running ip s3" "same_ping s3 s4" "net_state (net s1) \<noteq> NETLOOP_FAIL" "net_state (net s) \<noteq> NETLOOP_FAIL"
    by (rule round_stages [OF net run])
  note on = on [OF st(9)]
  have pr: "pinging ip s3" using st(6) by (simp add: running_def)
  note rx = eth_rx_quiet [OF timed net(1) pr st(3)]
  have rx1: "time (hw s3) \<le> time (hw s4)" "time (hw s4) \<le> time (hw s3) + 3 * d" using rx(1) by (simp_all add: within_def)
  have h: "time_handler (net s4) = time_handler (net s3)" using st(7) by (simp add: same_ping_def)
  have ok: "net_state (net s') \<noteq> NETLOOP_FAIL" using st(5) by simp
  have lim: "deadline (7 * d) s + 7 * d < overflow" using on by (simp add: on_time_def)
  show ?thesis
  proof (cases "net_arp_wait_packet_ip (arp s) = 0")
    case True
    then have "s3 = s" using st(1,2) by (simp add: arp_timeout_check_def)
    have o: "time_handler (net s) = Some ping_timeout_handler" "time_delta (net s) = 10000"
      "24000 * unat (time_start (net s)) \<le> time (hw s)" "time (hw s) \<le> ping_end (7 * d) s"
      using on True by (simp_all add: on_time_def)
    have dl: "deadline (7 * d) s = ping_end (7 * d) s" using True by (simp add: deadline_def)
    have wait: "net_arp_wait_packet_ip (arp s4) = 0" using rx(4) True \<open>s3 = s\<close> by auto
    have "time (hw s4) < overflow" using rx1(2) [unfolded \<open>s3 = s\<close>] o(4) lim dl by linarith
    moreover have "24000 * unat (time_start (net s4)) \<le> time (hw s4)"
      using rx(2) rx1(1) o(3) \<open>s3 = s\<close> by simp
    moreover have "time_handler (net s4) = Some ping_timeout_handler" "time_delta (net s4) = 10000"
      using h rx(3) o \<open>s3 = s\<close> by simp_all
    ultimately have e: "net s' = net s4" "arp s' = arp s4" "time (hw s4) < time (hw s')" "time (hw s') \<le> ping_end (7 * d) s4"
      using check_timeout_on_time [OF timed _ _ _ _ st(4) ok] by blast+
    have pe: "ping_end (7 * d) s4 = ping_end (7 * d) s" "ping_end (7 * d) s' = ping_end (7 * d) s"
      using rx(2) e(1) \<open>s3 = s\<close> by (simp_all add: ping_end_def)
    show ?thesis using e pe wait True o rx1 rx(2,3) h lim dl st(5) \<open>s3 = s\<close>
      by (simp add: on_time_def deadline_def phase_def)
  next
    case False
    note a = arp_check_on_time [OF timed on False st(1)]
    note a2 = a(2) [OF st(8)]
    have o: "time_handler (net s) = Some ping_timeout_handler" "time_delta (net s) = 10000"
      using on by (simp_all add: on_time_def)
    obtain t s2 where t: "now ops s1 = (t, s2)" by (cases "now ops s1")
    have s3: "s3 = upd_net (\<lambda>v. v\<lparr>time_start := t\<rparr>) s2" using st(2) a(1) t by simp
    have same: "net s2 = net s1" "arp s2 = arp s1" using now_sel(2,3) [of ops s1] t by simp_all
    have le1: "arp_end (7 * d) s1 + (24000 * 10001 + 7 * d) \<le> deadline (7 * d) s1" using a2 by (simp add: deadline_def)
    have "time (hw s1) < overflow" using a2 le1 lim by linarith
    note ms = now_ms [OF timed t this]
    have ts: "24000 * unat t \<le> time (hw s1)" unfolding ms(1) by (rule ms_bounds)
    have hw3: "hw s3 = hw s2" "net s3 = (net s1)\<lparr>time_start := t\<rparr>" "arp s3 = arp s1" by (simp_all add: s3 sys_simps same)
    have t4: "time (hw s4) \<le> time (hw s1) + 4 * d" "time (hw s1) < time (hw s4)" using rx1 ms hw3(1) by simp_all
    have "time (hw s4) < overflow" using t4(1) a2 le1 lim by linarith
    moreover have "24000 * unat (time_start (net s4)) \<le> time (hw s4)" using rx(2) hw3(2) ts t4(2) by simp
    moreover have "time_handler (net s4) = Some ping_timeout_handler" "time_delta (net s4) = 10000"
      using h rx(3) hw3(2) a2 o by simp_all
    ultimately have e: "net s' = net s4" "arp s' = arp s4" "time (hw s4) < time (hw s')" "time (hw s') \<le> time (hw s4) + d"
      "time (hw s') \<le> ping_end (7 * d) s4" using check_timeout_on_time [OF timed _ _ _ _ st(4) ok] by blast+
    have common: "time_handler (net s') = Some ping_timeout_handler" "time_delta (net s') = 10000"
      "time_start (net s') = t" "time (hw s) < time (hw s')" "24000 * unat t \<le> time (hw s')"
      using e h rx(2,3) hw3(2) a2 o t4(2) ts by simp_all
    show ?thesis
    proof (cases "net_arp_wait_packet_ip (arp s') = 0")
      case True
      have "ping_end (7 * d) s' \<le> deadline (7 * d) s"
        using ts a2 le1 common(3) by (simp add: ping_end_def)
      moreover have "ping_end (7 * d) s4 = ping_end (7 * d) s'" using e(1) by (simp add: ping_end_def)
      ultimately show ?thesis using True common e(5) lim ok by (simp add: on_time_def deadline_def phase_def)
    next
      case waits: False
      then have arp: "arp s' = arp s1" using rx(4) e(2) hw3(3) by auto
      have "arp_end (7 * d) s' = arp_end (7 * d) s1" "deadline (7 * d) s' = deadline (7 * d) s1"
        using waits arp by (simp_all add: arp_end_def deadline_def)
      moreover have "24000 * unat (arp_wait_timer_start (arp s1)) \<le> time (hw s1)" using a2 by blast
      then have "24000 * unat (arp_wait_timer_start (arp s1)) \<le> time (hw s')" using e(3) t4(2) by linarith
      moreover have "5 - unat (arp_wait_try (arp s1)) \<le> 5 - unat (arp_wait_try (arp s))"
        using a2 by (intro diff_le_mono2) blast
      ultimately show ?thesis using waits arp common a2 e(4) t4 lim ok False
        by (simp add: on_time_def phase_def)
    qed
  qed
qed


section \<open>Before the first round\<close>

lemma ping_send_vars:
  assumes "ping_send ops s = Some (x, s')"
  shows "\<exists>t s1 sn b. now ops s1 = (t, sn) \<and> hw s1 = hw s \<and> sends ops (hw sn) (hw s') \<and>
    net_arp_wait_packet_ip (arp s') = net_ping_ip (ping s) \<and> arp_wait_try (arp s') = 1 \<and> arp_wait_timer_start (arp s') = t \<and>
    net s' = (net s)\<lparr>net_ip_id := net_ip_id (net s) + 1, net_pkt_buf := b\<rparr>"
proof -
  let ?s1 = "upd_arp (\<lambda>v. v\<lparr>net_arp_wait_packet_ip := net_ping_ip (ping s)\<rparr>) s"
  from assms obtain tx b1 h where tx: "net_tx_packet (net s) = Some tx"
    and b1: "net_set_ether (net s) (net_pkt_buf (net s)) tx net_null_ethaddr PROT_IP = Some (b1, h)"
    by (auto simp: ping_send_def bind_eq_Some_conv sys_simps Let_def)
  from assms tx b1 obtain b v p where b: "set_icmp_header (net s) (ping s) b1 (tx + h) (net_ping_ip (ping s)) = Some (b, v, p)"
    by (auto simp: ping_send_def bind_eq_Some_conv sys_simps Let_def)
  define s2 where "s2 = upd_arp (\<lambda>v. v\<lparr>arp_wait_tx_packet_size := of_nat (h + 28), arp_wait_try := 1\<rparr>)
    (?s1\<lparr>net := v\<lparr>net_pkt_buf := b\<rparr>, ping := p\<rparr>)"
  obtain t s3 where t: "now ops s2 = (t, s3)" by (cases "now ops s2")
  have a: "arp_request ops (upd_arp (\<lambda>v. v\<lparr>arp_wait_timer_start := t\<rparr>) s3) = Some s'"
    using assms tx b1 b t by (auto simp: ping_send_def bind_eq_Some_conv sys_simps Let_def s2_def)
  note q = arp_request_arp [OF a, unfolded sys_simps]
  have s2: "hw s2 = hw s" "net s2 = v\<lparr>net_pkt_buf := b\<rparr>" "arp s2 = (arp s)\<lparr>net_arp_wait_packet_ip := net_ping_ip (ping s),
      arp_wait_tx_packet_size := of_nat (h + 28), arp_wait_try := 1\<rparr>"
    by (simp_all add: s2_def upd_arp_def)
  have same: "net s3 = net s2" "arp s3 = arp s2" using now_sel(2,3) [of ops s2] t by simp_all
  have "v = (net s)\<lparr>net_ip_id := net_ip_id (net s) + 1\<rparr>" using set_icmp_header_vars [OF b] by simp
  with q same s2 t show ?thesis by (intro exI [of _ t] exI [of _ s2] exI [of _ s3] exI [of _ b]) simp
qed

text \<open>The time the whole run needs: four requests, the ping, five rounds and the start.\<close>

definition time_left :: "('h \<Rightarrow> nat) \<Rightarrow> nat \<Rightarrow> 'h sys \<Rightarrow> bool" where
  "time_left time d s \<longleftrightarrow> time (hw s) + 24000 * (4 * 5001 + 10001) + 44 * d < overflow"

lemma ping_start_on_time:
  assumes timed: "timed ops time d" and left: "time_left time d s" and ip: "net_ping_ip (ping s) \<noteq> 0"
    and run: "ping_start ops s = Some s'"
  shows "on_time time (7 * d) s'"
proof -
  define s0 where "s0 = upd_net (\<lambda>v. v\<lparr>time_handler := Some ping_timeout_handler\<rparr>) s"
  obtain t1 s1 where t1: "now ops s0 = (t1, s1)" by (cases "now ops s0")
  define s2 where "s2 = upd_net (\<lambda>v. v\<lparr>time_start := t1, time_delta := 10000\<rparr>) s1"
  obtain x where send: "ping_send ops s2 = Some (x, s')"
    using run t1 by (auto simp: ping_start_def net_set_timeout_handler_def bind_eq_Some_conv s0_def s2_def)
  from ping_send_vars [OF send] obtain t sa sn b where sent: "now ops sa = (t, sn)" "hw sa = hw s2" "sends ops (hw sn) (hw s')"
    "net_arp_wait_packet_ip (arp s') = net_ping_ip (ping s2)" "arp_wait_try (arp s') = 1" "arp_wait_timer_start (arp s') = t"
    "net s' = (net s2)\<lparr>net_ip_id := net_ip_id (net s2) + 1, net_pkt_buf := b\<rparr>" by blast
  note t = sent(1-6) and vars = sent(7)
  have same: "ping s1 = ping s0" "net s1 = net s0" using now_sel(2,4) [of ops s0] by (simp_all add: t1)
  then have hw: "hw s0 = hw s" "hw s2 = hw s1" "ping s2 = ping s" "time_delta (net s2) = 10000"
    by (simp_all add: s0_def s2_def sys_simps)
  have l: "time (hw s0) + 24000 * (4 * 5001 + 10001) + 44 * d < overflow" using left by (simp add: time_left_def hw)
  then have "time (hw s0) < overflow" by linarith
  note m1 = now_ms [OF timed t1 this]
  have tsa: "time (hw sa) = time (hw s1)" using t(2) hw by simp
  have "time (hw sa) < overflow" using m1(3) l tsa by linarith
  note m2 = now_ms [OF timed t(1) this]
  have b: "24000 * unat t \<le> time (hw sa)" "time (hw sa) < 24000 * (unat t + 1)" unfolding m2(1) by (rule ms_bounds)+
  have w: "time (hw sn) \<le> time (hw s')" "time (hw s') \<le> time (hw sn) + d"
    using sends_within [OF timed t(3)] by (simp_all add: within_def)
  have wait: "net_arp_wait_packet_ip (arp s') \<noteq> 0" using t(4) ip hw by simp
  have e: "arp_end (7 * d) s' = 24000 * (unat t + 5001) + 7 * d" by (simp add: arp_end_def t)
  have "deadline (7 * d) s' = arp_end (7 * d) s' + 3 * (24000 * 5001 + 7 * d) + (24000 * 10001 + 7 * d)"
    using wait by (simp add: deadline_def t)
  then have "deadline (7 * d) s' + 7 * d < overflow"
    using l b(1) m1(3) tsa by (simp add: e)
  moreover have "time (hw s') \<le> arp_end (7 * d) s'" using w(2) m2(3) b(2) by (simp add: e)
  moreover have "24000 * unat t \<le> time (hw s')" using b(1) m2(2) w(1) by linarith
  moreover have "time_handler (net s') = Some ping_timeout_handler"
    using ping_send_same_ping [OF send] same by (simp add: same_ping_def s2_def s0_def sys_simps)
  ultimately show ?thesis using wait t vars hw by (simp add: on_time_def)
qed

lemma start_on_time:
  assumes timed: "timed ops time d" and left: "time_left time d s" and "pinging ip s"
    and run: "net_loop_start ops PING ret s = Some (Continue ret' s')"
  shows "net_state (net s') = NETLOOP_FAIL \<or> on_time time (7 * d) s'"
proof -
  from run obtain s1 where s1: "net_init_loop (net_set_state NETLOOP_CONTINUE s) = Some s1"
    by (auto simp: net_loop_start_def bind_eq_Some_conv)
  have same: "hw s1 = hw s" "ping s1 = ping s"
    using s1 by (auto simp: net_init_loop_def bind_eq_Some_conv sys_simps split: if_splits)
  from run s1 obtain c s2 where c: "net_check_prereq ops PING s1 = Some (c, s2)"
    by (auto simp: net_loop_start_def bind_eq_Some_conv)
  have p1: "retry_limit (envs_of s1) = Some (False, 0)" "net_try_count (net s1) = 1"
    using s1 assms(3) by (auto simp: net_init_loop_def bind_eq_Some_conv pinging_def sys_simps split: if_splits)
  have fail: "net_state (net s3) = NETLOOP_FAIL" if "net_start_again ops s1 = Some (x, s3)" for x s3
    using net_start_again_gives_up [OF p1 that] by (auto simp: sys_simps)
  have "c = 2 \<and> net_state (net s2) = NETLOOP_FAIL \<or> c = 1 \<or> c = 0 \<and> s2 = s1 \<and> net_ping_ip (ping s1) \<noteq> 0"
    using c by (auto simp: net_check_prereq_def prereq_ethaddr_def bind_eq_Some_conv fail split: if_splits)
  then consider "c = 2" "net_state (net s2) = NETLOOP_FAIL" | "c = 1" | "c = 0" "s2 = s1" "net_ping_ip (ping s1) \<noteq> 0" by blast
  then show ?thesis
  proof cases
    case 3
    let ?s = "upd_net (\<lambda>v. v\<lparr>net_dev_exists := True, net_boot_file_size := 0\<rparr>) s1"
    have "ping_start ops ?s = Some s'" using run s1 c 3 by (auto simp: net_loop_start_def bind_eq_Some_conv Let_def)
    moreover have "time_left time d ?s" using left same by (simp add: time_left_def sys_simps)
    ultimately show ?thesis using ping_start_on_time [OF timed, of ?s s'] 3 by (simp add: sys_simps)
  qed (use run s1 c in \<open>auto simp: net_loop_start_def bind_eq_Some_conv\<close>)
qed


section \<open>The run\<close>

text \<open>Positions of a ping of a silent host, and how they get nearer to the end.\<close>

definition ping_good :: "'h drv_ops \<Rightarrow> ('h \<Rightarrow> nat) \<Rightarrow> nat \<Rightarrow> u32 \<Rightarrow> 'h loop_result \<Rightarrow> bool" where
  "ping_good ops time d ip x \<longleftrightarrow> loop_good ops x \<and> timed ops time d \<and> silent ops ip \<and>
     (case x of Restart _ s \<Rightarrow> pinging ip s \<and> time_left time d s
      | Continue _ s \<Rightarrow> running ip s \<and> (net_state (net s) \<noteq> NETLOOP_FAIL \<longrightarrow> on_time time (7 * d) s)
      | Done r _ \<Rightarrow> r < 0)"

fun position :: "'h loop_result \<Rightarrow> nat" where
  "position (Restart ret s) = 2"
| "position (Continue ret s) = 1"
| "position (Done ret s) = 0"

fun state_of :: "'h loop_result \<Rightarrow> 'h sys" where
  "state_of (Restart ret s) = s"
| "state_of (Continue ret s) = s"
| "state_of (Done ret s) = s"

definition nearer :: "('h \<Rightarrow> nat) \<Rightarrow> ('h loop_result \<times> 'h loop_result) set" where
  "nearer time = measures [position, phase \<circ> state_of, \<lambda>x. overflow - time (hw (state_of x))]"

lemma on_time_small: "on_time time c s \<Longrightarrow> time (hw s) < overflow"
  by (auto simp: on_time_def deadline_def split: if_splits)

lemma ping_step:
  assumes good: "ping_good ops time d ip x" and step: "loop_step ops PING x y"
  shows "ping_good ops time d ip y \<and> (y, x) \<in> nearer time"
  using step
proof cases
  case (start ret s)
  have g: "timed ops time d" "silent ops ip" "pinging ip s" "time_left time d s" "loop_good ops y"
    using good loop_good_step [OF step] start(1) by (simp_all add: ping_good_def)
  from net_loop_start_running [OF g(3) start(2)] consider
    ret' s' where "y = Continue ret' s'" "running ip s'" | s' where "y = Done (-19) s'" by blast
  then show ?thesis
  proof cases
    case 1
    with start_on_time [OF g(1,4,3)] start(2) have "net_state (net s') = NETLOOP_FAIL \<or> on_time time (7 * d) s'" by blast
    with 1 g start(1) show ?thesis by (auto simp: ping_good_def nearer_def)
  qed (use g start(1) in \<open>simp add: ping_good_def nearer_def\<close>)
next
  case (round ret s)
  have g: "timed ops time d" "silent ops ip" "running ip s" "net_state (net s) \<noteq> NETLOOP_FAIL \<Longrightarrow> on_time time (7 * d) s"
    "loop_good ops y" using good loop_good_step [OF step] round(1) by (simp_all add: ping_good_def)
  from net_loop_iter_silent [OF g(2,3) round(2)] consider
    s' where "y = Continue ret s'" "running ip s'" | s' where "y = Done (-110) s'" by blast
  then show ?thesis
  proof cases
    case 1
    from round_on_time [OF g(1-4), of ret ret s'] round(2) 1 have
      r: "on_time time (7 * d) s'" "time (hw s) < time (hw s')" "phase s' \<le> phase s" by simp_all
    from on_time_small [OF r(1)] have "overflow - time (hw s') < overflow - time (hw s)" using r(2) by linarith
    with r(3) 1 round(1) have "(y, x) \<in> nearer time" by (auto simp: nearer_def)
    with 1 g r(1) show ?thesis by (simp add: ping_good_def)
  qed (use g round(1) in \<open>simp add: ping_good_def nearer_def\<close>)
qed

interpretation ping_loop: ending_steps "loop_step ops PING" at_end "ping_good ops time d ip" "nearer time"
  for ops :: "'h drv_ops" and time :: "'h \<Rightarrow> nat" and d :: nat and ip :: u32
proof
  fix x y :: "'h loop_result"
  show "ping_good ops time d ip y" if "ping_good ops time d ip x" "loop_step ops PING x y" using ping_step [OF that] ..
  show "\<exists>y. loop_step ops PING x y" if "ping_good ops time d ip x" "\<not> at_end x"
    using that by (intro loop_good_moves) (simp_all add: ping_good_def)
  show "wf (nearer time)" by (simp add: nearer_def)
  show "(y, x) \<in> nearer time" if "ping_good ops time d ip x" "\<not> at_end x" "loop_step ops PING x y"
    using ping_step [OF that(1,3)] ..
qed

lemma idle_timed: "timed idle_ops id 1" "silent idle_ops ip" "pinging 0x0364A8C0 idle_sys" "time_left id 1 idle_sys"
proof -
  have "unat (of_nat h :: u64) = h" if "h < 2 ^ 64" for h
    using that by (simp add: unsigned_of_nat take_bit_nat_eq_self_iff)
  then show "timed idle_ops id 1" by (simp add: timed_def ticking_def within_def idle_ops_def)
  show "silent idle_ops ip" by (simp add: silent_def idle_ops_def)
  show "time_left id 1 idle_sys" by (simp add: time_left_def idle_sys_def)
  show "pinging 0x0364A8C0 idle_sys"
    by (simp add: pinging_def idle_sys_def bench_simps bench_blank_retry) (simp add: bench_net_def net_vars_init_def)
qed

lemma silent_run:
  assumes "ping_good ops time d ip (Restart ret s)"
  shows "\<exists>r s'. net_loop_run ops PING (Restart ret s) = Some (r, s') \<and> r < 0 \<and> machine_inv s'"
proof -
  from ping_loop.ends [OF assms] obtain y where
    y: "loop_steps ops PING (Restart ret s) y" "at_end y" "ping_good ops time d ip y" by blast
  then obtain r s' where "y = Done r s'" by (cases y) (simp_all add: at_end_def)
  with steps_run y show ?thesis by (fastforce simp: ping_good_def loop_good_def)
qed

text \<open>
  C4: pinging a host that never answers ends, and with an error: on a clock that advances, with retries off, whatever
  frames arrive other than echo replies of that host, the main loop returns a negative value and keeps its
  invariant, provided the four ARP requests and the ping fit before the clock overflows.
\<close>

theorem silent_host_ends:
  assumes "driver_ok ops" "clients_ok ops" "silent ops ip" "timed ops time d"
    and "machine_inv s" "pinging ip s" "time_left time d s"
  shows "\<exists>r s'. net_loop_run ops PING (Restart ret s) = Some (r, s') \<and> r < 0 \<and> machine_inv s'"
  using assms by (intro silent_run) (simp add: ping_good_def loop_good_def)

theorem silent_host_ends_witness:
  "\<exists>r s'. net_loop_run idle_ops PING (Restart 0 idle_sys) = Some (r, s') \<and> r < 0 \<and> machine_inv s'"
  by (rule silent_host_ends [OF idle_ok(1,2) idle_timed(2,1) idle_ok(3) idle_timed(3,4)])

end
