(* ===== verification/Answer.thy ===== *)
theory Answer
  imports Ending
begin

text \<open>
  The counterpart of theory Ending: a host that answers in time is reported alive. The driver is
  described by the number of frames that have been polled from it; the echo reply comes with the
  \<open>n\<close>-th, before the first request is repeated, and whatever is received before is no reply. The
  theorem follows the state to that poll, and from there to the end of the program.
\<close>

section \<open>What a received frame leaves alone\<close>

text \<open>Receiving writes to the packet buffers, notes the frame and may change the state of the loop.\<close>

definition same_settings :: "net_vars \<Rightarrow> net_vars \<Rightarrow> bool" where
  "same_settings v w \<longleftrightarrow> net_ip w = net_ip v \<and> net_our_vlan w = net_our_vlan v \<and> net_native_vlan w = net_native_vlan v \<and>
     net_boot_file_size w = net_boot_file_size v"

lemma same_settings_refl [simp]: "same_settings v v"
  by (simp add: same_settings_def)

lemma same_settings_trans: "same_settings u v \<Longrightarrow> same_settings v w \<Longrightarrow> same_settings u w"
  by (simp add: same_settings_def)

lemma same_settings_icmp:
  assumes "same_settings v w"
  shows "carries_icmp w b len t = carries_icmp v b len t"
proof -
  have "frame_header w b len = frame_header v b len" "vlan_matches w = vlan_matches v"
    "ip_acceptable w b i l = ip_acceptable v b i l" for i l
    using assms by (simp_all add: frame_header_def vlan_matches_def ip_acceptable_def same_settings_def fun_eq_iff)
  then show ?thesis by (simp only: carries_icmp_def delivers_def)
qed

lemma settings_upd [simp]:
  "same_settings v (net (rx_noted p l s)) = same_settings v (net s)"
  "same_settings v (net (net_set_state st s)) = same_settings v (net s)"
  "same_settings (net (rx_noted p l s)) w = same_settings (net s) w"
  by (simp_all add: same_settings_def sys_simps)

lemma send_settings: "net_send_packet ops c l s = Some s' \<Longrightarrow> same_settings (net s) (net s')"
  by (simp add: send_net)

lemma arp_receive_settings:
  assumes "a + 28 \<le> length b" "arp_packet_handler (net s) = Some dummy_handler" "arp_receive ops b a len s = Some (b', s')"
  shows "same_settings (net s) (net s')"
proof -
  have answer: "same_settings (net s) (net s2)" if "arp_answer ops b a s = Some (b2, s2)" for b2 s2
    using that by (auto simp: arp_answer_def bind_eq_Some_conv dest: send_settings)
  have resolved: "same_settings (net s) (net s2)" if "arp_resolved ops b a len s = Some s2" for s2
    using that assms(2)
    by (auto simp: arp_resolved_def bind_eq_Some_conv run_rxhand_def sys_simps split: if_splits option.splits
        dest!: send_settings) (simp_all add: same_settings_def sys_simps)
  show ?thesis using assms(3) by (auto simp: arp_receive_eq [OF assms(1)] answer resolved split: if_splits)
qed

lemma receive_ip_settings:
  assumes "ip + 28 \<le> length b" "udp_packet_handler (net s) = Some dummy_handler" "receive_ip ops b ip len s = Some (b', s')"
  shows "same_settings (net s) (net s')"
proof -
  have "same_settings (net s) (net s2)" if "echo_reply ops b ip l s = Some (b2, s2)" for l b2 s2
    using echo_reply_net [OF that] by simp
  then show ?thesis using assms(2,3)
    by (auto simp: receive_ip_eq [OF assms(1)] ping_receive_eq [OF assms(1)] run_rxhand_def Let_def split: if_splits)
qed

lemma process_settings:
  assumes "unat len < 2 ^ 31" "64 \<le> length b" "pinging ip s"
    and run: "net_process_received_packet ops loc b len s = Some (b', s')"
  shows "same_settings (net s) (net s')"
proof -
  have b: "link_hdr_size b + 28 \<le> length b" using link_hdr_size_bounds(2) [of b] assms(2) by simp
  have quiet: "arp_packet_handler (net (rx_noted loc len s)) = Some dummy_handler"
    "udp_packet_handler (net (rx_noted loc len s)) = Some dummy_handler"
    using assms(3) by (simp_all add: pinging_def sys_simps)
  show ?thesis
  proof (cases "unat len < 14")
    case True
    then have "(scast len :: u64) < 14" using assms(1) by (simp add: word_less_nat_alt unat_scast)
    then show ?thesis using run by (auto simp: net_process_received_packet_def simp flip: rx_noted_def)
  next
    case False
    then have "14 \<le> unat len" by simp
    note e = process_eq [OF this assms(1,2), of ops loc s]
    show ?thesis
      using run arp_receive_settings [OF b quiet(1)] receive_ip_settings [OF b quiet(2)]
      by (auto simp: e split: if_splits)
  qed
qed


section \<open>The frames that are polled\<close>

text \<open>\<open>polls\<close> counts the calls of the driver's receive function, and the other functions leave it alone.\<close>

definition polled :: "'h drv_ops \<Rightarrow> ('h \<Rightarrow> nat) \<Rightarrow> bool" where
  "polled ops polls \<longleftrightarrow> (\<forall>h t h'. drv_time ops h = (t, h') \<longrightarrow> polls h' = polls h) \<and>
     (\<forall>a e b l h r h'. drv_send ops a e b l h = Some (r, h') \<longrightarrow> polls h' = polls h) \<and>
     (\<forall>a e h f h'. drv_recv ops a e h = Some (f, h') \<longrightarrow> polls h' = Suc (polls h)) \<and>
     (\<forall>a e b h r h'. drv_recv_done ops a e b h = Some (r, h') \<longrightarrow> polls h' = polls h)"

text \<open>The first reply of \<open>ip\<close> that a stack with the settings \<open>v\<close> gets comes with poll \<open>n\<close>, counted from 0.\<close>

definition answers :: "'h drv_ops \<Rightarrow> ('h \<Rightarrow> nat) \<Rightarrow> net_vars \<Rightarrow> u32 \<Rightarrow> nat \<Rightarrow> bool" where
  "answers ops polls v ip n \<longleftrightarrow> polled ops polls \<and> (\<forall>a e h f h'. drv_recv ops a e h = Some (f, h') \<longrightarrow>
     (\<forall>loc b len. polls h < n \<longrightarrow> f = Some (loc, b, len) \<longrightarrow> \<not> echo_reply_from ip b) \<and>
     (polls h = n \<longrightarrow> (\<exists>loc b len. f = Some (loc, b, len) \<and> carries_icmp v b len ICMP_ECHO_REPLY \<and>
        ip_src (read_ip b (link_hdr_size b)) = ip)))"

lemma polledD:
  assumes "polled ops polls"
  shows "drv_time ops h = (t, h') \<Longrightarrow> polls h' = polls h" "drv_send ops a e b l h = Some (r, h') \<Longrightarrow> polls h' = polls h"
    "drv_recv ops a e h = Some (f, h') \<Longrightarrow> polls h' = Suc (polls h)"
    "drv_recv_done ops a e x h = Some (r, h') \<Longrightarrow> polls h' = polls h"
  using assms unfolding polled_def by metis+

lemma sends_polls: "polled ops polls \<Longrightarrow> sends ops h h' \<Longrightarrow> polls h' = polls h"
  by (auto simp: sends_def dest: polledD(2))

lemma now_polls: "polled ops polls \<Longrightarrow> now ops s = (t, s') \<Longrightarrow> polls (hw s') = polls (hw s)"
  by (cases "drv_time ops (hw s)") (auto simp: now_def get_timer_eq dest: polledD(1))

text \<open>One poll of the device.\<close>

lemma eth_rx_steps:
  assumes "eth_rx ops s = Some (r, s')" "eth_current (eth s) = Some a"
  obtains e f h s2 b x where "drv_recv ops a e (hw s) = Some (f, h)" "drv_recv_done ops a e b (hw s2) = Some (x, hw s')"
    "s' = s2\<lparr>hw := hw s'\<rparr>" "f = None \<and> s2 = s\<lparr>hw := h\<rparr> \<or> (\<exists>loc p len b2. f = Some (loc, p, len) \<and>
       net_process_received_packet ops loc p len (s\<lparr>hw := h\<rparr>) = Some (b2, s2))"
proof -
  from assms obtain e f h where e: "deref s (Some a) = Some (a, e)" "drv_recv ops a e (hw s) = Some (f, h)"
    by (auto simp: eth_rx_def bind_eq_Some_conv dest: deref_SomeD)
  show thesis
  proof (cases f)
    case None
    with assms e that [OF e(2), of None "s\<lparr>hw := h\<rparr>"] show ?thesis by (auto simp: eth_rx_def bind_eq_Some_conv)
  next
    case (Some g)
    obtain loc p len where g: "g = (loc, p, len)" by (cases g)
    with assms e Some obtain b2 s2 x where "net_process_received_packet ops loc p len (s\<lparr>hw := h\<rparr>) = Some (b2, s2)"
      "drv_recv_done ops a e (Some b2) (hw s2) = Some (x, hw s')" "s' = s2\<lparr>hw := hw s'\<rparr>"
      by (auto simp: eth_rx_def bind_eq_Some_conv)
    with that [OF e(2), of "Some b2" s2] g Some show ?thesis by blast
  qed
qed

lemma frame_sizes:
  assumes "driver_ok ops" "drv_recv ops a e h = Some (Some (loc, b, len), h')"
  shows "unat len < 2 ^ 31" "64 \<le> length b"
  using driver_okD(6) [OF assms(1), of a e h] assms(2) by (auto simp: whole_frame_def)

lemma eth_rx_kept:
  assumes ops: "driver_ok ops" "timed ops time d" "polled ops polls" and s: "pinging ip s" "eth_current (eth s) = Some a"
    and run: "eth_rx ops s = Some (r, s')"
  shows "within time (3 * d) (hw s) (hw s')" "polls (hw s') = Suc (polls (hw s))"
    "time_start (net s') = time_start (net s)" "time_delta (net s') = time_delta (net s)"
    "arp s' = arp s \<or> net_arp_wait_packet_ip (arp s') = 0" "same_settings (net s) (net s')"
proof -
  obtain e f h s2 b x where st: "drv_recv ops a e (hw s) = Some (f, h)" "drv_recv_done ops a e b (hw s2) = Some (x, hw s')"
    "s' = s2\<lparr>hw := hw s'\<rparr>" "f = None \<and> s2 = s\<lparr>hw := h\<rparr> \<or> (\<exists>loc p len b2. f = Some (loc, p, len) \<and>
       net_process_received_packet ops loc p len (s\<lparr>hw := h\<rparr>) = Some (b2, s2))"
    by (rule eth_rx_steps [OF run s(2)])
  have p: "pinging ip (s\<lparr>hw := h\<rparr>)" using s(1) by (simp add: pinging_def)
  have "quiet_step ops (s\<lparr>hw := h\<rparr>) s2 \<and> same_settings (net s) (net s2)"
    using st(4)
  proof
    assume "\<exists>loc p len b2. f = Some (loc, p, len) \<and> net_process_received_packet ops loc p len (s\<lparr>hw := h\<rparr>) = Some (b2, s2)"
    then obtain loc q len b2 where f: "f = Some (loc, q, len)" "net_process_received_packet ops loc q len (s\<lparr>hw := h\<rparr>) = Some (b2, s2)"
      by blast
    note size = frame_sizes [OF ops(1) st(1) [unfolded f(1)]]
    show ?thesis using process_quiet [OF size p f(2)] process_settings [OF size p f(2)] by simp
  qed simp
  then have q: "quiet_step ops (s\<lparr>hw := h\<rparr>) s2" "same_settings (net s) (net s2)" by blast+
  then have sent: "sends ops h (hw s2)" by (simp add: quiet_step_def)
  show "within time (3 * d) (hw s) (hw s')"
    using timedD(3) [OF ops(2) st(1)] sends_within [OF ops(2) sent] timedD(4) [OF ops(2) st(2)] by (simp add: within_def)
  show "polls (hw s') = Suc (polls (hw s))"
    using polledD(3) [OF ops(3) st(1)] sends_polls [OF ops(3) sent] polledD(4) [OF ops(3) st(2)] by simp
  have same: "net s' = net s2" "arp s' = arp s2" by (subst st(3), simp)+
  show "time_start (net s') = time_start (net s)" "time_delta (net s') = time_delta (net s)"
    "arp s' = arp s \<or> net_arp_wait_packet_ip (arp s') = 0" "same_settings (net s) (net s')"
    using q same by (simp_all add: quiet_step_def)
qed

text \<open>Before the answer the state of the loop stays; the answer makes it a success.\<close>

lemma eth_rx_before:
  assumes ops: "driver_ok ops" "answers ops polls v ip n" and s: "pinging ip s" "eth_current (eth s) = Some a" "polls (hw s) < n"
    and run: "eth_rx ops s = Some (r, s')"
  shows "same_ping s s'"
proof -
  obtain e f h s2 b x where st: "drv_recv ops a e (hw s) = Some (f, h)" "s' = s2\<lparr>hw := hw s'\<rparr>"
    "f = None \<and> s2 = s\<lparr>hw := h\<rparr> \<or> (\<exists>loc p len b2. f = Some (loc, p, len) \<and>
       net_process_received_packet ops loc p len (s\<lparr>hw := h\<rparr>) = Some (b2, s2))"
    by (rule eth_rx_steps [OF run s(2)])
  have p: "pinging ip (s\<lparr>hw := h\<rparr>)" using s(1) by (simp add: pinging_def)
  have "same_ping (s\<lparr>hw := h\<rparr>) s2"
    using st(3)
  proof
    assume "\<exists>loc p len b2. f = Some (loc, p, len) \<and> net_process_received_packet ops loc p len (s\<lparr>hw := h\<rparr>) = Some (b2, s2)"
    then obtain loc q len b2 where f: "f = Some (loc, q, len)" "net_process_received_packet ops loc q len (s\<lparr>hw := h\<rparr>) = Some (b2, s2)"
      by blast
    have "\<not> echo_reply_from ip q" using ops(2) st(1) s(3) f(1) unfolding answers_def by blast
    from process_same_ping [OF frame_sizes [OF ops(1) st(1) [unfolded f(1)]] p this f(2)] show ?thesis .
  qed simp
  then have "same_ping s s2" by (simp add: same_ping_def)
  then show ?thesis by (subst st(2)) simp
qed

lemma eth_rx_answer:
  assumes ops: "driver_ok ops" "answers ops polls v ip n" and s: "pinging ip s" "eth_current (eth s) = Some a" "polls (hw s) = n"
    "same_settings v (net s)" and run: "eth_rx ops s = Some (r, s')"
  shows "\<exists>s1. same_ping s s1 \<and> s' = net_set_state NETLOOP_SUCCESS s1"
proof -
  obtain e f h s2 b x where st: "drv_recv ops a e (hw s) = Some (f, h)" "s' = s2\<lparr>hw := hw s'\<rparr>"
    "f = None \<and> s2 = s\<lparr>hw := h\<rparr> \<or> (\<exists>loc p len b2. f = Some (loc, p, len) \<and>
       net_process_received_packet ops loc p len (s\<lparr>hw := h\<rparr>) = Some (b2, s2))"
    by (rule eth_rx_steps [OF run s(2)])
  obtain loc q len b2 where f: "f = Some (loc, q, len)" "carries_icmp v q len ICMP_ECHO_REPLY"
    "ip_src (read_ip q (link_hdr_size q)) = ip"
    "net_process_received_packet ops loc q len (s\<lparr>hw := h\<rparr>) = Some (b2, s2)"
    using ops(2) st(1,3) s(3) unfolding answers_def by blast
  note size = frame_sizes [OF ops(1) st(1) [unfolded f(1)]]
  have c: "carries_icmp (net (s\<lparr>hw := h\<rparr>)) q len ICMP_ECHO_REPLY" using f(2) same_settings_icmp [OF s(4)] by simp
  have b: "link_hdr_size q + 28 \<le> length q" using link_hdr_size_bounds(2) [of q] size(2) by simp
  have icmp: "get8 q (link_hdr_size q + 20) = ICMP_ECHO_REPLY" using c by (simp add: carries_icmp_def Let_def)
  have "net_process_received_packet ops loc q len (s\<lparr>hw := h\<rparr>) = Some (q, net_set_state NETLOOP_SUCCESS (rx_noted loc len (s\<lparr>hw := h\<rparr>)))"
    using process_icmp [OF size c, of ops loc] icmp f(3) s(1)
    by (simp add: ping_receive_eq [OF b] Let_def pinging_def sys_simps)
  then have "s2 = net_set_state NETLOOP_SUCCESS (rx_noted loc len (s\<lparr>hw := h\<rparr>))" using f(4) by simp
  then have "s' = net_set_state NETLOOP_SUCCESS ((rx_noted loc len s)\<lparr>hw := hw s'\<rparr>)"
    by (subst st(2)) (simp add: net_set_state_def rx_noted_def upd_net_def)
  then show ?thesis by (intro exI [of _ "(rx_noted loc len s)\<lparr>hw := hw s'\<rparr>"]) simp
qed

section \<open>Rounds before the first repetition\<close>

text \<open>A time stamp not older than \<open>base\<close>, up to a millisecond.\<close>

definition recent :: "('h \<Rightarrow> nat) \<Rightarrow> nat \<Rightarrow> u64 \<Rightarrow> 'h sys \<Rightarrow> bool" where
  "recent time base t s \<longleftrightarrow> base < 24000 * (unat t + 1) \<and> 24000 * unat t \<le> time (hw s)"

text \<open>What holds at the start of every round: nothing but polls has taken time since \<open>base\<close>.\<close>

definition awaiting :: "('h \<Rightarrow> nat) \<Rightarrow> nat \<Rightarrow> nat \<Rightarrow> net_vars \<Rightarrow> u32 \<Rightarrow> nat \<Rightarrow> 'h sys \<Rightarrow> bool" where
  "awaiting time d base v ip used s \<longleftrightarrow> machine_inv s \<and> pinging ip s \<and> same_settings v (net s) \<and>
     time_handler (net s) = Some ping_timeout_handler \<and> time_delta (net s) = 10000 \<and>
     recent time base (time_start (net s)) s \<and>
     (net_arp_wait_packet_ip (arp s) \<noteq> 0 \<longrightarrow> recent time base (arp_wait_timer_start (arp s)) s) \<and>
     base \<le> time (hw s) \<and> time (hw s) \<le> base + used * d"

definition window :: "nat \<Rightarrow> nat \<Rightarrow> nat \<Rightarrow> bool" where
  "window d base used \<longleftrightarrow> used * d \<le> 24000 * 5000 \<and> base + 24000 * 5000 < overflow"

lemma now_stamp:
  assumes timed: "timed ops time d" and t: "now ops s = (t, s')" and base: "base \<le> time (hw s)" "time (hw s) < overflow"
  shows "recent time base t s'" "24000 * unat t \<le> time (hw s)" "unat t = time (hw s) div 24000" "within time d (hw s) (hw s')"
proof -
  note ms = now_ms [OF timed t base(2)]
  have tl: "24000 * unat t \<le> time (hw s)" "time (hw s) < 24000 * (unat t + 1)" unfolding ms(1) by (rule ms_bounds)+
  then show "recent time base t s'" "24000 * unat t \<le> time (hw s)" "unat t = time (hw s) div 24000" "within time d (hw s) (hw s')"
    using base ms by (simp_all add: recent_def within_def)
qed

lemma now_recent:
  assumes timed: "timed ops time d" and t: "now ops s = (t, s')" and start: "recent time base start s"
    and base: "base \<le> time (hw s)" "time (hw s) \<le> base + 24000 * 5000" "base + 24000 * 5000 < overflow"
  shows "recent time base t s'" "\<not> t - start > 5000" "\<not> t - start > 10000" "within time d (hw s) (hw s')"
proof -
  have "time (hw s) < overflow" using base by linarith
  note st = now_stamp [OF timed t base(1) this]
  show "recent time base t s'" "within time d (hw s) (hw s')" by (rule st)+
  have le: "unat start \<le> unat t" unfolding st(3) using start by (intro ms_bounds(3)) (simp add: recent_def)
  have "24000 * unat t < 24000 * (unat start + 5001)" using st(2) base start by (simp add: recent_def)
  then have "unat t \<le> unat start + 5000" by simp
  then show "\<not> t - start > 5000" "\<not> t - start > 10000"
    using elapsed_iff [OF le, of 5000] elapsed_iff [OF le, of 10000] by simp_all
qed

lemma awaiting_time:
  assumes "awaiting time d base v ip used s" "within time d (hw s) h"
  shows "awaiting time d base v ip (used + 1) (s\<lparr>hw := h\<rparr>)"
  using assms by (auto simp: awaiting_def recent_def pinging_def within_def)

lemma arp_check_awaiting:
  assumes timed: "timed ops time d" "polled ops polls" and s: "awaiting time d base v ip used s" and win: "window d base used"
  shows "\<exists>w h. arp_timeout_check ops s = Some (w, s\<lparr>hw := h\<rparr>) \<and> (w \<longrightarrow> net_arp_wait_packet_ip (arp s) \<noteq> 0) \<and>
    awaiting time d base v ip (used + 1) (s\<lparr>hw := h\<rparr>) \<and> polls h = polls (hw s)"
proof (cases "net_arp_wait_packet_ip (arp s) = 0")
  case True
  have "arp_timeout_check ops s = Some (False, s\<lparr>hw := hw s\<rparr>)" using True by (simp add: arp_timeout_check_def)
  moreover have "awaiting time d base v ip (used + 1) (s\<lparr>hw := hw s\<rparr>)" by (rule awaiting_time [OF s]) simp_all
  ultimately show ?thesis by blast
next
  case False
  obtain t s1 where t: "now ops s = (t, s1)" by (cases "now ops s")
  obtain h where e: "s1 = s\<lparr>hw := h\<rparr>" using now_eq [OF t] by blast
  have r: "recent time base (arp_wait_timer_start (arp s)) s" "base \<le> time (hw s)" "time (hw s) \<le> base + 24000 * 5000"
    "base + 24000 * 5000 < overflow" using s win False by (auto simp: awaiting_def window_def)
  note nr = now_recent [OF timed(1) t r]
  have "arp_timeout_check ops s = Some (True, s\<lparr>hw := h\<rparr>)"
    using False t nr(2) by (simp add: arp_timeout_check_def e)
  moreover have "awaiting time d base v ip (used + 1) (s\<lparr>hw := h\<rparr>)"
    using nr(4) by (intro awaiting_time [OF s]) (simp add: e)
  moreover have "polls h = polls (hw s)" using now_polls [OF timed(2) t] by (simp add: e)
  ultimately show ?thesis using False by blast
qed

lemma check_timeout_awaiting:
  assumes timed: "timed ops time d" "polled ops polls" and win: "window d base used"
    and s: "time_handler (net s) = Some ping_timeout_handler" "time_delta (net s) = 10000" "recent time base (time_start (net s)) s"
      "base \<le> time (hw s)" "time (hw s) \<le> base + used * d"
  shows "\<exists>h. check_timeout ops s = Some (s\<lparr>hw := h\<rparr>) \<and> within time d (hw s) h \<and> polls h = polls (hw s)"
proof -
  obtain t s1 where t: "now ops s = (t, s1)" by (cases "now ops s")
  obtain h where e: "s1 = s\<lparr>hw := h\<rparr>" using now_eq [OF t] by blast
  have "time (hw s) \<le> base + 24000 * 5000" "base + 24000 * 5000 < overflow" using s(5) win by (auto simp: window_def)
  note nr = now_recent [OF timed(1) t s(3,4) this]
  have "check_timeout ops s = Some (s\<lparr>hw := h\<rparr>)" using s(1,2) t nr(3) by (simp add: check_timeout_def e)
  moreover have "within time d (hw s) h" "polls h = polls (hw s)"
    using nr(4) now_polls [OF timed(2) t] by (simp_all add: e)
  ultimately show ?thesis by blast
qed

text \<open>A round up to the poll: nothing is repeated, and the timer of the ping may be put off.\<close>

lemma round_to_poll:
  assumes timed: "timed ops time d" "polled ops polls" and s: "awaiting time d base v ip used s" and win: "window d base (used + 1)"
  obtains w s1 s3 where "arp_timeout_check ops s = Some (w, s1)"
    "s3 = (if w then (case now ops s1 of (t, s) \<Rightarrow> upd_net (\<lambda>v. v\<lparr>time_start := t\<rparr>) s) else s1)"
    "awaiting time d base v ip (used + 2) s3" "net_state (net s3) = net_state (net s)" "polls (hw s3) = polls (hw s)"
proof -
  have "window d base used" using win by (simp add: window_def)
  from arp_check_awaiting [OF timed s this] obtain w h where
    w: "arp_timeout_check ops s = Some (w, s\<lparr>hw := h\<rparr>)" "w \<longrightarrow> net_arp_wait_packet_ip (arp s) \<noteq> 0"
      "awaiting time d base v ip (used + 1) (s\<lparr>hw := h\<rparr>)" "polls h = polls (hw s)" by blast
  let ?s1 = "s\<lparr>hw := h\<rparr>"
  obtain t s2 where t: "now ops ?s1 = (t, s2)" by (cases "now ops ?s1")
  obtain h2 where e: "s2 = ?s1\<lparr>hw := h2\<rparr>" using now_eq [OF t] by blast
  have r: "recent time base (time_start (net ?s1)) ?s1" "base \<le> time (hw ?s1)" "time (hw ?s1) \<le> base + 24000 * 5000"
    "base + 24000 * 5000 < overflow" using w(3) win by (auto simp: awaiting_def window_def)
  note nr = now_recent [OF timed(1) t r]
  have a: "awaiting time d base v ip (used + 1 + 1) (?s1\<lparr>hw := h2\<rparr>)"
    using nr(4) by (intro awaiting_time [OF w(3)]) (simp add: e)
  have a2: "awaiting time d base v ip (used + 1 + 1) (?s1\<lparr>hw := h\<rparr>)" by (rule awaiting_time [OF w(3)]) simp_all
  have t2: "awaiting time d base v ip (used + 2) (upd_net (\<lambda>v. v\<lparr>time_start := t\<rparr>) s2)"
    using a nr(1) by (simp add: awaiting_def recent_def e same_settings_def sys_simps)
  show thesis
    by (rule that [OF w(1) refl]) (use t t2 a2 w(4) now_polls [OF timed(2) t] in \<open>auto simp: sys_simps e\<close>)
qed

lemma current_device: "machine_inv s \<Longrightarrow> \<exists>a. eth_current (eth s) = Some a"
  using machine_invD(4) by blast

text \<open>After the poll.\<close>

lemma round_from_poll:
  assumes ops: "driver_ok ops" "clients_ok ops" "timed ops time d" "polled ops polls" and s: "awaiting time d base v ip used s"
    and win: "window d base (used + 3)" and rx: "eth_rx ops s = Some (r, s4)"
    and kept: "pinging ip s4" "time_handler (net s4) = time_handler (net s)"
  shows "\<exists>s5. check_timeout ops s4 = Some s5 \<and> awaiting time d base v ip (used + 4) s5 \<and>
    net_state (net s5) = net_state (net s4) \<and> polls (hw s5) = Suc (polls (hw s))"
proof -
  have inv: "machine_inv s" and pg: "pinging ip s" using s by (simp_all add: awaiting_def)
  obtain a where a: "eth_current (eth s) = Some a" using current_device [OF inv] by blast
  note k = eth_rx_kept [OF ops(1,3,4) pg a rx]
  have inv4: "machine_inv s4" using eth_rx_inv [OF ops(1,2) inv] rx by auto
  have t: "time_handler (net s4) = Some ping_timeout_handler" "time_delta (net s4) = 10000" "base \<le> time (hw s4)"
    "time (hw s4) \<le> base + (used + 3) * d" "recent time base (time_start (net s4)) s4"
    using s k(1,3,4) kept(2) by (simp_all add: awaiting_def within_def recent_def algebra_simps)
  have w: "net_arp_wait_packet_ip (arp s4) \<noteq> 0 \<longrightarrow> recent time base (arp_wait_timer_start (arp s4)) s4"
    using s k(1,5) by (auto simp: awaiting_def within_def recent_def)
  have v: "same_settings v (net s4)" using same_settings_trans [OF _ k(6)] s by (simp add: awaiting_def)
  have a4: "awaiting time d base v ip (used + 3) s4"
    using t w v inv4 kept(1) by (simp add: awaiting_def)
  from check_timeout_awaiting [OF ops(3,4) win t(1,2,5,3,4)] obtain h where
    h: "check_timeout ops s4 = Some (s4\<lparr>hw := h\<rparr>)" "within time d (hw s4) h" "polls h = polls (hw s4)" by blast
  have "awaiting time d base v ip (used + 3 + 1) (s4\<lparr>hw := h\<rparr>)"
    by (rule awaiting_time [OF a4 h(2)])
  moreover have "used + 3 + 1 = used + 4" by simp
  ultimately have "awaiting time d base v ip (used + 4) (s4\<lparr>hw := h\<rparr>)" by (simp only:)
  then show ?thesis using h(1,3) k(2) by simp
qed

lemma round_awaiting:
  assumes ops: "driver_ok ops" "clients_ok ops" "timed ops time d" "answers ops polls v ip n"
    and s: "awaiting time d base v ip used s" "net_state (net s) = NETLOOP_CONTINUE" "polls (hw s) \<le> n"
    and win: "window d base (used + 6)" and v: "net_boot_file_size v = 0"
  shows "(polls (hw s) < n \<and> (\<exists>s'. net_loop_iter ops PING ret s = Some (Continue ret s') \<and> awaiting time d base v ip (used + 6) s' \<and>
      net_state (net s') = NETLOOP_CONTINUE \<and> polls (hw s') = Suc (polls (hw s)))) \<or>
    (polls (hw s) = n \<and> (\<exists>s'. net_loop_iter ops PING ret s = Some (Done 0 s') \<and> machine_inv s'))"
proof -
  have pol: "polled ops polls" using ops(4) by (simp add: answers_def)
  have w1: "window d base (used + 1)" using win by (simp add: window_def algebra_simps)
  obtain w s1 s3 where st: "arp_timeout_check ops s = Some (w, s1)"
    "s3 = (if w then (case now ops s1 of (t, s) \<Rightarrow> upd_net (\<lambda>v. v\<lparr>time_start := t\<rparr>) s) else s1)"
    "awaiting time d base v ip (used + 2) s3" "net_state (net s3) = net_state (net s)" "polls (hw s3) = polls (hw s)"
    by (rule round_to_poll [OF ops(3) pol s(1) w1])
  have a3: "machine_inv s3" "pinging ip s3" "same_settings v (net s3)" using st(3) by (simp_all add: awaiting_def)
  obtain r s4 where rx: "eth_rx ops s3 = Some (r, s4)" using eth_rx_inv [OF ops(1,2) a3(1)] by blast
  obtain a where a: "eth_current (eth s3) = Some a" using current_device [OF a3(1)] by blast
  have w3: "window d base (used + 2 + 3)" using win by (simp add: window_def algebra_simps)
  note go = round_from_poll [OF ops(1,2,3) pol st(3) w3 rx]
  show ?thesis
  proof (cases "polls (hw s) = n")
    case False
    then have "polls (hw s3) < n" using s(3) st(5) by simp
    then have same: "same_ping s3 s4" by (rule eth_rx_before [OF ops(1,4) a3(2) a _ rx])
    then have "time_handler (net s4) = time_handler (net s3)" "net_state (net s4) = NETLOOP_CONTINUE"
      using s(2) st(4) by (auto simp: same_ping_def)
    moreover have "pinging ip s4" using a3(2) same_ping_pinging [OF same] by simp
    ultimately obtain s5 where s5: "check_timeout ops s4 = Some s5" "awaiting time d base v ip (used + 2 + 4) s5"
      "net_state (net s5) = NETLOOP_CONTINUE" "polls (hw s5) = Suc (polls (hw s3))" using go by auto
    then have "net_loop_iter ops PING ret s = Some (Continue ret s5)"
      using st(1,2) rx by (simp add: net_loop_iter_def)
    moreover have "awaiting time d base v ip (used + 6) s5" using s5(2) by (simp add: add.commute)
    ultimately show ?thesis using False s(3) s5 st(5) by auto
  next
    case True
    then have "polls (hw s3) = n" using st(5) by simp
    from eth_rx_answer [OF ops(1,4) a3(2) a this a3(3) rx] obtain sa where
      sa: "same_ping s3 sa" "s4 = net_set_state NETLOOP_SUCCESS sa" by blast
    then have "time_handler (net s4) = time_handler (net s3)" "net_state (net s4) = NETLOOP_SUCCESS"
      by (auto simp: same_ping_def sys_simps)
    moreover have "pinging ip s4" using a3(2) same_ping_pinging [OF sa(1)] sa(2) by simp
    ultimately obtain s5 where s5: "check_timeout ops s4 = Some s5" "awaiting time d base v ip (used + 2 + 4) s5"
      "net_state (net s5) = NETLOOP_SUCCESS" using go by auto
    have "machine_inv (net_cleanup_loop ops s5)" using s5(2) by (intro cleanup_inv) (simp add: awaiting_def)
    then obtain s6 where s6: "eth_halt ops (net_cleanup_loop ops s5) = Some s6" "machine_inv s6"
      using eth_halt_inv [OF ops(1)] by blast
    have "net_boot_file_size (net (net_cleanup_loop ops s5)) = 0"
      using s5(2) v by (simp add: awaiting_def same_settings_def net_cleanup_loop_def net_clear_handlers_def
        net_set_timeout_handler_def net_set_arp_handler_def net_set_udp_handler_def sys_simps)
    moreover have "net s6 = net (net_cleanup_loop ops s5)"
      using s6(1) by (auto simp: eth_halt_def bind_eq_Some_conv sys_simps split: if_splits)
    ultimately have "net_loop_iter ops PING ret s = Some (Done 0 s6)"
      using st(1,2) rx s5(1,3) s6(1) by (simp add: net_loop_iter_def)
    with True s6(2) show ?thesis by blast
  qed
qed

text \<open>The rounds up to the answer.\<close>

lemma answered_rounds:
  assumes ops: "driver_ok ops" "clients_ok ops" "timed ops time d" "answers ops polls v ip n"
    and v: "net_boot_file_size v = 0"
  shows "awaiting time d base v ip used s \<Longrightarrow> net_state (net s) = NETLOOP_CONTINUE \<Longrightarrow> polls (hw s) + k = n \<Longrightarrow>
    window d base (used + 6 * (k + 1)) \<Longrightarrow> \<exists>s'. net_loop_run ops PING (Continue ret s) = Some (0, s') \<and> machine_inv s'"
proof (induction k arbitrary: s used)
  case 0
  then have "window d base (used + 6)" "polls (hw s) \<le> n" by simp_all
  from round_awaiting [OF ops 0(1,2) this(2,1) v, of ret] 0 obtain s' where
    "net_loop_iter ops PING ret s = Some (Done 0 s')" "machine_inv s'" by auto
  then show ?case by (simp add: net_loop_run.simps)
next
  case (Suc k)
  have w: "window d base (used + 6)" "window d base (used + 6 + 6 * (k + 1))"
    using Suc.prems(4) by (simp_all add: window_def algebra_simps)
  have "polls (hw s) \<le> n" using Suc.prems(3) by simp
  from round_awaiting [OF ops Suc.prems(1,2) this w(1) v, of ret] Suc.prems(3) obtain s' where
    s': "net_loop_iter ops PING ret s = Some (Continue ret s')" "awaiting time d base v ip (used + 6) s'"
      "net_state (net s') = NETLOOP_CONTINUE" "polls (hw s') = Suc (polls (hw s))" by auto
  have "polls (hw s') + k = n" using s'(4) Suc.prems(3) by simp
  from Suc.IH [OF s'(2,3) this w(2)] s'(1) show ?case
    by (simp add: net_loop_run.simps [of ops PING "Continue ret s"])
qed

section \<open>From the start\<close>

lemma ping_start_awaiting:
  assumes ops: "timed ops time d" "polled ops polls" and win: "window d (time (hw s)) 3"
    and run: "ping_start ops s = Some s'" and after: "machine_inv s'" "pinging ip s'"
  shows "awaiting time d (time (hw s)) (net s) ip 3 s'" "polls (hw s') = polls (hw s)" "net_state (net s') = net_state (net s)"
proof -
  define s0 where "s0 = upd_net (\<lambda>v. v\<lparr>time_handler := Some ping_timeout_handler\<rparr>) s"
  obtain t1 s1 where t1: "now ops s0 = (t1, s1)" by (cases "now ops s0")
  define s2 where "s2 = upd_net (\<lambda>v. v\<lparr>time_start := t1, time_delta := 10000\<rparr>) s1"
  obtain x where send: "ping_send ops s2 = Some (x, s')"
    using run t1 by (auto simp: ping_start_def net_set_timeout_handler_def bind_eq_Some_conv s0_def s2_def)
  from ping_send_vars [OF send] obtain t sa sn b where sent: "now ops sa = (t, sn)" "hw sa = hw s2" "sends ops (hw sn) (hw s')"
    "arp_wait_timer_start (arp s') = t" "net s' = (net s2)\<lparr>net_ip_id := net_ip_id (net s2) + 1, net_pkt_buf := b\<rparr>" by blast
  have "net s1 = net s0" using now_sel(2) [of ops s0] by (simp add: t1)
  then have same: "hw s0 = hw s" "hw s2 = hw s1"
    "net s2 = (net s)\<lparr>time_handler := Some ping_timeout_handler, time_start := t1, time_delta := 10000\<rparr>"
    by (simp_all add: s0_def s2_def sys_simps)
  have th: "time_handler (net s') = Some ping_timeout_handler" and st: "net_state (net s') = net_state (net s)"
    using ping_send_same_ping [OF send] same(3) by (simp_all add: same_ping_def)
  show "net_state (net s') = net_state (net s)" by (rule st)
  have d: "3 * d \<le> 24000 * 5000" "time (hw s) + 24000 * 5000 < overflow" using win by (simp_all add: window_def)
  have "time (hw s) \<le> time (hw s0)" "time (hw s0) < overflow" using d same by simp_all
  note m1 = now_stamp [OF ops(1) t1 this]
  have "time (hw s) \<le> time (hw sa)" "time (hw sa) < overflow" using m1(4) sent(2) same d by (simp_all add: within_def)
  note m2 = now_stamp [OF ops(1) sent(1) this]
  note w = sends_within [OF ops(1) sent(3)]
  show "polls (hw s') = polls (hw s)"
    using now_polls [OF ops(2) t1] now_polls [OF ops(2) sent(1)] sends_polls [OF ops(2) sent(3)] sent(2) same by simp
  have "recent time (time (hw s)) t1 s'" "recent time (time (hw s)) t s'"
    using m1(1,4) m2(1,4) w sent(2) same by (simp_all add: recent_def within_def)
  then show "awaiting time d (time (hw s)) (net s) ip 3 s'"
    using after th sent(2,4,5) m1(4) m2(4) w same by (simp add: awaiting_def same_settings_def within_def)
qed

text \<open>The tests before the loop pass.\<close>

definition configured :: "u32 \<Rightarrow> 'h sys \<Rightarrow> bool" where
  "configured ip s \<longleftrightarrow> ip \<noteq> 0 \<and> net_ip (net s) \<noteq> 0 \<and>
     (\<forall>a d. eth_current (eth s) = Some a \<longrightarrow> devs (eth s) a = Some d \<longrightarrow> enetaddr d \<noteq> replicate 6 0)"

lemma start_awaiting:
  assumes ops: "driver_ok ops" "timed ops time d" "polled ops polls" and win: "window d (time (hw s)) 3"
    and s: "machine_inv s" "pinging ip s" "configured ip s"
  shows "\<exists>s'. net_loop_start ops PING ret s = Some (Continue ret s') \<and> net_state (net s') = NETLOOP_CONTINUE \<and>
    awaiting time d (time (hw s)) ((net s)\<lparr>net_boot_file_size := 0\<rparr>) ip 3 s' \<and> polls (hw s') = polls (hw s)"
proof -
  obtain a e where e: "eth_current (eth s) = Some a" "devs (eth s) a = Some e" "length (enetaddr e) = 6" "enetaddr e \<noteq> replicate 6 0"
    using machine_invD(4) [OF s(1)] s(3) by (auto simp: configured_def)
  define s1 where "s1 = upd_net (\<lambda>v. v\<lparr>net_ethaddr := enetaddr e\<rparr>) (net_set_state NETLOOP_CONTINUE s)"
  define s2 where "s2 = upd_net (\<lambda>v. v\<lparr>net_dev_exists := True, net_boot_file_size := 0\<rparr>) s1"
  have s1: "net_init_loop (net_set_state NETLOOP_CONTINUE s) = Some s1"
    using e by (simp add: net_init_loop_def eth_get_ethaddr_def deref_def mem_simps s1_def sys_simps get_bytes_def)
  have "memcmp (enetaddr e) (replicate 6 0) 6 \<noteq> Some 0"
    using memcmp_eq_0_iff [of "enetaddr e" "replicate 6 0" 6 0] e(3,4) by auto
  then obtain r where r: "memcmp (enetaddr e) (replicate 6 0) 6 = Some r" "r \<noteq> 0"
    using memcmp_defined [of 6 "enetaddr e" "replicate 6 0"] e(3) by auto
  have "net_check_prereq ops PING s1 = Some (0, s1)"
    using r s(2,3) by (simp add: net_check_prereq_def prereq_ethaddr_def s1_def pinging_def configured_def sys_simps)
  then have eq: "net_loop_start ops PING ret s = map_option (Continue ret) (ping_start ops s2)"
    using s1 by (simp add: net_loop_start_def s2_def map_conv_bind_option comp_def)
  obtain x where x: "net_loop_start ops PING ret s = Some x" "result_inv x" using net_loop_start_inv [OF ops(1) s(1)] by blast
  then obtain s' where s': "ping_start ops s2 = Some s'" "x = Continue ret s'" using eq by auto
  have after: "machine_inv s'" using x(2) s'(2) by simp
  have run2: "running ip s2" using s(2) by (simp add: running_def pinging_def s2_def s1_def sys_simps)
  have pg: "pinging ip s'" using ping_start_running [OF run2 s'(1)] by (simp add: running_def)
  have same: "hw s2 = hw s" "net s2 = (net s)\<lparr>net_state := NETLOOP_CONTINUE, net_ethaddr := enetaddr e, net_dev_exists := True,
    net_boot_file_size := 0\<rparr>" by (simp_all add: s2_def s1_def net_set_state_def sys_simps)
  have "window d (time (hw s2)) 3" using win same(1) by simp
  note st = ping_start_awaiting [OF ops(2,3) this s'(1) after pg]
  have "same_settings ((net s)\<lparr>net_boot_file_size := 0\<rparr>) (net s2)" by (simp add: same_settings_def same(2))
  then have "awaiting time d (time (hw s)) ((net s)\<lparr>net_boot_file_size := 0\<rparr>) ip 3 s'"
    using st(1) same(1) by (auto simp: awaiting_def intro: same_settings_trans)
  then show ?thesis using x(1) s'(2) st(2,3) same by simp
qed

text \<open>The main loop returns 0, the size of the file that was loaded, which a ping does not load.\<close>

lemma answered_run:
  assumes ops: "driver_ok ops" "clients_ok ops" "timed ops time d" "answers ops polls v ip n"
    and s: "machine_inv s" "pinging ip s" "configured ip s" "same_settings v ((net s)\<lparr>net_boot_file_size := 0\<rparr>)"
    and n: "polls (hw s) + k = n" "window d (time (hw s)) (6 * k + 9)"
  shows "\<exists>s'. net_loop_run ops PING (Restart ret s) = Some (0, s') \<and> machine_inv s'"
proof -
  have pol: "polled ops polls" using ops(4) by (simp add: answers_def)
  have w: "window d (time (hw s)) 3" "window d (time (hw s)) (3 + 6 * (k + 1))"
    using n(2) by (simp_all add: window_def algebra_simps)
  obtain s1 where s1: "net_loop_start ops PING ret s = Some (Continue ret s1)" "net_state (net s1) = NETLOOP_CONTINUE"
    "awaiting time d (time (hw s)) ((net s)\<lparr>net_boot_file_size := 0\<rparr>) ip 3 s1" "polls (hw s1) = polls (hw s)"
    using start_awaiting [OF ops(1,3) pol w(1) s(1-3), of ret] by blast
  have "awaiting time d (time (hw s)) v ip 3 s1"
    using s1(3) s(4) by (auto simp: awaiting_def intro: same_settings_trans)
  moreover have "net_boot_file_size v = 0" using s(4) by (simp add: same_settings_def)
  ultimately show ?thesis
    using answered_rounds [OF ops _ _ s1(2) _ w(2), of ret] n(1) s1(1,4) by (simp add: net_loop_run.simps [of ops PING "Restart ret s"])
qed


end
