(* ===== verification/Program.thy ===== *)
theory Program
  imports Answer NetAddr
begin

text \<open>
  The whole program, \<^verbatim>\<open>net_drv_init\<close> of \<^verbatim>\<open>main.c\<close>, from the initial values of its variables: the
  board registers its device, the device gets its address, the stack is set up, and a host is
  pinged. The lemmas follow the state through the start: the environment holds the name of the
  device and nothing else, the device list is a ring of one, and the invariant of theory Machine
  holds when the main loop is entered.
\<close>

section \<open>Names of variables\<close>

lemma strnlen_c_str: "terminated s \<Longrightarrow> length s \<le> n \<Longrightarrow> strnlen s n = Some (length (c_str s))"
  by (induction s arbitrary: n) (auto simp: terminated_def c_str_def)

lemma take_c_str: "take (length (c_str s)) s = c_str s"
  unfolding c_str_def by (rule takeWhile_eq_take [symmetric])

lemma vsn_loop_s:
  assumes "terminated s" "length s < 2 ^ 31"
  shows "vsn_loop e b (0x25 # 0x73 # c # fmt) str (VStr (Some s) # args) outs =
    addchs e str (c_str s) \<bind> (\<lambda>str. vsn_loop e b (c # fmt) str args outs)"
proof -
  have pad: "pad_string e (int n) (-1) str' = Some (str', -2)" "pad_string e (int n) (-2) str' = Some (str', -3)" for n str'
    by (subst pad_string.simps, simp)+
  have len: "strnlen s (unat (-1 :: u64)) = Some (length (c_str s))"
    using assms by (intro strnlen_c_str) (simp_all add: unsigned_minus_1_eq_mask mask_eq_exp_minus_1)
  then obtain n where n: "strnlen s (unat (-1 :: u64)) = Some n" "take n s = c_str s" using take_c_str by blast
  have out: "string_out str e (Some s) (-1) (-1) 0 = addchs e str (c_str s)"
    by (simp add: string_out_def n pad split: bind_split)
  have "vsn_conversion e b str (VStr (Some s) # args) (0x73 # c # fmt) =
      map_option (\<lambda>str. (str, Next args [] (c # fmt))) (addchs e str (c_str s))"
    by (simp add: vsn_conversion_def parse_width_def parse_precision_def parse_qualifier_def
      mem_simps get8_def is_digit_def take_str_def out Let_def split: bind_split)
  then show ?thesis by (cases "addchs e str (c_str s)") (simp_all add: vsn_loop.simps(2) [of e b "0x25"] del: vsn_loop.simps)
qed

lemma enetvar_first:
  assumes "\<not> sp + 2147483647 < sp"
  shows "enetvar sp (c_string ''eth'') 0 = Some (put_bytes (replicate 32 0) 0 (c_string ''ethaddr''))"
proof -
  have eth: "terminated (c_string ''eth'')" "length (c_string ''eth'') < 2 ^ 31" "c_str (c_string ''eth'') = [0x65, 0x74, 0x68]"
    by (simp_all add: c_string_def str_bytes_def c_str_def terminated_def)
  have fmt: "c_string ''%saddr'' = [0x25, 0x73, 0x61, 0x64, 0x64, 0x72, 0]"
    "c_string ''ethaddr'' = [0x65, 0x74, 0x68, 0x61, 0x64, 0x64, 0x72] @ [0]" by code_simp+
  have "vsn_loop e sp (c_string ''%saddr'') (replicate 32 0, 0) [VStr (Some (c_string ''eth'')), VInt 0] [] =
      map_option (\<lambda>str. (str, None, [])) (addchs e (replicate 32 0, 0) [0x65, 0x74, 0x68, 0x61, 0x64, 0x64, 0x72])" for e
    unfolding fmt by (simp add: vsn_loop_s [OF eth(1,2)] eth(3) vsn_loop_literal map_option_bind del: vsn_loop.simps(2))
      (simp add: comp_def split: bind_split option.split)
  from sprintf_fits [OF this _ _ assms]
  have "sprintf sp (replicate 32 0) (c_string ''%saddr'') [VStr (Some (c_string ''eth'')), VInt 0] =
      Some (put_bytes (replicate 32 0) 0 (c_string ''ethaddr''), 7, [])"
    by (simp add: fmt(2) del: put_bytes.simps)
  then show ?thesis by (simp add: enetvar_def del: put_bytes.simps)
qed

lemma mac_skip_first:
  assumes "\<not> sp + 2147483647 < sp"
  shows "eth_mac_skip sp e 0 = map_option (\<lambda>r. r \<noteq> None) (env_get e (put_bytes (replicate 15 0) 0 (c_string ''ethmacskip'')))"
proof -
  have fmt: "c_string ''ethmacskip'' = [0x65, 0x74, 0x68, 0x6d, 0x61, 0x63, 0x73, 0x6b, 0x69, 0x70] @ [0]" by code_simp
  have "vsn_loop e sp (c_string ''ethmacskip'') (replicate 15 0, 0) [VInt 0] [] =
      map_option (\<lambda>str. (str, None, [])) (addchs e (replicate 15 0, 0) [0x65, 0x74, 0x68, 0x6d, 0x61, 0x63, 0x73, 0x6b, 0x69, 0x70])" for e
    unfolding fmt by (simp add: vsn_loop_literal map_option_bind del: vsn_loop.simps(2))
      (simp add: comp_def split: bind_split option.split)
  from sprintf_fits [OF this _ _ assms]
  have "sprintf sp (replicate 15 0) (c_string ''ethmacskip'') [VInt 0] =
      Some (put_bytes (replicate 15 0) 0 (c_string ''ethmacskip''), 10, [])"
    by (simp add: fmt del: put_bytes.simps)
  then show ?thesis
    by (cases "env_get e (put_bytes (replicate 15 0) 0 (c_string ''ethmacskip''))") (simp_all add: eth_mac_skip_def del: put_bytes.simps)
qed

section \<open>The environment of a started program\<close>

abbreviation ethact :: bytes where "ethact \<equiv> c_string ''ethact''"

text \<open>The only variable is \<^verbatim>\<open>ethact\<close>, and it holds the text \<open>n\<close>.\<close>

definition names_device :: "bytes \<Rightarrow> env \<Rightarrow> bool" where
  "names_device n e \<longleftrightarrow> env_wf e \<and> low_rows_free e \<and> env_lookup e (c_str ethact) = Some n"

lemma names_device_put: "short_string n \<Longrightarrow> names_device (c_str n) (env_put env_init (c_str ethact) (c_str n))"
  using env_text_c_str [of n] env_text_c_str [OF short_consts(1)]
  by (simp add: names_device_def env_put_wf env_init_wf low_rows_free_put low_rows_free_init env_lookup_put)

lemma names_device_rows:
  assumes "names_device n e"
  shows "row_str (keys e) 19 = c_str ethact" "row_str (vals e) 19 = n"
  using assms low_rows_free_slot [OF _ short_consts(2), of e]
  by (auto simp: names_device_def env_lookup_def split: if_splits)

lemma names_device_get:
  assumes "names_device n e" "terminated k" "c_str k \<noteq> []"
  shows "env_get e k = Some (if c_str k = c_str ethact then Some 19 else None)"
proof -
  have e: "env_wf e" "low_rows_free e" using assms(1) by (simp_all add: names_device_def)
  have "env_slot e (c_str k) = 19" by (rule low_rows_free_slot [OF e(2) assms(3)])
  then show ?thesis using env_get_eq [OF e(1) assms(2,3)] names_device_rows(1) [OF assms(1)]
    by (auto simp: env_lookup_def)
qed

lemma names_device_val:
  assumes "names_device n e"
  shows "terminated (env_val e 19)" "c_str (env_val e 19) = n"
proof -
  have wf: "env_wf e" using assms by (simp add: names_device_def)
  show "terminated (env_val e 19)" by (rule env_val_terminated [OF wf]) simp
  have "terminated (take 20 (row (vals e) 19))" using wf by (simp add: env_wf_def)
  then show "c_str (env_val e 19) = n"
    using names_device_rows(2) [OF assms] by (simp add: env_val_def row_str_eq)
qed

lemma other_names:
  "terminated (c_string ''ethprime'')" "c_str (c_string ''ethprime'') \<noteq> []" "c_str (c_string ''ethprime'') \<noteq> c_str ethact"
  "terminated (c_string ''ethrotate'')" "c_str (c_string ''ethrotate'') \<noteq> []" "c_str (c_string ''ethrotate'') \<noteq> c_str ethact"
  "terminated (c_string ''netretry'')" "c_str (c_string ''netretry'') \<noteq> []" "c_str (c_string ''netretry'') \<noteq> c_str ethact"
  "terminated (put_bytes (replicate 32 0) 0 (c_string ''ethaddr''))" "c_str (put_bytes (replicate 32 0) 0 (c_string ''ethaddr'')) \<noteq> []"
  "c_str (put_bytes (replicate 32 0) 0 (c_string ''ethaddr'')) \<noteq> c_str ethact"
  "terminated (put_bytes (replicate 15 0) 0 (c_string ''ethmacskip''))" "c_str (put_bytes (replicate 15 0) 0 (c_string ''ethmacskip'')) \<noteq> []"
  "c_str (put_bytes (replicate 15 0) 0 (c_string ''ethmacskip'')) \<noteq> c_str ethact" "terminated ethact"
  by code_simp+

lemma names_device_none:
  assumes "names_device n e"
  shows "env_get e (c_string ''ethprime'') = Some None" "no_rotate e = Some False" "retry_limit e = Some (False, 0)"
    "env_get e (put_bytes (replicate 32 0) 0 (c_string ''ethaddr'')) = Some None"
    "env_get e (put_bytes (replicate 15 0) 0 (c_string ''ethmacskip'')) = Some None"
    "env_get e ethact = Some (Some 19)"
proof -
  note get = names_device_get [OF assms]
  show "env_get e (c_string ''ethprime'') = Some None" by (subst get [OF other_names(1,2)]) (simp only: other_names if_False)
  have "env_get e (c_string ''ethrotate'') = Some None" by (subst get [OF other_names(4,5)]) (simp only: other_names if_False)
  then show "no_rotate e = Some False" unfolding no_rotate_def by simp
  have "env_get e (c_string ''netretry'') = Some None" by (subst get [OF other_names(7,8)]) (simp only: other_names if_False)
  then show "retry_limit e = Some (False, 0)" unfolding retry_limit_def by simp
  show "env_get e (put_bytes (replicate 32 0) 0 (c_string ''ethaddr'')) = Some None"
    by (subst get [OF other_names(10,11)]) (simp only: other_names if_False)
  show "env_get e (put_bytes (replicate 15 0) 0 (c_string ''ethmacskip'')) = Some None"
    by (subst get [OF other_names(13,14)]) (simp only: other_names if_False)
  show "env_get e ethact = Some (Some 19)" by (subst get [OF other_names(16) short_consts(2)]) simp
qed

section \<open>One device\<close>

text \<open>The device \<open>d\<close> at \<open>a\<close> is the only one, and it is the current one.\<close>

definition one_device :: "nat \<Rightarrow> eth_device \<Rightarrow> 'h sys \<Rightarrow> bool" where
  "one_device a d s \<longleftrightarrow> eth_devices (eth s) = Some a \<and> eth_current (eth s) = Some a \<and> devs (eth s) = [a \<mapsto> d] \<and>
     dev_next d = Some a \<and> short_string (dev_name d) \<and> length (enetaddr d) = 6 \<and>
     names_device (c_str (dev_name d)) (envs_of s)"

lemma one_deviceD:
  assumes "one_device a d s"
  shows "eth_devices (eth s) = Some a" "eth_current (eth s) = Some a" "devs (eth s) = [a \<mapsto> d]" "deref s (Some a) = Some (a, d)"
    "dev_next d = Some a" "short_string (dev_name d)" "length (enetaddr d) = 6" "names_device (c_str (dev_name d)) (envs_of s)"
    "terminated (dev_name d)"
  using assms by (simp_all add: one_device_def deref_def short_string_def)

lemma one_device_ring: "one_device a d s \<Longrightarrow> dev_ring (eth s) [a]"
  by (simp add: dev_ring_def one_device_def)

lemma one_device_ok: "one_device a d s \<Longrightarrow> devices_ok s"
  using one_device_ring [of a d s] by (auto simp: devices_ok_def one_device_def names_device_def)

lemma one_device_hw [simp]: "one_device a d (s\<lparr>hw := h\<rparr>) = one_device a d s"
  "one_device a d (upd_net f s) = one_device a d s" "one_device a d (upd_arp g s) = one_device a d s"
  "one_device a d (s\<lparr>ping := p\<rparr>) = one_device a d s"
  by (simp_all add: one_device_def sys_simps)

lemma one_device_put:
  assumes "one_device a d s" "dev_name d' = dev_name d" "dev_next d' = dev_next d" "length (enetaddr d') = 6"
  shows "one_device a d' (put_dev a d' s)"
  using assms by (simp add: one_device_def sys_simps)

text \<open>The name is already in the environment, so the device stays the current one.\<close>

lemma one_device_unchanged:
  assumes "one_device a d s"
  shows "eth_current_changed s = Some s"
proof -
  note o = one_deviceD [OF assms]
  have "eth_get_name s = Some (dev_name d)" using o(2,4) by (simp add: eth_get_name_def)
  moreover obtain r where "strcmp (env_val (envs_of s) 19) (dev_name d) = Some r" "r = 0"
    using strcmp_Some [OF names_device_val(1) [OF o(8)] o(9)] names_device_val(2) [OF o(8)] by metis
  ultimately show ?thesis
    by (simp add: eth_current_changed_def names_device_none(2,6) [OF o(8)] o(2))
qed

lemma register_one_device:
  assumes s: "eth_devices (eth s) = None" "devs (eth s) = [a \<mapsto> d]" "reg_index (eth s) = 0" "envs_of s = env_init"
    and d: "short_string (dev_name d)" "length (enetaddr d) = 6"
  defines "d' \<equiv> d\<lparr>dev_state := ETH_STATE_INIT, dev_next := Some a, dev_index := 0\<rparr>"
  shows "\<exists>s'. eth_register a s = Some (0, s') \<and> one_device a d' s' \<and> hw s' = hw s \<and> net s' = net s \<and> arp s' = arp s \<and>
    ping s' = ping s \<and> act (eth s') = act (eth s)"
proof -
  define s1 where "s1 = upd_eth (\<lambda>v. v\<lparr>eth_devices := Some a, eth_current := Some a\<rparr>) s"
  let ?e = "env_put env_init (c_str ethact) (c_str (dev_name d))"
  have none: "env_get env_init ethact = Some None" "no_rotate env_init = Some False" by code_simp+
  have set: "env_set env_init ethact (Some (dev_name d)) = Some (?e, 0)"
    by (rule env_set_eq [OF env_init_wf short_consts(1,2) d(1)])
  have "eth_get_name s1 = Some (dev_name d)" using s(2) by (simp add: eth_get_name_def deref_def s1_def sys_simps)
  then have "eth_current_changed s1 = Some (s1\<lparr>envs_of := ?e\<rparr>)"
    using s(4) by (simp add: eth_current_changed_def none set s1_def sys_simps)
  then have "eth_register a s = Some (0, upd_eth (\<lambda>v. v\<lparr>reg_index := reg_index v + 1\<rparr>) (put_dev a d' (s1\<lparr>envs_of := ?e\<rparr>)))"
    using s(1-3) by (simp add: eth_register_def s1_def [symmetric] d'_def) (simp add: s1_def sys_simps)
  moreover have "one_device a d' (upd_eth (\<lambda>v. v\<lparr>reg_index := reg_index v + 1\<rparr>) (put_dev a d' (s1\<lparr>envs_of := ?e\<rparr>)))"
    using s(2) d names_device_put [OF d(1)] by (simp add: one_device_def s1_def d'_def sys_simps)
  ultimately show ?thesis by (auto simp: s1_def sys_simps)
qed

section \<open>The start\<close>

text \<open>What the start asks of the driver beside \<open>driver_ok\<close>: time is bounded, and the address can be written.\<close>

definition starts :: "'h drv_ops \<Rightarrow> ('h \<Rightarrow> nat) \<Rightarrow> nat \<Rightarrow> bool" where
  "starts ops time d \<longleftrightarrow>
     (\<forall>a e h. \<exists>r h'. drv_write_hwaddr ops a e h = Some (r, h') \<and> within time d h h') \<and>
     (\<forall>a e h r h'. drv_init ops a e h = Some (r, h') \<longrightarrow> within time d h h') \<and>
     (\<forall>a e h h'. drv_halt ops a e h = Some h' \<longrightarrow> within time d h h')"

lemma startsD:
  assumes "starts ops time d"
  shows "\<exists>r h'. drv_write_hwaddr ops a e h = Some (r, h') \<and> within time d h h'"
    "drv_init ops a e h = Some (r, h') \<Longrightarrow> within time d h h'" "drv_halt ops a e h = Some h' \<Longrightarrow> within time d h h'"
  using assms unfolding starts_def by blast+

text \<open>\<open>k\<close> functions of the driver lie between the two states, whatever is measured.\<close>

definition takes :: "'h drv_ops \<Rightarrow> nat \<Rightarrow> 'h \<Rightarrow> 'h \<Rightarrow> bool" where
  "takes ops k h h' \<longleftrightarrow> (\<forall>time d. starts ops time d \<longrightarrow> within time (k * d) h h')"

lemma takes_0 [simp]: "takes ops k h h"
  by (simp add: takes_def)

lemma takes_1:
  "drv_init ops a e h = Some (r, h') \<Longrightarrow> takes ops 1 h h'" "drv_halt ops a e h = Some h' \<Longrightarrow> takes ops 1 h h'"
  by (simp_all add: takes_def startsD(2,3))

lemma takes_trans: "takes ops j h h1 \<Longrightarrow> takes ops k h1 h2 \<Longrightarrow> takes ops (j + k) h h2"
  unfolding takes_def add_mult_distrib by (blast intro: within_trans)

lemma takesD: "takes ops k h h' \<Longrightarrow> starts ops time d \<Longrightarrow> within time (k * d) h h'"
  by (simp add: takes_def)

lemma default_mac_ok: "is_valid_ethaddr default_mac" "length default_mac = 6"
  by code_simp+

lemma zero_mac: "is_zero_ethaddr (replicate 6 0)" "\<not> is_valid_ethaddr (replicate 6 0)" "eth_parse_enetaddr None = Some (replicate 6 0)"
  by code_simp+

text \<open>No address in the environment and none in the device: it becomes the default one.\<close>

lemma write_hwaddr_default:
  assumes o: "one_device a d s" and d: "enetaddr d = replicate 6 0"
    and ops: "\<not> stack_addr ops + 2147483647 < stack_addr ops" "starts ops time t"
  shows "\<exists>r h. eth_write_hwaddr ops a (c_string ''eth'') 0 s = Some (r, (put_dev a (d\<lparr>enetaddr := default_mac\<rparr>) s)\<lparr>hw := h\<rparr>) \<and>
    takes ops 1 (hw s) h"
proof -
  let ?d = "d\<lparr>enetaddr := default_mac\<rparr>"
  let ?s = "put_dev a ?d s"
  note n = one_deviceD(8) [OF o]
  have get: "eth_env_get_enetaddr_by_index (stack_addr ops) (envs_of s) (c_string ''eth'') 0 = Some (replicate 6 0, False)"
    by (simp add: eth_env_get_enetaddr_by_index_def enetvar_first [OF ops(1)] eth_env_get_enetaddr_def
      names_device_none(4) [OF n] zero_mac del: put_bytes.simps replicate.simps)
  have skip: "eth_mac_skip (stack_addr ops) (envs_of s) 0 = Some False"
    by (simp add: mac_skip_first [OF ops(1)] names_device_none(5) [OF n] del: put_bytes.simps replicate.simps)
  obtain r h where h: "drv_write_hwaddr ops a ?d (hw s) = Some (r, h)" using startsD(1) [OF ops(2)] by blast
  have "within time' d' (hw s) h" if "starts ops time' d'" for time' d' using startsD(1) [OF that, of a ?d "hw s"] h by auto
  then have w: "takes ops 1 (hw s) h" by (simp add: takes_def)
  have devs: "devs (eth s) a = Some d" using one_deviceD(3) [OF o] by simp
  have same: "?s = ?s\<lparr>hw := hw s\<rparr>" by (simp add: put_dev_def upd_eth_def)
  show ?thesis
  proof (cases "write_hwaddr d")
    case True
    then have "eth_write_hwaddr ops a (c_string ''eth'') 0 s = Some (r, ?s\<lparr>hw := h\<rparr>)"
      using h by (simp add: eth_write_hwaddr_def get devs d zero_mac skip default_mac_ok sys_simps del: replicate.simps)
    with w show ?thesis by blast
  next
    case False
    then have "eth_write_hwaddr ops a (c_string ''eth'') 0 s = Some (0, ?s)"
      by (simp add: eth_write_hwaddr_def get devs d zero_mac sys_simps del: replicate.simps)
    then show ?thesis using same takes_0 by metis
  qed
qed

text \<open>\<^verbatim>\<open>eth_initialize\<close> with a board that registers one device at \<open>a\<close>.\<close>

definition registers :: "('h sys \<Rightarrow> 'h sys option) \<Rightarrow> nat \<Rightarrow> eth_device \<Rightarrow> bool" where
  "registers board a d \<longleftrightarrow> (\<forall>s. board s = map_option snd (eth_register a (put_dev a d s)))"

definition fresh_device :: "eth_device \<Rightarrow> bool" where
  "fresh_device d \<longleftrightarrow> short_string (dev_name d) \<and> enetaddr d = replicate 6 0"

lemma initialize_one_device:
  assumes board: "registers board a d" and d: "fresh_device d"
    and ops: "\<not> stack_addr ops + 2147483647 < stack_addr ops" "starts ops time t"
  shows "\<exists>d' s. eth_initialize ops board (sys_init h) = Some (1, s) \<and> one_device a d' s \<and> enetaddr d' = default_mac \<and>
    takes ops 1 h (hw s) \<and> net s = net_vars_init \<and> arp s = arp_vars_init \<and> act (eth s) = None"
proof -
  let ?s0 = "upd_eth (\<lambda>v. v\<lparr>eth_devices := None, eth_current := None\<rparr>) (sys_init h)"
  have s0: "eth_devices (eth (put_dev a d ?s0)) = None" "devs (eth (put_dev a d ?s0)) = [a \<mapsto> d]"
    "reg_index (eth (put_dev a d ?s0)) = 0" "envs_of (put_dev a d ?s0) = env_init"
    "hw (put_dev a d ?s0) = h" "net (put_dev a d ?s0) = net_vars_init" "arp (put_dev a d ?s0) = arp_vars_init"
    "act (eth (put_dev a d ?s0)) = None"
    by (simp_all add: sys_init_def eth_vars_init_def sys_simps)
  have name: "short_string (dev_name d)" "length (enetaddr d) = 6" "enetaddr d = replicate 6 0" using d by (simp_all add: fresh_device_def)
  let ?d1 = "d\<lparr>dev_state := ETH_STATE_INIT, dev_next := Some a, dev_index := 0\<rparr>"
  obtain s1 where s1: "eth_register a (put_dev a d ?s0) = Some (0, s1)" "one_device a ?d1 s1" "hw s1 = h"
    "net s1 = net_vars_init" "arp s1 = arp_vars_init" "act (eth s1) = None"
    using register_one_device [OF s0(1-4) name(1,2)] s0(5-8) by auto
  let ?d2 = "?d1\<lparr>enetaddr := default_mac\<rparr>"
  obtain r h2 where w: "eth_write_hwaddr ops a (c_string ''eth'') 0 s1 = Some (r, (put_dev a ?d2 s1)\<lparr>hw := h2\<rparr>)" "takes ops 1 h h2"
    using write_hwaddr_default [OF s1(2) _ ops] name(3) s1(3) by auto
  let ?s2 = "(put_dev a ?d2 s1)\<lparr>hw := h2\<rparr>"
  have o2: "one_device a ?d2 ?s2" using one_device_put [OF s1(2), where d' = ?d2] default_mac_ok(2) by simp
  note o1 = one_deviceD [OF s1(2)]
  obtain x where x: "strchr (dev_name d) 0x20 = Some x" using strchr_eq [of "dev_name d"] o1(9) by (cases "strchr (dev_name d) 0x20") (simp_all)
  have loop: "eth_initialize_loop ops None (Some a) 0 s1 = Some (1, ?s2)"
    using o1(4) w(1) x o1(1) by (subst eth_initialize_loop.simps) (simp add: sys_simps)
  have "eth_initialize ops board (sys_init h) = Some (1, ?s2)"
    using board s1(1) o1(1) names_device_none(1) [OF o1(8)] loop one_device_unchanged [OF o2]
    unfolding registers_def eth_initialize_def Let_def by simp
  moreover have "hw ?s2 = h2" "net ?s2 = net_vars_init" "arp ?s2 = arp_vars_init" "act (eth ?s2) = None"
    using s1(4-6) by (simp_all add: sys_simps)
  ultimately show ?thesis using o2 w(2) by (intro exI [of _ ?d2] exI [of _ ?s2]) simp
qed

section \<open>The stack is set up\<close>

text \<open>The program has just set its address and mask, and \<^verbatim>\<open>net_loop\<close> its flags.\<close>

definition fresh_stack :: "'h sys \<Rightarrow> bool" where
  "fresh_stack s \<longleftrightarrow> arp s = arp_vars_init \<and> (\<exists>ip mask. net s = net_vars_init
     \<lparr>net_ip := ip, net_netmask := mask, net_restarted := False, net_dev_exists := False, net_try_count := 1\<rparr>)"

lemma align_offset_le: "align_offset base \<le> 63"
  by (simp add: align_offset_def)

lemma net_init_ready:
  assumes o: "one_device a d s" and fresh: "fresh_stack s"
  shows "\<exists>s'. net_init ops buf arp_buf s = Some s' \<and> one_device a d s' \<and> machine_inv s' \<and> hw s' = hw s \<and> ping s' = ping s \<and>
    eth s' = eth s \<and> net_try_count (net s') = 1 \<and> udp_packet_handler (net s') = Some dummy_handler \<and>
    arp_packet_handler (net s') = Some dummy_handler \<and> time_handler (net s') = None \<and> same_settings (net s) (net s')"
proof -
  define tx where "tx = align_offset buf"
  define rxs where "rxs = map (\<lambda>i. tx + (i + 1) * 1536) [0..<4]"
  define s1 where "s1 = upd_net (\<lambda>v. v\<lparr>first_call := False\<rparr>) (net_clear_handlers ops (upd_arp (arp_init arp_buf)
    (upd_net (\<lambda>v. v\<lparr>net_tx_packet := Some tx, net_rx_packets := rxs\<rparr>) s)))"
  define s2 where "s2 = upd_net (\<lambda>v. v\<lparr>net_ethaddr := get_bytes (enetaddr d) 0 6\<rparr>) s1"
  obtain ip mask where n: "arp s = arp_vars_init" "net s = net_vars_init
      \<lparr>net_ip := ip, net_netmask := mask, net_restarted := False, net_dev_exists := False, net_try_count := 1\<rparr>"
    using fresh by (auto simp: fresh_stack_def)
  have mac: "length (enetaddr d) = 6" by (rule one_deviceD(7) [OF o])
  have sel: "eth s1 = eth s" "hw s1 = hw s" "ping s1 = ping s" "envs_of s1 = envs_of s" "arp s1 = arp_init arp_buf (arp s)"
    "net s1 = (net s)\<lparr>net_tx_packet := Some tx, net_rx_packets := rxs, udp_packet_handler := Some dummy_handler,
      arp_packet_handler := Some dummy_handler, time_handler := None, first_call := False\<rparr>"
    by (simp_all add: s1_def net_clear_handlers_def net_set_timeout_handler_def net_set_arp_handler_def
        net_set_udp_handler_def sys_simps)
  have o1: "one_device a d s1" using o by (simp add: one_device_def sel)
  have "first_call (net s)" by (simp add: n net_vars_init_def)
  then have "net_init ops buf arp_buf s = net_init_loop s1"
    by (simp only: net_init_def Let_def if_True s1_def rxs_def tx_def)
  also have "\<dots> = Some s2"
    using one_deviceD(2,3) [OF o1] mac by (simp add: net_init_loop_def eth_get_ethaddr_def deref_def mem_simps s2_def)
  finally have run: "net_init ops buf arp_buf s = Some s2" .
  have vars: "net s2 = (net s1)\<lparr>net_ethaddr := get_bytes (enetaddr d) 0 6\<rparr>" "arp s2 = arp s1" "eth s2 = eth s" "hw s2 = hw s"
    "ping s2 = ping s" by (simp_all add: s2_def sel sys_simps)
  have o2: "one_device a d s2" using o1 by (simp add: s2_def)
  have "net_wf s2" unfolding net_wf_def vars
    using mac align_offset_le o by (simp add: sel n net_vars_init_def arp_init_def arp_vars_init_def one_device_def tx_def)
  moreover have "net_ready s2" by (simp add: net_ready_def vars sel arp_init_def)
  moreover have "unat (arp_wait_tx_packet_size (arp s2)) \<le> 7680" by (simp add: vars sel arp_init_def)
  ultimately have "machine_inv s2" using one_device_ok [OF o2] by (simp add: machine_inv_def stack_inv_def)
  with run o2 show ?thesis by (intro exI [of _ s2]) (simp add: vars sel n net_vars_init_def same_settings_def)
qed

text \<open>The environment variable \<^verbatim>\<open>ethact\<close> leads back to the device.\<close>

lemma set_current_one_device:
  assumes o: "one_device a d s" and act: "act (eth s) = None"
  shows "\<exists>s'. eth_set_current s = Some s' \<and> one_device a d s' \<and> hw s' = hw s \<and> net s' = net s \<and> arp s' = arp s \<and> ping s' = ping s \<and>
    devs (eth s') = devs (eth s)"
proof -
  note od = one_deviceD [OF o]
  let ?s1 = "upd_eth (\<lambda>v. v\<lparr>act := Some 19, env_changed_id := 1\<rparr>) s"
  obtain r where r: "strcmp (env_val (envs_of s) 19) (dev_name d) = Some r" "r = 0"
    using strcmp_Some [OF names_device_val(1) [OF od(8)] od(9)] names_device_val(2) [OF od(8)] by metis
  have dev: "eth_get_dev_by_name (eth ?s1) (env_val (envs_of s) 19) = Some (Some a)"
    using od(1,3) r by (simp add: eth_get_dev_by_name_def sys_simps dev_search.simps)
  let ?s2 = "eth_set_dev (Some a) ?s1"
  have o2: "one_device a d ?s2" using o by (simp add: one_device_def eth_set_dev_def sys_simps)
  have "eth_set_current s = eth_current_changed ?s2"
    using act names_device_none(6) [OF od(8)] dev by (simp add: eth_set_current_def Let_def sys_simps)
  then have "eth_set_current s = Some ?s2" using one_device_unchanged [OF o2] by simp
  with o2 show ?thesis by (simp add: eth_set_dev_def sys_simps)
qed

text \<open>One device to try: it starts, or the rotation is back at it and \<^verbatim>\<open>eth_init\<close> fails.\<close>

lemma init_one_device:
  assumes o: "one_device a d s" and total: "\<And>a e h. drv_init ops a e h \<noteq> None"
  shows "\<exists>r s' d'. eth_init ops s = Some (r, s') \<and> takes ops 1 (hw s) (hw s') \<and> one_device a d' s' \<and>
    enetaddr d' = enetaddr d \<and> (r < 0 \<longrightarrow> (\<exists>x h. drv_init ops a d (hw s) = Some (x, h) \<and> x < 0)) \<and>
    (r < 0 \<or> net s' = net s \<and> arp s' = arp s \<and> ping s' = ping s)"
proof -
  note od = one_deviceD [OF o]
  obtain r h where h: "drv_init ops a d (hw s) = Some (r, h)" using total [of a d "hw s"] by auto
  have w: "takes ops 1 (hw s) h" by (rule takes_1(1) [OF h])
  show ?thesis
  proof (cases "r \<ge> 0")
    case True
    let ?d = "d\<lparr>dev_state := ETH_STATE_ACTIVE\<rparr>"
    let ?s = "put_dev a ?d (s\<lparr>hw := h\<rparr>)"
    have "eth_init ops s = Some (0, ?s)" using od(2,4) h True by (simp add: eth_init_def eth_init_loop.simps)
    moreover have "one_device a ?d ?s" using o od(7) by (intro one_device_put [of _ d]) simp_all
    ultimately show ?thesis using w by (intro exI [of _ 0] exI [of _ ?s] exI [of _ ?d]) (simp add: sys_simps)
  next
    case False
    let ?s = "s\<lparr>hw := h\<rparr>"
    have o': "one_device a d ?s" using o by simp
    have "upd_eth (\<lambda>v. v\<lparr>eth_current := Some a\<rparr>) ?s = ?s" using od(2) by (simp add: upd_eth_def)
    then have rot: "eth_set_current_to_next ?s = Some ?s"
      using one_deviceD(2,4,5) [OF o'] by (simp add: eth_set_current_to_next_def)
    define s' where "s' = (if first_failed (eth s) = Some a then upd_net (\<lambda>v. v\<lparr>net_restart_wrap := True\<rparr>) ?s else ?s)"
    have s': "eth s' = eth s" "hw s' = h" "one_device a d s'" using o' by (simp_all add: s'_def sys_simps)
    have "eth_try_another False ?s = Some s'"
      using od(2) names_device_none(2) [OF od(8)] rot one_device_unchanged [OF o'] by (simp add: eth_try_another_def s'_def)
    then have "eth_init ops s = Some (-110, s')"
      using od(2,4) h False s'(1) by (simp add: eth_init_def eth_init_loop.simps)
    then show ?thesis using w s' h False by (intro exI [of _ "-110"] exI [of _ s'] exI [of _ d]) simp
  qed
qed

section \<open>The whole run\<close>

lemma machine_inv_one_device:
  assumes "machine_inv s" "one_device a d s'" "net s' = net s" "arp s' = arp s"
  shows "machine_inv s'"
proof -
  have "stack_inv s'"
    using machine_invD(1) [OF assms(1)] assms(2-4)
    by (auto simp: stack_inv_def net_wf_def net_ready_def one_device_def)
  then show ?thesis using one_device_ok [OF assms(2)] by (simp add: machine_inv_def)
qed

lemma halt_one_device:
  assumes o: "one_device a d s" and total: "\<And>a e h. drv_halt ops a e h \<noteq> None"
  shows "\<exists>s' d'. eth_halt ops s = Some s' \<and> takes ops 1 (hw s) (hw s') \<and> one_device a d' s' \<and> enetaddr d' = enetaddr d \<and>
    net s' = net s \<and> arp s' = arp s \<and> ping s' = ping s \<and> act (eth s') = act (eth s)"
proof -
  obtain h where h: "drv_halt ops a d (hw s) = Some h" using total [of a d "hw s"] by auto
  let ?d = "d\<lparr>dev_state := ETH_STATE_PASSIVE\<rparr>"
  let ?s = "put_dev a ?d (s\<lparr>hw := h\<rparr>)"
  have "eth_halt ops s = Some ?s" using one_deviceD(2,4) [OF o] h by (simp add: eth_halt_def)
  moreover have "one_device a ?d ?s" using o one_deviceD(7) [OF o] by (intro one_device_put [of _ d]) simp_all
  ultimately show ?thesis using takes_1(2) [OF h] by (intro exI [of _ ?s] exI [of _ ?d]) (simp add: sys_simps)
qed

text \<open>\<^verbatim>\<open>net_loop\<close> up to the main loop.\<close>

lemma net_loop_enters:
  assumes ops: "driver_ok ops" and o: "one_device a d s" "act (eth s) = None" "arp s = arp_vars_init"
    and n: "net s = net_vars_init\<lparr>net_ip := ip, net_netmask := nm\<rparr>"
  obtains r s4 d4 where "net_loop ops buf arp_buf PING s =
      (if r < 0 then map_option (\<lambda>s. (r, s)) (eth_halt ops s4) else net_loop_run ops PING (Restart r s4))"
    "takes ops 2 (hw s) (hw s4)" "one_device a d4 s4" "enetaddr d4 = enetaddr d"
    "r < 0 \<longrightarrow> (\<exists>e h x h'. drv_init ops a e h = Some (x, h') \<and> x < 0)"
    "\<not> r < 0 \<longrightarrow> machine_inv s4 \<and> pinging (net_ping_ip (ping s)) s4 \<and> same_settings (net s) (net s4)"
proof -
  have total: "drv_init ops b e h \<noteq> None" "drv_halt ops b e h \<noteq> None" for b e h
    using ops by (simp_all add: driver_ok_def)
  define s0 where "s0 = upd_net (\<lambda>v. v\<lparr>net_restarted := False, net_dev_exists := False, net_try_count := 1\<rparr>) s"
  have s0: "one_device a d s0" "fresh_stack s0" "hw s0 = hw s" "ping s0 = ping s" "eth s0 = eth s" "same_settings (net s) (net s0)"
    using o n by (auto simp: s0_def fresh_stack_def same_settings_def sys_simps)
  obtain s1 where s1: "net_init ops buf arp_buf s0 = Some s1" "one_device a d s1" "machine_inv s1" "hw s1 = hw s" "ping s1 = ping s"
    "act (eth s1) = None" "net_try_count (net s1) = 1" "udp_packet_handler (net s1) = Some dummy_handler"
    "arp_packet_handler (net s1) = Some dummy_handler" "time_handler (net s1) = None" "same_settings (net s) (net s1)"
    using net_init_ready [OF s0(1,2), of ops buf arp_buf] s0(3-6) o(2) same_settings_trans by auto
  obtain s2 d2 where s2: "eth_halt ops s1 = Some s2" "takes ops 1 (hw s) (hw s2)" "one_device a d2 s2" "enetaddr d2 = enetaddr d"
    "net s2 = net s1" "arp s2 = arp s1" "ping s2 = ping s" "act (eth s2) = None"
    using halt_one_device [OF s1(2) total(2)] s1(4-6) by auto
  obtain s3 where s3: "eth_set_current s2 = Some s3" "one_device a d2 s3" "hw s3 = hw s2" "net s3 = net s1" "arp s3 = arp s1" "ping s3 = ping s"
    using set_current_one_device [OF s2(3,8)] s2(5-7) by auto
  obtain r s4 d4 where s4: "eth_init ops s3 = Some (r, s4)" "takes ops 1 (hw s2) (hw s4)" "one_device a d4 s4" "enetaddr d4 = enetaddr d"
    "r < 0 \<longrightarrow> (\<exists>x h. drv_init ops a d2 (hw s3) = Some (x, h) \<and> x < 0)"
    "r < 0 \<or> net s4 = net s1 \<and> arp s4 = arp s1 \<and> ping s4 = ping s"
    using init_one_device [OF s3(2) total(1)] s3(3-6) s2(4) by auto
  show thesis
  proof (rule that [of r s4 d4])
    show "net_loop ops buf arp_buf PING s =
        (if r < 0 then map_option (\<lambda>s. (r, s)) (eth_halt ops s4) else net_loop_run ops PING (Restart r s4))"
      using s1(1) s2(1) s3(1) s4(1) by (simp add: net_loop_def s0_def [symmetric] map_conv_bind_option comp_def)
    show "takes ops 2 (hw s) (hw s4)" using takes_trans [OF s2(2) s4(2)] by (simp add: numeral_2_eq_2)
    show "r < 0 \<longrightarrow> (\<exists>e h x h'. drv_init ops a e h = Some (x, h') \<and> x < 0)" using s4(5) by blast
    show "\<not> r < 0 \<longrightarrow> machine_inv s4 \<and> pinging (net_ping_ip (ping s)) s4 \<and> same_settings (net s) (net s4)"
    proof
      assume "\<not> r < 0"
      then have v: "net s4 = net s1" "arp s4 = arp s1" "ping s4 = ping s" using s4(6) by auto
      have "machine_inv s4" by (rule machine_inv_one_device [OF s1(3) s4(3) v(1,2)])
      then show "machine_inv s4 \<and> pinging (net_ping_ip (ping s)) s4 \<and> same_settings (net s) (net s4)"
        using s1(7-11) v names_device_none(3) [OF one_deviceD(8) [OF s4(3)]] by (simp add: pinging_def)
    qed
  qed (use s4 in simp_all)
qed

text \<open>The main loop, when nobody answers.\<close>

lemma net_loop_silent:
  assumes ops: "driver_ok ops" "clients_ok ops" "silent ops (net_ping_ip (ping s))" "timed ops time t" "starts ops time t"
    and o: "one_device a d s" "act (eth s) = None" "arp s = arp_vars_init"
    and n: "net s = net_vars_init\<lparr>net_ip := ip, net_netmask := nm\<rparr>"
    and left: "time (hw s) + 24000 * (4 * 5001 + 10001) + 46 * t < overflow"
  shows "\<exists>r s'. net_loop ops buf arp_buf PING s = Some (r, s') \<and> r < 0"
proof -
  obtain r s4 d4 where start: "net_loop ops buf arp_buf PING s =
      (if r < 0 then map_option (\<lambda>s. (r, s)) (eth_halt ops s4) else net_loop_run ops PING (Restart r s4))"
    "takes ops 2 (hw s) (hw s4)" "one_device a d4 s4" "enetaddr d4 = enetaddr d"
    "r < 0 \<longrightarrow> (\<exists>e h x h'. drv_init ops a e h = Some (x, h') \<and> x < 0)"
    "\<not> r < 0 \<longrightarrow> machine_inv s4 \<and> pinging (net_ping_ip (ping s)) s4 \<and> same_settings (net s) (net s4)"
    by (rule net_loop_enters [where buf = buf and arp_buf = arp_buf, OF ops(1) o n])
  show ?thesis
  proof (cases "r < 0")
    case True
    have "drv_halt ops b e h \<noteq> None" for b e h using ops(1) by (simp add: driver_ok_def)
    with start(1) True show ?thesis using halt_one_device [OF start(3)] by fastforce
  next
    case False
    have "time_left time t s4"
      using left takesD [OF start(2) ops(5)] by (simp add: time_left_def within_def)
    then have "ping_good ops time t (net_ping_ip (ping s)) (Restart r s4)"
      using ops start(6) False by (simp add: ping_good_def loop_good_def)
    with start(1) False show ?thesis using silent_run by fastforce
  qed
qed

text \<open>The main loop, when the answer comes in time.\<close>

definition comes_up :: "'h drv_ops \<Rightarrow> bool" where
  "comes_up ops \<longleftrightarrow> (\<forall>a e h r h'. drv_init ops a e h = Some (r, h') \<longrightarrow> 0 \<le> r)"

lemma net_loop_answered:
  assumes ops: "driver_ok ops" "clients_ok ops" "answers ops polls (net s) (net_ping_ip (ping s)) n" "timed ops time t"
      "starts ops time t" "starts ops polls 0" "comes_up ops"
    and o: "one_device a d s" "act (eth s) = None" "arp s = arp_vars_init"
    and n: "net s = net_vars_init\<lparr>net_ip := ip, net_netmask := nm\<rparr>"
    and set: "net_ping_ip (ping s) \<noteq> 0" "ip \<noteq> 0" "enetaddr d \<noteq> replicate 6 0"
    and now: "polls (hw s) = 0" "(6 * n + 9) * t \<le> 24000 * 5000" "time (hw s) + 2 * t + 24000 * 5000 < overflow"
  shows "\<exists>s'. net_loop ops buf arp_buf PING s = Some (0, s')"
proof -
  obtain r s4 d4 where start: "net_loop ops buf arp_buf PING s =
      (if r < 0 then map_option (\<lambda>s. (r, s)) (eth_halt ops s4) else net_loop_run ops PING (Restart r s4))"
    "takes ops 2 (hw s) (hw s4)" "one_device a d4 s4" "enetaddr d4 = enetaddr d"
    "r < 0 \<longrightarrow> (\<exists>e h x h'. drv_init ops a e h = Some (x, h') \<and> x < 0)"
    "\<not> r < 0 \<longrightarrow> machine_inv s4 \<and> pinging (net_ping_ip (ping s)) s4 \<and> same_settings (net s) (net s4)"
    by (rule net_loop_enters [where buf = buf and arp_buf = arp_buf, OF ops(1) o n])
  have up: "\<not> r < 0" using start(5) ops(7) by (force simp: comes_up_def)
  then have s4: "machine_inv s4" "pinging (net_ping_ip (ping s)) s4" "same_settings (net s) (net s4)" using start(6) by simp_all
  have "configured (net_ping_ip (ping s)) s4"
    using set s4(3) one_deviceD(2,3) [OF start(3)] start(4) n by (simp add: configured_def same_settings_def)
  moreover have "same_settings (net s) ((net s4)\<lparr>net_boot_file_size := 0\<rparr>)"
    using s4(3) n by (simp add: same_settings_def net_vars_init_def)
  moreover have "polls (hw s4) + n = n" using takesD [OF start(2) ops(6)] now(1) by (simp add: within_def)
  moreover have "window t (time (hw s4)) (6 * n + 9)"
    using takesD [OF start(2) ops(5)] now(2,3) by (simp add: window_def within_def)
  ultimately obtain s' where "net_loop_run ops PING (Restart r s4) = Some (0, s')"
    using answered_run [OF ops(1,2,4,3) s4(1,2)] by blast
  with start(1) up show ?thesis by simp
qed

lemma main_addresses:
  "string_to_ip (Some (c_string ''192.168.100.3'')) = Some 0x0364A8C0"
  "string_to_ip (Some (c_string ''192.168.100.22'')) = Some 0x1664A8C0"
  "string_to_ip (Some (c_string ''255.255.255.0'')) = Some 0x00FFFFFF"
proof -
  have dotted: "c_string ''192.168.100.3'' = ip_text 0x0364A8C0 @ 0 # []" "c_string ''192.168.100.22'' = ip_text 0x1664A8C0 @ 0 # []"
    "c_string ''255.255.255.0'' = ip_text 0x00FFFFFF @ 0 # []" by code_simp+
  show "string_to_ip (Some (c_string ''192.168.100.3'')) = Some 0x0364A8C0"
    "string_to_ip (Some (c_string ''192.168.100.22'')) = Some 0x1664A8C0"
    "string_to_ip (Some (c_string ''255.255.255.0'')) = Some 0x00FFFFFF"
    unfolding dotted by (rule string_to_ip_ip_text)+
qed

text \<open>The program is its start followed by \<^verbatim>\<open>net_loop\<close>.\<close>

lemma net_drv_init_enters:
  assumes ops: "driver_ok ops" "starts ops time d" and board: "registers board a dev" "fresh_device dev"
  obtains dv s where "net_drv_init ops board buf arp_buf (sys_init h) =
      map_option (\<lambda>(r, s). (0, r \<ge> 0, s)) (net_loop ops buf arp_buf PING s)"
    "one_device a dv s" "act (eth s) = None" "arp s = arp_vars_init"
    "net s = net_vars_init\<lparr>net_ip := 0x1664A8C0, net_netmask := 0x00FFFFFF\<rparr>"
    "net_ping_ip (ping s) = 0x0364A8C0" "enetaddr dv = default_mac" "takes ops 1 h (hw s)"
proof -
  have sp: "\<not> stack_addr ops + 2147483647 < stack_addr ops" using ops(1) by (simp add: driver_ok_def)
  obtain dv s1 where s1: "eth_initialize ops board (sys_init h) = Some (1, s1)" "one_device a dv s1" "enetaddr dv = default_mac"
    "takes ops 1 h (hw s1)" "net s1 = net_vars_init" "arp s1 = arp_vars_init" "act (eth s1) = None"
    using initialize_one_device [OF board sp ops(2), of h] by blast
  define s2 where "s2 = upd_net (\<lambda>v. v\<lparr>net_netmask := 0x00FFFFFF\<rparr>) (upd_net (\<lambda>v. v\<lparr>net_ip := 0x1664A8C0\<rparr>) s1)"
  define s3 where "s3 = s2\<lparr>ping := (ping s2)\<lparr>net_ping_ip := 0x0364A8C0\<rparr>\<rparr>"
  have "do_ping ops buf arp_buf (Some (c_string ''192.168.100.3'')) s2 =
      map_option (\<lambda>(r, s). (r \<ge> 0, s)) (net_loop ops buf arp_buf PING s3)"
    by (simp add: do_ping_def main_addresses s3_def map_conv_bind_option comp_def case_prod_unfold)
  then have "net_drv_init ops board buf arp_buf (sys_init h) = map_option (\<lambda>(r, s). (0, r \<ge> 0, s)) (net_loop ops buf arp_buf PING s3)"
    by (cases "net_loop ops buf arp_buf PING s3") (auto simp: net_drv_init_def s1(1) main_addresses Let_def s2_def)
  with s1 that show thesis by (simp add: s3_def s2_def sys_simps)
qed


text \<open>The idle machine of theory Machine with one device to register.\<close>

definition one_board :: "nat sys \<Rightarrow> nat sys option" where
  "one_board s = map_option snd (eth_register 1 (put_dev 1 (bench_dev\<lparr>enetaddr := replicate 6 0\<rparr>) s))"


section \<open>An answer in time\<close>


text \<open>A machine with a clock and a count of polls, whose second poll gets the reply of the test bench.\<close>

definition prompt_recv :: "nat \<times> nat \<Rightarrow> ((u64 \<times> bytes \<times> u32) option \<times> (nat \<times> nat)) option" where
  "prompt_recv h = Some (if snd h = 1 then Some (0, bench_reply, 60) else None, (fst h + 1, snd h + 1))"

definition prompt_ops :: "(nat \<times> nat) drv_ops" where
  "prompt_ops = \<lparr>drv_time = \<lambda>h. (of_nat (fst h), (fst h + 1, snd h)), drv_init = \<lambda>_ _ h. Some (0, h),
     drv_send = \<lambda>_ _ _ _ h. Some (0, (fst h + 1, snd h)), drv_recv = \<lambda>_ _. prompt_recv,
     drv_recv_done = \<lambda>_ _ _ h. Some (0, h), drv_halt = \<lambda>_ _ h. Some h, drv_write_hwaddr = \<lambda>_ _ h. Some (0, h),
     client_rx = \<lambda>_ _ _ _ _ _ s. Some s, client_timeout = \<lambda>_ s. Some s, stack_addr = 0x1000\<rparr>"

definition prompt_board :: "(nat \<times> nat) sys \<Rightarrow> (nat \<times> nat) sys option" where
  "prompt_board s = map_option snd (eth_register 1 (put_dev 1 (bench_dev\<lparr>enetaddr := replicate 6 0\<rparr>) s))"

lemma prompt_ok: "driver_ok prompt_ops" "clients_ok prompt_ops" "timed prompt_ops fst 1" "starts prompt_ops fst 1"
  "starts prompt_ops snd 0" "comes_up prompt_ops"
proof -
  have "whole_frame bench_reply 60" by (simp add: whole_frame_def bench_reply_facts bench_echo_ip)
  then show "driver_ok prompt_ops" by (simp add: driver_ok_def send_total_def prompt_ops_def prompt_recv_def)
  show "clients_ok prompt_ops" by (simp add: clients_ok_def clients_total_def prompt_ops_def)
  have "unat (of_nat h :: u64) = h" if "h < 2 ^ 64" for h
    using that by (simp add: unsigned_of_nat take_bit_nat_eq_self_iff)
  then show "timed prompt_ops fst 1" by (auto simp: timed_def ticking_def within_def prompt_ops_def prompt_recv_def)
  show "starts prompt_ops fst 1" "starts prompt_ops snd 0" "comes_up prompt_ops"
    by (simp_all add: starts_def within_def comes_up_def prompt_ops_def)
qed

lemma prompt_answers: "answers prompt_ops snd (net_vars_init\<lparr>net_ip := 0x1664A8C0\<rparr>) 0x0364A8C0 1"
proof -
  have "same_settings bench_net (net_vars_init\<lparr>net_ip := 0x1664A8C0\<rparr>)" by (simp add: same_settings_def bench_net_def)
  from same_settings_icmp [OF this] have "carries_icmp (net_vars_init\<lparr>net_ip := 0x1664A8C0\<rparr>) bench_reply 60 ICMP_ECHO_REPLY"
    using bench_icmp(2) by simp
  then show ?thesis
    by (auto simp: answers_def polled_def prompt_ops_def prompt_recv_def bench_reply_facts bench_echo_ip)
qed


end
