(* ===== verification/Packetring.thy ===== *)
theory Packetring
  imports Receive
begin

text \<open>
  The receive interface for stand-alone applications, \<^verbatim>\<open>eth_save_packet\<close> and \<^verbatim>\<open>eth_receive\<close> of
  \<^verbatim>\<open>net/eth_legacy.c\<close> with the hook \<^verbatim>\<open>push_packet\<close> of \<^verbatim>\<open>net/net.c\<close>, which the two files offer under
  \<^verbatim>\<open>CONFIG_API\<close> (the default configuration leaves it out). Packets wait in a ring of
  \<^verbatim>\<open>PKTBUFSRX\<close> = 4 buffers of \<^verbatim>\<open>PKTSIZE\<close> = 1522 bytes. The locale \<open>bounded_fifo\<close> is what the ring
  promises: a queue that drops what does not fit; the ring keeps one buffer free, so it holds three.
\<close>

abbreviation (input) PKTBUFSRX :: nat where "PKTBUFSRX \<equiv> 4"
abbreviation (input) PKTSIZE :: nat where "PKTSIZE \<equiv> 1522"

section \<open>State and operations\<close>

record rcv_buf =
  rcv_data :: bytes
  rcv_length :: u32

record rcv_ring =
  eth_rcv_bufs :: "rcv_buf list"
  eth_rcv_current :: u32
  eth_rcv_last :: u32

definition rcv_ring_init :: rcv_ring where
  "rcv_ring_init = \<lparr>eth_rcv_bufs = replicate PKTBUFSRX \<lparr>rcv_data = replicate PKTSIZE 0, rcv_length = 0\<rparr>,
     eth_rcv_current = 0, eth_rcv_last = 0\<rparr>"

text \<open>The loop \<^verbatim>\<open>d[i] = p[i]\<close>, from \<open>i\<close> on for the given number of rounds.\<close>

fun copy_chars :: "bytes \<Rightarrow> bytes \<Rightarrow> nat \<Rightarrow> nat \<Rightarrow> bytes option" where
  "copy_chars p d i 0 = Some d"
| "copy_chars p d i (Suc n) = do {
     c \<leftarrow> load8 p i;
     d \<leftarrow> store8 d i c;
     copy_chars p d (i + 1) n }"

definition rcv_slot :: "rcv_ring \<Rightarrow> u32 \<Rightarrow> rcv_buf option" where
  "rcv_slot r i = (if unat i < length (eth_rcv_bufs r) then Some (eth_rcv_bufs r ! unat i) else None)"

text \<open>\<open>packet\<close> is the memory the pointer points at.\<close>

definition eth_save_packet :: "bytes \<Rightarrow> u32 \<Rightarrow> rcv_ring \<Rightarrow> rcv_ring option" where
  "eth_save_packet packet len r =
     (if (eth_rcv_last r + 1) mod 4 = eth_rcv_current r then Some r
      else if 1522 < sint len then Some r
      else do {
        slot \<leftarrow> rcv_slot r (eth_rcv_last r);
        d \<leftarrow> copy_chars packet (rcv_data slot) 0 (nat (sint len));
        Some (r\<lparr>eth_rcv_bufs := (eth_rcv_bufs r)[unat (eth_rcv_last r) := \<lparr>rcv_data = d, rcv_length = len\<rparr>],
                eth_rcv_last := (eth_rcv_last r + 1) mod 4\<rparr>) })"

text \<open>
  The hook in \<^verbatim>\<open>net_process_received_packet\<close> while \<^verbatim>\<open>push_packet\<close> is \<^verbatim>\<open>eth_save_packet\<close>, and
  \<^verbatim>\<open>eth_rx\<close> meanwhile.
\<close>

definition push_received :: "u64 \<Rightarrow> bytes \<Rightarrow> u32 \<Rightarrow> 'h sys \<times> rcv_ring \<Rightarrow> ('h sys \<times> rcv_ring) option" where
  "push_received in_packet b len = (\<lambda>(s, r).
     let s = upd_net (\<lambda>v. v\<lparr>net_rx_packet := in_packet, net_rx_packet_len := len\<rparr>) s
     in if (scast len :: u64) < 14 then Some (s, r)
        else do { r \<leftarrow> eth_save_packet b len r; Some (s, r) })"

definition eth_rx_saving :: "'h drv_ops \<Rightarrow> 'h sys \<times> rcv_ring \<Rightarrow> (int \<times> 'h sys \<times> rcv_ring) option" where
  "eth_rx_saving ops = (\<lambda>(s, r).
     if eth_current (eth s) = None then Some (-19, s, r)
     else do {
       (a, d) \<leftarrow> deref s (eth_current (eth s));
       (pkt, h) \<leftarrow> drv_recv ops a d (hw s);
       let s = s\<lparr>hw := h\<rparr>;
       (b, s, r) \<leftarrow> (case pkt of None \<Rightarrow> Some (None, s, r)
         | Some (addr, b, len) \<Rightarrow> do {
             (s, r) \<leftarrow> push_received addr b len (s, r);
             Some (Some b, s, r) });
       (ret, h) \<leftarrow> drv_recv_done ops a d b (hw s);
       Some (ret, s\<lparr>hw := h\<rparr>, r) })"

text \<open>
  The second half of \<^verbatim>\<open>eth_receive\<close>: the packet at \<^verbatim>\<open>eth_rcv_current\<close> goes to the caller's buffer.
  The macro \<^verbatim>\<open>min\<close> is not defined in the repository; it is the parameter \<open>mn\<close>.
\<close>

definition take_packet ::
  "(u32 \<Rightarrow> u32 \<Rightarrow> u32) \<Rightarrow> bytes \<Rightarrow> u32 \<Rightarrow> rcv_ring \<Rightarrow> (int \<times> bytes \<times> rcv_ring) option" where
  "take_packet mn packet len r = do {
     slot \<leftarrow> rcv_slot r (eth_rcv_current r);
     let len = mn (rcv_length slot) len;
     packet \<leftarrow> copy_chars (rcv_data slot) packet 0 (nat (sint len));
     Some (sint len, packet, r\<lparr>eth_rcv_current := (eth_rcv_current r + 1) mod 4\<rparr>) }"

definition eth_receive ::
  "'h drv_ops \<Rightarrow> (u32 \<Rightarrow> u32 \<Rightarrow> u32) \<Rightarrow> bytes \<Rightarrow> u32 \<Rightarrow> 'h sys \<times> rcv_ring
     \<Rightarrow> (int \<times> bytes \<times> 'h sys \<times> rcv_ring) option" where
  "eth_receive ops mn packet len = (\<lambda>(s, r). do {
     (s, r) \<leftarrow> (if eth_rcv_current r = eth_rcv_last r
                then map_option snd (eth_rx_saving ops (s, r)) else Some (s, r));
     (if eth_rcv_current r = eth_rcv_last r then Some (-1, packet, s, r)
      else do {
        (n, packet, r) \<leftarrow> take_packet mn packet len r;
        Some (n, packet, s, r) }) })"

section \<open>Bounded queues\<close>

text \<open>A program over a queue, and what it returns: the queue of the code, and the specification.\<close>

datatype ('x, 'n) queue_op = Put 'x | Get 'n

fun queue_run :: "('x \<Rightarrow> 'q \<Rightarrow> 'q option) \<Rightarrow> ('n \<Rightarrow> 'q \<Rightarrow> ('y option \<times> 'q) option) \<Rightarrow>
    ('x, 'n) queue_op list \<Rightarrow> 'q \<Rightarrow> ('y option list \<times> 'q) option" where
  "queue_run put get [] q = Some ([], q)"
| "queue_run put get (Put x # ops) q = do { q \<leftarrow> put x q; queue_run put get ops q }"
| "queue_run put get (Get n # ops) q = do {
     (y, q) \<leftarrow> get n q;
     (ys, q) \<leftarrow> queue_run put get ops q;
     Some (y # ys, q) }"

fun fifo_run :: "nat \<Rightarrow> ('x \<Rightarrow> bool) \<Rightarrow> ('x \<Rightarrow> 'i) \<Rightarrow> ('n \<Rightarrow> 'i \<Rightarrow> 'y) \<Rightarrow>
    ('x, 'n) queue_op list \<Rightarrow> 'i list \<Rightarrow> 'y option list \<times> 'i list" where
  "fifo_run cap fits item view [] xs = ([], xs)"
| "fifo_run cap fits item view (Put x # ops) xs =
     fifo_run cap fits item view ops (if fits x \<and> length xs < cap then xs @ [item x] else xs)"
| "fifo_run cap fits item view (Get n # ops) [] =
     (let (ys, zs) = fifo_run cap fits item view ops [] in (None # ys, zs))"
| "fifo_run cap fits item view (Get n # ops) (i # xs) =
     (let (ys, zs) = fifo_run cap fits item view ops xs in (Some (view n i) # ys, zs))"

locale bounded_fifo =
  fixes put :: "'x \<Rightarrow> 'q \<Rightarrow> 'q option" and get :: "'n \<Rightarrow> 'q \<Rightarrow> ('y option \<times> 'q) option"
    and items :: "'q \<Rightarrow> 'i list" and good :: "'q \<Rightarrow> bool" and cap :: nat
    and fits :: "'x \<Rightarrow> bool" and item :: "'x \<Rightarrow> 'i" and view :: "'n \<Rightarrow> 'i \<Rightarrow> 'y"
    and putable :: "'x \<Rightarrow> bool" and getable :: "'n \<Rightarrow> bool"
  assumes put: "good q \<Longrightarrow> putable x \<Longrightarrow> \<exists>q'. put x q = Some q' \<and> good q' \<and>
      items q' = (if fits x \<and> length (items q) < cap then items q @ [item x] else items q)"
    and get_empty: "good q \<Longrightarrow> items q = [] \<Longrightarrow> get n q = Some (None, q)"
    and get_first: "good q \<Longrightarrow> getable n \<Longrightarrow> items q = i # is \<Longrightarrow>
      \<exists>q'. get n q = Some (Some (view n i), q') \<and> good q' \<and> items q' = is"
begin

definition possible :: "('x, 'n) queue_op \<Rightarrow> bool" where
  "possible p = (case p of Put x \<Rightarrow> putable x | Get n \<Rightarrow> getable n)"

lemma runs:
  assumes "good q" "\<forall>p \<in> set ops. possible p"
  shows "\<exists>q'. queue_run put get ops q = Some (fst (fifo_run cap fits item view ops (items q)), q') \<and>
    good q' \<and> items q' = snd (fifo_run cap fits item view ops (items q))"
  using assms
proof (induction ops arbitrary: q)
  case Nil
  then show ?case by simp
next
  case (Cons p ops)
  show ?case
  proof (cases p)
    case (Put x)
    with Cons.prems obtain q' where q': "put x q = Some q'" "good q'"
      "items q' = (if fits x \<and> length (items q) < cap then items q @ [item x] else items q)"
      using put [of q x] by (auto simp: possible_def)
    show ?thesis using Cons.IH [OF q'(2)] Cons.prems(2) by (simp add: Put q'(1,3))
  next
    case (Get n)
    show ?thesis
    proof (cases "items q")
      case Nil
      then show ?thesis using Cons.IH [OF Cons.prems(1)] Cons.prems
        by (auto simp: Get get_empty split: prod.splits)
    next
      case (Cons i "is")
      with Cons.prems Get obtain q' where q': "get n q = Some (Some (view n i), q')" "good q'" "items q' = is"
        using get_first [of q n i "is"] by (auto simp: possible_def)
      show ?thesis using Cons.IH [OF q'(2)] Cons.prems(2) Cons q'(1,3)
        by (auto simp: Get split: prod.splits)
    qed
  qed
qed

lemma run_bounded: "length xs \<le> cap \<Longrightarrow> length (snd (fifo_run cap fits item view ops xs)) \<le> cap"
  by (induction cap fits item view ops xs rule: fifo_run.induct) (auto split: prod.splits)

end

section \<open>The ring is one\<close>

lemma copy_chars_eq:
  "i + n \<le> length p \<Longrightarrow> i + n \<le> length d \<Longrightarrow>
   copy_chars p d i n = Some (take i d @ take n (drop i p) @ drop (i + n) d)"
proof (induction n arbitrary: i d)
  case (Suc n)
  have "take (Suc i) (d[i := p ! i]) = take i d @ [p ! i]"
    using Suc.prems by (simp add: take_Suc_conv_app_nth)
  moreover have "p ! i # take n (drop (Suc i) p) = take (Suc n) (drop i p)"
    using Suc.prems by (simp add: take_Suc drop_Suc nth_via_drop hd_drop_conv_nth tl_drop)
  ultimately show ?case using Suc.prems Suc.IH [of "Suc i" "d[i := p ! i]"]
    by (simp add: load8_def store8_def get8_def put8_def)
qed simp

definition packet_of :: "rcv_buf \<Rightarrow> u32 \<times> bytes" where
  "packet_of b = (rcv_length b, take (nat (sint (rcv_length b))) (rcv_data b))"

definition waiting :: "rcv_ring \<Rightarrow> nat" where
  "waiting r = (unat (eth_rcv_last r) + 4 - unat (eth_rcv_current r)) mod 4"

definition ring_packets :: "rcv_ring \<Rightarrow> (u32 \<times> bytes) list" where
  "ring_packets r = map (\<lambda>i. packet_of (eth_rcv_bufs r ! ((unat (eth_rcv_current r) + i) mod 4))) [0..<waiting r]"

definition ring_good :: "rcv_ring \<Rightarrow> bool" where
  "ring_good r \<longleftrightarrow> length (eth_rcv_bufs r) = 4 \<and> eth_rcv_current r < 4 \<and> eth_rcv_last r < 4 \<and>
     (\<forall>b \<in> set (eth_rcv_bufs r). length (rcv_data b) = 1522 \<and> sint (rcv_length b) \<le> 1522)"

lemma ring_index: "i < 4 \<longleftrightarrow> i = 0 \<or> i = 1 \<or> i = 2 \<or> i = 3" for i :: u32
proof -
  have "i < 4 \<longleftrightarrow> unat i < 4" by (simp add: word_less_nat_alt)
  also have "\<dots> \<longleftrightarrow> unat i = 0 \<or> unat i = 1 \<or> unat i = 2 \<or> unat i = 3" by arith
  also have "\<dots> \<longleftrightarrow> i = 0 \<or> i = 1 \<or> i = 2 \<or> i = 3"
    by (simp only: word_unat_eq_iff [of i] unat_0 unat_1 unat_numeral) simp
  finally show ?thesis .
qed

lemma ring_init_good: "ring_good rcv_ring_init" "ring_packets rcv_ring_init = []"
  by (simp_all add: ring_good_def rcv_ring_init_def ring_packets_def waiting_def)

lemma ring_buffers:
  assumes "ring_good r"
  obtains a b c d where "eth_rcv_bufs r = [a, b, c, d]"
proof -
  have "length (eth_rcv_bufs r) = 4" using assms by (simp add: ring_good_def)
  then show thesis using that by (auto simp: numeral_eq_Suc length_Suc_conv)
qed

lemma ring_save:
  assumes r: "ring_good r" and p: "nat (sint len) \<le> length p"
  shows "\<exists>r'. eth_save_packet p len r = Some r' \<and> ring_good r' \<and>
    ring_packets r' = (if sint len \<le> 1522 \<and> length (ring_packets r) < 3
      then ring_packets r @ [(len, take (nat (sint len)) p)] else ring_packets r)"
proof -
  obtain a b c d where bufs: "eth_rcv_bufs r = [a, b, c, d]" using r by (rule ring_buffers)
  have data: "\<And>x. x \<in> {a, b, c, d} \<Longrightarrow> length (rcv_data x) = 1522"
    using r by (auto simp: ring_good_def bufs)
  have copy: "copy_chars p (rcv_data x) 0 (nat (sint len)) = Some (take (nat (sint len)) p @ drop (nat (sint len)) (rcv_data x))"
    if "x \<in> {a, b, c, d}" "sint len \<le> 1522" for x
    using data [OF that(1)] that(2) p by (subst copy_chars_eq) auto
  have "min (length p) (nat (sint len)) = nat (sint len)" using p by simp
  with r p show ?thesis
    unfolding ring_good_def ring_index
    by (elim conjE disjE) (simp_all add: bufs eth_save_packet_def rcv_slot_def copy data ring_packets_def
      waiting_def packet_of_def upt_rec)
qed

text \<open>Reading from the ring: the second half of \<^verbatim>\<open>eth_receive\<close>, behind its test for an empty ring.\<close>

definition int_min :: "(u32 \<Rightarrow> u32 \<Rightarrow> u32) \<Rightarrow> bool" where
  "int_min mn \<longleftrightarrow> (\<forall>a b. mn a b = (if sint b < sint a then b else a))"

definition ring_get ::
  "(u32 \<Rightarrow> u32 \<Rightarrow> u32) \<Rightarrow> bytes \<times> u32 \<Rightarrow> rcv_ring \<Rightarrow> ((int \<times> bytes) option \<times> rcv_ring) option" where
  "ring_get mn = (\<lambda>(packet, len) r.
     if eth_rcv_current r = eth_rcv_last r then Some (None, r)
     else do {
       (n, packet, r) \<leftarrow> take_packet mn packet len r;
       Some (Some (n, packet), r) })"

definition delivered :: "bytes \<times> u32 \<Rightarrow> u32 \<times> bytes \<Rightarrow> int \<times> bytes" where
  "delivered = (\<lambda>(packet, len) (n, p). let k = min (sint n) (sint len)
     in (k, take (nat k) p @ drop (nat k) packet))"

lemma ring_get_empty:
  assumes "ring_good r" "ring_packets r = []"
  shows "ring_get mn x r = Some (None, r)"
proof -
  have "eth_rcv_current r = eth_rcv_last r"
    using assms unfolding ring_good_def ring_index by (elim conjE disjE) (simp_all add: ring_packets_def waiting_def)
  then show ?thesis by (simp add: ring_get_def split: prod.splits)
qed

lemma ring_get_first:
  assumes mn: "int_min mn" and r: "ring_good r" and x: "nat (sint len) \<le> length packet"
    and ps: "ring_packets r = q # qs"
  shows "\<exists>r'. ring_get mn (packet, len) r = Some (Some (delivered (packet, len) q), r') \<and> ring_good r' \<and> ring_packets r' = qs"
proof -
  obtain a b c d where bufs: "eth_rcv_bufs r = [a, b, c, d]" using r by (rule ring_buffers)
  let ?n = "\<lambda>x. nat (min (sint (rcv_length x)) (sint len))"
  have data: "\<And>x. x \<in> {a, b, c, d} \<Longrightarrow> length (rcv_data x) = 1522 \<and> sint (rcv_length x) \<le> 1522"
    using r by (auto simp: ring_good_def bufs)
  have copy: "copy_chars (rcv_data y) packet 0 (?n y) = Some (take (?n y) (rcv_data y) @ drop (?n y) packet)"
    if "y \<in> {a, b, c, d}" for y
    using data [OF that] x by (subst copy_chars_eq) auto
  have least: "sint (mn n len) = min (sint n) (sint len)" for n
    using mn by (simp add: int_min_def)
  have cut: "min (?n y) (nat (sint (rcv_length y))) = ?n y" for y by auto
  from r ps show ?thesis
    unfolding ring_good_def ring_index
    by (elim conjE disjE) (auto simp add: bufs ring_get_def take_packet_def rcv_slot_def copy least delivered_def
      packet_of_def ring_packets_def waiting_def upt_rec Let_def cut)
qed

definition c_min :: "u32 \<Rightarrow> u32 \<Rightarrow> u32" where
  "c_min a b = (if sint b < sint a then b else a)"

lemma int_min_iff: "int_min mn \<longleftrightarrow> mn = c_min"
  by (auto simp: int_min_def c_min_def fun_eq_iff)

definition save_fits :: "bytes \<times> u32 \<Rightarrow> bool" where
  "save_fits = (\<lambda>(p, len). sint len \<le> 1522)"

definition save_item :: "bytes \<times> u32 \<Rightarrow> u32 \<times> bytes" where
  "save_item = (\<lambda>(p, len). (len, take (nat (sint len)) p))"

definition in_memory :: "bytes \<times> u32 \<Rightarrow> bool" where
  "in_memory = (\<lambda>(p, len). nat (sint len) \<le> length p)"

interpretation rxq: bounded_fifo "\<lambda>(p, len). eth_save_packet p len" "ring_get c_min" ring_packets ring_good 3
  save_fits save_item delivered in_memory in_memory
proof unfold_locales
  fix q :: rcv_ring and x :: "bytes \<times> u32"
  assume q: "ring_good q" "in_memory x"
  obtain p len where x: "x = (p, len)" by (cases x)
  from q show "\<exists>q'. (case x of (p, len) \<Rightarrow> eth_save_packet p len) q = Some q' \<and> ring_good q' \<and>
      ring_packets q' = (if save_fits x \<and> length (ring_packets q) < 3 then ring_packets q @ [save_item x] else ring_packets q)"
    using ring_save [of q len p] by (simp add: x in_memory_def save_fits_def save_item_def split del: if_split cong: if_cong)
next
  fix q :: rcv_ring and n :: "bytes \<times> u32" and i "is"
  assume "ring_good q" "in_memory n" "ring_packets q = i # is"
  then show "\<exists>q'. ring_get c_min n q = Some (Some (delivered n i), q') \<and> ring_good q' \<and> ring_packets q' = is"
    using ring_get_first [of c_min q "snd n" "fst n" i "is"] by (cases n) (simp add: in_memory_def int_min_iff)
qed (rule ring_get_empty)

text \<open>
  C17: The ring of received packets is a queue of at most three packets. For every sequence of
  \<open>eth_save_packet\<close> and of the reading half of \<open>eth_receive\<close>, from the initial ring on, the
  results are those of a first-in first-out queue that ignores a packet longer than 1522 bytes or
  one that arrives when three are waiting; no access leaves a buffer.
\<close>

theorem packet_ring_fifo:
  assumes "int_min mn"
    and "\<forall>p \<in> set ops. case p of Put x \<Rightarrow> in_memory x | Get x \<Rightarrow> in_memory x"
  shows "\<exists>r. queue_run (\<lambda>(p, len). eth_save_packet p len) (ring_get mn) ops rcv_ring_init =
      Some (fst (fifo_run 3 save_fits save_item delivered ops []), r) \<and>
    ring_packets r = snd (fifo_run 3 save_fits save_item delivered ops []) \<and> length (ring_packets r) \<le> 3"
proof -
  have "\<forall>p \<in> set ops. rxq.possible p" using assms(2) by (simp add: rxq.possible_def)
  from rxq.runs [OF ring_init_good(1) this] show ?thesis
    using assms(1) rxq.run_bounded [of "[]" ops] by (auto simp: int_min_iff ring_init_good(2))
qed

theorem packet_ring_fifo_witness:
  "\<exists>r. queue_run (\<lambda>(p, len). eth_save_packet p len) (ring_get c_min)
      [Put ([1, 2, 3], 3), Put ([4, 5], 2), Get (replicate 8 0, 2), Put ([6], 1), Put ([7], 1), Put ([8], 1), Get ([9, 9, 9], 3)]
      rcv_ring_init =
    Some ([Some (2, [1, 2, 0, 0, 0, 0, 0, 0]), Some (2, [4, 5, 9])], r) \<and> ring_packets r = [(1, [6]), (1, [7])]"
  using packet_ring_fifo [of c_min "[Put ([1, 2, 3], 3), Put ([4, 5], 2), Get (replicate 8 0, 2), Put ([6], 1),
      Put ([7], 1), Put ([8], 1), Get ([9, 9, 9], 3)]"]
  by (simp add: int_min_iff in_memory_def save_fits_def save_item_def delivered_def Let_def numeral_eq_Suc
      del: queue_run.simps) blast

section \<open>Receiving\<close>

text \<open>The memory of a frame whose length the driver passes as an \<^verbatim>\<open>int\<close>.\<close>

definition frame_ok :: "bytes \<Rightarrow> u32 \<Rightarrow> bool" where
  "frame_ok b len \<longleftrightarrow> 14 \<le> unat len \<and> unat len \<le> 1522 \<and> unat len \<le> length b"

lemma frame_okD:
  assumes "frame_ok b len"
  shows "\<not> (scast len :: u64) < 14" "sint len = int (unat len)"
proof -
  have "unat len < 2 ^ 31" using assms by (simp add: frame_ok_def)
  with assms show "\<not> (scast len :: u64) < 14" "sint len = int (unat len)"
    by (simp_all add: long_enough frame_ok_def sint_small)
qed

lemma eth_receive_waiting:
  assumes "ring_good r" "ring_packets r = q # qs" "int_min mn" "in_memory (packet, len)"
  shows "\<exists>r'. eth_receive ops mn packet len (s, r) =
      (case delivered (packet, len) q of (n, b) \<Rightarrow> Some (n, b, s, r')) \<and> ring_packets r' = qs \<and> ring_good r'"
proof -
  have "eth_rcv_current r \<noteq> eth_rcv_last r" using assms(2) by (auto simp: ring_packets_def waiting_def)
  moreover obtain r' where "ring_get mn (packet, len) r = Some (Some (delivered (packet, len) q), r')"
      "ring_packets r' = qs" "ring_good r'"
    using ring_get_first [of mn r len packet q qs] assms by (auto simp: in_memory_def)
  ultimately show ?thesis
    by (intro exI [of _ r']) (auto simp: eth_receive_def ring_get_def split: prod.splits Option.bind_splits)
qed

text \<open>The ring is empty: the next frame of the device is fetched and handed over.\<close>

lemma eth_receive_next:
  assumes r: "ring_good r" "ring_packets r = []" and mn: "int_min mn" and mem: "in_memory (packet, len)"
    and dev: "eth_current (eth s) = Some a" "deref s (Some a) = Some (a, d)"
    and recv: "drv_recv ops a d (hw s) = Some (Some (at, b, n), h)" "frame_ok b n"
    and rdone: "drv_recv_done ops a d (Some b) h = Some (x, h')"
  shows "\<exists>s' r'. eth_receive ops mn packet len (s, r) =
      (case delivered (packet, len) (n, take (nat (sint n)) b) of (k, c) \<Rightarrow> Some (k, c, s', r')) \<and>
    ring_packets r' = [] \<and> hw s' = h'"
proof -
  have e: "eth_rcv_current r = eth_rcv_last r"
    using r unfolding ring_good_def ring_index by (elim conjE disjE) (simp_all add: ring_packets_def waiting_def)
  have n: "sint n \<le> 1522 \<and> nat (sint n) \<le> length b"
    using recv(2) unfolding frame_okD(2) [OF recv(2)] frame_ok_def by linarith
  obtain r1 where r1: "eth_save_packet b n r = Some r1" "ring_good r1" "ring_packets r1 = [(n, take (nat (sint n)) b)]"
    using ring_save [of r n b] n r by auto
  let ?s = "s\<lparr>hw := h'\<rparr>"
  obtain s1 where s1: "eth_rx_saving ops (s, r) = Some (x, s1, r1)" "hw s1 = h'"
    using dev recv rdone r1(1) frame_okD(1) [OF recv(2)]
    by (simp add: eth_rx_saving_def push_received_def upd_net_def)
  have ne: "eth_rcv_current r1 \<noteq> eth_rcv_last r1" using r1(3) by (auto simp: ring_packets_def waiting_def)
  have "eth_receive ops mn packet len (s, r) = eth_receive ops mn packet len (s1, r1)"
    using e ne s1(1) by (simp add: eth_receive_def)
  with eth_receive_waiting [OF r1(2,3) mn mem, of ops s1] s1(2) show ?thesis by fastforce
qed

end
