(* ===== verification/Miigige.thy ===== *)
theory Miigige
  imports Miiphy Timer
begin

text \<open>
  The parts of \<^verbatim>\<open>net/miiphyutil.c\<close> that the default configuration leaves out: the reset of a PHY
  without the PHY library (no \<^verbatim>\<open>CONFIG_PHYLIB\<close>), speed and duplex of gigabit PHYs
  (\<^verbatim>\<open>CONFIG_PHY_GIGE\<close>), and the link status of \<^verbatim>\<open>CONFIG_SYS_FAULT_ECHO_LINK_DOWN\<close>. The lemmas
  bound the wait of the reset and relate the gigabit variants to those of theory Miiphy.
\<close>

section \<open>Reset\<close>

text \<open>
  The polling loop: \<open>n\<close> is what \<^verbatim>\<open>timeout\<close> still allows, \<open>reg\<close> the value read last. The result
  is \<open>None\<close> when a read fails.
\<close>

fun reset_poll ::
  "'h mii_ops \<Rightarrow> 'h clock \<Rightarrow> u32 \<Rightarrow> bytes \<Rightarrow> u8 \<Rightarrow> nat \<Rightarrow> u16 \<Rightarrow> mii_vars \<Rightarrow> 'h
     \<Rightarrow> (u16 option \<times> mii_vars \<times> 'h) option" where
  "reset_poll ops rdtime devad_none devname adr 0 reg v h = Some (Some reg, v, h)"
| "reset_poll ops rdtime devad_none devname adr (Suc n) reg v h =
     (if reg AND 0x8000 = 0 then Some (Some reg, v, h)
      else do {
        (r, v, h) \<leftarrow> miiphy_read ops devad_none devname adr R_BMCR v h;
        (case r of None \<Rightarrow> Some (None, v, h)
         | Some reg \<Rightarrow> do {
             h \<leftarrow> udelay rdtime 1000 h;
             reset_poll ops rdtime devad_none devname adr n reg v h }) })"

definition miiphy_reset_nolib ::
  "'h mii_ops \<Rightarrow> 'h clock \<Rightarrow> u32 \<Rightarrow> bytes \<Rightarrow> u8 \<Rightarrow> mii_vars \<Rightarrow> 'h \<Rightarrow> (int \<times> mii_vars \<times> 'h) option" where
  "miiphy_reset_nolib ops rdtime devad_none devname adr v h = do {
     (r, v, h) \<leftarrow> miiphy_read ops devad_none devname adr R_BMCR v h;
     (case r of None \<Rightarrow> Some (-1, v, h)
      | Some reg \<Rightarrow> do {
          (w, v, h) \<leftarrow> miiphy_write ops devad_none devname adr R_BMCR (reg OR 0x8000) v h;
          (if w \<noteq> 0 then Some (-1, v, h)
           else do {
             (r, v, h) \<leftarrow> reset_poll ops rdtime devad_none devname adr 500 0x8000 v h;
             (case r of None \<Rightarrow> Some (-1, v, h)
              | Some reg \<Rightarrow> Some (if reg AND 0x8000 = 0 then 0 else -1, v, h)) }) }) }"

section \<open>Gigabit\<close>

abbreviation (input) R_STAT1000 :: u8 where "R_STAT1000 \<equiv> 0x0a"
abbreviation (input) R_ESTATUS :: u8 where "R_ESTATUS \<equiv> 0x0f"
abbreviation (input) PHY_1000BTSR_1000FD :: u16 where "PHY_1000BTSR_1000FD \<equiv> 0x0800"
abbreviation (input) PHY_1000BTSR_1000HD :: u16 where "PHY_1000BTSR_1000HD \<equiv> 0x0400"
abbreviation (input) FULL :: nat where "FULL \<equiv> 44"
abbreviation (input) HALF :: nat where "HALF \<equiv> 22"

definition miiphy_is_1000base_x_gige ::
  "'h mii_ops \<Rightarrow> u32 \<Rightarrow> bytes \<Rightarrow> u8 \<Rightarrow> mii_vars \<Rightarrow> 'h \<Rightarrow> (bool \<times> mii_vars \<times> 'h) option" where
  "miiphy_is_1000base_x_gige ops devad_none devname adr v h = do {
     (r, v, h) \<leftarrow> miiphy_read ops devad_none devname adr R_ESTATUS v h;
     Some (case r of None \<Rightarrow> (False, v, h)
       | Some exsr \<Rightarrow> (exsr AND (0x8000 OR 0x4000) \<noteq> 0, v, h)) }"

definition miiphy_speed_gige ::
  "'h mii_ops \<Rightarrow> u32 \<Rightarrow> bytes \<Rightarrow> u8 \<Rightarrow> mii_vars \<Rightarrow> 'h \<Rightarrow> (nat \<times> mii_vars \<times> 'h) option" where
  "miiphy_speed_gige ops devad_none devname adr v h = do {
     (x, v, h) \<leftarrow> miiphy_is_1000base_x_gige ops devad_none devname adr v h;
     (if x then Some (1000, v, h)
      else do {
        (r, v, h) \<leftarrow> miiphy_read ops devad_none devname adr R_STAT1000 v h;
        (case r of None \<Rightarrow> Some (10, v, h)
         | Some btsr \<Rightarrow>
             (if btsr \<noteq> 0xFFFF \<and> btsr AND (PHY_1000BTSR_1000FD OR PHY_1000BTSR_1000HD) \<noteq> 0
              then Some (1000, v, h)
              else miiphy_speed ops devad_none devname adr v h)) }) }"

definition miiphy_duplex_gige ::
  "'h mii_ops \<Rightarrow> u32 \<Rightarrow> bytes \<Rightarrow> u8 \<Rightarrow> mii_vars \<Rightarrow> 'h \<Rightarrow> (nat \<times> mii_vars \<times> 'h) option" where
  "miiphy_duplex_gige ops devad_none devname adr v h = do {
     (x, v, h) \<leftarrow> miiphy_is_1000base_x_gige ops devad_none devname adr v h;
     (lpa, v, h) \<leftarrow> (if x then miiphy_read ops devad_none devname adr R_LPA v h else Some (Some 0, v, h));
     (case lpa of None \<Rightarrow> Some (HALF, v, h)
      | Some _ \<Rightarrow> do {
          (r, v, h) \<leftarrow> miiphy_read ops devad_none devname adr R_STAT1000 v h;
          (case r of None \<Rightarrow> Some (HALF, v, h)
           | Some btsr \<Rightarrow>
               (if btsr \<noteq> 0xFFFF \<and> btsr AND PHY_1000BTSR_1000FD \<noteq> 0 then Some (FULL, v, h)
                else if btsr \<noteq> 0xFFFF \<and> btsr AND PHY_1000BTSR_1000HD \<noteq> 0 then Some (HALF, v, h)
                else miiphy_duplex ops devad_none devname adr v h)) }) }"

text \<open>The first read, whose result is dropped, is there to unlatch the bit.\<close>

definition miiphy_link ::
  "'h mii_ops \<Rightarrow> u32 \<Rightarrow> bytes \<Rightarrow> u8 \<Rightarrow> mii_vars \<Rightarrow> 'h \<Rightarrow> (bool \<times> mii_vars \<times> 'h) option" where
  "miiphy_link ops devad_none devname adr v h = do {
     (_, v, h) \<leftarrow> miiphy_read ops devad_none devname adr R_BMSR v h;
     (r, v, h) \<leftarrow> miiphy_read ops devad_none devname adr R_BMSR v h;
     Some (case r of None \<Rightarrow> (False, v, h) | Some reg \<Rightarrow> (reg AND 0x0004 \<noteq> 0, v, h)) }"

section \<open>A device behind its bus\<close>

text \<open>
  The device \<open>devname\<close> answers reads of register \<open>reg\<close> with what \<open>regs\<close> holds in the machine
  state; a read changes neither the registers nor which device is active.
\<close>

definition answers :: "'h mii_ops \<Rightarrow> u32 \<Rightarrow> bytes \<Rightarrow> u8 \<Rightarrow> mii_vars \<Rightarrow> ('h \<Rightarrow> u8 \<Rightarrow> u16) \<Rightarrow> bool" where
  "answers ops devad_none devname adr v regs \<longleftrightarrow>
     (\<forall>h reg. \<exists>h'. miiphy_read ops devad_none devname adr reg v h = Some (Some (regs h reg), v, h') \<and> regs h' = regs h)"

lemma answersE:
  assumes "answers ops n devname adr v regs"
  obtains h' where "miiphy_read ops n devname adr reg v h = Some (Some (regs h reg), v, h')" "regs h' = regs h"
  using assms unfolding answers_def by blast

text \<open>The mode the four registers stand for.\<close>

definition gige_bits :: "(u8 \<Rightarrow> u16) \<Rightarrow> u16 \<Rightarrow> bool" where
  "gige_bits r bits \<longleftrightarrow> r R_STAT1000 \<noteq> 0xFFFF \<and> r R_STAT1000 AND bits \<noteq> 0"

definition slow_bits :: "(u8 \<Rightarrow> u16) \<Rightarrow> u16 \<Rightarrow> u16 \<Rightarrow> bool" where
  "slow_bits r lpa_bits bmcr_bit \<longleftrightarrow>
     (if r R_BMCR AND 0x1000 \<noteq> 0 then (r R_LPA AND r R_ADVERTISE) AND lpa_bits \<noteq> 0 else r R_BMCR AND bmcr_bit \<noteq> 0)"

lemma mode_answers:
  assumes "answers ops n devname adr v regs"
  shows "\<exists>h'. miiphy_mode ops n devname adr lb bb hi lo v h = Some (if slow_bits (regs h) lb bb then hi else lo, v, h') \<and>
    regs h' = regs h"
proof -
  obtain h1 where h1: "miiphy_read ops n devname adr R_BMCR v h = Some (Some (regs h R_BMCR), v, h1)" "regs h1 = regs h"
    using assms by (rule answersE)
  obtain h2 where h2: "miiphy_read ops n devname adr R_LPA v h1 = Some (Some (regs h1 R_LPA), v, h2)" "regs h2 = regs h1"
    using assms by (rule answersE)
  obtain h3 where h3: "miiphy_read ops n devname adr R_ADVERTISE v h2 = Some (Some (regs h2 R_ADVERTISE), v, h3)" "regs h3 = regs h2"
    using assms by (rule answersE)
  show ?thesis using h1 h2 h3 by (simp add: miiphy_mode_def slow_bits_def)
qed

lemma base_x_answers:
  assumes "answers ops n devname adr v regs"
  shows "\<exists>h'. miiphy_is_1000base_x_gige ops n devname adr v h = Some (regs h R_ESTATUS AND 0xC000 \<noteq> 0, v, h') \<and> regs h' = regs h"
proof -
  obtain h1 where "miiphy_read ops n devname adr R_ESTATUS v h = Some (Some (regs h R_ESTATUS), v, h1)" "regs h1 = regs h"
    using assms by (rule answersE)
  then show ?thesis by (simp add: miiphy_is_1000base_x_gige_def)
qed

lemma speed_gige:
  assumes a: "answers ops n devname adr v regs"
  shows "\<exists>h'. miiphy_speed_gige ops n devname adr v h =
    Some (if regs h R_ESTATUS AND 0xC000 \<noteq> 0 \<or> gige_bits (regs h) 0x0C00 then 1000
          else if slow_bits (regs h) 0x0380 0x2000 then 100 else 10, v, h')"
proof -
  obtain h1 where h1: "miiphy_is_1000base_x_gige ops n devname adr v h = Some (regs h R_ESTATUS AND 0xC000 \<noteq> 0, v, h1)"
    "regs h1 = regs h" using base_x_answers [OF a] by blast
  obtain h2 where h2: "miiphy_read ops n devname adr R_STAT1000 v h1 = Some (Some (regs h1 R_STAT1000), v, h2)" "regs h2 = regs h1"
    using a by (rule answersE)
  obtain h3 where h3: "miiphy_mode ops n devname adr 0x0380 0x2000 100 10 v h2 =
      Some (if slow_bits (regs h2) 0x0380 0x2000 then 100 else 10, v, h3)"
    using mode_answers [OF a] by blast
  have "(0x0100 OR 0x0080 OR 0x0200 :: u16) = 0x0380" "(0x0800 OR 0x0400 :: u16) = 0x0C00" by simp_all
  then show ?thesis using h1 h2 h3
    by (simp add: miiphy_speed_gige_def gige_bits_def miiphy_speed_def)
qed

text \<open>
  Duplex: what a 1000BASE-X partner announces in \<^verbatim>\<open>MII_LPA\<close> is read and not used; the mode comes
  from the 1000BASE-T status and, without one, from the slow registers.
\<close>

lemma duplex_gige:
  assumes a: "answers ops n devname adr v regs"
  shows "\<exists>h'. miiphy_duplex_gige ops n devname adr v h =
    Some (if gige_bits (regs h) 0x0800 then FULL else if gige_bits (regs h) 0x0400 then HALF
          else if slow_bits (regs h) 0x0140 0x0100 then FULL else HALF, v, h')"
proof -
  obtain h1 where h1: "miiphy_is_1000base_x_gige ops n devname adr v h = Some (regs h R_ESTATUS AND 0xC000 \<noteq> 0, v, h1)"
    "regs h1 = regs h" using base_x_answers [OF a] by blast
  have "\<exists>h2. (if regs h R_ESTATUS AND 0xC000 \<noteq> 0 then miiphy_read ops n devname adr R_LPA v h1 else Some (Some 0, v, h1)) =
      Some (Some (if regs h R_ESTATUS AND 0xC000 \<noteq> 0 then regs h1 R_LPA else 0), v, h2) \<and> regs h2 = regs h1"
    using a by (cases "regs h R_ESTATUS AND 0xC000 = 0") (auto elim: answersE)
  then obtain h2 where h2: "(if regs h R_ESTATUS AND 0xC000 \<noteq> 0 then miiphy_read ops n devname adr R_LPA v h1 else Some (Some 0, v, h1)) =
      Some (Some (if regs h R_ESTATUS AND 0xC000 \<noteq> 0 then regs h1 R_LPA else 0), v, h2)" "regs h2 = regs h1" by blast
  obtain h3 where h3: "miiphy_read ops n devname adr R_STAT1000 v h2 = Some (Some (regs h2 R_STAT1000), v, h3)" "regs h3 = regs h2"
    using a by (rule answersE)
  obtain h4 where h4: "miiphy_mode ops n devname adr 0x0140 0x0100 44 22 v h3 =
      Some (if slow_bits (regs h3) 0x0140 0x0100 then 44 else 22, v, h4)"
    using mode_answers [OF a] by blast
  have "(0x0040 OR 0x0100 :: u16) = 0x0140" by simp
  then show ?thesis using h1 h2 h3 h4
    by (simp add: miiphy_duplex_gige_def gige_bits_def miiphy_duplex_def del: if_split)
qed

section \<open>The wait of the reset\<close>

text \<open>At most 500 polls: the loop returns whenever a read and a delay do, also when the bit stays set.\<close>

lemma reset_poll_total:
  assumes "\<And>v h. miiphy_read ops n devname adr R_BMCR v h \<noteq> None" "\<And>h. udelay rdtime 1000 h \<noteq> None"
  shows "reset_poll ops rdtime n devname adr k reg v h \<noteq> None"
proof (induction k arbitrary: reg v h)
  case (Suc k)
  obtain r v1 h1 where r: "miiphy_read ops n devname adr R_BMCR v h = Some (r, v1, h1)"
    using assms(1) [of v h] by auto
  obtain h2 where "udelay rdtime 1000 h1 = Some h2" using assms(2) [of h1] by blast
  then show ?case using Suc.IH r by (simp split: option.splits)
qed simp

text \<open>A PHY that keeps the reset bit set: the polls run out and the reset fails.\<close>

lemma reset_stuck:
  assumes a: "answers ops n devname adr v regs" and busy: "\<And>h. regs h R_BMCR AND 0x8000 \<noteq> 0"
    and wr: "\<And>val h. \<exists>h'. miiphy_write ops n devname adr R_BMCR val v h = Some (0, v, h')"
    and delay: "\<And>h. udelay rdtime 1000 h \<noteq> None"
  shows "\<exists>h'. miiphy_reset_nolib ops rdtime n devname adr v h = Some (-1, v, h')"
proof -
  have poll: "\<exists>reg h'. reset_poll ops rdtime n devname adr k reg0 v h = Some (Some reg, v, h') \<and> reg AND 0x8000 \<noteq> 0"
    if "reg0 AND 0x8000 \<noteq> 0" for k reg0 h
    using that
  proof (induction k arbitrary: reg0 h)
    case (Suc k)
    obtain h1 where h1: "miiphy_read ops n devname adr R_BMCR v h = Some (Some (regs h R_BMCR), v, h1)"
      using a by (rule answersE)
    obtain h2 where "udelay rdtime 1000 h1 = Some h2" using delay [of h1] by blast
    with h1 Suc.IH [OF busy [of h], of h2] Suc.prems show ?case by simp
  qed simp
  obtain h1 where h1: "miiphy_read ops n devname adr R_BMCR v h = Some (Some (regs h R_BMCR), v, h1)"
    using a by (rule answersE)
  obtain h2 where h2: "miiphy_write ops n devname adr R_BMCR (regs h R_BMCR OR 0x8000) v h1 = Some (0, v, h2)"
    using wr by blast
  have "(0x8000 :: u16) AND 0x8000 \<noteq> 0" by simp
  from poll [OF this, of 500 h2] h1 h2 show ?thesis
    by (auto simp: miiphy_reset_nolib_def simp del: reset_poll.simps)
qed

end
