(* ===== verification/Io.thy ===== *)
theory Io
  imports Byteorder
begin

text \<open>
  The accessors of \<^verbatim>\<open>include/asm/io.h\<close> beside the 32-bit ones of theory Bus: all four widths, raw and
  with fences, both byte orders, the operations that clear and set bits of a register, and the
  transfers between a port and a block of memory, which the header offers to a machine that
  defines \<^verbatim>\<open>__io\<close>. The controller driver uses none of them, so they have a trace of their own, in which
  an access carries its width.

  The locale \<open>storage\<close> is a register that keeps what is written to it; the bit operations are
  shown for it once, and interpreted for each width and byte order.
\<close>

section \<open>Accesses\<close>

datatype io_ev =
    Load nat u64 u64        \<comment> \<open>bytes, address, value\<close>
  | Store nat u64 u64
  | FenceRead               \<comment> \<open>\<^verbatim>\<open>fence ir,ir\<close>\<close>
  | FenceWrite              \<comment> \<open>\<^verbatim>\<open>fence ow,ow\<close>\<close>
  | FenceAll                \<comment> \<open>\<^verbatim>\<open>fence iorw,iorw\<close>\<close>

type_synonym io_trace = "io_ev list"

text \<open>The hardware: what a load of so many bytes returns after the events so far.\<close>

type_synonym io_hw = "io_trace \<Rightarrow> nat \<Rightarrow> u64 \<Rightarrow> u64"

definition arch_get :: "io_hw \<Rightarrow> u64 \<Rightarrow> io_trace \<Rightarrow> 'w::len word \<times> io_trace" where
  "arch_get hw a t = (let v = ucast (hw t (LENGTH('w) div 8) a)
     in (v, t @ [Load (LENGTH('w) div 8) a (ucast v)]))"

definition arch_put :: "'w::len word \<Rightarrow> u64 \<Rightarrow> io_trace \<Rightarrow> io_trace" where
  "arch_put v a t = t @ [Store (LENGTH('w) div 8) a (ucast v)]"

definition mb :: "io_trace \<Rightarrow> io_trace" where "mb t = t @ [FenceAll]"
definition rmb :: "io_trace \<Rightarrow> io_trace" where "rmb t = t @ [FenceRead]"
definition wmb :: "io_trace \<Rightarrow> io_trace" where "wmb t = t @ [FenceWrite]"

definition writeb :: "u8 \<Rightarrow> u64 \<Rightarrow> io_trace \<Rightarrow> io_trace" where "writeb v a t = arch_put v a (wmb t)"
definition writew :: "u16 \<Rightarrow> u64 \<Rightarrow> io_trace \<Rightarrow> io_trace" where "writew v a t = arch_put v a (wmb t)"
definition writeq :: "u64 \<Rightarrow> u64 \<Rightarrow> io_trace \<Rightarrow> io_trace" where "writeq v a t = arch_put v a (wmb t)"

definition readb :: "io_hw \<Rightarrow> u64 \<Rightarrow> io_trace \<Rightarrow> u8 \<times> io_trace" where
  "readb hw a t = (let (v, t) = arch_get hw a t in (v, rmb t))"
definition readw :: "io_hw \<Rightarrow> u64 \<Rightarrow> io_trace \<Rightarrow> u16 \<times> io_trace" where
  "readw hw a t = (let (v, t) = arch_get hw a t in (v, rmb t))"
definition readq :: "io_hw \<Rightarrow> u64 \<Rightarrow> io_trace \<Rightarrow> u64 \<times> io_trace" where
  "readq hw a t = (let (v, t) = arch_get hw a t in (v, rmb t))"

text \<open>Byte order: the host is little endian.\<close>

definition out_le32 :: "u64 \<Rightarrow> u32 \<Rightarrow> io_trace \<Rightarrow> io_trace" where "out_le32 a v t = arch_put v a t"
definition out_le16 :: "u64 \<Rightarrow> u16 \<Rightarrow> io_trace \<Rightarrow> io_trace" where "out_le16 a v t = arch_put v a t"
definition in_le32 :: "io_hw \<Rightarrow> u64 \<Rightarrow> io_trace \<Rightarrow> u32 \<times> io_trace" where "in_le32 hw a t = arch_get hw a t"
definition in_le16 :: "io_hw \<Rightarrow> u64 \<Rightarrow> io_trace \<Rightarrow> u16 \<times> io_trace" where "in_le16 hw a t = arch_get hw a t"

definition out_be32 :: "u64 \<Rightarrow> u32 \<Rightarrow> io_trace \<Rightarrow> io_trace" where "out_be32 a v t = arch_put (swab32 v) a t"
definition out_be16 :: "u64 \<Rightarrow> u16 \<Rightarrow> io_trace \<Rightarrow> io_trace" where "out_be16 a v t = arch_put (swab16 v) a t"
definition in_be32 :: "io_hw \<Rightarrow> u64 \<Rightarrow> io_trace \<Rightarrow> u32 \<times> io_trace" where
  "in_be32 hw a t = (let (v, t) = arch_get hw a t in (swab32 v, t))"
definition in_be16 :: "io_hw \<Rightarrow> u64 \<Rightarrow> io_trace \<Rightarrow> u16 \<times> io_trace" where
  "in_be16 hw a t = (let (v, t) = arch_get hw a t in (swab16 v, t))"

definition out_8 :: "u64 \<Rightarrow> u8 \<Rightarrow> io_trace \<Rightarrow> io_trace" where "out_8 a v t = arch_put v a t"
definition in_8 :: "io_hw \<Rightarrow> u64 \<Rightarrow> io_trace \<Rightarrow> u8 \<times> io_trace" where "in_8 hw a t = arch_get hw a t"

text \<open>The macros take the type as an argument: here its two accessors.\<close>

definition clrbits ::
  "(u64 \<Rightarrow> io_trace \<Rightarrow> 'w::len word \<times> io_trace) \<Rightarrow> (u64 \<Rightarrow> 'w word \<Rightarrow> io_trace \<Rightarrow> io_trace) \<Rightarrow> u64 \<Rightarrow> 'w word
     \<Rightarrow> io_trace \<Rightarrow> io_trace" where
  "clrbits inp out a clear t = (let (v, t) = inp a t in out a (v AND NOT clear) t)"

definition setbits ::
  "(u64 \<Rightarrow> io_trace \<Rightarrow> 'w::len word \<times> io_trace) \<Rightarrow> (u64 \<Rightarrow> 'w word \<Rightarrow> io_trace \<Rightarrow> io_trace) \<Rightarrow> u64 \<Rightarrow> 'w word
     \<Rightarrow> io_trace \<Rightarrow> io_trace" where
  "setbits inp out a bits t = (let (v, t) = inp a t in out a (v OR bits) t)"

definition clrsetbits ::
  "(u64 \<Rightarrow> io_trace \<Rightarrow> 'w::len word \<times> io_trace) \<Rightarrow> (u64 \<Rightarrow> 'w word \<Rightarrow> io_trace \<Rightarrow> io_trace) \<Rightarrow> u64 \<Rightarrow> 'w word
     \<Rightarrow> 'w word \<Rightarrow> io_trace \<Rightarrow> io_trace" where
  "clrsetbits inp out a clear bits t = (let (v, t) = inp a t in out a ((v AND NOT clear) OR bits) t)"

section \<open>Transfers\<close>

text \<open>
  The port stays where it is while the pointer into memory advances. A negative count is
  undefined: the counter runs below the smallest \<^verbatim>\<open>int\<close>.
\<close>

fun ins_loop :: "io_hw \<Rightarrow> u64 \<Rightarrow> nat \<Rightarrow> io_trace \<Rightarrow> 'w::len word list \<times> io_trace" where
  "ins_loop hw port 0 t = ([], t)"
| "ins_loop hw port (Suc n) t =
     (let (v, t) = arch_get hw port t; (vs, t) = ins_loop hw port n t in (v # vs, t))"

definition reads :: "io_hw \<Rightarrow> u64 \<Rightarrow> u32 \<Rightarrow> io_trace \<Rightarrow> ('w::len word list \<times> io_trace) option" where
  "reads hw port len t = (if sint len < 0 then None else Some (ins_loop hw port (nat (sint len)) t))"

definition readsb :: "io_hw \<Rightarrow> u64 \<Rightarrow> u32 \<Rightarrow> io_trace \<Rightarrow> (u8 list \<times> io_trace) option" where "readsb = reads"
definition readsw :: "io_hw \<Rightarrow> u64 \<Rightarrow> u32 \<Rightarrow> io_trace \<Rightarrow> (u16 list \<times> io_trace) option" where "readsw = reads"
definition readsl :: "io_hw \<Rightarrow> u64 \<Rightarrow> u32 \<Rightarrow> io_trace \<Rightarrow> (u32 list \<times> io_trace) option" where "readsl = reads"

fun outs_loop :: "u64 \<Rightarrow> 'w::len word list \<Rightarrow> nat \<Rightarrow> io_trace \<Rightarrow> io_trace option" where
  "outs_loop port ws 0 t = Some t"
| "outs_loop port [] (Suc n) t = None"
| "outs_loop port (w # ws) (Suc n) t = outs_loop port ws n (arch_put w port t)"

definition writes :: "u64 \<Rightarrow> 'w::len word list \<Rightarrow> u32 \<Rightarrow> io_trace \<Rightarrow> io_trace option" where
  "writes port ws len t = (if sint len < 0 then None else outs_loop port ws (nat (sint len)) t)"

definition writesb :: "u64 \<Rightarrow> u8 list \<Rightarrow> u32 \<Rightarrow> io_trace \<Rightarrow> io_trace option" where "writesb = writes"
definition writesw :: "u64 \<Rightarrow> u16 list \<Rightarrow> u32 \<Rightarrow> io_trace \<Rightarrow> io_trace option" where "writesw = writes"
definition writesl :: "u64 \<Rightarrow> u32 list \<Rightarrow> u32 \<Rightarrow> io_trace \<Rightarrow> io_trace option" where "writesl = writes"

section \<open>A register that keeps its value\<close>

text \<open>The value last stored at an address by an access of the width.\<close>

fun last_store :: "nat \<Rightarrow> u64 \<Rightarrow> io_trace \<Rightarrow> u64 option" where
  "last_store n a [] = None"
| "last_store n a (e # es) = (case last_store n a es of Some v \<Rightarrow> Some v
     | None \<Rightarrow> (case e of Store m b v \<Rightarrow> if m = n \<and> b = a then Some v else None | _ \<Rightarrow> None))"

lemma last_store_append [simp]:
  "last_store n a (t @ t') = (case last_store n a t' of Some v \<Rightarrow> Some v | None \<Rightarrow> last_store n a t)"
  by (induction t) (auto split: option.splits io_ev.splits)

definition keeps_stores :: "io_hw \<Rightarrow> bool" where
  "keeps_stores hw \<longleftrightarrow> (\<forall>t n a v. last_store n a t = Some v \<longrightarrow> hw t n a = v)"

locale storage =
  fixes inp :: "'t \<Rightarrow> 'v \<times> 't" and out :: "'v \<Rightarrow> 't \<Rightarrow> 't" and holds :: "'t \<Rightarrow> 'v \<Rightarrow> bool"
  assumes in_holds: "holds t v \<Longrightarrow> fst (inp t) = v \<and> holds (snd (inp t)) v"
    and out_holds: "holds (out v t) v"
begin

lemma read_back: "fst (inp (out v t)) = v"
  using in_holds [OF out_holds] by blast

lemma modify_holds: "holds t v \<Longrightarrow> holds (case inp t of (x, t) \<Rightarrow> out (f x) t) (f v)"
  using in_holds [of t v] out_holds by (cases "inp t") auto

lemma modify_twice:
  "holds t v \<Longrightarrow> holds (case inp (case inp t of (x, t) \<Rightarrow> out (f x) t) of (x, t) \<Rightarrow> out (g x) t) (g (f v))"
  by (rule modify_holds) (rule modify_holds)

end

text \<open>The register at \<open>a\<close>, seen through accessors that store the value as \<open>enc v\<close>.\<close>

definition reg_holds :: "('w::len word \<Rightarrow> 'w word) \<Rightarrow> u64 \<Rightarrow> io_trace \<Rightarrow> 'w word \<Rightarrow> bool" where
  "reg_holds enc a t v \<longleftrightarrow> last_store (LENGTH('w) div 8) a t = Some (ucast (enc v))"

lemma ucast_up_down: "LENGTH('w) \<le> 64 \<Longrightarrow> (ucast (ucast v :: u64) :: 'w::len word) = v"
  by (rule bit_word_eqI) (auto simp: bit_simps)

text \<open>Any hardware, with the last value stored on top of it.\<close>

definition overlay :: "io_hw \<Rightarrow> io_hw" where
  "overlay hw t n a = (case last_store n a t of None \<Rightarrow> hw t n a | Some v \<Rightarrow> v)"

lemma overlay_keeps: "keeps_stores hw \<Longrightarrow> overlay hw = hw"
  by (intro ext) (simp add: keeps_stores_def overlay_def split: option.splits)

lemma arch_get_holds:
  fixes v :: "'w::len word"
  assumes "reg_holds enc a t v" "LENGTH('w) \<le> 64"
  shows "fst (arch_get (overlay hw) a t) = enc v" "reg_holds enc a (snd (arch_get (overlay hw :: io_hw) a t :: 'w word \<times> io_trace)) v"
  using assms by (simp_all add: arch_get_def reg_holds_def overlay_def ucast_up_down Let_def)

lemma arch_put_holds: "reg_holds enc a (arch_put (enc v) a t) v"
  by (simp add: arch_put_def reg_holds_def)

interpretation be32: storage "in_be32 (overlay hw) a" "out_be32 a" "reg_holds swab32 a" for hw a
  by unfold_locales (auto simp: in_be32_def out_be32_def arch_put_holds split: prod.splits
    dest: arch_get_holds [where hw = hw and enc = swab32])

interpretation be16: storage "in_be16 (overlay hw) a" "out_be16 a" "reg_holds swab16 a" for hw a
  by unfold_locales (auto simp: in_be16_def out_be16_def arch_put_holds split: prod.splits
    dest: arch_get_holds [where hw = hw and enc = swab16])

lemmas plain_put_holds = arch_put_holds [where enc = "\<lambda>v. v"]

interpretation le32: storage "in_le32 (overlay hw) a" "out_le32 a" "reg_holds (\<lambda>v. v) a" for hw a
  by unfold_locales (simp_all add: in_le32_def out_le32_def arch_get_holds plain_put_holds)

interpretation le16: storage "in_le16 (overlay hw) a" "out_le16 a" "reg_holds (\<lambda>v. v) a" for hw a
  by unfold_locales (simp_all add: in_le16_def out_le16_def arch_get_holds plain_put_holds)

interpretation b8: storage "in_8 (overlay hw) a" "out_8 a" "reg_holds (\<lambda>v. v) a" for hw a
  by unfold_locales (simp_all add: in_8_def out_8_def arch_get_holds plain_put_holds)

text \<open>
  A big-endian register: the bits outside both masks are kept, those of the second are set, and a
  field that is cleared and set reads back as it was set.
\<close>

lemma clrsetbits_be32:
  assumes "keeps_stores hw" "reg_holds swab32 a t v"
  shows "reg_holds swab32 a (clrsetbits (in_be32 hw) out_be32 a clear bits t) ((v AND NOT clear) OR bits)"
  using be32.modify_holds [OF assms(2), where hw = hw and f = "\<lambda>v. (v AND NOT clear) OR bits"] overlay_keeps [OF assms(1)]
  by (simp add: clrsetbits_def)

lemma clr_then_set_le16:
  assumes "keeps_stores hw" "reg_holds (\<lambda>v. v) a t v"
  shows "reg_holds (\<lambda>v. v) a (setbits (in_le16 hw) out_le16 a bits (clrbits (in_le16 hw) out_le16 a clear t))
    ((v AND NOT clear) OR bits)"
  using le16.modify_twice [OF assms(2), where hw = hw and g = "\<lambda>v. v OR bits" and f = "\<lambda>v. v AND NOT clear"] overlay_keeps [OF assms(1)]
  by (simp add: clrbits_def setbits_def)

lemma be32_read_back: "keeps_stores hw \<Longrightarrow> fst (in_be32 hw a (out_be32 a v t)) = v"
  using be32.read_back [of hw a v t] by (simp add: overlay_keeps)

text \<open>A transfer touches the port and nothing else, once for every unit.\<close>

lemma ins_loop_events:
  "\<exists>vs. ins_loop hw port n t = (vs, t @ map (\<lambda>v :: 'w::len word. Load (LENGTH('w) div 8) port (ucast v)) vs) \<and> length vs = n"
proof (induction n arbitrary: t)
  case (Suc n)
  obtain v where v: "arch_get hw port t = (v :: 'w word, t @ [Load (LENGTH('w) div 8) port (ucast v)])"
    by (auto simp: arch_get_def Let_def)
  obtain vs where "ins_loop hw port n (t @ [Load (LENGTH('w) div 8) port (ucast v)]) =
      (vs, (t @ [Load (LENGTH('w) div 8) port (ucast v)]) @ map (\<lambda>v :: 'w word. Load (LENGTH('w) div 8) port (ucast v)) vs)"
    "length vs = n" using Suc.IH by blast
  with v show ?case by simp
qed simp

lemma outs_loop_eq:
  "n \<le> length ws \<Longrightarrow> outs_loop port ws n t =
     Some (t @ map (\<lambda>v :: 'w::len word. Store (LENGTH('w) div 8) port (ucast v)) (take n ws))"
  by (induction port ws n t rule: outs_loop.induct) (simp_all add: arch_put_def)

end
