(* ===== verification/Phy.thy ===== *)
theory Phy
  imports Miiphy Timer
begin

text \<open>
  The PHY layer, \<^verbatim>\<open>net/phy/phy.c\<close>. The constants of \<^verbatim>\<open>linux/ethtool.h\<close> and \<^verbatim>\<open>linux/mdio.h\<close>, which are not
  part of the repository, are the record \<open>ethtool\<close>, a parameter; so are the functions of a PHY
  driver other than the generic one (\<open>drv_call\<close>) and, through \<open>mii_ops\<close>, those of a bus. A PHY
  device is named by its place in the heap of theory Miiphy. A \<^verbatim>\<open>NULL\<close> result is \<open>None\<close>.
\<close>

record ethtool =
  SPEED_10 :: u32
  SPEED_100 :: u32
  SPEED_1000 :: u32
  DUPLEX_HALF :: u32
  DUPLEX_FULL :: u32
  AUTONEG_ENABLE :: u32
  MDIO_DEVAD_NONE :: u32
  SUPPORTED_10baseT_Half :: u32
  SUPPORTED_10baseT_Full :: u32
  SUPPORTED_100baseT_Half :: u32
  SUPPORTED_100baseT_Full :: u32
  SUPPORTED_1000baseT_Half :: u32
  SUPPORTED_1000baseT_Full :: u32
  SUPPORTED_Autoneg :: u32
  SUPPORTED_TP :: u32
  SUPPORTED_AUI :: u32
  SUPPORTED_MII :: u32
  SUPPORTED_FIBRE :: u32
  SUPPORTED_BNC :: u32
  ADVERTISED_10baseT_Half :: u32
  ADVERTISED_10baseT_Full :: u32
  ADVERTISED_100baseT_Half :: u32
  ADVERTISED_100baseT_Full :: u32
  ADVERTISED_Pause :: u32
  ADVERTISED_Asym_Pause :: u32
  ADVERTISED_1000baseX_Half :: u32
  ADVERTISED_1000baseX_Full :: u32

type_synonym 'h phy_state = "mii_vars \<times> 'h"

record 'h phy_env =
  eth_consts :: ethtool
  mii :: "'h mii_ops"
  clk :: "'h clock"
  drv_call :: "nat \<Rightarrow> nat \<Rightarrow> 'h phy_state \<Rightarrow> (int \<times> 'h phy_state) option"

abbreviation (input) P_BMCR :: u32 where "P_BMCR \<equiv> 0x00"
abbreviation (input) P_BMSR :: u32 where "P_BMSR \<equiv> 0x01"
abbreviation (input) P_PHYSID1 :: u32 where "P_PHYSID1 \<equiv> 0x02"
abbreviation (input) P_PHYSID2 :: u32 where "P_PHYSID2 \<equiv> 0x03"
abbreviation (input) P_ADVERTISE :: u32 where "P_ADVERTISE \<equiv> 0x04"
abbreviation (input) P_LPA :: u32 where "P_LPA \<equiv> 0x05"
abbreviation (input) P_CTRL1000 :: u32 where "P_CTRL1000 \<equiv> 0x09"
abbreviation (input) P_STAT1000 :: u32 where "P_STAT1000 \<equiv> 0x0a"
abbreviation (input) P_ESTATUS :: u32 where "P_ESTATUS \<equiv> 0x0f"

text \<open>A choice of bits, as the chains of \<^verbatim>\<open>if\<close> statements make it.\<close>

definition bits_if :: "bool \<Rightarrow> 'a::len word \<Rightarrow> 'a word" where
  "bits_if c x = (if c then x else 0)"

section \<open>Registers of a PHY\<close>

definition phy_read :: "'h phy_env \<Rightarrow> nat \<Rightarrow> u32 \<Rightarrow> u32 \<Rightarrow> 'h phy_state \<Rightarrow> (int \<times> 'h phy_state) option" where
  "phy_read e p devad reg s = (case s of (v, h) \<Rightarrow> do {
     d \<leftarrow> phydevs v p;
     (r, h) \<leftarrow> bus_read (mii e) v (phy_bus d) (addr d) devad reg h;
     Some (r, v, h) })"

definition phy_write :: "'h phy_env \<Rightarrow> nat \<Rightarrow> u32 \<Rightarrow> u32 \<Rightarrow> u16 \<Rightarrow> 'h phy_state \<Rightarrow> (int \<times> 'h phy_state) option" where
  "phy_write e p devad reg val s = (case s of (v, h) \<Rightarrow> do {
     d \<leftarrow> phydevs v p;
     (r, h) \<leftarrow> bus_write (mii e) v (phy_bus d) (addr d) devad reg val h;
     Some (r, v, h) })"

definition upd_phy :: "nat \<Rightarrow> (phy_device \<Rightarrow> phy_device) \<Rightarrow> 'h phy_state \<Rightarrow> 'h phy_state option" where
  "upd_phy p f s = (case s of (v, h) \<Rightarrow>
     map_option (\<lambda>d. (v\<lparr>phydevs := (phydevs v)(p \<mapsto> f d)\<rparr>, h)) (phydevs v p))"

definition get_phy :: "nat \<Rightarrow> 'h phy_state \<Rightarrow> phy_device option" where
  "get_phy p s = phydevs (fst s) p"

section \<open>The generic driver\<close>

text \<open>The standard advertisement register, from what is to be advertised.\<close>

definition adv_bits :: "ethtool \<Rightarrow> u32 \<Rightarrow> u32" where
  "adv_bits c advertise =
     bits_if (advertise AND ADVERTISED_10baseT_Half c \<noteq> 0) 0x0020 OR
     bits_if (advertise AND ADVERTISED_10baseT_Full c \<noteq> 0) 0x0040 OR
     bits_if (advertise AND ADVERTISED_100baseT_Half c \<noteq> 0) 0x0080 OR
     bits_if (advertise AND ADVERTISED_100baseT_Full c \<noteq> 0) 0x0100 OR
     bits_if (advertise AND ADVERTISED_Pause c \<noteq> 0) 0x0400 OR
     bits_if (advertise AND ADVERTISED_Asym_Pause c \<noteq> 0) 0x0800 OR
     bits_if (advertise AND ADVERTISED_1000baseX_Half c \<noteq> 0) 0x0040 OR
     bits_if (advertise AND ADVERTISED_1000baseX_Full c \<noteq> 0) 0x0020"

definition adv1000_bits :: "ethtool \<Rightarrow> u32 \<Rightarrow> u32 \<Rightarrow> u32" where
  "adv1000_bits c can advertise =
     (if can AND (SUPPORTED_1000baseT_Half c OR SUPPORTED_1000baseT_Full c) \<noteq> 0 then
        bits_if (advertise AND SUPPORTED_1000baseT_Half c \<noteq> 0) 0x0100 OR
        bits_if (advertise AND SUPPORTED_1000baseT_Full c \<noteq> 0) 0x0200
      else 0)"

text \<open>The second half: the gigabit advertisement, when the PHY has it.\<close>

definition config_advert_1000 ::
  "'h phy_env \<Rightarrow> nat \<Rightarrow> u32 \<Rightarrow> int \<Rightarrow> 'h phy_state \<Rightarrow> (int \<times> 'h phy_state) option" where
  "config_advert_1000 e p advertise changed s = do {
     let none = MDIO_DEVAD_NONE (eth_consts e);
     (bmsr, s) \<leftarrow> phy_read e p none P_BMSR s;
     (if bmsr < 0 then Some (bmsr, s)
      else if word_of_int bmsr AND (0x0100 :: u32) = 0 then Some (changed, s)
      else do {
        (oldadv, s) \<leftarrow> phy_read e p none P_CTRL1000 s;
        (if oldadv < 0 then Some (oldadv, s)
         else do {
           d \<leftarrow> get_phy p s;
           let adv = (word_of_int oldadv AND NOT (0x0200 OR 0x0100)) OR
             adv1000_bits (eth_consts e) (supported d) advertise;
           let changed = (if adv \<noteq> word_of_int oldadv then 1 else changed);
           (err, s) \<leftarrow> phy_write e p none P_CTRL1000 (ucast adv) s;
           Some (if err < 0 then err else changed, s) }) }) }"

definition genphy_config_advert :: "'h phy_env \<Rightarrow> nat \<Rightarrow> 'h phy_state \<Rightarrow> (int \<times> 'h phy_state) option" where
  "genphy_config_advert e p s = do {
     let none = MDIO_DEVAD_NONE (eth_consts e);
     s \<leftarrow> upd_phy p (\<lambda>d. d\<lparr>advertising := advertising d AND supported d\<rparr>) s;
     d \<leftarrow> get_phy p s;
     let advertise = advertising d;
     (oldadv, s) \<leftarrow> phy_read e p none P_ADVERTISE s;
     (if oldadv < 0 then Some (oldadv, s)
      else do {
        let adv = (word_of_int oldadv AND NOT (0x01e0 OR 0x0200 OR 0x0400 OR 0x0800)) OR
          adv_bits (eth_consts e) advertise;
        (if adv \<noteq> word_of_int oldadv then do {
           (err, s) \<leftarrow> phy_write e p none P_ADVERTISE (ucast adv) s;
           (if err < 0 then Some (err, s) else config_advert_1000 e p advertise 1 s) }
         else config_advert_1000 e p advertise 0 s) }) }"

definition genphy_setup_forced :: "'h phy_env \<Rightarrow> nat \<Rightarrow> 'h phy_state \<Rightarrow> (int \<times> 'h phy_state) option" where
  "genphy_setup_forced e p s = do {
     let c = eth_consts e;
     s \<leftarrow> upd_phy p (\<lambda>d. d\<lparr>pause := 0, asym_pause := 0\<rparr>) s;
     d \<leftarrow> get_phy p s;
     let ctl = 0x0200 OR
       (if speed d = SPEED_1000 c then 0x0040 else if speed d = SPEED_100 c then 0x2000 else 0) OR
       bits_if (duplex d = DUPLEX_FULL c) 0x0100;
     phy_write e p (MDIO_DEVAD_NONE c) P_BMCR ctl s }"

definition genphy_restart_aneg :: "'h phy_env \<Rightarrow> nat \<Rightarrow> 'h phy_state \<Rightarrow> (int \<times> 'h phy_state) option" where
  "genphy_restart_aneg e p s = do {
     let none = MDIO_DEVAD_NONE (eth_consts e);
     (ctl, s) \<leftarrow> phy_read e p none P_BMCR s;
     (if ctl < 0 then Some (ctl, s)
      else phy_write e p none P_BMCR ((word_of_int ctl OR (0x1000 OR 0x0200)) AND NOT 0x0400) s) }"

definition genphy_config_aneg :: "'h phy_env \<Rightarrow> nat \<Rightarrow> 'h phy_state \<Rightarrow> (int \<times> 'h phy_state) option" where
  "genphy_config_aneg e p s = do {
     let none = MDIO_DEVAD_NONE (eth_consts e);
     d \<leftarrow> get_phy p s;
     (if autoneg d \<noteq> AUTONEG_ENABLE (eth_consts e) then genphy_setup_forced e p s
      else do {
        (result, s) \<leftarrow> genphy_config_advert e p s;
        (if result < 0 then Some (result, s)
         else if result = 0 then do {
           (ctl, s) \<leftarrow> phy_read e p none P_BMCR s;
           (if ctl < 0 then Some (ctl, s)
            else if word_of_int ctl AND (0x1000 :: u32) = 0 \<or> word_of_int ctl AND (0x0400 :: u32) \<noteq> 0
              then genphy_restart_aneg e p s
            else Some (0, s)) }
         else genphy_restart_aneg e p s) }) }"

text \<open>Waiting, on the machine.\<close>

definition phy_delay :: "'h phy_env \<Rightarrow> u64 \<Rightarrow> 'h phy_state \<Rightarrow> 'h phy_state option" where
  "phy_delay e us s = (case s of (v, h) \<Rightarrow> map_option (\<lambda>h. (v, h)) (udelay (clk e) us h))"

definition set_link :: "nat \<Rightarrow> bool \<Rightarrow> int \<Rightarrow> 'h phy_state \<Rightarrow> (int \<times> 'h phy_state) option" where
  "set_link p up ret s = map_option (\<lambda>s. (ret, s)) (upd_phy p (\<lambda>d. d\<lparr>link := up\<rparr>) s)"

text \<open>The loop that waits for autonegotiation; \<open>i\<close> is its counter and \<open>reg\<close> the \<^verbatim>\<open>unsigned\<close> register.\<close>

function aneg_wait :: "'h phy_env \<Rightarrow> nat \<Rightarrow> nat \<Rightarrow> u32 \<Rightarrow> 'h phy_state \<Rightarrow> (int \<times> 'h phy_state) option" where
  "aneg_wait e p i reg s =
     (if reg AND 0x0020 = 0 then
        (if i > 4000 then set_link p False (-110) s
         else do {
           s \<leftarrow> phy_delay e 1000 s;
           (r, s) \<leftarrow> phy_read e p (MDIO_DEVAD_NONE (eth_consts e)) P_BMSR s;
           aneg_wait e p (Suc i) (word_of_int r) s })
      else set_link p True 0 s)"
  by pat_completeness auto
termination by (relation "measure (\<lambda>(_, _, i, _). 4001 - i)") auto

declare aneg_wait.simps [simp del]

definition genphy_update_link :: "'h phy_env \<Rightarrow> nat \<Rightarrow> 'h phy_state \<Rightarrow> (int \<times> 'h phy_state) option" where
  "genphy_update_link e p s = do {
     let none = MDIO_DEVAD_NONE (eth_consts e);
     (r, s) \<leftarrow> phy_read e p none P_BMSR s;
     let reg = (word_of_int r :: u32);
     d \<leftarrow> get_phy p s;
     (if link d \<and> reg AND 0x0004 \<noteq> 0 then Some (0, s)
      else if autoneg d = AUTONEG_ENABLE (eth_consts e) \<and> reg AND 0x0020 = 0 then aneg_wait e p 0 reg s
      else do {
        (r, s) \<leftarrow> phy_read e p none P_BMSR s;
        set_link p (word_of_int r AND (0x0004 :: u32) \<noteq> 0) 0 s }) }"

text \<open>\<^verbatim>\<open>genphy_parse_link\<close>: what the registers say, and the two branches that read them.\<close>

definition set_mode :: "nat \<Rightarrow> u32 \<times> u32 \<Rightarrow> 'h phy_state \<Rightarrow> (int \<times> 'h phy_state) option" where
  "set_mode p m s =
     map_option (\<lambda>s. (0, s)) (upd_phy p (\<lambda>d. d\<lparr>speed := fst m, duplex := snd m\<rparr>) s)"

definition lpa_mode :: "ethtool \<Rightarrow> u32 \<Rightarrow> u32 \<times> u32" where
  "lpa_mode c lpa =
     (if lpa AND (0x0100 OR 0x0080) \<noteq> 0 then
        (SPEED_100 c, if lpa AND 0x0100 \<noteq> 0 then DUPLEX_FULL c else DUPLEX_HALF c)
      else (SPEED_10 c, if lpa AND 0x0040 \<noteq> 0 then DUPLEX_FULL c else DUPLEX_HALF c))"

definition estatus_mode :: "ethtool \<Rightarrow> u32 \<Rightarrow> u32 \<times> u32 \<Rightarrow> u32 \<times> u32" where
  "estatus_mode c estatus m =
     (if estatus AND (0x8000 OR 0x4000 OR 0x2000 OR 0x1000) \<noteq> 0 then
        (SPEED_1000 c, if estatus AND (0x8000 OR 0x2000) \<noteq> 0 then DUPLEX_FULL c else snd m)
      else m)"

definition bmcr_mode :: "ethtool \<Rightarrow> u32 \<Rightarrow> u32 \<times> u32" where
  "bmcr_mode c bmcr =
     (if bmcr AND 0x0040 \<noteq> 0 then SPEED_1000 c else if bmcr AND 0x2000 \<noteq> 0 then SPEED_100 c else SPEED_10 c,
      if bmcr AND 0x0100 \<noteq> 0 then DUPLEX_FULL c else DUPLEX_HALF c)"

text \<open>The gigabit ability of both ends.\<close>

definition read_gblpa :: "'h phy_env \<Rightarrow> nat \<Rightarrow> u32 \<Rightarrow> 'h phy_state \<Rightarrow> (u32 \<times> 'h phy_state) option" where
  "read_gblpa e p can s = do {
     let c = eth_consts e;
     (if can AND (SUPPORTED_1000baseT_Full c OR SUPPORTED_1000baseT_Half c) \<noteq> 0 then do {
        (stat, s) \<leftarrow> phy_read e p (MDIO_DEVAD_NONE c) P_STAT1000 s;
        (ctrl, s) \<leftarrow> phy_read e p (MDIO_DEVAD_NONE c) P_CTRL1000 s;
        Some ((if stat < 0 then 0 else word_of_int stat) AND push_bit 2 (word_of_int ctrl), s) }
      else Some (0, s)) }"

definition genphy_parse_link :: "'h phy_env \<Rightarrow> nat \<Rightarrow> 'h phy_state \<Rightarrow> (int \<times> 'h phy_state) option" where
  "genphy_parse_link e p s = do {
     let c = eth_consts e;
     let none = MDIO_DEVAD_NONE c;
     (mii_reg, s) \<leftarrow> phy_read e p none P_BMSR s;
     d \<leftarrow> get_phy p s;
     (if autoneg d = AUTONEG_ENABLE c then do {
        (gblpa, s) \<leftarrow> read_gblpa e p (supported d) s;
        (if gblpa AND (0x0800 OR 0x0400) \<noteq> 0 then
           set_mode p (SPEED_1000 c, if gblpa AND 0x0800 \<noteq> 0 then DUPLEX_FULL c else DUPLEX_HALF c) s
         else do {
           (adv, s) \<leftarrow> phy_read e p none P_ADVERTISE s;
           (lpa, s) \<leftarrow> phy_read e p none P_LPA s;
           let m = lpa_mode c (word_of_int adv AND word_of_int lpa);
           (if word_of_int mii_reg AND (0x0100 :: u32) \<noteq> 0 \<and> word_of_int mii_reg AND (0x0001 :: u32) = 0 then do {
              (estatus, s) \<leftarrow> phy_read e p none P_ESTATUS s;
              set_mode p (estatus_mode c (word_of_int estatus) m) s }
            else set_mode p m s) }) }
      else do {
        (bmcr, s) \<leftarrow> phy_read e p none P_BMCR s;
        set_mode p (bmcr_mode c (word_of_int bmcr)) s }) }"

text \<open>The features a status register stands for.\<close>

definition bmsr_features :: "ethtool \<Rightarrow> u32 \<Rightarrow> u32" where
  "bmsr_features c val =
     SUPPORTED_TP c OR SUPPORTED_MII c OR SUPPORTED_AUI c OR SUPPORTED_FIBRE c OR SUPPORTED_BNC c OR
     bits_if (val AND 0x0008 \<noteq> 0) (SUPPORTED_Autoneg c) OR
     bits_if (val AND 0x4000 \<noteq> 0) (SUPPORTED_100baseT_Full c) OR
     bits_if (val AND 0x2000 \<noteq> 0) (SUPPORTED_100baseT_Half c) OR
     bits_if (val AND 0x1000 \<noteq> 0) (SUPPORTED_10baseT_Full c) OR
     bits_if (val AND 0x0800 \<noteq> 0) (SUPPORTED_10baseT_Half c)"

definition estatus_features :: "ethtool \<Rightarrow> u32 \<Rightarrow> u32" where
  "estatus_features c val =
     bits_if (val AND 0x2000 \<noteq> 0) (SUPPORTED_1000baseT_Full c) OR
     bits_if (val AND 0x1000 \<noteq> 0) (SUPPORTED_1000baseT_Half c) OR
     bits_if (val AND 0x8000 \<noteq> 0) (push_bit 22 1) OR
     bits_if (val AND 0x4000 \<noteq> 0) (push_bit 21 1)"

text \<open>The features are kept, and the result of \<^verbatim>\<open>genphy_config_aneg\<close> is ignored.\<close>

definition config_features :: "'h phy_env \<Rightarrow> nat \<Rightarrow> u32 \<Rightarrow> 'h phy_state \<Rightarrow> (int \<times> 'h phy_state) option" where
  "config_features e p features s = do {
     s \<leftarrow> upd_phy p (\<lambda>d. d\<lparr>supported := supported d AND features, advertising := advertising d AND features\<rparr>) s;
     (_, s) \<leftarrow> genphy_config_aneg e p s;
     Some (0, s) }"

definition genphy_config :: "'h phy_env \<Rightarrow> nat \<Rightarrow> 'h phy_state \<Rightarrow> (int \<times> 'h phy_state) option" where
  "genphy_config e p s = do {
     let c = eth_consts e;
     (val, s) \<leftarrow> phy_read e p (MDIO_DEVAD_NONE c) P_BMSR s;
     (if val < 0 then Some (val, s)
      else do {
        let features = bmsr_features c (word_of_int val);
        (if word_of_int val AND (0x0100 :: u32) \<noteq> 0 then do {
           (val, s) \<leftarrow> phy_read e p (MDIO_DEVAD_NONE c) P_ESTATUS s;
           (if val < 0 then Some (val, s)
            else config_features e p (features OR estatus_features c (word_of_int val)) s) }
         else config_features e p features s) }) }"

definition genphy_startup :: "'h phy_env \<Rightarrow> nat \<Rightarrow> 'h phy_state \<Rightarrow> (int \<times> 'h phy_state) option" where
  "genphy_startup e p s = do {
     (ret, s) \<leftarrow> genphy_update_link e p s;
     (if ret \<noteq> 0 then Some (ret, s) else genphy_parse_link e p s) }"

definition genphy_shutdown :: "nat \<Rightarrow> 'h phy_state \<Rightarrow> (int \<times> 'h phy_state) option" where
  "genphy_shutdown p s = Some (0, s)"

section \<open>Drivers\<close>

definition PHY_DEFAULT_FEATURES :: "ethtool \<Rightarrow> u32" where
  "PHY_DEFAULT_FEATURES c = SUPPORTED_Autoneg c OR SUPPORTED_TP c OR SUPPORTED_MII c"

definition PHY_10BT_FEATURES :: "ethtool \<Rightarrow> u32" where
  "PHY_10BT_FEATURES c = SUPPORTED_10baseT_Half c OR SUPPORTED_10baseT_Full c"

definition PHY_100BT_FEATURES :: "ethtool \<Rightarrow> u32" where
  "PHY_100BT_FEATURES c = SUPPORTED_100baseT_Half c OR SUPPORTED_100baseT_Full c"

definition PHY_1000BT_FEATURES :: "ethtool \<Rightarrow> u32" where
  "PHY_1000BT_FEATURES c = SUPPORTED_1000baseT_Half c OR SUPPORTED_1000baseT_Full c"

definition PHY_GBIT_FEATURES :: "ethtool \<Rightarrow> u32" where
  "PHY_GBIT_FEATURES c = PHY_10BT_FEATURES c OR PHY_100BT_FEATURES c OR PHY_DEFAULT_FEATURES c OR
     PHY_1000BT_FEATURES c"

text \<open>The name of the driver is only printed, and left empty here.\<close>

definition genphy_driver :: "ethtool \<Rightarrow> phy_driver" where
  "genphy_driver c = \<lparr>drv_name = [], drv_uid = 0xffffffff, drv_mask = 0xffffffff, drv_mmds = 0,
     drv_features = PHY_GBIT_FEATURES c OR SUPPORTED_MII c OR SUPPORTED_AUI c OR SUPPORTED_FIBRE c OR SUPPORTED_BNC c,
     drv_probe = None, drv_config = Some Genphy, drv_startup = Some Genphy, drv_shutdown = Some Genphy\<rparr>"

definition drv_of :: "'h phy_env \<Rightarrow> mii_vars \<Rightarrow> phy_device \<Rightarrow> phy_driver option" where
  "drv_of e v d = (case phy_drv d of None \<Rightarrow> Some (genphy_driver (eth_consts e)) | Some k \<Rightarrow> drivers v k)"

text \<open>None of the drivers \<^verbatim>\<open>phy_init\<close> could register is configured.\<close>

definition phy_init :: "mii_vars \<Rightarrow> int \<times> mii_vars" where
  "phy_init v = (0, v)"

definition phy_register :: "nat \<Rightarrow> mii_vars \<Rightarrow> int \<times> mii_vars" where
  "phy_register k v = (0, v\<lparr>phy_drivers := phy_drivers v @ [k]\<rparr>)"

definition speed_features :: "ethtool \<Rightarrow> u32 \<Rightarrow> u32 option" where
  "speed_features c max_speed =
     (if max_speed = SPEED_1000 c then
        Some (PHY_1000BT_FEATURES c OR PHY_100BT_FEATURES c OR PHY_10BT_FEATURES c)
      else if max_speed = SPEED_100 c then Some (PHY_100BT_FEATURES c OR PHY_10BT_FEATURES c)
      else if max_speed = SPEED_10 c then Some (PHY_10BT_FEATURES c)
      else None)"

definition phy_set_supported :: "'h phy_env \<Rightarrow> nat \<Rightarrow> u32 \<Rightarrow> 'h phy_state \<Rightarrow> (int \<times> 'h phy_state) option" where
  "phy_set_supported e p max_speed s = do {
     let c = eth_consts e;
     s \<leftarrow> upd_phy p (\<lambda>d. d\<lparr>supported := supported d AND PHY_DEFAULT_FEATURES c\<rparr>) s;
     (case speed_features c max_speed of
        None \<Rightarrow> Some (-524, s)
      | Some f \<Rightarrow> map_option (\<lambda>s. (0, s)) (upd_phy p (\<lambda>d. d\<lparr>supported := supported d OR f\<rparr>) s)) }"

definition phy_probe :: "'h phy_env \<Rightarrow> nat \<Rightarrow> 'h phy_state \<Rightarrow> (int \<times> 'h phy_state) option" where
  "phy_probe e p s = do {
     d \<leftarrow> get_phy p s;
     drv \<leftarrow> drv_of e (fst s) d;
     s \<leftarrow> upd_phy p (\<lambda>d. d\<lparr>advertising := drv_features drv, supported := drv_features drv, mmds := drv_mmds drv\<rparr>) s;
     (case drv_probe drv of None \<Rightarrow> Some (0, s) | Some f \<Rightarrow> drv_call e f p s) }"

text \<open>No 10G interface is configured: every interface has the generic driver.\<close>

definition generic_for_interface :: "u32 \<Rightarrow> nat option" where
  "generic_for_interface itf = None"

fun find_driver :: "(nat \<rightharpoonup> phy_driver) \<Rightarrow> u32 \<Rightarrow> nat list \<Rightarrow> nat option option" where
  "find_driver heap pid [] = Some None"
| "find_driver heap pid (k # ks) = do {
     drv \<leftarrow> heap k;
     (if drv_uid drv AND drv_mask drv = pid AND drv_mask drv then Some (Some k) else find_driver heap pid ks) }"

definition get_phy_driver :: "mii_vars \<Rightarrow> phy_device \<Rightarrow> u32 \<Rightarrow> nat option option" where
  "get_phy_driver v d itf = do {
     r \<leftarrow> find_driver (drivers v) (phy_id d) (phy_drivers v);
     Some (case r of None \<Rightarrow> generic_for_interface itf | Some k \<Rightarrow> Some k) }"

section \<open>Finding a PHY\<close>

text \<open>\<^verbatim>\<open>generic_ffs\<close> of \<^verbatim>\<open>include/common.h\<close>: five steps on an \<^verbatim>\<open>int\<close>, whose shifts are arithmetic.\<close>

definition ffs_step :: "u32 \<Rightarrow> nat \<Rightarrow> u32 \<times> nat \<Rightarrow> u32 \<times> nat" where
  "ffs_step m k xr = (case xr of (x, r) \<Rightarrow> if x AND m = 0 then (signed_drop_bit k x, r + k) else (x, r))"

definition generic_ffs :: "u32 \<Rightarrow> nat" where
  "generic_ffs x = (if x = 0 then 0
     else snd (ffs_step 1 1 (ffs_step 3 2 (ffs_step 0xf 4 (ffs_step 0xff 8 (ffs_step 0xffff 16 (x, 1)))))))"

lemma bit_below_32: "bit (x :: u32) n \<Longrightarrow> n < 32"
  using bit_imp_le_length [of x n] by simp

text \<open>The lowest bit that is set.\<close>

definition lowest_bit :: "u32 \<Rightarrow> nat \<Rightarrow> bool" where
  "lowest_bit x n \<longleftrightarrow> bit x n \<and> (\<forall>m < n. \<not> bit x m)"

lemma lowest_bit_exists:
  assumes "x \<noteq> 0"
  shows "\<exists>n < 32. lowest_bit x n"
proof -
  have "\<exists>n. bit x n" using assms by (metis bit_0_eq bit_eqI bot_apply bot_bool_def)
  then have "bit x (LEAST n. bit x n)" by (rule LeastI_ex)
  moreover from this have "(LEAST n. bit x n) < 32" using bit_imp_le_length by fastforce
  ultimately show ?thesis using not_less_Least unfolding lowest_bit_def by blast
qed

lemma and_low_mask: "x AND mask k = 0 \<longleftrightarrow> (\<forall>m < k. \<not> bit x m)" for x :: u32
  by (auto simp: bit_eq_iff bit_simps dest: bit_below_32)

lemma ffs_step_low:
  assumes "lowest_bit x n" "n < 2 * k" "m = mask k" "0 < k" "2 * k \<le> 32"
  shows "case ffs_step m k (x, r) of (x', r') \<Rightarrow> \<exists>n' < k. lowest_bit x' n' \<and> r' + n' = r + n"
proof (cases "x AND mask k = 0")
  case True
  then have ge: "k \<le> n" using assms(1) unfolding and_low_mask lowest_bit_def by (meson not_le)
  have "lowest_bit (signed_drop_bit k x) (n - k)"
    using assms ge by (auto simp: lowest_bit_def bit_signed_drop_bit_iff)
  moreover have "n - k < k" using assms(2) ge by simp
  ultimately show ?thesis using True ge assms(3) by (auto simp: ffs_step_def intro!: exI [of _ "n - k"])
next
  case False
  then obtain j where "j < k" "bit x j" unfolding and_low_mask by blast
  then have "n < k" using assms(1) unfolding lowest_bit_def by (meson leI le_less_trans)
  then show ?thesis using False assms(1,3) by (auto simp: ffs_step_def)
qed

lemma ffs_step_chain:
  assumes "\<exists>n < 2 * k. lowest_bit (fst xr) n \<and> snd xr + n = c" "m = mask k" "0 < k" "2 * k \<le> 32"
  shows "\<exists>n < k. lowest_bit (fst (ffs_step m k xr)) n \<and> snd (ffs_step m k xr) + n = c"
  using assms ffs_step_low [of "fst xr" _ k m "snd xr"] by (cases xr) (fastforce split: prod.splits)

lemma generic_ffs_lowest:
  assumes "lowest_bit x n"
  shows "generic_ffs x = Suc n"
proof -
  have nz: "x \<noteq> 0" and n: "n < 32" using assms bit_below_32 by (auto simp: lowest_bit_def)
  let ?low = "\<lambda>k xr. \<exists>j < k. lowest_bit (fst xr) j \<and> snd xr + j = Suc n"
  note step = ffs_step_chain [of _ _ "Suc n"]
  let ?x1 = "ffs_step 0xffff 16 (x, 1)"
  let ?x2 = "ffs_step 0xff 8 ?x1"
  let ?x3 = "ffs_step 0xf 4 ?x2"
  let ?x4 = "ffs_step 3 2 ?x3"
  have "?low (2 * 16) (x, 1)" using assms n by auto
  then have "?low (2 * 8) (ffs_step 0xffff 16 (x, 1))" using step [where k = 16 and xr = "(x, 1)" and m = "0xffff"]
    by (simp add: mask_eq_exp_minus_1)
  then have "?low (2 * 4) (ffs_step 0xff 8 ?x1)" using step [where k = 8 and xr = ?x1 and m = "0xff"]
    by (simp add: mask_eq_exp_minus_1)
  then have "?low (2 * 2) (ffs_step 0xf 4 ?x2)" using step [where k = 4 and xr = ?x2 and m = "0xf"]
    by (simp add: mask_eq_exp_minus_1)
  then have "?low (2 * 1) (ffs_step 3 2 ?x3)" using step [where k = 2 and xr = ?x3 and m = 3]
    by (simp add: mask_eq_exp_minus_1)
  then have "?low 1 (ffs_step 1 1 ?x4)" using step [where k = 1 and xr = ?x4 and m = 1] by (simp add: mask_eq_exp_minus_1)
  then show ?thesis using nz by (simp add: generic_ffs_def)
qed

lemma generic_ffs_0 [simp]: "generic_ffs 0 = 0"
  by (simp add: generic_ffs_def)

text \<open>The addresses a mask stands for, in the order the loops of \<^verbatim>\<open>phy.c\<close> visit them.\<close>

definition mask_bits :: "u32 \<Rightarrow> nat list" where
  "mask_bits m = filter (bit m) [0..<32]"

definition clear_addr :: "u32 \<Rightarrow> nat \<Rightarrow> u32" where
  "clear_addr m a = m AND NOT (push_bit a 1)"

lemma bit_clear_addr: "a < 32 \<Longrightarrow> bit (clear_addr m a) n \<longleftrightarrow> bit m n \<and> n \<noteq> a"
  by (auto simp: clear_addr_def bit_simps dest: bit_below_32)

lemma mask_bits_step:
  assumes "m \<noteq> 0"
  shows "mask_bits m = (generic_ffs m - 1) # mask_bits (clear_addr m (generic_ffs m - 1))"
    and "generic_ffs m - 1 < 32"
proof -
  obtain n where n: "n < 32" "lowest_bit m n" using lowest_bit_exists [OF assms] by blast
  have f: "generic_ffs m - 1 = n" using generic_ffs_lowest [OF n(2)] by simp
  have split: "[0..<32] = [0..<n] @ n # [Suc n..<32]" using n(1) using upt_add_eq_append [of 0 n "32 - n"] by (simp add: upt_conv_Cons)
  have "filter (bit m) [0..<n] = []" "filter (bit (clear_addr m n)) [0..<n] = []"
    using n(2) n(1) by (auto simp: filter_empty_conv lowest_bit_def bit_clear_addr)
  moreover have "filter (bit (clear_addr m n)) [Suc n..<32] = filter (bit m) [Suc n..<32]"
    using n(1) by (intro filter_cong) (auto simp: bit_clear_addr)
  ultimately show "mask_bits m = (generic_ffs m - 1) # mask_bits (clear_addr m (generic_ffs m - 1))"
    using n unfolding f mask_bits_def split by (simp add: lowest_bit_def bit_clear_addr)
  show "generic_ffs m - 1 < 32" using f n(1) by simp
qed

lemma mask_bits_0 [simp]: "mask_bits 0 = []"
  by (simp add: mask_bits_def)

lemma set_mask_bits [simp]: "a \<in> set (mask_bits m) \<longleftrightarrow> bit m a"
  using bit_imp_le_length [of m a] by (auto simp: mask_bits_def)

lemma clear_addr_less:
  assumes "m \<noteq> 0"
  shows "length (mask_bits (clear_addr m (generic_ffs m - 1))) < length (mask_bits m)"
  by (simp only: mask_bits_step(1) [OF assms] list.size)

text \<open>\<^verbatim>\<open>sizeof(struct phy_device)\<close> is 88, and \<^verbatim>\<open>malloc\<close> does not fail.\<close>

definition phy_device_create ::
  "'h phy_env \<Rightarrow> nat \<Rightarrow> nat \<Rightarrow> u32 \<Rightarrow> u32 \<Rightarrow> 'h phy_state \<Rightarrow> (nat \<times> 'h phy_state) option" where
  "phy_device_create e bus a pid itf s = (case s of (v, h) \<Rightarrow> case malloc (mii_mark v) 88 of (sz, q) \<Rightarrow> do {
     let p = unat q;
     let d = \<lparr>phy_bus = bus, phy_drv = None, phy_dev = None, speed = 0, duplex = -1, link = False, port = 0,
       interface = itf, advertising = 0, supported = 0, mmds = 0, autoneg = AUTONEG_ENABLE (eth_consts e),
       addr = of_nat a, pause = 0, asym_pause = 0, phy_id = pid, flags = 0\<rparr>;
     drv \<leftarrow> get_phy_driver v d itf;
     let v = v\<lparr>mii_mark := sz, phydevs := (phydevs v)(p \<mapsto> d\<lparr>phy_drv := drv\<rparr>)\<rparr>;
     (_, v, h) \<leftarrow> phy_probe e p (v, h);
     b \<leftarrow> mii_heap v bus;
     (if a < length (phymap b) then
        Some (p, v\<lparr>mii_heap := (mii_heap v)(bus \<mapsto> b\<lparr>phymap := (phymap b)[a := Some p]\<rparr>)\<rparr>, h)
      else None) })"

text \<open>The result, and the identification as far as it was read.\<close>

definition get_phy_id ::
  "'h phy_env \<Rightarrow> nat \<Rightarrow> nat \<Rightarrow> u32 \<Rightarrow> u32 \<Rightarrow> 'h phy_state \<Rightarrow> (int \<times> u32 \<times> 'h phy_state) option" where
  "get_phy_id e bus a devad pid s = (case s of (v, h) \<Rightarrow> do {
     (r, h) \<leftarrow> bus_read (mii e) v bus (of_nat a) devad P_PHYSID1 h;
     (if r < 0 then Some (-5, pid, v, h)
      else do {
        let pid = push_bit 16 (word_of_int r AND 0xffff);
        (r, h) \<leftarrow> bus_read (mii e) v bus (of_nat a) devad P_PHYSID2 h;
        (if r < 0 then Some (-5, pid, v, h)
         else Some (0, pid OR (word_of_int r AND 0xffff), v, h)) }) })"

function create_phy_by_mask_from ::
  "'h phy_env \<Rightarrow> nat \<Rightarrow> u32 \<Rightarrow> u32 \<Rightarrow> u32 \<Rightarrow> u32 \<Rightarrow> 'h phy_state \<Rightarrow> (nat option \<times> 'h phy_state) option" where
  "create_phy_by_mask_from e bus pmask devad itf pid s =
     (if pmask = 0 then Some (None, s)
      else do {
        let a = generic_ffs pmask - 1;
        (r, pid, s) \<leftarrow> get_phy_id e bus a devad pid s;
        (if r = 0 \<and> pid AND 0x1fffffff \<noteq> 0x1fffffff then do {
           (p, s) \<leftarrow> phy_device_create e bus a pid itf s;
           Some (Some p, s) }
         else create_phy_by_mask_from e bus (clear_addr pmask a) devad itf pid s) })"
  by pat_completeness auto
termination
  by (relation "measure (\<lambda>(_, _, m, _). length (mask_bits m))") (simp_all add: clear_addr_less del: One_nat_def)

declare create_phy_by_mask_from.simps [simp del]

definition create_phy_by_mask ::
  "'h phy_env \<Rightarrow> nat \<Rightarrow> u32 \<Rightarrow> u32 \<Rightarrow> u32 \<Rightarrow> 'h phy_state \<Rightarrow> (nat option \<times> 'h phy_state) option" where
  "create_phy_by_mask e bus pmask devad itf s = create_phy_by_mask_from e bus pmask devad itf 0xffffffff s"

function search_for_existing_phy ::
  "nat \<Rightarrow> u32 \<Rightarrow> u32 \<Rightarrow> 'h phy_state \<Rightarrow> (nat option \<times> 'h phy_state) option" where
  "search_for_existing_phy bus pmask itf s =
     (if pmask = 0 then Some (None, s)
      else do {
        let a = generic_ffs pmask - 1;
        b \<leftarrow> mii_heap (fst s) bus;
        (case phymap b ! a of
           Some p \<Rightarrow> map_option (\<lambda>s. (Some p, s)) (upd_phy p (\<lambda>d. d\<lparr>interface := itf\<rparr>) s)
         | None \<Rightarrow> search_for_existing_phy bus (clear_addr pmask a) itf s) })"
  by pat_completeness auto
termination
  by (relation "measure (\<lambda>(_, m, _). length (mask_bits m))") (simp_all add: clear_addr_less del: One_nat_def)

declare search_for_existing_phy.simps [simp del]

text \<open>The five attempts: clause 22, then the devices 1 to 4 of clause 45.\<close>

fun try_devads ::
  "'h phy_env \<Rightarrow> nat \<Rightarrow> u32 \<Rightarrow> u32 \<Rightarrow> u32 list \<Rightarrow> 'h phy_state \<Rightarrow> (nat option \<times> 'h phy_state) option" where
  "try_devads e bus pmask itf [] s = Some (None, s)"
| "try_devads e bus pmask itf (devad # ds) s = do {
     (r, s) \<leftarrow> create_phy_by_mask e bus pmask devad itf s;
     (case r of Some p \<Rightarrow> Some (Some p, s) | None \<Rightarrow> try_devads e bus pmask itf ds s) }"

definition get_phy_device_by_mask ::
  "'h phy_env \<Rightarrow> nat \<Rightarrow> u32 \<Rightarrow> u32 \<Rightarrow> 'h phy_state \<Rightarrow> (nat option \<times> 'h phy_state) option" where
  "get_phy_device_by_mask e bus pmask itf s = do {
     (r, s) \<leftarrow> search_for_existing_phy bus pmask itf s;
     (case r of Some p \<Rightarrow> Some (Some p, s)
      | None \<Rightarrow> try_devads e bus pmask itf [MDIO_DEVAD_NONE (eth_consts e), 1, 2, 3, 4] s) }"

definition get_phy_device ::
  "'h phy_env \<Rightarrow> nat \<Rightarrow> nat \<Rightarrow> u32 \<Rightarrow> 'h phy_state \<Rightarrow> (nat option \<times> 'h phy_state) option" where
  "get_phy_device e bus a itf s = (if a < 32 then get_phy_device_by_mask e bus (push_bit a 1) itf s else None)"

section \<open>Reset and connection\<close>

text \<open>The loop of \<^verbatim>\<open>phy_reset\<close>; \<open>None\<close> in the result is the failed read.\<close>

function reset_wait ::
  "'h phy_env \<Rightarrow> nat \<Rightarrow> nat \<Rightarrow> int \<Rightarrow> 'h phy_state \<Rightarrow> (int option \<times> 'h phy_state) option" where
  "reset_wait e p timeout reg s =
     (if word_of_int reg AND (0x8000 :: u32) \<noteq> 0 \<and> timeout \<noteq> 0 then do {
        (reg, s) \<leftarrow> phy_read e p (MDIO_DEVAD_NONE (eth_consts e)) P_BMCR s;
        (if reg < 0 then Some (None, s)
         else do {
           s \<leftarrow> phy_delay e 1000 s;
           reset_wait e p (timeout - 1) reg s }) }
      else Some (Some reg, s))"
  by pat_completeness auto
termination by (relation "measure (\<lambda>(_, _, n, _). n)") auto

declare reset_wait.simps [simp del]

definition phy_reset :: "'h phy_env \<Rightarrow> nat \<Rightarrow> 'h phy_state \<Rightarrow> (int \<times> 'h phy_state) option" where
  "phy_reset e p s = do {
     let none = MDIO_DEVAD_NONE (eth_consts e);
     d \<leftarrow> get_phy p s;
     (if flags d AND 1 \<noteq> 0 then Some (0, s)
      else do {
        (r, s) \<leftarrow> phy_write e p none P_BMCR 0x8000 s;
        (if r < 0 then Some (-1, s)
         else do {
           (reg, s) \<leftarrow> phy_read e p none P_BMCR s;
           (reg, s) \<leftarrow> reset_wait e p 500 reg s;
           (case reg of None \<Rightarrow> Some (-1, s)
            | Some reg \<Rightarrow> Some (if word_of_int reg AND (0x8000 :: u32) \<noteq> 0 then -1 else 0, s)) }) }) }"

text \<open>A missing bus, or a PHY that was not found, is a \<^verbatim>\<open>NULL\<close> pointer that is dereferenced.\<close>

definition miiphy_reset :: "'h phy_env \<Rightarrow> bytes \<Rightarrow> u8 \<Rightarrow> 'h phy_state \<Rightarrow> (int \<times> 'h phy_state) option" where
  "miiphy_reset e devname adr s = do {
     r \<leftarrow> miiphy_get_dev_by_name (fst s) (Some devname);
     bus \<leftarrow> r;
     (r, s) \<leftarrow> get_phy_device e bus (unat adr) 0 s;
     p \<leftarrow> r;
     phy_reset e p s }"

definition phy_find_by_mask ::
  "'h phy_env \<Rightarrow> nat \<Rightarrow> u32 \<Rightarrow> u32 \<Rightarrow> 'h phy_state \<Rightarrow> (nat option \<times> 'h phy_state) option" where
  "phy_find_by_mask e bus pmask itf s = (case s of (v, h) \<Rightarrow> do {
     b \<leftarrow> mii_heap v bus;
     h \<leftarrow> (case mii_reset b of None \<Rightarrow> Some h
       | Some f \<Rightarrow> bus_fn_reset (mii e) f bus h \<bind> mdelay (clk e) 15);
     get_phy_device_by_mask e bus pmask itf (v, h) })"

definition phy_connect_dev :: "'h phy_env \<Rightarrow> nat \<Rightarrow> nat \<Rightarrow> 'h phy_state \<Rightarrow> 'h phy_state option" where
  "phy_connect_dev e p dev s = do {
     (_, s) \<leftarrow> phy_reset e p s;
     upd_phy p (\<lambda>d. d\<lparr>phy_dev := Some dev\<rparr>) s }"

definition phy_connect ::
  "'h phy_env \<Rightarrow> nat \<Rightarrow> nat \<Rightarrow> nat \<Rightarrow> u32 \<Rightarrow> 'h phy_state \<Rightarrow> (nat option \<times> 'h phy_state) option" where
  "phy_connect e bus a dev itf s = do {
     (r, s) \<leftarrow> (if a < 32 then phy_find_by_mask e bus (push_bit a 1) itf s else None);
     (case r of None \<Rightarrow> Some (None, s)
      | Some p \<Rightarrow> map_option (\<lambda>s. (Some p, s)) (phy_connect_dev e p dev s)) }"

section \<open>Calls through the driver\<close>

definition phy_startup :: "'h phy_env \<Rightarrow> nat \<Rightarrow> 'h phy_state \<Rightarrow> (int \<times> 'h phy_state) option" where
  "phy_startup e p s = do {
     d \<leftarrow> get_phy p s;
     drv \<leftarrow> drv_of e (fst s) d;
     (case drv_startup drv of None \<Rightarrow> Some (0, s)
      | Some Genphy \<Rightarrow> genphy_startup e p s | Some (Drv_fn f) \<Rightarrow> drv_call e f p s) }"

definition board_phy_config :: "'h phy_env \<Rightarrow> nat \<Rightarrow> 'h phy_state \<Rightarrow> (int \<times> 'h phy_state) option" where
  "board_phy_config e p s = do {
     d \<leftarrow> get_phy p s;
     drv \<leftarrow> drv_of e (fst s) d;
     (case drv_config drv of None \<Rightarrow> Some (0, s)
      | Some Genphy \<Rightarrow> genphy_config e p s | Some (Drv_fn f) \<Rightarrow> drv_call e f p s) }"

definition phy_config :: "'h phy_env \<Rightarrow> nat \<Rightarrow> 'h phy_state \<Rightarrow> (int \<times> 'h phy_state) option" where
  "phy_config e p s = board_phy_config e p s"

definition phy_shutdown :: "'h phy_env \<Rightarrow> nat \<Rightarrow> 'h phy_state \<Rightarrow> (int \<times> 'h phy_state) option" where
  "phy_shutdown e p s = do {
     d \<leftarrow> get_phy p s;
     drv \<leftarrow> drv_of e (fst s) d;
     s \<leftarrow> (case drv_shutdown drv of None \<Rightarrow> Some s
       | Some Genphy \<Rightarrow> map_option snd (genphy_shutdown p s) | Some (Drv_fn f) \<Rightarrow> map_option snd (drv_call e f p s));
     Some (0, s) }"

text \<open>The names of the interface modes, by their numbers; a string argument ends before its \<^verbatim>\<open>NUL\<close>.\<close>

definition phy_interface_strings :: "string list" where
  "phy_interface_strings = [''mii'', ''gmii'', ''sgmii'', ''sgmii-2500'', ''qsgmii'', ''tbi'', ''rmii'', ''rgmii'',
     ''rgmii-id'', ''rgmii-rxid'', ''rgmii-txid'', ''rtbi'', ''xgmii'', ''xaui'', ''rxaui'', ''sfi'', '''']"

definition phy_string_for_interface :: "nat \<Rightarrow> string" where
  "phy_string_for_interface i = phy_interface_strings ! (if i > 16 then 16 else i)"

fun find_interface :: "string \<Rightarrow> int \<Rightarrow> string list \<Rightarrow> int" where
  "find_interface str i [] = -1"
| "find_interface str i (n # ns) = (if str = n then i else find_interface str (i + 1) ns)"

definition phy_get_interface_by_name :: "string \<Rightarrow> int" where
  "phy_get_interface_by_name str = find_interface str 0 phy_interface_strings"

definition phy_interface_is_rgmii :: "phy_device \<Rightarrow> bool" where
  "phy_interface_is_rgmii d \<longleftrightarrow> interface d \<ge> 7 \<and> interface d \<le> 10"

definition phy_interface_is_sgmii :: "phy_device \<Rightarrow> bool" where
  "phy_interface_is_sgmii d \<longleftrightarrow> interface d \<ge> 2 \<and> interface d \<le> 4"

end
