(* ===== verification/PhyBench.thy ===== *)
theory PhyBench
  imports Phy
begin

text \<open>
  A bench for the PHY layer, on which the witnesses of its theorems run: the constants of
  \<^verbatim>\<open>linux/ethtool.h\<close> and \<^verbatim>\<open>linux/mdio.h\<close> as the Linux documentation gives them, one bus with one PHY, and
  four machines behind the bus: a register file, a PHY that is busy for some reads, one that does
  not answer, and a bus with a single PHY at address 5.
\<close>

definition linux_consts :: ethtool where
  "linux_consts = \<lparr>SPEED_10 = 10, SPEED_100 = 100, SPEED_1000 = 1000, DUPLEX_HALF = 0, DUPLEX_FULL = 1,
     AUTONEG_ENABLE = 1, MDIO_DEVAD_NONE = -1, SUPPORTED_10baseT_Half = 1, SUPPORTED_10baseT_Full = 2,
     SUPPORTED_100baseT_Half = 4, SUPPORTED_100baseT_Full = 8, SUPPORTED_1000baseT_Half = 16,
     SUPPORTED_1000baseT_Full = 32, SUPPORTED_Autoneg = 64, SUPPORTED_TP = 128, SUPPORTED_AUI = 256,
     SUPPORTED_MII = 512, SUPPORTED_FIBRE = 1024, SUPPORTED_BNC = 2048, ADVERTISED_10baseT_Half = 1,
     ADVERTISED_10baseT_Full = 2, ADVERTISED_100baseT_Half = 4, ADVERTISED_100baseT_Full = 8,
     ADVERTISED_Pause = 8192, ADVERTISED_Asym_Pause = 16384, ADVERTISED_1000baseX_Half = 16,
     ADVERTISED_1000baseX_Full = 32\<rparr>"

definition bench_bus :: mii_dev where
  "bench_bus = \<lparr>mii_name = [0x65, 0], mii_priv = None, mii_read = Some (Bus_fn 0), mii_write = Some (Bus_fn 0),
     mii_reset = None, phymap = replicate 32 None, phy_mask = 0\<rparr>"

definition bench_phy :: phy_device where
  "bench_phy = \<lparr>phy_bus = 3, phy_drv = None, phy_dev = None, speed = 0, duplex = -1, link = False, port = 0,
     interface = 7, advertising = 0xff, supported = 0x3f, mmds = 0, autoneg = 1, addr = 5, pause = 0, asym_pause = 0,
     phy_id = 0, flags = 0\<rparr>"

definition bench_mii :: mii_vars where
  "bench_mii = \<lparr>mii_heap = [3 \<mapsto> bench_bus], ldevs = Map.empty, phydevs = [2 \<mapsto> bench_phy], drivers = Map.empty,
     mii_devs = [3], current_mii = Some 3, phy_drivers = [], mii_mark = 1000\<rparr>"

text \<open>A machine is given by what a read of a register and a write to it do.\<close>

definition bench_env ::
  "(nat \<Rightarrow> u32 \<Rightarrow> u32 \<Rightarrow> 'h \<Rightarrow> int \<times> 'h) \<Rightarrow> (u32 \<Rightarrow> u16 \<Rightarrow> 'h \<Rightarrow> 'h) \<Rightarrow> 'h clock \<Rightarrow> 'h phy_env" where
  "bench_env r w c = \<lparr>eth_consts = linux_consts,
     mii = \<lparr>bus_fn_read = \<lambda>k b adr devad reg h. Some (r (unat adr) devad reg h),
       bus_fn_write = \<lambda>k b adr devad reg val h. Some (0, w reg val h), bus_fn_reset = \<lambda>k b h. Some h,
       ldev_fn_read = \<lambda>k n adr reg h. None, ldev_fn_write = \<lambda>k n adr reg val h. None\<rparr>,
     clk = c, drv_call = \<lambda>k p s. None\<rparr>"

lemma bench_mii_sel [simp]:
  "mii_heap bench_mii 3 = Some bench_bus" "phydevs bench_mii 2 = Some bench_phy" "phy_drivers bench_mii = []"
  "mii_mark bench_mii = 1000" "phymap bench_bus = replicate 32 None"
  by (simp_all add: bench_mii_def bench_bus_def)

lemma bench_phy_sel [simp]:
  "phy_bus bench_phy = 3" "addr bench_phy = 5" "autoneg bench_phy = 1" "link bench_phy = False" "flags bench_phy = 0"
  "supported bench_phy = 0x3f" "advertising bench_phy = 0xff"
  by (simp_all add: bench_phy_def)

lemma bench_env_sel [simp]:
  "eth_consts (bench_env r w c) = linux_consts" "clk (bench_env r w c) = c"
  "bus_read (mii (bench_env r w c)) bench_mii 3 a devad reg h = Some (r (unat a) devad reg h)"
  "bus_write (mii (bench_env r w c)) bench_mii 3 a devad reg val h = Some (0, w reg val h)"
  by (simp_all add: bench_env_def bus_read_def bus_write_def bench_mii_def bench_bus_def)

lemma linux_consts_sel [simp]: "AUTONEG_ENABLE linux_consts = 1" "MDIO_DEVAD_NONE linux_consts = -1"
  by (simp_all add: linux_consts_def)

section \<open>The machines\<close>

text \<open>A register file.\<close>

definition file_env :: "(u32 \<Rightarrow> u16) phy_env" where
  "file_env = bench_env (\<lambda>_ _ reg h. (int (unat (h reg)), h)) (\<lambda>reg val h. h(reg := val)) (\<lambda>h. (0, h))"

text \<open>A PHY that needs three reads after a write; its clock shows its two extreme values in turn.\<close>

definition busy_env :: "(bool \<times> nat) phy_env" where
  "busy_env = bench_env (\<lambda>_ _ _ (b, l). (if l \<noteq> 0 then 0x8000 else 0x20, b, l - 1)) (\<lambda>_ _ (b, l). (b, 3))
     (\<lambda>(b, l). (if b then -1 else 0, \<not> b, l))"

definition deaf_env :: "unit phy_env" where
  "deaf_env = bench_env (\<lambda>_ _ _ h. (-1, h)) (\<lambda>_ _ h. h) (\<lambda>h. (0, h))"

definition lone_regs :: "nat \<Rightarrow> u32 \<Rightarrow> u32 \<Rightarrow> int" where
  "lone_regs a devad reg = (if (of_nat a :: u32) = 5 \<and> devad = -1 then 0x1c else 0xffff)"

definition lone_env :: "unit phy_env" where
  "lone_env = bench_env (\<lambda>a devad reg h. (lone_regs a devad reg, h)) (\<lambda>_ _ h. h) (\<lambda>h. (0, h))"

lemma busy_delay: "\<exists>b'. udelay (clk busy_env) 1000 (b, l) = Some (b', l)"
proof -
  let ?c = "\<lambda>(b, l :: nat). (if b then -1 else 0 :: u64, \<not> b, l)"
  have late: "delay_poll ?c t (True, l) = Some (False, l)" if "t < -1" for t
    using that by (subst delay_poll.simps) (auto simp: read_timer_def)
  have early: "delay_poll ?c t (False, l) = delay_poll ?c t (True, l)" for t
    by (subst delay_poll.simps) (simp add: read_timer_def)
  have "udelay_raw ?c 1000 (b, l) = Some (False, l)"
    by (cases b) (simp_all add: udelay_raw_def read_timer_def early late)
  then show ?thesis by (intro exI [of _ False]) (subst udelay.simps, simp add: busy_env_def)
qed

end
