(* ===== verification/Autoneg.thy ===== *)
theory Autoneg
  imports PhyBench
begin

text \<open>
  What the generic PHY driver does to a PHY. The PHY is a file of 16-bit registers behind its bus
  (\<open>reg_file\<close>, a hypothesis on the bus, which is a parameter). The lemmas give the mode
  \<^verbatim>\<open>genphy_parse_link\<close> resolves, what \<^verbatim>\<open>genphy_config_advert\<close> leaves advertised, and how long
  \<^verbatim>\<open>phy_reset\<close> and \<^verbatim>\<open>genphy_update_link\<close> wait.
\<close>

section \<open>A PHY as a register file\<close>

text \<open>\<open>regs h\<close> is what the registers of the PHY hold in the machine state \<open>h\<close>.\<close>

definition reg_file :: "'h phy_env \<Rightarrow> mii_vars \<Rightarrow> phy_device \<Rightarrow> ('h \<Rightarrow> u32 \<Rightarrow> u16) \<Rightarrow> bool" where
  "reg_file e v d regs \<longleftrightarrow>
     (\<forall>h reg. \<exists>h'. bus_read (mii e) v (phy_bus d) (addr d) (MDIO_DEVAD_NONE (eth_consts e)) reg h =
        Some (int (unat (regs h reg)), h') \<and> regs h' = regs h) \<and>
     (\<forall>h reg val. \<exists>h'. bus_write (mii e) v (phy_bus d) (addr d) (MDIO_DEVAD_NONE (eth_consts e)) reg val h =
        Some (0, h') \<and> regs h' = (regs h)(reg := val))"

lemma legacy_io_phydevs:
  "legacy_miiphy_read ops (v\<lparr>phydevs := x\<rparr>) = legacy_miiphy_read ops v"
  "legacy_miiphy_write ops (v\<lparr>phydevs := x\<rparr>) = legacy_miiphy_write ops v"
  by (intro ext; simp add: legacy_miiphy_read_def legacy_miiphy_write_def)+

lemma bus_io_phydevs [simp]:
  "bus_read ops (v\<lparr>phydevs := x\<rparr>) = bus_read ops v"
  "bus_write ops (v\<lparr>phydevs := x\<rparr>) = bus_write ops v"
  by (intro ext; simp add: bus_read_def bus_write_def legacy_io_phydevs cong: mii_fn.case_cong)+

lemma phydevs_same [simp]: "v\<lparr>phydevs := phydevs v\<rparr> = v"
  by (cases v) simp

text \<open>A device is changed in its speed, duplex, link or abilities, not in its place.\<close>

definition same_place :: "phy_device \<Rightarrow> phy_device \<Rightarrow> bool" where
  "same_place d d' \<longleftrightarrow> phy_bus d' = phy_bus d \<and> addr d' = addr d"

lemma phy_read_file:
  assumes "reg_file e v d regs" "phydevs v' p = Some d'" "same_place d d'"
    "v' = v\<lparr>phydevs := x\<rparr>"
  obtains h' where "phy_read e p (MDIO_DEVAD_NONE (eth_consts e)) reg (v', h) = Some (int (unat (regs h reg)), v', h')"
    "regs h' = regs h"
proof -
  obtain h' where "bus_read (mii e) v (phy_bus d) (addr d) (MDIO_DEVAD_NONE (eth_consts e)) reg h =
      Some (int (unat (regs h reg)), h')" "regs h' = regs h"
    using assms(1) unfolding reg_file_def by blast
  then show ?thesis using assms that by (auto simp: phy_read_def same_place_def)
qed

lemma phy_write_file:
  assumes "reg_file e v d regs" "phydevs v' p = Some d'" "same_place d d'"
    "v' = v\<lparr>phydevs := x\<rparr>"
  obtains h' where "phy_write e p (MDIO_DEVAD_NONE (eth_consts e)) reg val (v', h) = Some (0, v', h')"
    "regs h' = (regs h)(reg := val)"
proof -
  obtain h' where "bus_write (mii e) v (phy_bus d) (addr d) (MDIO_DEVAD_NONE (eth_consts e)) reg val h = Some (0, h')"
      "regs h' = (regs h)(reg := val)"
    using assms(1) unfolding reg_file_def by blast
  then show ?thesis using assms that by (auto simp: phy_write_def same_place_def)
qed

section \<open>The mode both ends can do\<close>

text \<open>The modes of 802.3 and the order in which they are preferred. Neither end can refuse the least.\<close>

datatype link_mode = M10_half | M10_full | M100_half | M100_full | M1000_half | M1000_full

fun preference :: "link_mode \<Rightarrow> nat" where
  "preference M10_half = 0"
| "preference M10_full = 1"
| "preference M100_half = 2"
| "preference M100_full = 3"
| "preference M1000_half = 4"
| "preference M1000_full = 5"

lemma preference_inj: "preference m = preference n \<Longrightarrow> m = n"
  by (cases m; cases n; simp)

instantiation link_mode :: linorder
begin

definition less_eq_link_mode :: "link_mode \<Rightarrow> link_mode \<Rightarrow> bool" where
  "m \<le> n \<longleftrightarrow> preference m \<le> preference n"

definition less_link_mode :: "link_mode \<Rightarrow> link_mode \<Rightarrow> bool" where
  "m < n \<longleftrightarrow> preference m < preference n"

instance
  by standard (auto simp: less_eq_link_mode_def less_link_mode_def preference_inj)

end

text \<open>What both ends announce; gigabit modes count for a device that supports them.\<close>

fun both_can :: "ethtool \<Rightarrow> u32 \<Rightarrow> (u32 \<Rightarrow> u16) \<Rightarrow> link_mode \<Rightarrow> bool" where
  "both_can c can regs M1000_full \<longleftrightarrow> can AND PHY_1000BT_FEATURES c \<noteq> 0 \<and> bit (regs P_STAT1000) 11 \<and> bit (regs P_CTRL1000) 9"
| "both_can c can regs M1000_half \<longleftrightarrow> can AND PHY_1000BT_FEATURES c \<noteq> 0 \<and> bit (regs P_STAT1000) 10 \<and> bit (regs P_CTRL1000) 8"
| "both_can c can regs M100_full \<longleftrightarrow> bit (regs P_ADVERTISE) 8 \<and> bit (regs P_LPA) 8"
| "both_can c can regs M100_half \<longleftrightarrow> bit (regs P_ADVERTISE) 7 \<and> bit (regs P_LPA) 7"
| "both_can c can regs M10_full \<longleftrightarrow> bit (regs P_ADVERTISE) 6 \<and> bit (regs P_LPA) 6"
| "both_can c can regs M10_half \<longleftrightarrow> True"

definition best_mode :: "ethtool \<Rightarrow> u32 \<Rightarrow> (u32 \<Rightarrow> u16) \<Rightarrow> link_mode" where
  "best_mode c can regs = Max {m. both_can c can regs m}"

fun mode_of :: "ethtool \<Rightarrow> link_mode \<Rightarrow> u32 \<times> u32" where
  "mode_of c M1000_full = (SPEED_1000 c, DUPLEX_FULL c)"
| "mode_of c M1000_half = (SPEED_1000 c, DUPLEX_HALF c)"
| "mode_of c M100_full = (SPEED_100 c, DUPLEX_FULL c)"
| "mode_of c M100_half = (SPEED_100 c, DUPLEX_HALF c)"
| "mode_of c M10_full = (SPEED_10 c, DUPLEX_FULL c)"
| "mode_of c M10_half = (SPEED_10 c, DUPLEX_HALF c)"

lemma best_mode_down:
  "best_mode c can regs = (if both_can c can regs M1000_full then M1000_full else if both_can c can regs M1000_half then M1000_half
     else if both_can c can regs M100_full then M100_full else if both_can c can regs M100_half then M100_half
     else if both_can c can regs M10_full then M10_full else M10_half)" (is "_ = ?best")
proof -
  have all: "m \<in> {M10_half, M10_full, M100_half, M100_full, M1000_half, M1000_full}" for m by (cases m) simp_all
  then have "{m. both_can c can regs m} \<subseteq> {M10_half, M10_full, M100_half, M100_full, M1000_half, M1000_full}" by blast
  then have fin: "finite {m. both_can c can regs m}" by (rule finite_subset) simp
  show ?thesis unfolding best_mode_def
  proof (intro Max_eqI fin)
    show "k \<le> ?best" if "k \<in> {m. both_can c can regs m}" for k
      using that by (cases k) (simp_all add: less_eq_link_mode_def del: both_can.simps)
    show "?best \<in> {m. both_can c can regs m}" by (simp del: both_can.simps(1-5))
  qed
qed

lemma and_bits32:
  "x AND 0x0040 = 0 \<longleftrightarrow> \<not> bit x 6" "x AND 0x0080 = 0 \<longleftrightarrow> \<not> bit x 7"
  "x AND 0x0100 = 0 \<longleftrightarrow> \<not> bit x 8" "x AND 0x0400 = 0 \<longleftrightarrow> \<not> bit x 10"
  "x AND 0x0800 = 0 \<longleftrightarrow> \<not> bit x 11" "x AND 1 = 0 \<longleftrightarrow> \<not> bit x 0" for x :: u32
  using and_exp_eq_0_iff_not_bit [of x 6] and_exp_eq_0_iff_not_bit [of x 7] and_exp_eq_0_iff_not_bit [of x 8]
    and_exp_eq_0_iff_not_bit [of x 10] and_exp_eq_0_iff_not_bit [of x 11] and_exp_eq_0_iff_not_bit [of x 0]
  by simp_all

lemma and_or_zero: "x AND (y OR z) = 0 \<longleftrightarrow> x AND y = 0 \<and> x AND z = 0" for x :: "'a::len word"
  by (simp add: bit.conj_disj_distrib or_eq_0_iff)

lemma bit_reg: "bit (word_of_int (int (unat x)) :: u32) n \<longleftrightarrow> bit x n" for x :: u16
  using bit_imp_le_length [of x n] by (auto simp: bit_ucast_iff)

text \<open>The mode the registers resolve to, without the extended status.\<close>

lemma resolved_mode:
  fixes regs :: "u32 \<Rightarrow> u16"
  defines "w \<equiv> \<lambda>r. word_of_int (int (unat (regs r))) :: u32"
  assumes gb: "gb = (if can AND PHY_1000BT_FEATURES c \<noteq> 0 then w P_STAT1000 AND push_bit 2 (w P_CTRL1000) else 0)"
  shows "(if gb AND (0x0800 OR 0x0400) \<noteq> 0 then
      (SPEED_1000 c, if gb AND 0x0800 \<noteq> 0 then DUPLEX_FULL c else DUPLEX_HALF c)
    else lpa_mode c (w P_ADVERTISE AND w P_LPA)) = mode_of c (best_mode c can regs)"
proof -
  have b: "bit (w r) n \<longleftrightarrow> bit (regs r) n" for r n unfolding w_def by (rule bit_reg)
  have g: "gb AND (0x0800 OR 0x0400) = 0 \<longleftrightarrow> \<not> bit gb 11 \<and> \<not> bit gb 10" "gb AND 0x0800 = 0 \<longleftrightarrow> \<not> bit gb 11"
    by (simp_all only: and_or_zero and_bits32)
  have gbit: "bit gb 11 \<longleftrightarrow> both_can c can regs M1000_full" "bit gb 10 \<longleftrightarrow> both_can c can regs M1000_half"
    by (auto simp: gb bit_simps b)
  have l: "lpa_mode c x = (if bit x 8 then (SPEED_100 c, DUPLEX_FULL c) else if bit x 7 then (SPEED_100 c, DUPLEX_HALF c)
      else if bit x 6 then (SPEED_10 c, DUPLEX_FULL c) else (SPEED_10 c, DUPLEX_HALF c))" for x
    unfolding lpa_mode_def and_or_zero and_bits32 by simp
  have lbit: "bit (w P_ADVERTISE AND w P_LPA) 8 \<longleftrightarrow> both_can c can regs M100_full"
    "bit (w P_ADVERTISE AND w P_LPA) 7 \<longleftrightarrow> both_can c can regs M100_half"
    "bit (w P_ADVERTISE AND w P_LPA) 6 \<longleftrightarrow> both_can c can regs M10_full"
    by (simp_all add: bit_simps b)
  show ?thesis unfolding g l gbit lbit best_mode_down by (simp del: both_can.simps)
qed

lemma set_mode_eq:
  assumes "phydevs v p = Some d"
  shows "set_mode p m (v, h) =
    Some (0, v\<lparr>phydevs := (phydevs v)(p \<mapsto> d\<lparr>speed := fst m, duplex := snd m\<rparr>)\<rparr>, h)"
  using assms by (simp add: set_mode_def upd_phy_def)

text \<open>
  C15: with autonegotiation on, \<^verbatim>\<open>genphy_parse_link\<close> sets the speed and the duplex of the device to the
  best mode that the PHY and its partner both announce, in the order of preference of 802.3 from 10BASE-T half duplex
  up to 1000BASE-T full duplex, and returns 0; gigabit modes count only for a device that supports them. The PHY
  has no extended status without extended registers.
\<close>

theorem parse_link_best:
  assumes rf: "reg_file e v d regs" and d: "phydevs v p = Some d"
    and an: "autoneg d = AUTONEG_ENABLE (eth_consts e)"
    and ext: "bit (regs h P_BMSR) 8 \<longrightarrow> bit (regs h P_BMSR) 0"
  shows "\<exists>h' m. best_mode (eth_consts e) (supported d) (regs h) = m \<and> regs h' = regs h \<and>
    genphy_parse_link e p (v, h) = Some (0, v\<lparr>phydevs := (phydevs v)(p \<mapsto>
      d\<lparr>speed := fst (mode_of (eth_consts e) m), duplex := snd (mode_of (eth_consts e) m)\<rparr>)\<rparr>, h')"
proof -
  let ?c = "eth_consts e" and ?none = "MDIO_DEVAD_NONE (eth_consts e)"
  let ?w = "\<lambda>r. word_of_int (int (unat (regs h r))) :: u32"
  let ?can = "supported d AND PHY_1000BT_FEATURES ?c \<noteq> 0"
  obtain m where m: "best_mode ?c (supported d) (regs h) = m" by simp
  have rd: "\<exists>h2. phy_read e p ?none r (v, h1) = Some (int (unat (regs h1 r)), v, h2) \<and> regs h2 = regs h1" for r h1
    by (rule phy_read_file [OF rf d, where x = "phydevs v" and h = h1 and reg = r]) (simp_all add: same_place_def)
  obtain h1 where r1: "phy_read e p ?none P_BMSR (v, h) = Some (int (unat (regs h P_BMSR)), v, h1)" "regs h1 = regs h"
    using rd by blast
  define gb where "gb = (if ?can then ?w P_STAT1000 AND push_bit 2 (?w P_CTRL1000) else 0)"
  have "\<exists>h2. read_gblpa e p (supported d) (v, h1) = Some (gb, v, h2) \<and> regs h2 = regs h"
  proof (cases ?can)
    case True
    obtain ha where ra: "phy_read e p ?none P_STAT1000 (v, h1) = Some (int (unat (regs h1 P_STAT1000)), v, ha)"
      "regs ha = regs h1" using rd by blast
    obtain hb where "phy_read e p ?none P_CTRL1000 (v, ha) = Some (int (unat (regs ha P_CTRL1000)), v, hb)"
      "regs hb = regs ha" using rd by blast
    with True ra r1(2) show ?thesis by (simp add: read_gblpa_def gb_def PHY_1000BT_FEATURES_def or.commute)
  qed (use r1(2) in \<open>simp add: read_gblpa_def gb_def PHY_1000BT_FEATURES_def or.commute\<close>)
  then obtain h2 where r2: "read_gblpa e p (supported d) (v, h1) = Some (gb, v, h2)" "regs h2 = regs h" by blast
  have res: "(if gb AND (0x0800 OR 0x0400) \<noteq> 0 then
        (SPEED_1000 ?c, if gb AND 0x0800 \<noteq> 0 then DUPLEX_FULL ?c else DUPLEX_HALF ?c)
      else lpa_mode ?c (?w P_ADVERTISE AND ?w P_LPA)) = mode_of ?c m"
    using resolved_mode [OF gb_def] m by simp
  obtain h3 where r3: "phy_read e p ?none P_ADVERTISE (v, h2) = Some (int (unat (regs h2 P_ADVERTISE)), v, h3)"
    "regs h3 = regs h2" using rd by blast
  obtain h4 where r4: "phy_read e p ?none P_LPA (v, h3) = Some (int (unat (regs h3 P_LPA)), v, h4)"
    "regs h4 = regs h3" using rd by blast
  have no_ext: "\<not> (?w P_BMSR AND 0x0100 \<noteq> 0 \<and> ?w P_BMSR AND 0x0001 = 0)"
    using ext unfolding and_bits32 bit_reg by simp
  show ?thesis
  proof (cases "gb AND (0x0800 OR 0x0400) \<noteq> 0")
    case True
    with r1 r2 d an res m show ?thesis
      by (intro exI [of _ h2] exI [of _ m]) (simp add: genphy_parse_link_def get_phy_def set_mode_eq Let_def)
  next
    case False
    then have "genphy_parse_link e p (v, h) = set_mode p (mode_of ?c m) (v, h4)"
      using r1 r2 r3 r4 d an res no_ext by (auto simp: genphy_parse_link_def get_phy_def Let_def)
    then show ?thesis using m r2 r3 r4 d
      by (intro exI [of _ h4] exI [of _ m]) (simp add: set_mode_eq)
  qed
qed

theorem parse_link_best_witness:
  "\<exists>h' m. best_mode (eth_consts file_env) (supported bench_phy) ((\<lambda>h. h) (\<lambda>_. 0x0de1)) = m \<and> (\<lambda>h. h) h' = (\<lambda>h. h) (\<lambda>_. 0x0de1) \<and>
    genphy_parse_link file_env 2 (bench_mii, (\<lambda>_. 0x0de1)) = Some (0, bench_mii\<lparr>phydevs := (phydevs bench_mii)(2 \<mapsto>
      bench_phy\<lparr>speed := fst (mode_of (eth_consts file_env) m), duplex := snd (mode_of (eth_consts file_env) m)\<rparr>)\<rparr>, h')"
proof (rule parse_link_best [where regs = "\<lambda>h. h"])
  show "reg_file file_env bench_mii bench_phy (\<lambda>h. h)" by (simp add: reg_file_def file_env_def)
qed (simp_all add: file_env_def bit_simps)

section \<open>What is advertised\<close>

text \<open>The registers \<^verbatim>\<open>genphy_config_advert\<close> leaves: the rest of a register is kept.\<close>

definition adv_reg :: "ethtool \<Rightarrow> u32 \<Rightarrow> u16 \<Rightarrow> u16" where
  "adv_reg c adv old = ucast ((ucast old AND NOT (0x01e0 OR 0x0200 OR 0x0400 OR 0x0800)) OR adv_bits c adv)"

definition ctrl_reg :: "ethtool \<Rightarrow> u32 \<Rightarrow> u32 \<Rightarrow> u16 \<Rightarrow> u16" where
  "ctrl_reg c can adv old = ucast ((ucast old AND NOT (0x0200 OR 0x0100)) OR adv1000_bits c can adv)"

definition advertised :: "ethtool \<Rightarrow> u32 \<Rightarrow> u32 \<Rightarrow> (u32 \<Rightarrow> u16) \<Rightarrow> u32 \<Rightarrow> u16" where
  "advertised c can adv regs =
     (let regs' = regs(P_ADVERTISE := adv_reg c adv (regs P_ADVERTISE))
      in if bit (regs P_BMSR) 8 then regs'(P_CTRL1000 := ctrl_reg c can adv (regs P_CTRL1000)) else regs')"

lemma mask16: "(0xffff :: u32) = mask 16"
  by (simp add: mask_eq_exp_minus_1)

lemma ucast_back:
  assumes "(y :: u32) AND NOT 0xffff = 0"
  shows "ucast (ucast y :: u16) = y"
proof (rule bit_eqI)
  fix n
  have "bit y n \<Longrightarrow> n < 16" using assms bit_below_32 [of y n] unfolding mask16 bit_eq_iff
    by (auto simp: bit_simps)
  then show "bit (ucast (ucast y :: u16) :: u32) n \<longleftrightarrow> bit y n" by (auto simp: bit_simps)
qed

lemma low_bits:
  "adv_bits c a AND NOT 0xffff = 0" "adv1000_bits c can a AND NOT 0xffff = 0"
  "(ucast (x :: u16) AND y) AND NOT 0xffff = (0 :: u32)"
proof -
  show "(ucast (x :: u16) AND y) AND NOT 0xffff = (0 :: u32)"
    using bit_imp_le_length [of x] unfolding mask16 bit_eq_iff by (auto simp: bit_simps)
qed (simp_all add: adv_bits_def adv1000_bits_def bits_if_def bit.conj_disj_distrib2 or_eq_0_iff)

lemma wide_reg:
  fixes old :: u16 and keep new :: u32
  assumes "new AND NOT 0xffff = 0"
  shows "(ucast old AND keep) OR new = ucast old \<longleftrightarrow> ucast ((ucast old AND keep) OR new) = old"
proof -
  let ?y = "(ucast old AND keep) OR new"
  have "?y AND NOT 0xffff = 0" using assms low_bits(3) by (simp add: bit.conj_disj_distrib2 or_eq_0_iff)
  then have "ucast (ucast ?y :: u16) = ?y" by (rule ucast_back)
  moreover have "ucast (ucast old :: u32) = old" by (rule bit_eqI) (auto simp: bit_simps)
  ultimately show ?thesis by metis
qed

lemma adv_reg_wide:
  "ucast old AND NOT (0x01e0 OR 0x0200 OR 0x0400 OR 0x0800) OR adv_bits c adv = ucast old \<longleftrightarrow> adv_reg c adv old = old"
  "ucast old AND NOT (0x0200 OR 0x0100) OR adv1000_bits c can adv = ucast old \<longleftrightarrow> ctrl_reg c can adv old = old"
  unfolding adv_reg_def ctrl_reg_def by (rule wide_reg, rule low_bits)+

lemma bmsr_estaten: "(ucast x :: u32) AND 0x0100 = 0 \<longleftrightarrow> \<not> bit x 8" for x :: u16
  unfolding and_bits32 by (simp add: bit_simps)

lemma config_advert_1000_file:
  assumes rf: "reg_file e v d regs" and v': "v' = v\<lparr>phydevs := x\<rparr>" and d': "phydevs v' p = Some d'" "same_place d d'"
  shows "\<exists>h'. config_advert_1000 e p adv changed (v', h) =
      Some (if bit (regs h P_BMSR) 8 \<and> regs h' \<noteq> regs h then 1 else changed, v', h') \<and>
    regs h' = (if bit (regs h P_BMSR) 8
      then (regs h)(P_CTRL1000 := ctrl_reg (eth_consts e) (supported d') adv (regs h P_CTRL1000)) else regs h)"
proof -
  let ?none = "MDIO_DEVAD_NONE (eth_consts e)"
  let ?new = "ctrl_reg (eth_consts e) (supported d') adv (regs h P_CTRL1000)"
  obtain h1 where r1: "phy_read e p ?none P_BMSR (v', h) = Some (int (unat (regs h P_BMSR)), v', h1)" "regs h1 = regs h"
    by (rule phy_read_file [OF rf d' v'])
  obtain h2 where r2: "phy_read e p ?none P_CTRL1000 (v', h1) = Some (int (unat (regs h1 P_CTRL1000)), v', h2)" "regs h2 = regs h1"
    by (rule phy_read_file [OF rf d' v'])
  obtain h3 where r3: "phy_write e p ?none P_CTRL1000 ?new (v', h2) = Some (0, v', h3)"
    "regs h3 = (regs h2)(P_CTRL1000 := ?new)" by (rule phy_write_file [OF rf d' v'])
  show ?thesis
  proof (cases "bit (regs h P_BMSR) 8")
    case True
    have same: "regs h3 = regs h \<longleftrightarrow> ?new = regs h P_CTRL1000" using r1 r2 r3 by (auto simp: fun_upd_idem_iff)
    have "config_advert_1000 e p adv changed (v', h) =
        Some (if ?new = regs h P_CTRL1000 then changed else 1, v', h3)"
      using r1 r2 r3 d' True
      by (simp add: config_advert_1000_def get_phy_def Let_def bmsr_estaten adv_reg_wide(2) [simplified]
        ctrl_reg_def [simplified, symmetric])
    then show ?thesis using True same r1 r2 r3 by auto
  qed (use r1 in \<open>simp add: config_advert_1000_def bmsr_estaten\<close>)
qed



section \<open>Waiting for the PHY\<close>

text \<open>
  A register of which bit \<open>n\<close> changes after a number of reads: \<open>left h\<close> reads still show it as \<open>b\<close>.
\<close>

definition counts_down ::
  "'h phy_env \<Rightarrow> mii_vars \<Rightarrow> phy_device \<Rightarrow> u32 \<Rightarrow> nat \<Rightarrow> bool \<Rightarrow> ('h \<Rightarrow> nat) \<Rightarrow> bool" where
  "counts_down e v d reg n b left \<longleftrightarrow>
     (\<forall>h. \<exists>h' r. bus_read (mii e) v (phy_bus d) (addr d) (MDIO_DEVAD_NONE (eth_consts e)) reg h =
        Some (int (unat (r :: u16)), h') \<and> (bit r n \<longleftrightarrow> (left h \<noteq> 0 \<longleftrightarrow> b)) \<and> left h' = left h - 1) \<and>
     (\<forall>h. \<exists>h'. udelay (clk e) 1000 h = Some h' \<and> left h' = left h)"

lemma busy_counts:
  assumes "\<And>l. bit (if l \<noteq> 0 then 0x8000 else 0x20 :: u16) n \<longleftrightarrow> ((l :: nat) \<noteq> 0 \<longleftrightarrow> b)"
  shows "counts_down busy_env bench_mii bench_phy reg n b snd"
  unfolding counts_down_def
proof (intro conjI allI)
  fix h :: "bool \<times> nat"
  obtain b' l where h: "h = (b', l)" by (cases h)
  show "\<exists>h'. udelay (clk busy_env) 1000 h = Some h' \<and> snd h' = snd h" using busy_delay [of b' l] h by auto
  let ?r = "if l \<noteq> 0 then 0x8000 else 0x20 :: u16"
  have "bus_read (mii busy_env) bench_mii (phy_bus bench_phy) (addr bench_phy) (MDIO_DEVAD_NONE (eth_consts busy_env)) reg h =
      Some (int (unat ?r), b', l - 1)" by (simp add: busy_env_def h)
  then show "\<exists>h' r. bus_read (mii busy_env) bench_mii (phy_bus bench_phy) (addr bench_phy)
        (MDIO_DEVAD_NONE (eth_consts busy_env)) reg h = Some (int (unat (r :: u16)), h') \<and>
      (bit r n \<longleftrightarrow> (snd h \<noteq> 0 \<longleftrightarrow> b)) \<and> snd h' = snd h - 1"
    using assms [of l] h by (intro exI [of _ "(b', l - 1)"] exI [of _ ?r]) simp
qed

lemma counts_downD:
  assumes "counts_down e v d reg n b left" "phydevs v p = Some d"
  obtains h' r where "phy_read e p (MDIO_DEVAD_NONE (eth_consts e)) reg (v, h) = Some (int (unat (r :: u16)), v, h')"
    "bit r n \<longleftrightarrow> (left h \<noteq> 0 \<longleftrightarrow> b)" "left h' = left h - 1"
proof -
  obtain h' r where "bus_read (mii e) v (phy_bus d) (addr d) (MDIO_DEVAD_NONE (eth_consts e)) reg h =
      Some (int (unat (r :: u16)), h')" "bit r n \<longleftrightarrow> (left h \<noteq> 0 \<longleftrightarrow> b)" "left h' = left h - 1"
    using assms(1) unfolding counts_down_def by metis
  then show ?thesis using that assms(2) by (simp add: phy_read_def)
qed

lemma delay_keeps:
  assumes "counts_down e v d reg n b left"
  obtains h' where "phy_delay e 1000 (v, h) = Some (v, h')" "left h' = left h"
  using assms unfolding counts_down_def phy_delay_def by (metis (no_types, lifting) case_prod_conv option.simps(9))

lemma reset_bit: "(ucast x :: u32) AND 0x8000 = 0 \<longleftrightarrow> \<not> bit x 15" "(ucast x :: u32) AND 0x0020 = 0 \<longleftrightarrow> \<not> bit x 5"
  for x :: u16
  using and_exp_eq_0_iff_not_bit [of "ucast x :: u32" 15] and_exp_eq_0_iff_not_bit [of "ucast x :: u32" 5]
  by (simp_all add: bit_simps)

lemma reset_wait_eq:
  assumes hw: "counts_down e v d P_BMCR 15 True left" and d: "phydevs v p = Some d"
    and "bit reg 15 \<longleftrightarrow> k \<noteq> 0" "left h = k - 1"
  shows "\<exists>h' r. reset_wait e p t (int (unat (reg :: u16))) (v, h) = Some (Some (int (unat (r :: u16))), v, h') \<and>
    (bit r 15 \<longleftrightarrow> t < k)"
  using assms(3,4)
proof (induction t arbitrary: reg k h)
  case 0
  then show ?case by (subst reset_wait.simps) auto
next
  case (Suc t)
  show ?case
  proof (cases "k = 0")
    case True
    with Suc.prems show ?thesis by (subst reset_wait.simps) (auto simp: reset_bit)
  next
    case False
    obtain h1 r1 where r1: "phy_read e p (MDIO_DEVAD_NONE (eth_consts e)) P_BMCR (v, h) = Some (int (unat (r1 :: u16)), v, h1)"
      "bit r1 15 \<longleftrightarrow> (left h \<noteq> 0 \<longleftrightarrow> True)" "left h1 = left h - 1" by (rule counts_downD [OF hw d])
    obtain h2 where h2: "phy_delay e 1000 (v, h1) = Some (v, h2)" "left h2 = left h1" by (rule delay_keeps [OF hw])
    have "bit r1 15 \<longleftrightarrow> k - 1 \<noteq> 0" "left h2 = k - 1 - 1" using r1 h2 Suc.prems by auto
    from Suc.IH [OF this] obtain h' r where
      "reset_wait e p t (int (unat r1)) (v, h2) = Some (Some (int (unat (r :: u16))), v, h')" "bit r 15 \<longleftrightarrow> t < k - 1" by blast
    with False Suc.prems r1 h2 show ?thesis by (subst reset_wait.simps) (auto simp: reset_bit)
  qed
qed

text \<open>
  \<^verbatim>\<open>phy_reset\<close> ends on every PHY: it returns 0 when the reset bit clears within 500 polls after the
  first read, and -1 otherwise.
\<close>

lemma phy_reset_waits:
  assumes hw: "counts_down e v d P_BMCR 15 True left" and d: "phydevs v p = Some d" "flags d AND 1 = 0"
    and wr: "bus_write (mii e) v (phy_bus d) (addr d) (MDIO_DEVAD_NONE (eth_consts e)) P_BMCR 0x8000 h = Some (0, h1)"
  shows "\<exists>h'. phy_reset e p (v, h) = Some (if left h1 \<le> 500 then 0 else -1, v, h')"
proof -
  have w: "phy_write e p (MDIO_DEVAD_NONE (eth_consts e)) P_BMCR 0x8000 (v, h) = Some (0, v, h1)"
    using wr d by (simp add: phy_write_def)
  obtain h2 r where r: "phy_read e p (MDIO_DEVAD_NONE (eth_consts e)) P_BMCR (v, h1) = Some (int (unat (r :: u16)), v, h2)"
    "bit r 15 \<longleftrightarrow> (left h1 \<noteq> 0 \<longleftrightarrow> True)" "left h2 = left h1 - 1" by (rule counts_downD [OF hw d(1)])
  obtain h3 r3 where "reset_wait e p 500 (int (unat r)) (v, h2) = Some (Some (int (unat (r3 :: u16))), v, h3)"
    "bit r3 15 \<longleftrightarrow> 500 < left h1" using reset_wait_eq [OF hw d(1), of r "left h1" h2 500] r by auto
  with w r d show ?thesis by (auto simp: phy_reset_def get_phy_def Let_def reset_bit)
qed

theorem phy_reset_waits_witness:
  "\<exists>h'. phy_reset busy_env 2 (bench_mii, (False, 0)) = Some (if snd (False, 3 :: nat) \<le> 500 then 0 else -1, bench_mii, h')"
proof (rule phy_reset_waits [where left = snd])
  show "counts_down busy_env bench_mii bench_phy P_BMCR 15 True snd" by (rule busy_counts) simp_all
  show "bus_write (mii busy_env) bench_mii (phy_bus bench_phy) (addr bench_phy) (MDIO_DEVAD_NONE (eth_consts busy_env))
      P_BMCR 0x8000 (False, 0) = Some (0, False, 3)" by (simp add: busy_env_def)
qed simp_all

lemma set_link_eq:
  "phydevs v p = Some d \<Longrightarrow>
    set_link p up ret (v, h) = Some (ret, v\<lparr>phydevs := (phydevs v)(p \<mapsto> d\<lparr>link := up\<rparr>)\<rparr>, h)"
  by (simp add: set_link_def upd_phy_def)

lemma aneg_wait_eq:
  assumes hw: "counts_down e v d P_BMSR 5 False left" and d: "phydevs v p = Some d"
    and "bit reg 5 \<longleftrightarrow> k = 0" "left h = k - 1" "i \<le> 4001"
  shows "\<exists>h'. aneg_wait e p i (ucast (reg :: u16)) (v, h) = Some (if i + k \<le> 4001 then 0 else -110,
      v\<lparr>phydevs := (phydevs v)(p \<mapsto> d\<lparr>link := i + k \<le> 4001\<rparr>)\<rparr>, h')"
  using assms(3-)
proof (induction "4001 - i" arbitrary: i reg k h)
  case 0
  then have "i = 4001" by simp
  with 0 d show ?case by (subst aneg_wait.simps) (auto simp: reset_bit set_link_eq)
next
  case (Suc t)
  show ?case
  proof (cases "k = 0")
    case True
    with Suc.prems d show ?thesis by (subst aneg_wait.simps) (auto simp: reset_bit set_link_eq)
  next
    case False
    obtain h1 where h1: "phy_delay e 1000 (v, h) = Some (v, h1)" "left h1 = left h" by (rule delay_keeps [OF hw])
    obtain h2 r2 where r2: "phy_read e p (MDIO_DEVAD_NONE (eth_consts e)) P_BMSR (v, h1) = Some (int (unat (r2 :: u16)), v, h2)"
      "bit r2 5 \<longleftrightarrow> (left h1 \<noteq> 0 \<longleftrightarrow> False)" "left h2 = left h1 - 1" by (rule counts_downD [OF hw d])
    have "t = 4001 - Suc i" "bit r2 5 \<longleftrightarrow> k - 1 = 0" "left h2 = k - 1 - 1" "Suc i \<le> 4001"
      using r2 h1 Suc by auto
    from Suc.hyps(1) [OF this] obtain h' where "aneg_wait e p (Suc i) (ucast r2) (v, h2) =
      Some (if i + k \<le> 4001 then 0 else -110, v\<lparr>phydevs := (phydevs v)(p \<mapsto> d\<lparr>link := i + k \<le> 4001\<rparr>)\<rparr>, h')"
      using False by auto
    with False Suc r2 h1 show ?thesis by (subst aneg_wait.simps) (auto simp: reset_bit)
  qed
qed

text \<open>
  C32: \<^verbatim>\<open>genphy_update_link\<close> on a link that was down ends on every PHY: it polls until autonegotiation is
  complete and reports the link up, or gives up after 4001 polls with \<^verbatim>\<open>-ETIMEDOUT\<close> and the link down.
\<close>

theorem update_link_waits:
  assumes hw: "counts_down e v d P_BMSR 5 False left" and d: "phydevs v p = Some d" "\<not> link d"
    "autoneg d = AUTONEG_ENABLE (eth_consts e)" and busy: "left h \<noteq> 0"
  shows "\<exists>h'. genphy_update_link e p (v, h) = Some (if left h \<le> 4001 then 0 else -110,
      v\<lparr>phydevs := (phydevs v)(p \<mapsto> d\<lparr>link := left h \<le> 4001\<rparr>)\<rparr>, h')"
proof -
  obtain h1 r where r: "phy_read e p (MDIO_DEVAD_NONE (eth_consts e)) P_BMSR (v, h) = Some (int (unat (r :: u16)), v, h1)"
    "bit r 5 \<longleftrightarrow> (left h \<noteq> 0 \<longleftrightarrow> False)" "left h1 = left h - 1" by (rule counts_downD [OF hw d(1)])
  with busy d aneg_wait_eq [OF hw d(1), of r "left h" h1 0] show ?thesis
    by (simp add: genphy_update_link_def get_phy_def Let_def reset_bit)
qed

theorem update_link_waits_witness:
  "\<exists>h'. genphy_update_link busy_env 2 (bench_mii, (False, 3)) = Some (if snd (False, 3 :: nat) \<le> 4001 then 0 else -110,
      bench_mii\<lparr>phydevs := (phydevs bench_mii)(2 \<mapsto> bench_phy\<lparr>link := snd (False, 3 :: nat) \<le> 4001\<rparr>)\<rparr>, h')"
proof (rule update_link_waits [where left = snd])
  show "counts_down busy_env bench_mii bench_phy P_BMSR 5 False snd" by (rule busy_counts) simp_all
qed (simp_all add: busy_env_def)

text \<open>A read that fails gives \<^verbatim>\<open>-1\<close>, in which every bit is set.\<close>

text \<open>
  When the status register cannot be read, \<^verbatim>\<open>genphy_update_link\<close> returns 0 and reports the link up: the
  error value -1 has every bit set.
\<close>

lemma update_link_read_error:
  assumes d: "phydevs v p = Some d"
    and err: "\<And>h. \<exists>h'. bus_read (mii e) v (phy_bus d) (addr d) (MDIO_DEVAD_NONE (eth_consts e)) P_BMSR h = Some (-1, h')"
  shows "\<exists>v' h' d'. genphy_update_link e p (v, h) = Some (0, v', h') \<and> phydevs v' p = Some d' \<and> link d'"
proof -
  have rd: "\<exists>h'. phy_read e p (MDIO_DEVAD_NONE (eth_consts e)) P_BMSR (v, h) = Some (-1, v, h')" for h
  proof -
    obtain h' where "bus_read (mii e) v (phy_bus d) (addr d) (MDIO_DEVAD_NONE (eth_consts e)) P_BMSR h = Some (-1, h')"
      using err by blast
    with d show ?thesis by (simp add: phy_read_def)
  qed
  obtain h1 where r1: "phy_read e p (MDIO_DEVAD_NONE (eth_consts e)) P_BMSR (v, h) = Some (-1, v, h1)" using rd by blast
  obtain h2 where r2: "phy_read e p (MDIO_DEVAD_NONE (eth_consts e)) P_BMSR (v, h1) = Some (-1, v, h2)" using rd by blast
  show ?thesis
  proof (cases "link d")
    case True
    with d r1 show ?thesis by (auto simp: genphy_update_link_def get_phy_def Let_def)
  next
    case False
    with d r1 r2 show ?thesis by (auto simp: genphy_update_link_def get_phy_def Let_def set_link_eq)
  qed
qed

theorem update_link_read_error_witness:
  "\<exists>v' h' d'. genphy_update_link deaf_env 2 (bench_mii, ()) = Some (0, v', h') \<and> phydevs v' 2 = Some d' \<and> link d'"
  by (rule update_link_read_error [where d = bench_phy]) (simp_all add: deaf_env_def)

end
