(* ===== verification/Phyfind.thy ===== *)
theory Phyfind
  imports PhyBench
begin

text \<open>
  Which PHY \<^verbatim>\<open>get_phy_device_by_mask\<close> finds: one the bus knows, or the first address of the mask that
  answers, first as a clause 22 device and then as the devices 1 to 4 of clause 45; and what
  \<^verbatim>\<open>phy_device_create\<close> makes of it. The loops over the bits of a mask are searches of the list of
  its bits.
\<close>

section \<open>A known PHY\<close>

lemma find_Some_in: "find P xs = Some x \<Longrightarrow> x \<in> set xs"
  by (induction xs) (auto split: if_splits)

lemma search_for_existing_eq:
  assumes b: "mii_heap v bus = Some b" and known: "\<And>a p. bit m a \<Longrightarrow> phymap b ! a = Some p \<Longrightarrow> phydevs v p \<noteq> None"
  shows "search_for_existing_phy bus m itf (v, h) =
    (case find (\<lambda>a. phymap b ! a \<noteq> None) (mask_bits m) of None \<Rightarrow> Some (None, v, h)
     | Some a \<Rightarrow> map_option (\<lambda>s. (phymap b ! a, s)) (upd_phy (the (phymap b ! a)) (\<lambda>d. d\<lparr>interface := itf\<rparr>) (v, h)))"
  using known
proof (induction "length (mask_bits m)" arbitrary: m rule: less_induct)
  case less
  show ?case
  proof (cases "m = 0")
    case True
    then show ?thesis by (subst search_for_existing_phy.simps) simp
  next
    case False
    let ?a = "generic_ffs m - 1"
    note step = mask_bits_step [OF False]
    have "bit m a" if "bit (clear_addr m ?a) a" for a using that step(2) by (simp add: bit_clear_addr)
    with less have IH: "search_for_existing_phy bus (clear_addr m ?a) itf (v, h) =
      (case find (\<lambda>a. phymap b ! a \<noteq> None) (mask_bits (clear_addr m ?a)) of None \<Rightarrow> Some (None, v, h)
       | Some a \<Rightarrow> map_option (\<lambda>s. (phymap b ! a, s)) (upd_phy (the (phymap b ! a)) (\<lambda>d. d\<lparr>interface := itf\<rparr>) (v, h)))"
      using clear_addr_less [OF False] by blast
    show ?thesis using False b
      by (subst search_for_existing_phy.simps, subst step(1)) (simp add: Let_def IH [simplified] split: option.split)
  qed
qed

section \<open>The search\<close>

text \<open>A bus whose registers do not change: \<open>regs a devad reg\<close> is what a read gives, negative an error.\<close>

definition steady :: "'h phy_env \<Rightarrow> mii_vars \<Rightarrow> nat \<Rightarrow> (nat \<Rightarrow> u32 \<Rightarrow> u32 \<Rightarrow> int) \<Rightarrow> bool" where
  "steady e v bus regs \<longleftrightarrow>
     (\<forall>a devad reg h. \<exists>h'. bus_read (mii e) v bus (of_nat a) devad reg h = Some (regs a devad reg, h'))"

definition phy_ident :: "(nat \<Rightarrow> u32 \<Rightarrow> u32 \<Rightarrow> int) \<Rightarrow> u32 \<Rightarrow> nat \<Rightarrow> u32" where
  "phy_ident regs devad a = push_bit 16 (word_of_int (regs a devad P_PHYSID1) AND 0xffff) OR
     (word_of_int (regs a devad P_PHYSID2) AND 0xffff)"

definition answers :: "(nat \<Rightarrow> u32 \<Rightarrow> u32 \<Rightarrow> int) \<Rightarrow> u32 \<Rightarrow> nat \<Rightarrow> bool" where
  "answers regs devad a \<longleftrightarrow> 0 \<le> regs a devad P_PHYSID1 \<and> 0 \<le> regs a devad P_PHYSID2 \<and>
     phy_ident regs devad a AND 0x1fffffff \<noteq> 0x1fffffff"

lemma get_phy_id_eq:
  assumes "steady e v bus regs"
  shows "\<exists>r pid' h'. get_phy_id e bus a devad pid (v, h) = Some (r, pid', v, h') \<and>
    (r = 0 \<and> pid' AND 0x1fffffff \<noteq> 0x1fffffff \<longleftrightarrow> answers regs devad a) \<and>
    (r = 0 \<longrightarrow> pid' = phy_ident regs devad a)"
proof -
  obtain h1 where r1: "bus_read (mii e) v bus (of_nat a) devad P_PHYSID1 h = Some (regs a devad P_PHYSID1, h1)"
    using assms unfolding steady_def by blast
  obtain h2 where r2: "bus_read (mii e) v bus (of_nat a) devad P_PHYSID2 h1 = Some (regs a devad P_PHYSID2, h2)"
    using assms unfolding steady_def by blast
  show ?thesis using r1 r2
    by (cases "regs a devad P_PHYSID1 < 0"; cases "regs a devad P_PHYSID2 < 0")
      (simp_all add: get_phy_id_def answers_def phy_ident_def)
qed

lemma create_phy_by_mask_from_eq:
  assumes "steady e v bus regs"
  shows "\<exists>h'. create_phy_by_mask_from e bus m devad itf pid (v, h) =
    (case find (answers regs devad) (mask_bits m) of None \<Rightarrow> Some (None, v, h')
     | Some a \<Rightarrow> map_option (\<lambda>(p, s). (Some p, s)) (phy_device_create e bus a (phy_ident regs devad a) itf (v, h')))"
proof (induction "length (mask_bits m)" arbitrary: m pid h rule: less_induct)
  case less
  show ?case
  proof (cases "m = 0")
    case True
    then show ?thesis by (subst create_phy_by_mask_from.simps) simp
  next
    case False
    let ?a = "generic_ffs m - 1"
    obtain r pid' h1 where r: "get_phy_id e bus ?a devad pid (v, h) = Some (r, pid', v, h1)"
      "r = 0 \<and> pid' AND 0x1fffffff \<noteq> 0x1fffffff \<longleftrightarrow> answers regs devad ?a" "r = 0 \<longrightarrow> pid' = phy_ident regs devad ?a"
      using get_phy_id_eq [OF assms] by blast
    have run: "create_phy_by_mask_from e bus m devad itf pid (v, h) =
      (if answers regs devad ?a then map_option (\<lambda>(p, s). (Some p, s))
          (phy_device_create e bus ?a (phy_ident regs devad ?a) itf (v, h1))
       else create_phy_by_mask_from e bus (clear_addr m ?a) devad itf pid' (v, h1))"
      using False r
      by (subst create_phy_by_mask_from.simps) (auto simp: Let_def map_conv_bind_option split_def comp_def simp del: One_nat_def)
    obtain h2 where "create_phy_by_mask_from e bus (clear_addr m ?a) devad itf pid' (v, h1) =
      (case find (answers regs devad) (mask_bits (clear_addr m ?a)) of None \<Rightarrow> Some (None, v, h2)
       | Some a \<Rightarrow> map_option (\<lambda>(p, s). (Some p, s)) (phy_device_create e bus a (phy_ident regs devad a) itf (v, h2)))"
      using less [OF clear_addr_less [OF False]] by blast
    with run mask_bits_step(1) [OF False] show ?thesis by (cases "answers regs devad ?a") auto
  qed
qed

text \<open>The attempts in order: a device number, then an address.\<close>

lemma try_devads_eq:
  assumes "steady e v bus regs"
  shows "\<exists>h'. try_devads e bus m itf ds (v, h) =
    (case find (\<lambda>(devad, a). answers regs devad a) (List.product ds (mask_bits m)) of None \<Rightarrow> Some (None, v, h')
     | Some (devad, a) \<Rightarrow> map_option (\<lambda>(p, s). (Some p, s)) (phy_device_create e bus a (phy_ident regs devad a) itf (v, h')))"
proof (induction ds arbitrary: h)
  case (Cons devad ds)
  have f: "find (\<lambda>(devad, a). answers regs devad a) (map (Pair devad) xs) = map_option (Pair devad) (find (answers regs devad) xs)"
    for xs by (induction xs) auto
  obtain h1 where h1: "create_phy_by_mask e bus m devad itf (v, h) =
    (case find (answers regs devad) (mask_bits m) of None \<Rightarrow> Some (None, v, h1)
     | Some a \<Rightarrow> map_option (\<lambda>(p, s). (Some p, s)) (phy_device_create e bus a (phy_ident regs devad a) itf (v, h1)))"
    unfolding create_phy_by_mask_def using create_phy_by_mask_from_eq [OF assms] by blast
  show ?case
  proof (cases "find (answers regs devad) (mask_bits m)")
    case None
    with h1 Cons.IH [of h1] show ?thesis by (simp add: find_append f)
  next
    case (Some a)
    with h1 show ?thesis
      by (cases "phy_device_create e bus a (phy_ident regs devad a) itf (v, h1)")
        (auto simp: find_append f intro: exI [of _ h1])
  qed
qed simp

section \<open>The device\<close>

definition new_phy :: "ethtool \<Rightarrow> nat \<Rightarrow> nat \<Rightarrow> u32 \<Rightarrow> u32 \<Rightarrow> phy_device" where
  "new_phy c bus a pid itf = \<lparr>phy_bus = bus, phy_drv = None, phy_dev = None, speed = 0, duplex = -1, link = False,
     port = 0, interface = itf, advertising = drv_features (genphy_driver c), supported = drv_features (genphy_driver c),
     mmds = 0, autoneg = AUTONEG_ENABLE c, addr = of_nat a, pause = 0, asym_pause = 0, phy_id = pid, flags = 0\<rparr>"

lemma phy_device_create_eq:
  assumes "phy_drivers v = []" "mii_heap v bus = Some b" "a < length (phymap b)" "unat (mii_mark v) + 88 < 2 ^ 32"
  shows "\<exists>v'. phy_device_create e bus a pid itf (v, h) = Some (unat (mii_mark v), v', h) \<and>
    mii_heap v' = (mii_heap v)(bus \<mapsto> b\<lparr>phymap := (phymap b)[a := Some (unat (mii_mark v))]\<rparr>) \<and>
    phydevs v' = (phydevs v)(unat (mii_mark v) \<mapsto> new_phy (eth_consts e) bus a pid itf)"
proof -
  have "unat (mii_mark v) + unat (88 :: u64) < 2 ^ 32" using assms(4) by simp
  then obtain sz q where "malloc (mii_mark v) 88 = (sz, q)" "unat q = unat (mii_mark v)"
    using malloc_eq(3) by (cases "malloc (mii_mark v) 88") fastforce
  with assms show ?thesis
    by (simp add: phy_device_create_def get_phy_driver_def generic_for_interface_def phy_probe_def get_phy_def drv_of_def
        upd_phy_def genphy_driver_def new_phy_def Let_def)
qed

text \<open>
  C16: \<^verbatim>\<open>get_phy_device_by_mask\<close> on a bus with no known PHY creates the device for the first address of the
  mask that answers, first as clause 22 and then as the clause 45 devices 1 to 4, with the generic
  driver's abilities and the identification read; it is found again by every later search.
\<close>

theorem get_phy_device_finds:
  assumes hw: "steady e v bus regs" and b: "mii_heap v bus = Some b" "length (phymap b) = 32"
    and new: "\<forall>a. bit m a \<longrightarrow> phymap b ! a = None" and drv: "phy_drivers v = []"
    and room: "unat (mii_mark v) + 88 < 2 ^ 32"
    and found: "find (\<lambda>(devad, a). answers regs devad a)
      (List.product [MDIO_DEVAD_NONE (eth_consts e), 1, 2, 3, 4] (mask_bits m)) = Some (devad, a)"
  shows "\<exists>p v' h'. get_phy_device_by_mask e bus m itf (v, h) = Some (Some p, v', h') \<and>
    phydevs v' p = Some (new_phy (eth_consts e) bus a (phy_ident regs devad a) itf) \<and>
    (\<forall>itf' h. \<exists>s. get_phy_device_by_mask e bus m itf' (v', h) = Some (Some p, s))"
proof -
  let ?ds = "[MDIO_DEVAD_NONE (eth_consts e), 1, 2, 3, 4]"
  have none: "search_for_existing_phy bus m itf (v, h) = Some (None, v, h)"
  proof -
    have "find (\<lambda>a. phymap b ! a \<noteq> None) (mask_bits m) = None" using new by (simp add: find_None)
    with search_for_existing_eq [OF b(1), of m itf h] new show ?thesis by auto
  qed
  have ina: "bit m a" using find_Some_in [OF found] by (simp only: set_product mem_Times_iff snd_conv set_mask_bits)
  have a: "a < 32" using bit_below_32 [OF ina] .
  obtain h1 where h1: "try_devads e bus m itf ?ds (v, h) = map_option (\<lambda>(p, s). (Some p, s))
      (phy_device_create e bus a (phy_ident regs devad a) itf (v, h1))"
    using try_devads_eq [OF hw, of m itf ?ds h] found by (auto simp del: product.simps)
  let ?p = "unat (mii_mark v)"
  obtain v' where v': "phy_device_create e bus a (phy_ident regs devad a) itf (v, h1) = Some (?p, v', h1)"
    "mii_heap v' = (mii_heap v)(bus \<mapsto> b\<lparr>phymap := (phymap b)[a := Some ?p]\<rparr>)"
    "phydevs v' = (phydevs v)(?p \<mapsto> new_phy (eth_consts e) bus a (phy_ident regs devad a) itf)"
    using phy_device_create_eq [OF drv b(1) _ room, of a e "phy_ident regs devad a" itf h1] a b(2) by auto
  have again: "\<exists>s. get_phy_device_by_mask e bus m itf' (v', h) = Some (Some ?p, s)" for itf' h
  proof -
    let ?map = "(phymap b)[a := Some ?p]"
    have at: "?map ! x = (if x = a then Some ?p else None)" if "bit m x" for x using that new a b(2) by simp
    have "find (\<lambda>x. ?map ! x \<noteq> None) (mask_bits m) = find (\<lambda>x. x = a) (mask_bits m)"
      by (rule find_cong2) (simp add: at)
    also have "\<dots> = Some a" using ina set_mask_bits [of a m]
      by (metis (mono_tags, lifting) find_None find_Some_iff not_None_eq)
    finally have first: "find (\<lambda>x. ?map ! x \<noteq> None) (mask_bits m) = Some a" .
    have "mii_heap v' bus = Some (b\<lparr>phymap := ?map\<rparr>)" using v'(2) by simp
    note search = search_for_existing_eq [OF this, of m itf' h]
    have "\<exists>s. search_for_existing_phy bus m itf' (v', h) = Some (Some ?p, s)"
    proof (subst search)
      show "phydevs v' q \<noteq> None" if "bit m x" "phymap (b\<lparr>phymap := ?map\<rparr>) ! x = Some q" for x q
        using that at v'(3) by (auto split: if_splits)
      show "\<exists>s. (case find (\<lambda>a. phymap (b\<lparr>phymap := ?map\<rparr>) ! a \<noteq> None) (mask_bits m) of None \<Rightarrow> Some (None, v', h)
         | Some a \<Rightarrow> map_option (\<lambda>s. (phymap (b\<lparr>phymap := ?map\<rparr>) ! a, s))
             (upd_phy (the (phymap (b\<lparr>phymap := ?map\<rparr>) ! a)) (\<lambda>d. d\<lparr>interface := itf'\<rparr>) (v', h))) = Some (Some ?p, s)"
        using first at [OF ina] v'(3) by (simp add: upd_phy_def)
    qed
    then show ?thesis by (auto simp: get_phy_device_by_mask_def)
  qed
  have "get_phy_device_by_mask e bus m itf (v, h) = Some (Some ?p, v', h1)"
    using none h1 v'(1) by (simp add: get_phy_device_by_mask_def del: try_devads.simps)
  with v'(3) again show ?thesis by fastforce
qed

theorem get_phy_device_finds_witness:
  "\<exists>p v' h'. get_phy_device_by_mask lone_env 3 0x60 7 (bench_mii, ()) = Some (Some p, v', h') \<and>
    phydevs v' p = Some (new_phy (eth_consts lone_env) 3 5 (phy_ident lone_regs (-1) 5) 7) \<and>
    (\<forall>itf' h. \<exists>s. get_phy_device_by_mask lone_env 3 0x60 itf' (v', h) = Some (Some p, s))"
proof (rule get_phy_device_finds [where regs = lone_regs and b = bench_bus])
  have same_word: "(of_nat (unat (of_nat a :: u32)) :: u32) = of_nat a" for a by (simp only: of_nat_unat ucast_id)
  have "lone_regs (unat (of_nat a :: u32)) = lone_regs a" for a by (intro ext) (simp only: lone_regs_def same_word)
  then show "steady lone_env bench_mii 3 lone_regs" unfolding steady_def lone_env_def by (simp only: bench_env_sel) simp
next
  have "mask_bits 0x60 = [5, 6]" by (simp add: mask_bits_def upt_rec bit_simps)
  moreover have "answers lone_regs (-1) 5" by (simp add: answers_def phy_ident_def lone_regs_def)
  ultimately show "find (\<lambda>(devad, a). answers lone_regs devad a)
      (List.product [MDIO_DEVAD_NONE (eth_consts lone_env), 1, 2, 3, 4] (mask_bits 0x60)) = Some (-1, 5)"
    by (simp add: lone_env_def)
qed simp_all

end
