(* ===== verification/Bus.thy ===== *)
theory Bus
  imports Timer
begin

text \<open>
  The machine the controller driver runs on: registers read and written with \<^verbatim>\<open>readl\<close> and \<^verbatim>\<open>writel\<close>
  (\<^verbatim>\<open>include/asm/io.h\<close>), memory shared with the DMA engine, the cache instructions of
  \<^verbatim>\<open>flush_dcache_range\<close> and \<^verbatim>\<open>invalidate_dcache_range\<close> (\<^verbatim>\<open>common.c\<close>), and the clock.

  The driver is modelled by the accesses it makes: the machine is the list of the events so far,
  and what a read returns is a function of that list, which stands for the hardware and is a
  parameter. Nothing is assumed of it; the theorems that need a device that answers, or memory
  that keeps what was stored, say so.
\<close>

datatype ev =
    RegRead u64 u32       \<comment> \<open>address and value of a load from a register\<close>
  | RegWrite u64 u32
  | ReadFence             \<comment> \<open>\<^verbatim>\<open>fence ir,ir\<close>\<close>
  | WriteFence            \<comment> \<open>\<^verbatim>\<open>fence ow,ow\<close>\<close>
  | MemLoad u64 bytes
  | MemStore u64 bytes
  | CacheClean u64        \<comment> \<open>\<^verbatim>\<open>dcache.cpa\<close> of the line at the address\<close>
  | CacheInval u64        \<comment> \<open>\<^verbatim>\<open>dcache.ipa\<close>\<close>
  | SyncIs                \<comment> \<open>\<^verbatim>\<open>sync.is\<close>\<close>
  | ClockRead u64

type_synonym trace = "ev list"

text \<open>The hardware: what is read after the events so far.\<close>

record bus =
  reg_value :: "trace \<Rightarrow> u64 \<Rightarrow> u32"
  mem_value :: "trace \<Rightarrow> u64 \<Rightarrow> nat \<Rightarrow> bytes"
  clock_value :: "trace \<Rightarrow> u64"

section \<open>Accesses\<close>

definition readl :: "bus \<Rightarrow> u64 \<Rightarrow> trace \<Rightarrow> u32 \<times> trace" where
  "readl hw a t = (let v = reg_value hw t a in (v, t @ [RegRead a v, ReadFence]))"

definition writel :: "u32 \<Rightarrow> u64 \<Rightarrow> trace \<Rightarrow> trace" where
  "writel v a t = t @ [WriteFence, RegWrite a v]"

definition mem_load :: "bus \<Rightarrow> u64 \<Rightarrow> nat \<Rightarrow> trace \<Rightarrow> bytes \<times> trace" where
  "mem_load hw a n t = (let bs = mem_value hw t a n in (bs, t @ [MemLoad a bs]))"

definition mem_store :: "u64 \<Rightarrow> bytes \<Rightarrow> trace \<Rightarrow> trace" where
  "mem_store a bs t = t @ [MemStore a bs]"

definition rdtime :: "bus \<Rightarrow> trace clock" where
  "rdtime hw t = (let v = clock_value hw t in (v, t @ [ClockRead v]))"

section \<open>The cache\<close>

text \<open>The loops go over the lines of 64 bytes; they do not end when the range reaches the last one.\<close>

partial_function (option) clean_lines :: "u64 \<Rightarrow> u64 \<Rightarrow> trace \<Rightarrow> trace option" where
  "clean_lines i end_addr t =
     (if i < end_addr then clean_lines (i + 64) end_addr (t @ [CacheClean i]) else Some t)"

definition flush_dcache_range :: "u64 \<Rightarrow> u64 \<Rightarrow> trace \<Rightarrow> trace option" where
  "flush_dcache_range start end_addr t =
     map_option (\<lambda>t. t @ [SyncIs]) (clean_lines (start AND NOT 63) end_addr t)"

definition flush_cache :: "u64 \<Rightarrow> u64 \<Rightarrow> trace \<Rightarrow> trace option" where
  "flush_cache addr sz = flush_dcache_range addr (addr + sz)"

partial_function (option) inval_lines :: "u64 \<Rightarrow> u64 \<Rightarrow> trace \<Rightarrow> trace option" where
  "inval_lines i end_addr t =
     (if i < end_addr then inval_lines (i + 64) end_addr (t @ [CacheInval i]) else Some t)"

definition invalidate_dcache_range :: "u64 \<Rightarrow> u64 \<Rightarrow> trace \<Rightarrow> trace option" where
  "invalidate_dcache_range start end_addr t =
     map_option (\<lambda>t. t @ [SyncIs]) (inval_lines (start AND NOT 63) end_addr t)"

section \<open>The lines of a range\<close>

text \<open>The addresses of the lines from \<open>i\<close> on that start before \<open>e\<close>.\<close>

definition lines_upto :: "u64 \<Rightarrow> u64 \<Rightarrow> u64 list" where
  "lines_upto i e = map (\<lambda>k. i + of_nat (64 * k)) [0..<(unat e - unat i + 63) div 64]"

lemma lines_upto_step:
  assumes "i < e" "unat e + 63 < 2 ^ 64"
  shows "lines_upto i e = i # lines_upto (i + 64) e" "unat (i + 64) = unat i + 64"
proof -
  have lt: "unat i < unat e" using assms(1) by (simp add: word_less_nat_alt)
  then show u: "unat (i + 64) = unat i + 64" using assms(2) by (simp add: unat_word_ariths)
  have n: "(unat e - unat i + 63) div 64 = Suc ((unat e - unat (i + 64) + 63) div 64)"
  proof (cases "unat i + 64 \<le> unat e")
    case True
    then have "unat e - unat i + 63 = (unat e - unat (i + 64) + 63) + 64" by (simp add: u)
    then show ?thesis by simp
  next
    case False
    with lt show ?thesis by (simp add: u)
  qed
  show "lines_upto i e = i # lines_upto (i + 64) e"
    unfolding lines_upto_def n upt_conv_Cons [OF zero_less_Suc]
    by (simp add: map_Suc_upt [symmetric] comp_def algebra_simps del: upt_Suc)
qed

lemma lines_upto_done: "\<not> i < e \<Longrightarrow> lines_upto i e = []"
  by (simp add: lines_upto_def word_less_nat_alt)

lemma clean_lines_eq:
  "unat e + 63 < 2 ^ 64 \<Longrightarrow> clean_lines i e t = Some (t @ map CacheClean (lines_upto i e))"
proof (induction "unat e - unat i" arbitrary: i t rule: less_induct)
  case less
  show ?case
  proof (cases "i < e")
    case True
    note l = lines_upto_step [OF True less.prems]
    have "unat e - unat (i + 64) < unat e - unat i" using True l(2) by (simp add: word_less_nat_alt)
    from less.hyps [OF this less.prems] True l(1) show ?thesis by (subst clean_lines.simps) simp
  qed (subst clean_lines.simps, simp add: lines_upto_done)
qed

lemma inval_lines_eq:
  "unat e + 63 < 2 ^ 64 \<Longrightarrow> inval_lines i e t = Some (t @ map CacheInval (lines_upto i e))"
proof (induction "unat e - unat i" arbitrary: i t rule: less_induct)
  case less
  show ?case
  proof (cases "i < e")
    case True
    note l = lines_upto_step [OF True less.prems]
    have "unat e - unat (i + 64) < unat e - unat i" using True l(2) by (simp add: word_less_nat_alt)
    from less.hyps [OF this less.prems] True l(1) show ?thesis by (subst inval_lines.simps) simp
  qed (subst inval_lines.simps, simp add: lines_upto_done)
qed

text \<open>What a flush and an invalidation do.\<close>

definition range_lines :: "u64 \<Rightarrow> u64 \<Rightarrow> u64 list" where
  "range_lines start end_addr = lines_upto (start AND NOT 63) end_addr"

lemma flush_dcache_range_eq:
  "unat e + 63 < 2 ^ 64 \<Longrightarrow>
    flush_dcache_range a e t = Some (t @ map CacheClean (range_lines a e) @ [SyncIs])"
  by (simp add: flush_dcache_range_def clean_lines_eq range_lines_def)

lemma invalidate_dcache_range_eq:
  "unat e + 63 < 2 ^ 64 \<Longrightarrow>
    invalidate_dcache_range a e t = Some (t @ map CacheInval (range_lines a e) @ [SyncIs])"
  by (simp add: invalidate_dcache_range_def inval_lines_eq range_lines_def)

text \<open>The line of an address.\<close>

lemma unat_line: "unat (x AND NOT 63 :: u64) = unat x - unat x mod 64"
proof -
  have m: "(63 :: u64) = mask 6" by (simp add: mask_eq_exp_minus_1)
  have "x AND NOT 63 = push_bit 6 (drop_bit 6 x)"
    unfolding m by (rule bit_word_eqI) (auto simp: bit_simps)
  then have s: "(x AND NOT 63) + take_bit 6 x = x" by (simp only: bits_ident)
  have t: "unat (take_bit 6 x) = unat x mod 64" by (simp add: take_bit_eq_mod unat_mod_distrib)
  have "x AND NOT 63 = x - take_bit 6 x" by (subst (2) s [symmetric]) (simp only: add_diff_cancel_right')
  moreover have "take_bit 6 x \<le> x" by (simp only: word_le_nat_alt t)
  ultimately show ?thesis by (simp only: unat_sub t)
qed

lemma range_lines_cover:
  assumes "unat e + 63 < 2 ^ 64" "a \<le> x" "x < e"
  shows "x AND NOT 63 \<in> set (range_lines a e)"
proof -
  let ?i = "a AND NOT 63" and ?l = "x AND NOT 63"
  define k where "k = unat x div 64 - unat a div 64"
  have ax: "unat a \<le> unat x" and xe: "unat x < unat e"
    using assms(2,3) by (simp_all add: word_le_nat_alt word_less_nat_alt)
  have i: "unat ?i = 64 * (unat a div 64)" and l: "unat ?l = 64 * (unat x div 64)"
    by (simp_all only: unat_line minus_mod_eq_mult_div)
  have d: "unat a div 64 \<le> unat x div 64" using ax by (rule div_le_mono)
  then have u: "unat ?l = unat ?i + 64 * k" unfolding i l k_def by (simp add: algebra_simps)
  have "?l = of_nat (unat ?l)" by (simp only: of_nat_unat ucast_id)
  also have "\<dots> = ?i + of_nat (64 * k)" unfolding u by (simp only: of_nat_add of_nat_unat ucast_id)
  finally have "?l = ?i + of_nat (64 * k)" .
  moreover have "k < (unat e - unat ?i + 63) div 64"
  proof -
    have "64 * k + 64 \<le> unat e - unat ?i + 63" using u xe l by linarith
    then show ?thesis by linarith
  qed
  ultimately show ?thesis by (auto simp: range_lines_def lines_upto_def)
qed

end
