(* ===== verification/Geth.thy ===== *)
theory Geth
  imports Bus EthDev Alloc Miiphy
begin

text \<open>
  The EMAC controller, \<^verbatim>\<open>net/emac/sunxi_geth.c\<close>, as it is configured for this board:
  \<^verbatim>\<open>CONFIG_MACH_SUN20IW1\<close> (hence \<^verbatim>\<open>RESET_DMA_EN\<close>, \<^verbatim>\<open>NOT_SUPPORT_NOCACHED_ALLOC\<close>, \<^verbatim>\<open>PHY_RTL8211F\<close>),
  \<^verbatim>\<open>CONFIG_SUNXI_EXT_PHY\<close> and \<^verbatim>\<open>DISABLE_AUTONEG\<close>. A device is given by its \<open>iobase\<close>; the static
  variables of the file are the record \<open>geth\<close>, which also holds the trace of the machine. Loops
  that wait for the hardware are \<open>partial_function\<close>s.

  A DMA descriptor is 24 bytes of memory: the two words \<^verbatim>\<open>desc0\<close> and \<^verbatim>\<open>desc1\<close> at 0 and 4, and the
  64-bit pointers \<^verbatim>\<open>desc2\<close> and \<^verbatim>\<open>desc3\<close> at 8 and 16.
\<close>

section \<open>Registers\<close>

abbreviation (input) GETH_BASIC_CTL0 :: u64 where "GETH_BASIC_CTL0 \<equiv> 0x00"
abbreviation (input) GETH_BASIC_CTL1 :: u64 where "GETH_BASIC_CTL1 \<equiv> 0x04"
abbreviation (input) GETH_INT_STA :: u64 where "GETH_INT_STA \<equiv> 0x08"
abbreviation (input) GETH_INT_EN :: u64 where "GETH_INT_EN \<equiv> 0x0C"
abbreviation (input) GETH_TX_CTL0 :: u64 where "GETH_TX_CTL0 \<equiv> 0x10"
abbreviation (input) GETH_TX_CTL1 :: u64 where "GETH_TX_CTL1 \<equiv> 0x14"
abbreviation (input) GETH_TX_DESC_LIST :: u64 where "GETH_TX_DESC_LIST \<equiv> 0x20"
abbreviation (input) GETH_RX_CTL0 :: u64 where "GETH_RX_CTL0 \<equiv> 0x24"
abbreviation (input) GETH_RX_CTL1 :: u64 where "GETH_RX_CTL1 \<equiv> 0x28"
abbreviation (input) GETH_RX_DESC_LIST :: u64 where "GETH_RX_DESC_LIST \<equiv> 0x34"
abbreviation (input) GETH_RX_FRM_FLT :: u64 where "GETH_RX_FRM_FLT \<equiv> 0x38"
abbreviation (input) GETH_MDIO_ADDR :: u64 where "GETH_MDIO_ADDR \<equiv> 0x48"
abbreviation (input) GETH_MDIO_DATA :: u64 where "GETH_MDIO_DATA \<equiv> 0x4C"
abbreviation (input) GETH_ADDR_HI0 :: u64 where "GETH_ADDR_HI0 \<equiv> 0x50"
abbreviation (input) GETH_ADDR_LO0 :: u64 where "GETH_ADDR_LO0 \<equiv> 0x54"
abbreviation (input) GETH_TX_DMA_STA :: u64 where "GETH_TX_DMA_STA \<equiv> 0xB0"
abbreviation (input) MII_BUSY :: u32 where "MII_BUSY \<equiv> 0x00000001"
abbreviation (input) MII_WRITE :: u32 where "MII_WRITE \<equiv> 0x00000002"

abbreviation (input) MII_BMCR :: u16 where "MII_BMCR \<equiv> 0x00"
abbreviation (input) MII_BMSR :: u16 where "MII_BMSR \<equiv> 0x01"
abbreviation (input) MII_PHYSID1 :: u16 where "MII_PHYSID1 \<equiv> 0x02"
abbreviation (input) MII_PHYSID2 :: u16 where "MII_PHYSID2 \<equiv> 0x03"
abbreviation (input) MII_CTRL1000 :: u16 where "MII_CTRL1000 \<equiv> 0x09"
abbreviation (input) BMCR_SPEED1000 :: u16 where "BMCR_SPEED1000 \<equiv> 0x0040"
abbreviation (input) BMCR_FULLDPLX :: u16 where "BMCR_FULLDPLX \<equiv> 0x0100"
abbreviation (input) BMCR_PDOWN :: u16 where "BMCR_PDOWN \<equiv> 0x0800"
abbreviation (input) BMCR_SPEED100 :: u16 where "BMCR_SPEED100 \<equiv> 0x2000"
abbreviation (input) BMCR_RESET :: u16 where "BMCR_RESET \<equiv> 0x8000"
abbreviation (input) BMSR_ANEGCOMPLETE :: u16 where "BMSR_ANEGCOMPLETE \<equiv> 0x0020"
abbreviation (input) ADVERTISE_1000FULL :: u16 where "ADVERTISE_1000FULL \<equiv> 0x0200"

section \<open>State\<close>

datatype phy_type = EXT_PHY | INT_PHY

record geth =
  tr :: trace
  dma_desc_tx :: u64
  dma_desc_rx :: u64
  rx_packet :: u64
  rx_handle_buf :: u64
  used_type :: phy_type
  phy_interface :: u32
  phy_addr :: u32
  memalign_mark :: u32   \<comment> \<open>\<^verbatim>\<open>sz\<close> of \<^verbatim>\<open>memalign\<close>\<close>
  mii_part :: mii_vars   \<comment> \<open>the MII layer, with the mark of \<^verbatim>\<open>malloc\<close>\<close>

definition geth_vars_init :: geth where
  "geth_vars_init = \<lparr>tr = [], dma_desc_tx = 0, dma_desc_rx = 0, rx_packet = 0, rx_handle_buf = 0,
     used_type = INT_PHY, phy_interface = 0, phy_addr = 0x1f, memalign_mark = 0,
     mii_part = \<lparr>mii_heap = Map.empty, ldevs = Map.empty, phydevs = Map.empty, drivers = Map.empty, mii_devs = [],
       current_mii = None, phy_drivers = [], mii_mark = 0\<rparr>\<rparr>"

text \<open>The accesses of Bus on this state.\<close>

definition rd :: "bus \<Rightarrow> u64 \<Rightarrow> geth \<Rightarrow> u32 \<times> geth" where
  "rd bus a s = (case readl bus a (tr s) of (v, t) \<Rightarrow> (v, s\<lparr>tr := t\<rparr>))"

definition wr :: "u32 \<Rightarrow> u64 \<Rightarrow> geth \<Rightarrow> geth" where
  "wr v a s = s\<lparr>tr := writel v a (tr s)\<rparr>"

definition ld32 :: "bus \<Rightarrow> u64 \<Rightarrow> geth \<Rightarrow> u32 \<times> geth" where
  "ld32 bus a s = (case mem_load bus a 4 (tr s) of (bs, t) \<Rightarrow> (get32 bs 0, s\<lparr>tr := t\<rparr>))"

definition le32 :: "u32 \<Rightarrow> bytes" where
  "le32 v = put32 (replicate 4 0) 0 v"

definition le64 :: "u64 \<Rightarrow> bytes" where
  "le64 v = le32 (ucast v) @ le32 (ucast (drop_bit 32 v))"

definition stm :: "u64 \<Rightarrow> bytes \<Rightarrow> geth \<Rightarrow> geth" where
  "stm a bs s = s\<lparr>tr := mem_store a bs (tr s)\<rparr>"

definition flush :: "u64 \<Rightarrow> u64 \<Rightarrow> geth \<Rightarrow> geth option" where
  "flush a sz s = map_option (\<lambda>t. s\<lparr>tr := t\<rparr>) (flush_cache a sz (tr s))"

definition invalidate :: "u64 \<Rightarrow> u64 \<Rightarrow> geth \<Rightarrow> geth option" where
  "invalidate a e s = map_option (\<lambda>t. s\<lparr>tr := t\<rparr>) (invalidate_dcache_range a e (tr s))"

text \<open>Read, change, write back.\<close>

definition modify :: "bus \<Rightarrow> u64 \<Rightarrow> (u32 \<Rightarrow> u32) \<Rightarrow> geth \<Rightarrow> geth" where
  "modify bus a f s = (case rd bus a s of (v, s) \<Rightarrow> wr (f v) a s)"

text \<open>The clock of the stack on this state.\<close>

definition geth_clock :: "bus \<Rightarrow> geth clock" where
  "geth_clock bus s = (case rdtime bus (tr s) of (v, t) \<Rightarrow> (v, s\<lparr>tr := t\<rparr>))"

section \<open>The management interface\<close>

definition mdio_cmd :: "u32 \<Rightarrow> u32 \<Rightarrow> u32 \<Rightarrow> u32" where
  "mdio_cmd phy_adr reg fl = push_bit 20 0x06 OR ((push_bit 12 phy_adr AND 0x0001F000) OR
     (push_bit 4 reg AND 0x000007F0) OR fl)"

text \<open>The loop that waits while bits of a register are set.\<close>

partial_function (option) wait_clear :: "bus \<Rightarrow> u64 \<Rightarrow> u32 \<Rightarrow> geth \<Rightarrow> geth option" where
  "wait_clear bus a bits s =
     (case rd bus a s of (v, s) \<Rightarrow> if v AND bits \<noteq> 0 then wait_clear bus a bits s else Some s)"

definition geth_phy_read :: "bus \<Rightarrow> u64 \<Rightarrow> u32 \<Rightarrow> u16 \<Rightarrow> geth \<Rightarrow> (u16 \<times> geth) option" where
  "geth_phy_read bus base phy_adr reg s = do {
     let s = wr (mdio_cmd phy_adr (ucast reg) MII_BUSY) (base + GETH_MDIO_ADDR) s;
     s \<leftarrow> wait_clear bus (base + GETH_MDIO_ADDR) MII_BUSY s;
     (case rd bus (base + GETH_MDIO_DATA) s of (v, s) \<Rightarrow> Some (ucast v, s)) }"

definition geth_phy_write :: "bus \<Rightarrow> u64 \<Rightarrow> u8 \<Rightarrow> u8 \<Rightarrow> u16 \<Rightarrow> geth \<Rightarrow> geth option" where
  "geth_phy_write bus base phy_adr reg data s = do {
     let s = wr (ucast data) (base + GETH_MDIO_DATA) s;
     let s = wr (mdio_cmd (ucast phy_adr) (ucast reg) (MII_WRITE OR MII_BUSY)) (base + GETH_MDIO_ADDR) s;
     wait_clear bus (base + GETH_MDIO_ADDR) MII_BUSY s }"

text \<open>By name: an unknown device is a \<^verbatim>\<open>NULL\<close> pointer, which is dereferenced.\<close>

definition geth_miiphy_read :: "bus \<Rightarrow> eth_vars \<Rightarrow> bytes \<Rightarrow> u8 \<Rightarrow> u8 \<Rightarrow> geth \<Rightarrow> (int \<times> u16 \<times> geth) option" where
  "geth_miiphy_read bus v devname phy_adr reg s = do {
     r \<leftarrow> eth_get_dev_by_name v devname;
     a \<leftarrow> r;
     d \<leftarrow> devs v a;
     (x, s) \<leftarrow> geth_phy_read bus (iobase d) (ucast phy_adr) (ucast reg) s;
     Some (0, x, s) }"

definition geth_miiphy_write :: "bus \<Rightarrow> eth_vars \<Rightarrow> bytes \<Rightarrow> u8 \<Rightarrow> u8 \<Rightarrow> u16 \<Rightarrow> geth \<Rightarrow> (int \<times> geth) option" where
  "geth_miiphy_write bus v devname phy_adr reg data s = do {
     r \<leftarrow> eth_get_dev_by_name v devname;
     a \<leftarrow> r;
     d \<leftarrow> devs v a;
     s \<leftarrow> geth_phy_write bus (iobase d) phy_adr reg data s;
     Some (0, s) }"

section \<open>Transmission\<close>

text \<open>The bit that starts a DMA engine, in its control register.\<close>

definition dma_enable :: "bus \<Rightarrow> u64 \<Rightarrow> bool \<Rightarrow> geth \<Rightarrow> geth" where
  "dma_enable bus a en = modify bus a (\<lambda>v. if en then v OR 0x40000000 else v AND NOT 0x40000000)"

definition dma_tx_enable :: "bus \<Rightarrow> u64 \<Rightarrow> bool \<Rightarrow> geth \<Rightarrow> geth" where
  "dma_tx_enable bus base = dma_enable bus (base + GETH_TX_CTL1)"

definition dma_rx_enable :: "bus \<Rightarrow> u64 \<Rightarrow> bool \<Rightarrow> geth \<Rightarrow> geth" where
  "dma_rx_enable bus base = dma_enable bus (base + GETH_RX_CTL1)"

text \<open>The loop that waits for the previous frame. The status was read once, before the loop.\<close>

partial_function (option) xmit_wait :: "bus \<Rightarrow> u32 \<Rightarrow> u64 \<Rightarrow> geth \<Rightarrow> geth option" where
  "xmit_wait bus xmit_stat tmo s =
     (case ld32 bus (dma_desc_tx s) s of (desc0, s) \<Rightarrow>
        if desc0 AND 0x80000000 \<noteq> 0 \<or> (xmit_stat \<noteq> 0 \<and> xmit_stat \<noteq> 6) then
          (case get_timer (geth_clock bus) 0 s of (t, s) \<Rightarrow>
             if t > tmo then Some s else xmit_wait bus xmit_stat tmo s)
        else Some s)"

text \<open>
  \<^verbatim>\<open>tmo\<close> is an \<^verbatim>\<open>int\<close>, and compared as an \<^verbatim>\<open>unsigned long\<close>. \<open>packet\<close> is the address of the frame and
  \<open>len\<close> its \<^verbatim>\<open>int\<close> length.
\<close>

definition geth_xmit :: "bus \<Rightarrow> u64 \<Rightarrow> u64 \<Rightarrow> u32 \<Rightarrow> geth \<Rightarrow> (int \<times> geth) option" where
  "geth_xmit bus base packet len s = do {
     let tx_p = dma_desc_tx s;
     let (stat, s) = rd bus (base + GETH_TX_DMA_STA) s;
     let (t, s) = get_timer (geth_clock bus) 0 s;
     let tmo = (ucast (t + 5000) :: u32);
     s \<leftarrow> xmit_wait bus (stat AND 0x7) (scast tmo) s;
     let s = dma_tx_enable bus base False s;
     let s = modify bus (base + GETH_INT_STA) (\<lambda>v. v OR 0x3F) s;
     let s = stm tx_p (le32 0x80000000) s;
     let s = stm (tx_p + 4) (le32 0x61000000) s;
     let s = stm (tx_p + 4) (le32 (0x61000000 OR (0x7FF AND len))) s;
     let s = stm (tx_p + 8) (le64 packet) s;
     s \<leftarrow> flush tx_p 24 s;
     s \<leftarrow> flush packet (scast len) s;
     let s = modify bus (base + GETH_TX_CTL1) (\<lambda>v. v OR 0x00000001) s;
     let s = wr (ucast tx_p) (base + GETH_TX_DESC_LIST) s;
     let s = dma_tx_enable bus base True s;
     Some (0, s) }"

section \<open>Reception\<close>

definition rx_discard :: "u32 \<Rightarrow> bool" where
  "rx_discard desc0 \<longleftrightarrow>
     \<not> bit desc0 8 \<or> bit desc0 5 \<and> (bit desc0 0 \<or> bit desc0 7) \<or> bit desc0 15 \<or> bit desc0 12 \<or> bit desc0 3"

text \<open>\<^verbatim>\<open>rx_status\<close>: \<^verbatim>\<open>discard_frame\<close> or \<^verbatim>\<open>good_frame\<close>.\<close>

definition rx_status :: "bus \<Rightarrow> u64 \<Rightarrow> geth \<Rightarrow> bool \<times> geth" where
  "rx_status bus p s = (case ld32 bus p s of (desc0, s) \<Rightarrow> (rx_discard desc0, s))"

definition frm_len :: "u32 \<Rightarrow> u32" where
  "frm_len desc0 = drop_bit 16 desc0 AND 0x3FFF"

text \<open>From the label \<^verbatim>\<open>fill\<close>: the descriptor is given back to the engine.\<close>

definition geth_recv_fill :: "bus \<Rightarrow> u64 \<Rightarrow> geth \<Rightarrow> (int \<times> geth) option" where
  "geth_recv_fill bus base s = do {
     let rx_p = dma_desc_rx s;
     let s = stm rx_p (le32 0x80000000) s;
     let s = stm (rx_p + 4) (le32 0x81000000) s;
     let s = stm (rx_p + 4) (le32 (0x81000000 OR 0x7FF)) s;
     let s = stm (rx_p + 8) (le64 (rx_packet s)) s;
     s \<leftarrow> flush rx_p 64 s;
     let s = wr (ucast rx_p) (base + GETH_RX_DESC_LIST) s;
     let s = dma_rx_enable bus base True s;
     Some (0, s) }"

text \<open>
  Up to the call of \<^verbatim>\<open>net_process_received_packet\<close>: the address, the buffer and the length it is
  called with. Without a packet the function is complete. \<open>geth_recv_frame\<close> is the part after the
  copy of the frame.
\<close>

definition geth_recv_frame :: "bus \<Rightarrow> u64 \<Rightarrow> bytes \<Rightarrow> geth \<Rightarrow> ((u64 \<times> bytes \<times> u32) option \<times> geth) option" where
  "geth_recv_frame bus base frame s = do {
     let rx_p = dma_desc_rx s;
     let (recv_stat, s) = rd bus (base + GETH_INT_STA) s;
     (if recv_stat AND 0x2300 = 0 then do {
        (_, s) \<leftarrow> geth_recv_fill bus base s;
        Some (None, s) }
      else do {
        let s = dma_rx_enable bus base False s;
        let s = wr 0x3F00 (base + GETH_INT_STA) s;
        let (discard, s) = rx_status bus rx_p s;
        (if \<not> discard then do {
           let (desc0, s) = ld32 bus rx_p s;
           let len = frm_len desc0 - 4;
           s \<leftarrow> flush (rx_packet s) 2048 s;
           Some (Some (rx_handle_buf s, frame, len), s) }
         else do {
           let s = stm (rx_packet s) (replicate 64 0) s;
           s \<leftarrow> flush (rx_packet s) 64 s;
           (_, s) \<leftarrow> geth_recv_fill bus base s;
           Some (None, s) }) }) }"

definition geth_recv :: "bus \<Rightarrow> u64 \<Rightarrow> geth \<Rightarrow> ((u64 \<times> bytes \<times> u32) option \<times> geth) option" where
  "geth_recv bus base s = do {
     let rx_p = dma_desc_rx s;
     s \<leftarrow> invalidate rx_p (rx_p + 64) s;
     let (desc0, s) = ld32 bus rx_p s;
     (if desc0 AND 0x80000000 \<noteq> 0 then Some (None, s)
      else do {
        s \<leftarrow> invalidate (rx_packet s) (rx_packet s + 2048) s;
        let (frame, t) = mem_load bus (rx_packet s) 2048 (tr s);
        geth_recv_frame bus base frame (stm (rx_handle_buf s) frame (s\<lparr>tr := t\<rparr>)) }) }"

text \<open>After the call, when there was one.\<close>

definition geth_recv_done :: "bus \<Rightarrow> u64 \<Rightarrow> bytes option \<Rightarrow> geth \<Rightarrow> (int \<times> geth) option" where
  "geth_recv_done bus base b s = (case b of None \<Rightarrow> Some (0, s) | Some _ \<Rightarrow> geth_recv_fill bus base s)"

section \<open>Clocks and the PHY\<close>

text \<open>
  \<^verbatim>\<open>geth_sys_init\<close>. \<open>phy_clk\<close> and \<open>ccmu\<close> are the mapped register bases. The register of the PHY
  clock, from the value it had, for either type of PHY and for the interface mode.
\<close>

definition clk_select :: "phy_type \<Rightarrow> u32 \<Rightarrow> u32" where
  "clk_select ty value =
     (case ty of
        INT_PHY \<Rightarrow> ((value OR push_bit 15 1) AND NOT (push_bit 16 1)) OR push_bit 17 3
      | EXT_PHY \<Rightarrow> (value AND NOT (push_bit 15 1)) OR push_bit 16 1)"

definition clk_mode :: "u32 \<Rightarrow> u32 \<Rightarrow> u32" where
  "clk_mode itf value =
     (let value = (if itf = 7 then value OR 0x00000004 else value AND NOT 0x00000004);
          value = value AND NOT 0x00000003
      in if itf = 7 \<or> itf = 1 then value OR 0x00000002
         else if itf = 6 then value OR 0x00002001 else value)"

definition clk_delay :: "u32 \<Rightarrow> u32 \<Rightarrow> u32 \<Rightarrow> u32" where
  "clk_delay tx_delay rx_delay value =
     (let value = value AND NOT (push_bit 10 0x07);
          value = value OR push_bit 10 (tx_delay AND 0x07);
          value = value AND NOT (push_bit 5 0x1f)
      in value OR push_bit 5 (rx_delay AND 0x1f))"

definition geth_sys_init :: "bus \<Rightarrow> u64 \<Rightarrow> u64 \<Rightarrow> geth \<Rightarrow> int \<times> geth" where
  "geth_sys_init bus phy_clk ccmu s = (
     let s = s\<lparr>used_type := EXT_PHY\<rparr>;
         (value, s) = rd bus phy_clk s;
         (s, tx_delay, rx_delay, use_ephy_clk) = (case used_type s of
            INT_PHY \<Rightarrow> (modify bus (ccmu + 0x02c8) (\<lambda>v. v OR push_bit 2 1)
              (modify bus (ccmu + 0x0070) (\<lambda>v. v OR 1) s), 0, 0, 0)
          | EXT_PHY \<Rightarrow> (s\<lparr>phy_interface := 7\<rparr>, 3, 0, 1 :: nat));
         value = clk_delay tx_delay rx_delay (clk_mode (phy_interface s) (clk_select (used_type s) value));
         s = wr value phy_clk s;
         s = modify bus (ccmu + 0x097c) (\<lambda>v. (v OR push_bit 16 1) OR 1) s
     in (0, if use_ephy_clk = 1 then modify bus (ccmu + 0x0970) (\<lambda>v. v OR push_bit 30 3) s else s))"

text \<open>Reading one register until bits are clear, and until bits are set.\<close>

partial_function (option) phy_until_clear :: "bus \<Rightarrow> u64 \<Rightarrow> u16 \<Rightarrow> u16 \<Rightarrow> geth \<Rightarrow> geth option" where
  "phy_until_clear bus base reg bits s = do {
     (v, s) \<leftarrow> geth_phy_read bus base (phy_addr s) reg s;
     (if v AND bits \<noteq> 0 then phy_until_clear bus base reg bits s else Some s) }"

partial_function (option) aneg_poll :: "bus \<Rightarrow> u64 \<Rightarrow> geth \<Rightarrow> geth option" where
  "aneg_poll bus base s = do {
     (v, s) \<leftarrow> geth_phy_read bus base (phy_addr s) MII_BMSR s;
     (if v AND BMSR_ANEGCOMPLETE = 0 then udelay (geth_clock bus) 500000 s \<bind> aneg_poll bus base
      else Some s) }"

text \<open>The first address with an identification; the old one is kept when there is none.\<close>

fun phy_scan :: "bus \<Rightarrow> u64 \<Rightarrow> u32 list \<Rightarrow> geth \<Rightarrow> geth option" where
  "phy_scan bus base [] s = Some s"
| "phy_scan bus base (i # is) s = do {
     (id1, s) \<leftarrow> geth_phy_read bus base i MII_PHYSID1 s;
     (id2, s) \<leftarrow> geth_phy_read bus base i MII_PHYSID2 s;
     (if (push_bit 16 (ucast id1) OR ucast id2) AND (0x1fffffff :: u32) = 0x1fffffff
        then phy_scan bus base is s
      else Some (s\<lparr>phy_addr := i\<rparr>)) }"

fun phy_writes :: "bus \<Rightarrow> u64 \<Rightarrow> (u8 \<times> u16) list \<Rightarrow> geth \<Rightarrow> geth option" where
  "phy_writes bus base [] s = Some s"
| "phy_writes bus base ((reg, data) # ws) s = do {
     s \<leftarrow> geth_phy_write bus base (ucast (phy_addr s)) reg data s;
     phy_writes bus base ws s }"

definition int_phy_setup :: "(u8 \<times> u16) list" where
  "int_phy_setup = [(0x1f, 0x013d), (0x10, 0x3ffe), (0x1f, 0x063d), (0x13, 0x8000), (0x1f, 0x023d), (0x18, 0x1000),
     (0x1f, 0x063d), (0x15, 0x132c), (0x1f, 0x013d), (0x13, 0xd602), (0x17, 0x003b), (0x1f, 0x063d), (0x14, 0x7088),
     (0x1f, 0x033d), (0x11, 0x8530), (0x1f, 0x003d)]"

definition phy_modify :: "bus \<Rightarrow> u64 \<Rightarrow> u16 \<Rightarrow> (u16 \<Rightarrow> u16) \<Rightarrow> geth \<Rightarrow> geth option" where
  "phy_modify bus base reg f s = do {
     (v, s) \<leftarrow> geth_phy_read bus base (phy_addr s) reg s;
     geth_phy_write bus base (ucast (phy_addr s)) (ucast reg) (f v) s }"

text \<open>The mode the controller is set to, from the control register of the PHY.\<close>

definition basic_ctl0 :: "u16 \<Rightarrow> u32 \<Rightarrow> u32" where
  "basic_ctl0 phy_val v =
     (let v = (if phy_val AND BMCR_FULLDPLX \<noteq> 0 then v OR 0x01 else v AND NOT 0x01);
          v = v AND NOT 0xc
      in if phy_val AND BMCR_SPEED100 \<noteq> 0 then v OR 0x0c
         else if phy_val AND BMCR_SPEED1000 = 0 then v OR 0x08 else v)"

definition mii_phy_init :: "bus \<Rightarrow> u64 \<Rightarrow> geth \<Rightarrow> (int \<times> geth) option" where
  "mii_phy_init bus base s = do {
     s \<leftarrow> phy_scan bus base (map of_nat [0..<32]) s;
     s \<leftarrow> (if used_type s = INT_PHY then phy_writes bus base int_phy_setup s else Some s);
     s \<leftarrow> phy_modify bus base MII_BMCR (\<lambda>v. v OR BMCR_RESET) s;
     s \<leftarrow> phy_until_clear bus base MII_BMCR BMCR_RESET s;
     s \<leftarrow> phy_modify bus base MII_BMCR (\<lambda>v. v AND NOT BMCR_PDOWN) s;
     s \<leftarrow> phy_until_clear bus base MII_BMCR BMCR_PDOWN s;
     s \<leftarrow> phy_modify bus base MII_CTRL1000 (\<lambda>v. v AND NOT ADVERTISE_1000FULL) s;
     s \<leftarrow> phy_modify bus base MII_BMCR (\<lambda>v. ((v AND NOT BMCR_SPEED1000) OR BMCR_SPEED100) OR BMCR_FULLDPLX) s;
     s \<leftarrow> aneg_poll bus base s;
     (phy_val, s) \<leftarrow> geth_phy_read bus base (phy_addr s) MII_BMCR s;
     let s = modify bus (base + GETH_BASIC_CTL0) (basic_ctl0 phy_val) s;
     (_, s) \<leftarrow> geth_phy_read bus base (phy_addr s) MII_BMCR s;
     Some (0, s) }"

section \<open>The device's operations\<close>

definition addr_hi :: "bytes \<Rightarrow> u32" where
  "addr_hi a = push_bit 8 (ucast (a ! 5)) OR ucast (a ! 4)"

definition addr_lo :: "bytes \<Rightarrow> u32" where
  "addr_lo a = ((push_bit 24 (ucast (a ! 3)) OR push_bit 16 (ucast (a ! 2))) OR push_bit 8 (ucast (a ! 1))) OR ucast (a ! 0)"

definition geth_write_hwaddr :: "eth_device \<Rightarrow> geth \<Rightarrow> int \<times> geth" where
  "geth_write_hwaddr d s =
     (0, wr (addr_lo (enetaddr d)) (iobase d + GETH_ADDR_LO0) (wr (addr_hi (enetaddr d)) (iobase d + GETH_ADDR_HI0) s))"

definition geth_init :: "bus \<Rightarrow> eth_device \<Rightarrow> geth \<Rightarrow> (int \<times> geth) option" where
  "geth_init bus d s = do {
     let base = iobase d;
     let s = modify bus (base + GETH_BASIC_CTL1) (\<lambda>v. v OR 0x01) s;
     s \<leftarrow> wait_clear bus (base + GETH_BASIC_CTL1) 0x01 s;
     (_, s) \<leftarrow> mii_phy_init bus base s;
     let s = modify bus (base + GETH_TX_CTL0) (\<lambda>v. v OR push_bit 30 3) s;
     let s = modify bus (base + GETH_TX_CTL1) (\<lambda>v. v OR 0x02) s;
     let s = modify bus (base + GETH_RX_CTL0) (\<lambda>v. v OR push_bit 28 0x0F) s;
     let s = modify bus (base + GETH_RX_CTL1) (\<lambda>v. v OR 0x02) s;
     let s = modify bus (base + GETH_RX_FRM_FLT) (\<lambda>v. v OR 0x00000001) s;
     let s = modify bus (base + GETH_BASIC_CTL1) (\<lambda>v. v OR push_bit 24 8) s;
     let s = (if write_hwaddr d then snd (geth_write_hwaddr d s) else s);
     let s = wr 0 (base + GETH_INT_EN) s;
     let s = stm (dma_desc_tx s) (replicate 24 0) s;
     let s = stm (dma_desc_rx s) (replicate 24 0) s;
     let s = stm (dma_desc_tx s + 16) (le64 (dma_desc_tx s)) s;
     let s = stm (dma_desc_rx s + 16) (le64 (dma_desc_rx s)) s;
     s \<leftarrow> flush (dma_desc_tx s) 64 s;
     s \<leftarrow> flush (dma_desc_rx s) 64 s;
     let s = wr (ucast (dma_desc_tx s)) (base + GETH_TX_DESC_LIST) s;
     let s = wr (ucast (dma_desc_rx s)) (base + GETH_RX_DESC_LIST) s;
     Some (0, s) }"

definition geth_halt :: "bus \<Rightarrow> u64 \<Rightarrow> geth \<Rightarrow> geth" where
  "geth_halt bus base s =
     modify bus (base + GETH_RX_CTL0) (\<lambda>v. v AND NOT 0x80000000)
       (modify bus (base + GETH_TX_CTL0) (\<lambda>v. v AND NOT 0x80000000) s)"

text \<open>\<open>arena\<close> is the address of the array of \<^verbatim>\<open>memalign\<close>; the alignment asked for is not used.\<close>

definition noncached_alloc :: "u64 \<Rightarrow> u64 \<Rightarrow> geth \<Rightarrow> (u64 \<times> geth) option" where
  "noncached_alloc arena n s = do {
     (sz, p) \<leftarrow> memalign arena (memalign_mark s) 64 n;
     Some (arena + p, s\<lparr>memalign_mark := sz\<rparr>) }"

text \<open>The function is compiled out.\<close>

definition random_ether_addr :: "bytes \<Rightarrow> bytes" where
  "random_ether_addr a = a"

definition geth_malloc :: "u64 \<Rightarrow> geth \<Rightarrow> nat \<times> geth" where
  "geth_malloc n s = (case malloc (mii_mark (mii_part s)) n of (sz, p) \<Rightarrow>
     (unat p, s\<lparr>mii_part := (mii_part s)\<lparr>mii_mark := sz\<rparr>\<rparr>))"

text \<open>
  The new device. \<^verbatim>\<open>sizeof(struct eth_device)\<close> is 104; the operations are those of \<open>geth_ops\<close>. \<open>rd_fn\<close>
  and \<open>wr_fn\<close> are the numbers of \<open>geth_miiphy_read\<close> and \<open>geth_miiphy_write\<close>.
\<close>

definition geth_device :: "u64 \<Rightarrow> eth_device" where
  "geth_device io = \<lparr>dev_name = put_bytes (replicate 16 0) 0 (c_string ''eth0''),
     enetaddr = random_ether_addr (replicate 6 0), iobase = io, dev_state = ETH_STATE_INIT, write_hwaddr = True,
     dev_next = None, dev_index = 0\<rparr>"

record board =
  board_phy_clk :: u64
  board_ccmu :: u64
  board_io :: u64
  board_arena :: u64
  board_rd_fn :: nat
  board_wr_fn :: nat
  board_tx_at :: u64     \<comment> \<open>where the buffer of the frame to send lies\<close>

definition geth_buffers :: "u64 \<Rightarrow> geth \<Rightarrow> (bool \<times> geth) option" where
  "geth_buffers arena s = do {
     (p, s) \<leftarrow> noncached_alloc arena 24 s;
     let s = s\<lparr>dma_desc_tx := p\<rparr>;
     (if p = 0 then Some (False, s) else do {
        (p, s) \<leftarrow> noncached_alloc arena 24 s;
        let s = s\<lparr>dma_desc_rx := p\<rparr>;
        (if p = 0 then Some (False, s) else do {
           (p, s) \<leftarrow> noncached_alloc arena 2048 s;
           let s = s\<lparr>rx_packet := p\<rparr>;
           (if p = 0 then Some (False, s) else do {
              (p, s) \<leftarrow> noncached_alloc arena 2048 s;
              let s = s\<lparr>rx_handle_buf := p\<rparr>;
              Some (p \<noteq> 0, s) }) }) }) }"

definition geth_initialize :: "bus \<Rightarrow> board \<Rightarrow> geth sys \<Rightarrow> (int \<times> geth sys) option" where
  "geth_initialize bus b s = do {
     let (a, h) = geth_malloc 104 (hw s);
     (ok, h) \<leftarrow> geth_buffers (board_arena b) h;
     (if \<not> ok then Some (-12, s\<lparr>hw := h\<rparr>)
      else do {
        let s = put_dev a (geth_device (board_io b)) (s\<lparr>hw := h\<rparr>);
        let (r, h) = geth_sys_init bus (board_phy_clk b) (board_ccmu b) (hw s);
        (if r \<noteq> 0 then Some (-12, s\<lparr>hw := h\<rparr>)
         else do {
           (_, s) \<leftarrow> eth_register a (s\<lparr>hw := h\<rparr>);
           d \<leftarrow> devs (eth s) a;
           v \<leftarrow> miiphy_register (dev_name d) (board_rd_fn b) (board_wr_fn b) (mii_part (hw s));
           Some (0, s\<lparr>hw := (hw s)\<lparr>mii_part := v\<rparr>\<rparr>) }) }) }"

text \<open>
  The operations the stack calls, for any handlers of clients. A frame to send is in the memory
  of the stack, at \<open>board_tx_at\<close>.
\<close>

definition geth_ops :: "bus \<Rightarrow> board \<Rightarrow> u64 \<Rightarrow> geth drv_ops" where
  "geth_ops bus b sp = \<lparr>drv_time = geth_clock bus,
     drv_init = (\<lambda>_ d. geth_init bus d),
     drv_send = (\<lambda>_ d pkt len s. geth_xmit bus (iobase d) (board_tx_at b) len (stm (board_tx_at b) pkt s)),
     drv_recv = (\<lambda>_ d. geth_recv bus (iobase d)),
     drv_recv_done = (\<lambda>_ d. geth_recv_done bus (iobase d)),
     drv_halt = (\<lambda>_ d s. Some (geth_halt bus (iobase d) s)),
     drv_write_hwaddr = (\<lambda>_ d s. Some (geth_write_hwaddr d s)),
     client_rx = (\<lambda>_ _ _ _ _ _ _. None), client_timeout = (\<lambda>_ _. None), stack_addr = sp\<rparr>"

end
