(* ===== verification/Emac.thy ===== *)
theory Emac
  imports Geth Net EthRing
begin

text \<open>
  What the controller driver does, as the events it causes. The lemmas give the effect of each
  access; then a frame is sent: the wait for the previous one ends, the descriptor and the frame
  are cleaned out of the cache before the DMA engine starts; what a received descriptor means;
  the registers that hold the address and the clock configuration; and what
  \<^verbatim>\<open>geth_initialize\<close> sets up.
\<close>

section \<open>Events\<close>

definition emit :: "ev list \<Rightarrow> geth \<Rightarrow> geth" where
  "emit evs s = s\<lparr>tr := tr s @ evs\<rparr>"

lemma emit_emit [simp]: "emit e2 (emit e1 s) = emit (e1 @ e2) s" "emit [] s = s"
  by (simp_all add: emit_def)

lemma emit_sel [simp]:
  "tr (emit evs s) = tr s @ evs" "dma_desc_tx (emit evs s) = dma_desc_tx s" "dma_desc_rx (emit evs s) = dma_desc_rx s"
  "rx_packet (emit evs s) = rx_packet s" "rx_handle_buf (emit evs s) = rx_handle_buf s"
  "used_type (emit evs s) = used_type s" "Geth.phy_interface (emit evs s) = Geth.phy_interface s"
  "Geth.phy_addr (emit evs s) = Geth.phy_addr s" "memalign_mark (emit evs s) = memalign_mark s"
  "mii_part (emit evs s) = mii_part s"
  by (simp_all add: emit_def)

lemma access_emit:
  "wr v a s = emit [WriteFence, RegWrite a v] s"
  "stm a bs s = emit [MemStore a bs] s"
  "rd bus a s = (reg_value bus (tr s) a, emit [RegRead a (reg_value bus (tr s) a), ReadFence] s)"
  "ld32 bus a s = (get32 (mem_value bus (tr s) a 4) 0, emit [MemLoad a (mem_value bus (tr s) a 4)] s)"
  "geth_clock bus s = (clock_value bus (tr s), emit [ClockRead (clock_value bus (tr s))] s)"
  by (simp_all add: wr_def stm_def rd_def ld32_def geth_clock_def emit_def writel_def mem_store_def readl_def
      mem_load_def rdtime_def Let_def)

definition reg_change :: "u64 \<Rightarrow> u32 \<Rightarrow> u32 \<Rightarrow> ev list" where
  "reg_change a old new = [RegRead a old, ReadFence, WriteFence, RegWrite a new]"

lemma modify_emit:
  "modify bus a f s = emit (reg_change a (reg_value bus (tr s) a) (f (reg_value bus (tr s) a))) s"
  by (simp add: modify_def access_emit reg_change_def)

lemma dma_enable_emit:
  "dma_enable bus a en s = emit (reg_change a (reg_value bus (tr s) a)
     (if en then reg_value bus (tr s) a OR 0x40000000 else reg_value bus (tr s) a AND NOT 0x40000000)) s"
  by (simp add: dma_enable_def modify_emit)

lemma flush_emit:
  "unat (a + n) + 63 < 2 ^ 64 \<Longrightarrow> flush a n s = Some (emit (map CacheClean (range_lines a (a + n)) @ [SyncIs]) s)"
  by (simp add: flush_def flush_cache_def flush_dcache_range_eq emit_def)

lemma invalidate_emit:
  "unat e + 63 < 2 ^ 64 \<Longrightarrow> invalidate a e s = Some (emit (map CacheInval (range_lines a e) @ [SyncIs]) s)"
  by (simp add: invalidate_def invalidate_dcache_range_eq emit_def)

section \<open>Lines that are not in memory yet\<close>

text \<open>\<open>dirty t d l\<close>: line \<open>l\<close> holds stores that were not cleaned, when it did (\<open>d\<close>) before \<open>t\<close>.\<close>

fun dirty :: "trace \<Rightarrow> bool \<Rightarrow> u64 \<Rightarrow> bool" where
  "dirty [] d l = d"
| "dirty (MemStore a bs # t) d l = dirty t (d \<or> l \<in> set (range_lines a (a + of_nat (length bs)))) l"
| "dirty (CacheClean x # t) d l = dirty t (d \<and> x \<noteq> l) l"
| "dirty (_ # t) d l = dirty t d l"

fun is_store :: "ev \<Rightarrow> bool" where
  "is_store (MemStore a bs) = True"
| "is_store _ = False"

lemma dirty_append: "dirty (t @ u) d l = dirty u (dirty t d l) l"
  by (induction t d l rule: dirty.induct) simp_all

lemma dirty_clean: "dirty (map CacheClean ls) d l \<longleftrightarrow> d \<and> l \<notin> set ls"
  by (induction ls arbitrary: d) auto

lemma dirty_quiet: "\<forall>e \<in> set t. \<not> is_store e \<Longrightarrow> \<not> dirty t False l"
  by (induction t "False" l rule: dirty.induct) auto

lemma cleaned:
  assumes "l \<in> set ls" "\<forall>e \<in> set u. \<not> is_store e"
  shows "\<not> dirty (t @ map CacheClean ls @ u) d l"
  using assms dirty_quiet by (simp add: dirty_append dirty_clean)

lemma quiet_lists [simp]:
  "\<forall>e \<in> set (map CacheClean ls). \<not> is_store e" "\<forall>e \<in> set (reg_change a x y). \<not> is_store e"
  by (auto simp: reg_change_def)

section \<open>The wait for the previous frame\<close>

text \<open>A clock that runs: it shows \<open>time\<close>, and no event takes more than \<open>d\<close> ticks.\<close>

definition clock_runs :: "bus \<Rightarrow> (trace \<Rightarrow> nat) \<Rightarrow> nat \<Rightarrow> bool" where
  "clock_runs bus time d \<longleftrightarrow> (\<forall>t. clock_value bus t = of_nat (time t) \<and>
     (\<forall>e. time t \<le> time (t @ [e]) \<and> time (t @ [e]) \<le> time t + d) \<and> (\<forall>v. time t < time (t @ [ClockRead v])))"

lemma ms_words:
  assumes "n < 2 ^ 31"
  shows "scast (of_nat n :: u32) = (of_nat n :: u64)" "ucast (of_nat n :: u64) = (of_nat n :: u32)"
    "unat (of_nat n :: u64) = n"
proof -
  have sint: "sint (of_nat n :: u32) = int n"
    using assms by (simp add: signed_of_nat signed_take_bit_int_eq_self_iff)
  show "scast (of_nat n :: u32) = (of_nat n :: u64)" by (metis sint of_int_of_nat_eq of_int_sint)
  show u: "unat (of_nat n :: u64) = n" using assms by (simp add: unsigned_of_nat take_bit_nat_eq_self_iff)
  show "ucast (of_nat n :: u64) = (of_nat n :: u32)" by (metis u of_nat_unat)
qed

lemma timer_ms:
  assumes "clock_runs bus time d" "time (tr s) < 24000 * 2 ^ 31"
  shows "get_timer (geth_clock bus) 0 s = (of_nat (time (tr s) div 24000), emit [ClockRead (clock_value bus (tr s))] s)"
proof -
  let ?n = "time (tr s)"
  have v: "clock_value bus (tr s) = of_nat ?n" using assms(1) by (simp add: clock_runs_def)
  have n: "?n div 24000 < 2 ^ 31" using assms(2) by (simp add: less_mult_imp_div_less)
  have u: "unat (of_nat ?n :: u64) = ?n" using assms(2) by (simp add: unsigned_of_nat take_bit_nat_eq_self_iff)
  have d: "unat ((of_nat ?n :: u64) div 24000) = ?n div 24000" by (simp add: unat_div_distrib u)
  have c: "(of_nat ?n :: u64) div 24000 = of_nat (?n div 24000)" by (metis d of_nat_unat ucast_id)
  show ?thesis
    using get_timer_eq [of "geth_clock bus" s "clock_value bus (tr s)"] c ms_words(1,2) [OF n]
    by (simp add: access_emit v)
qed

text \<open>The loop only loads the descriptor and reads the clock, and ends five seconds after its start.\<close>

definition waits :: "ev list \<Rightarrow> bool" where
  "waits evs \<longleftrightarrow> (\<forall>e \<in> set evs. (\<exists>a bs. e = MemLoad a bs) \<or> (\<exists>v. e = ClockRead v))"

lemma waits_simps [simp]:
  "waits []" "waits (e # es) \<longleftrightarrow> ((\<exists>a bs. e = MemLoad a bs) \<or> (\<exists>v. e = ClockRead v)) \<and> waits es"
  "waits (es @ es') \<longleftrightarrow> waits es \<and> waits es'"
  by (auto simp: waits_def)

lemma waits_quiet: "waits evs \<Longrightarrow> \<forall>e \<in> set evs. \<not> is_store e"
  by (auto simp: waits_def)

lemma xmit_wait_ends:
  assumes clock: "clock_runs bus time d" and T: "24000 * (T + 1) + 2 * d < 24000 * 2 ^ 31"
    and "time (tr s) \<le> 24000 * (T + 1) + d"
  shows "\<exists>evs. xmit_wait bus stat (of_nat T) s = Some (emit evs s) \<and> waits evs \<and>
    time (tr s @ evs) \<le> 24000 * (T + 1) + 3 * d"
  using assms(3)
proof (induction "24000 * (T + 1) + d + 1 - time (tr s)" arbitrary: s rule: less_induct)
  case less
  have step: "time t \<le> time (t @ [e])" "time (t @ [e]) \<le> time t + d" "time t < time (t @ [ClockRead v])" for t e v
    using clock by (auto simp: clock_runs_def)
  obtain w bs where w: "ld32 bus (dma_desc_tx s) s = (w, emit [MemLoad (dma_desc_tx s) bs] s)" by (simp add: access_emit)
  define s1 where "s1 = emit [MemLoad (dma_desc_tx s) bs] s"
  have t1: "time (tr s) \<le> time (tr s1)" "time (tr s1) \<le> time (tr s) + d" using step by (simp_all add: s1_def)
  show ?case
  proof (cases "w AND 0x80000000 \<noteq> 0 \<or> (stat \<noteq> 0 \<and> stat \<noteq> 6)")
    case False
    have "xmit_wait bus stat (of_nat T) s = Some (emit [MemLoad (dma_desc_tx s) bs] s)"
      using False w by (subst xmit_wait.simps) auto
    moreover have "time (tr s @ [MemLoad (dma_desc_tx s) bs]) \<le> 24000 * (T + 1) + 3 * d"
      using t1 less.prems by (simp add: s1_def)
    ultimately show ?thesis by fastforce
  next
    case True
    have small: "time (tr s1) < 24000 * 2 ^ 31" using t1 less.prems T by linarith
    let ?n = "time (tr s1) div 24000"
    let ?c = "ClockRead (clock_value bus (tr s1))"
    define s2 where "s2 = emit [?c] s1"
    have get: "get_timer (geth_clock bus) 0 s1 = (of_nat ?n, s2)"
      using timer_ms [OF clock small] by (simp add: s2_def)
    have n: "?n < 2 ^ 31" "T < 2 ^ 31" using small T by (simp_all add: less_mult_imp_div_less)
    have late: "(of_nat ?n :: u64) > of_nat T \<longleftrightarrow> ?n > T"
      unfolding word_less_nat_alt by (simp only: ms_words(3) n)
    have evs: "s2 = emit [MemLoad (dma_desc_tx s) bs, ?c] s" by (simp add: s2_def s1_def)
    have t2: "time (tr s1) < time (tr s2)" "time (tr s2) \<le> time (tr s1) + d" using step by (simp_all add: s2_def)
    have run: "xmit_wait bus stat (of_nat T) s = (if ?n > T then Some s2 else xmit_wait bus stat (of_nat T) s2)"
      using True w get late by (subst xmit_wait.simps) (auto simp: s1_def [symmetric])
    show ?thesis
    proof (cases "?n > T")
      case True
      have "time (tr s2) \<le> 24000 * (T + 1) + 3 * d" using t1 t2 less.prems by linarith
      with True run evs show ?thesis by fastforce
    next
      case False
      then have "time (tr s1) < 24000 * (T + 1)"
        by (metis Suc_eq_plus1 div_less_iff_less_mult less_Suc_eq_le mult.commute not_less zero_less_numeral)
      with t1 t2 have ub: "time (tr s2) \<le> 24000 * (T + 1) + d"
        and dec: "24000 * (T + 1) + d + 1 - time (tr s2) < 24000 * (T + 1) + d + 1 - time (tr s)" by linarith+
      from less.hyps [OF dec ub] obtain evs where "xmit_wait bus stat (of_nat T) s2 = Some (emit evs s2)" "waits evs"
        "time (tr s2 @ evs) \<le> 24000 * (T + 1) + 3 * d" by blast
      with False run evs show ?thesis by (intro exI [of _ "[MemLoad (dma_desc_tx s) bs, ?c] @ evs"]) auto
    qed
  qed
qed

definition toy_board :: board where
  "toy_board = \<lparr>board_phy_clk = 0x3000030, board_ccmu = 0x2001000, board_io = 0x4500000, board_arena = 0x80000000,
     board_rd_fn = 0, board_wr_fn = 1, board_tx_at = 0x81000000\<rparr>"

text \<open>
  Hardware for the witnesses: registers and memory are 0, the clock counts the events, and a
  register with the busy bit shows it for three reads.
\<close>

definition busy_reads :: "u64 \<Rightarrow> trace \<Rightarrow> nat" where
  "busy_reads a t = 3 - length (filter (\<lambda>e. case e of RegRead b v \<Rightarrow> b = a | _ \<Rightarrow> False) t)"

definition toy_bus :: bus where
  "toy_bus = \<lparr>reg_value = \<lambda>t a. if busy_reads a t \<noteq> 0 then 1 else 0, mem_value = \<lambda>t a n. replicate n 0,
     clock_value = \<lambda>t. of_nat (length t)\<rparr>"

definition toy_geth :: geth where
  "toy_geth = geth_vars_init\<lparr>dma_desc_tx := 0x40000000, dma_desc_rx := 0x40000040, rx_packet := 0x40000080,
     rx_handle_buf := 0x40000880\<rparr>"

definition toy_sys :: "geth sys" where
  "toy_sys = (sys_init toy_geth)\<lparr>eth := eth_vars_init\<lparr>devs := [1 \<mapsto> geth_device 0x30000], eth_current := Some 1\<rparr>\<rparr>"

lemma toy_geth_sel [simp]:
  "tr toy_geth = []" "dma_desc_tx toy_geth = 0x40000000" "dma_desc_rx toy_geth = 0x40000040"
  "rx_packet toy_geth = 0x40000080"
  by (simp_all add: toy_geth_def geth_vars_init_def)

lemma toy_clock: "clock_runs toy_bus length 1"
  by (simp add: clock_runs_def toy_bus_def)

section \<open>A frame is sent\<close>

definition tx_stores :: "u64 \<Rightarrow> u64 \<Rightarrow> u32 \<Rightarrow> ev list" where
  "tx_stores tx_p packet len = [MemStore tx_p (le32 0x80000000), MemStore (tx_p + 4) (le32 0x61000000),
     MemStore (tx_p + 4) (le32 (0x61000000 OR (0x7FF AND len))), MemStore (tx_p + 8) (le64 packet)]"

lemma xmit_publishes:
  assumes clock: "clock_runs bus time d" and soon: "time (tr s) + 24000 * 5001 + 5 * d < 24000 * 2 ^ 31"
    and tx: "unat (dma_desc_tx s + 24) + 63 < 2 ^ 64" and pkt: "unat (packet + scast len) + 63 < 2 ^ 64"
  shows "\<exists>pre start evs. geth_xmit bus base packet len s = Some (0, emit evs s) \<and>
    evs = pre @ tx_stores (dma_desc_tx s) packet len @
      map CacheClean (range_lines (dma_desc_tx s) (dma_desc_tx s + 24)) @ [SyncIs] @
      map CacheClean (range_lines packet (packet + scast len)) @ [SyncIs] @ start \<and>
    (\<forall>e \<in> set (pre @ start). \<not> is_store e) \<and>
    (\<exists>v. RegWrite (base + GETH_TX_CTL1) (v AND NOT 0x40000000) \<in> set pre) \<and>
    (\<exists>x y. start = reg_change (base + GETH_TX_CTL1) x (x OR 1) @
      [WriteFence, RegWrite (base + GETH_TX_DESC_LIST) (ucast (dma_desc_tx s))] @
      reg_change (base + GETH_TX_CTL1) y (y OR 0x40000000))"
proof -
  have step: "time (t @ [e]) \<le> time t + d" for t e using clock by (auto simp: clock_runs_def)
  let ?sta = "reg_value bus (tr s) (base + GETH_TX_DMA_STA)"
  define s1 where "s1 = emit [RegRead (base + GETH_TX_DMA_STA) ?sta, ReadFence] s"
  have r1: "rd bus (base + GETH_TX_DMA_STA) s = (?sta, s1)" by (simp add: access_emit s1_def)
  have tm1: "time (tr s1) \<le> time (tr s) + 2 * d"
    using step [of "tr s" "RegRead (base + GETH_TX_DMA_STA) ?sta"]
      step [of "tr s @ [RegRead (base + GETH_TX_DMA_STA) ?sta]" ReadFence] by (simp add: s1_def)
  define c where "c = ClockRead (clock_value bus (tr s1))"
  define s2 where "s2 = emit [c] s1"
  define n where "n = time (tr s1) div 24000"
  let ?T = "n + 5000"
  have small: "time (tr s1) < 24000 * 2 ^ 31" using tm1 soon by linarith
  have get: "get_timer (geth_clock bus) 0 s1 = (of_nat n, s2)"
    using timer_ms [OF clock small] by (simp add: s2_def c_def n_def)
  have tm2: "time (tr s2) \<le> time (tr s1) + d" using step by (simp add: s2_def)
  have nT: "24000 * n \<le> time (tr s1)" "time (tr s1) < 24000 * (n + 1)"
    unfolding n_def by (rule times_div_less_eq_dividend) (simp add: dividend_less_times_div)
  have T: "24000 * (?T + 1) + 2 * d < 24000 * 2 ^ 31" using nT(1) tm1 soon by simp
  have le: "time (tr s2) \<le> 24000 * (?T + 1) + d" using tm2 nT(2) by simp
  have T31: "?T < 2 ^ 31" using T by simp
  have "(of_nat n + 5000 :: u64) = of_nat ?T" by simp
  then have tmo: "scast (ucast (of_nat n + 5000 :: u64) :: u32) = (of_nat ?T :: u64)"
    by (simp only: ms_words(1,2) [OF T31])
  obtain w where w: "xmit_wait bus (?sta AND 0x7) (of_nat ?T) s2 = Some (emit w s2)" "waits w"
    using xmit_wait_ends [OF clock T le] by blast
  define s3 where "s3 = emit w s2"
  have s3: "s3 = emit ([RegRead (base + GETH_TX_DMA_STA) ?sta, ReadFence, c] @ w) s" by (simp add: s3_def s2_def s1_def)
  let ?ctl = "base + GETH_TX_CTL1" and ?int = "base + GETH_INT_STA" and ?tx = "dma_desc_tx s"
  obtain v where v: "dma_tx_enable bus base False s3 = emit (reg_change ?ctl v (v AND NOT 0x40000000)) s3"
    by (simp add: dma_tx_enable_def dma_enable_emit)
  define s4 where "s4 = emit (reg_change ?ctl v (v AND NOT 0x40000000)) s3"
  obtain i where i: "modify bus ?int (\<lambda>v. v OR 0x3F) s4 = emit (reg_change ?int i (i OR 0x3F)) s4"
    by (simp add: modify_emit)
  define s5 where "s5 = emit (reg_change ?int i (i OR 0x3F)) s4"
  define s6 where "s6 = emit (tx_stores ?tx packet len) s5"
  have st: "stm (?tx + 8) (le64 packet) (stm (?tx + 4) (le32 (0x61000000 OR (0x7FF AND len)))
      (stm (?tx + 4) (le32 0x61000000) (stm ?tx (le32 0x80000000) s5))) = s6"
    by (simp add: access_emit s6_def tx_stores_def)
  define s7 where "s7 = emit (map CacheClean (range_lines ?tx (?tx + 24)) @ [SyncIs]) s6"
  have f1: "flush ?tx 24 s6 = Some s7" by (simp add: flush_emit [OF tx] s7_def)
  define s8 where "s8 = emit (map CacheClean (range_lines packet (packet + scast len)) @ [SyncIs]) s7"
  have f2: "flush packet (scast len) s7 = Some s8" by (simp add: flush_emit [OF pkt] s8_def)
  obtain x where x: "modify bus ?ctl (\<lambda>v. v OR 1) s8 = emit (reg_change ?ctl x (x OR 1)) s8"
    by (simp add: modify_emit)
  define s9 where "s9 = emit (reg_change ?ctl x (x OR 1)) s8"
  define s10 where "s10 = emit [WriteFence, RegWrite (base + GETH_TX_DESC_LIST) (ucast ?tx)] s9"
  have wr: "wr (ucast ?tx) (base + GETH_TX_DESC_LIST) s9 = s10" by (simp add: access_emit s10_def)
  obtain y where y: "dma_tx_enable bus base True s10 = emit (reg_change ?ctl y (y OR 0x40000000)) s10"
    by (simp add: dma_tx_enable_def dma_enable_emit)
  have run: "geth_xmit bus base packet len s = Some (0, emit (reg_change ?ctl y (y OR 0x40000000)) s10)"
    by (simp only: geth_xmit_def Let_def r1 split_conv get tmo w(1) Option.bind.simps s3_def [symmetric] v
      s4_def [symmetric] i s5_def [symmetric] st f1 f2 x s9_def [symmetric] wr y)
  let ?pre = "[RegRead (base + GETH_TX_DMA_STA) ?sta, ReadFence, c] @ w @ reg_change ?ctl v (v AND NOT 0x40000000) @
    reg_change ?int i (i OR 0x3F)"
  let ?start = "reg_change ?ctl x (x OR 1) @ [WriteFence, RegWrite (base + GETH_TX_DESC_LIST) (ucast ?tx)] @
    reg_change ?ctl y (y OR 0x40000000)"
  have quiet: "\<forall>e \<in> set (?pre @ ?start). \<not> is_store e"
    using waits_quiet [OF w(2)] by (auto simp: c_def reg_change_def)
  have off: "RegWrite ?ctl (v AND NOT 0x40000000) \<in> set ?pre" by (simp add: reg_change_def)
  have all: "emit (reg_change ?ctl y (y OR 0x40000000)) s10 = emit (?pre @ tx_stores ?tx packet len @
      map CacheClean (range_lines ?tx (?tx + 24)) @ [SyncIs] @
      map CacheClean (range_lines packet (packet + scast len)) @ [SyncIs] @ ?start) s"
    by (simp add: s10_def s9_def s8_def s7_def s6_def s5_def s4_def s3)
  show ?thesis
    by (rule exI [of _ ?pre], rule exI [of _ ?start], rule exI, intro conjI, rule run [unfolded all], rule refl, rule quiet,
      rule exI, rule off, intro exI, rule refl)
qed



section \<open>The address registers\<close>

text \<open>
  C33: \<^verbatim>\<open>geth_write_hwaddr\<close> writes the two address registers of the controller once each, and the six bytes
  of the address are read back from them in order; the upper half of the high register is 0.
\<close>

theorem addr_registers_round_trip:
  assumes "length (enetaddr d) = 6"
  shows "\<exists>hi lo. geth_write_hwaddr d s =
      (0, emit [WriteFence, RegWrite (iobase d + GETH_ADDR_HI0) hi, WriteFence, RegWrite (iobase d + GETH_ADDR_LO0) lo] s) \<and>
    map (\<lambda>i. ucast (drop_bit i lo)) [0, 8, 16, 24] @ map (\<lambda>i. ucast (drop_bit i hi)) [0, 8] = enetaddr d \<and>
    drop_bit 16 hi = 0"
proof -
  obtain a0 a1 a2 a3 a4 a5 where a: "enetaddr d = [a0, a1, a2, a3, a4, a5]"
    using assms by (auto simp: numeral_eq_Suc length_Suc_conv)
  let ?hi = "addr_hi (enetaddr d)" and ?lo = "addr_lo (enetaddr d)"
  have bits: "\<And>n. bit (x :: u8) n \<Longrightarrow> n < 8" for x using bit_imp_le_length by fastforce
  have "ucast (drop_bit 0 ?lo) = a0" "ucast (drop_bit 8 ?lo) = a1" "ucast (drop_bit 16 ?lo) = a2"
    "ucast (drop_bit 24 ?lo) = a3" "ucast (drop_bit 0 ?hi) = a4" "ucast (drop_bit 8 ?hi) = a5" "drop_bit 16 ?hi = 0"
    unfolding a addr_hi_def addr_lo_def by (rule bit_eqI, auto simp: bit_simps dest: bits)+
  then show ?thesis
    by (intro exI [of _ ?hi] exI [of _ ?lo]) (simp add: geth_write_hwaddr_def access_emit a)
qed

theorem addr_registers_round_trip_witness:
  "\<exists>hi lo. geth_write_hwaddr (geth_device 0x30000) toy_geth =
      (0, emit [WriteFence, RegWrite (iobase (geth_device 0x30000) + GETH_ADDR_HI0) hi, WriteFence, RegWrite (iobase (geth_device 0x30000) + GETH_ADDR_LO0) lo] toy_geth) \<and>
    map (\<lambda>i. ucast (drop_bit i lo)) [0, 8, 16, 24] @ map (\<lambda>i. ucast (drop_bit i hi)) [0, 8] = enetaddr (geth_device 0x30000) \<and>
    drop_bit 16 hi = 0"
  by (rule addr_registers_round_trip) (simp add: geth_device_def random_ether_addr_def)

section \<open>A frame is received\<close>

text \<open>The events that give the descriptor back; \<open>y\<close> is what the control register held.\<close>

definition fill_events :: "u64 \<Rightarrow> u64 \<Rightarrow> u64 \<Rightarrow> u32 \<Rightarrow> ev list" where
  "fill_events base rx_p buf y = [MemStore rx_p (le32 0x80000000), MemStore (rx_p + 4) (le32 0x81000000),
     MemStore (rx_p + 4) (le32 (0x81000000 OR 0x7FF)), MemStore (rx_p + 8) (le64 buf)] @
     map CacheClean (range_lines rx_p (rx_p + 64)) @ [SyncIs, WriteFence, RegWrite (base + GETH_RX_DESC_LIST) (ucast rx_p)] @
     reg_change (base + GETH_RX_CTL1) y (y OR 0x40000000)"

text \<open>Where the buffers lie.\<close>

definition rx_placed :: "geth \<Rightarrow> bool" where
  "rx_placed s \<longleftrightarrow> unat (dma_desc_rx s + 64) + 63 < 2 ^ 64 \<and> unat (rx_packet s + 2048) + 63 < 2 ^ 64 \<and>
     unat (rx_packet s + 64) + 63 < 2 ^ 64"

lemma rx_placed_emit [simp]: "rx_placed (emit evs s) = rx_placed s"
  by (simp add: rx_placed_def)

lemma recv_fill_events:
  assumes "rx_placed s"
  shows "\<exists>y. geth_recv_fill bus base s = Some (0, emit (fill_events base (dma_desc_rx s) (rx_packet s) y) s)"
proof -
  let ?rx = "dma_desc_rx s" and ?ctl = "base + GETH_RX_CTL1"
  have e: "unat (?rx + 64) + 63 < 2 ^ 64" using assms by (simp add: rx_placed_def)
  define s1 where "s1 = emit [MemStore ?rx (le32 0x80000000), MemStore (?rx + 4) (le32 0x81000000),
     MemStore (?rx + 4) (le32 (0x81000000 OR 0x7FF)), MemStore (?rx + 8) (le64 (rx_packet s))] s"
  define s2 where "s2 = emit (map CacheClean (range_lines ?rx (?rx + 64)) @ [SyncIs]) s1"
  have f: "flush ?rx 64 s1 = Some s2" by (simp add: flush_emit [OF e] s2_def)
  obtain y where y: "dma_rx_enable bus base True (wr (ucast ?rx) (base + GETH_RX_DESC_LIST) s2) =
      emit (reg_change ?ctl y (y OR 0x40000000)) (wr (ucast ?rx) (base + GETH_RX_DESC_LIST) s2)"
    by (simp add: dma_rx_enable_def dma_enable_emit)
  have st: "stm (?rx + 8) (le64 (rx_packet s)) (stm (?rx + 4) (le32 (0x81000000 OR 0x7FF))
      (stm (?rx + 4) (le32 0x81000000) (stm ?rx (le32 0x80000000) s))) = s1"
    by (simp add: access_emit s1_def)
  have "geth_recv_fill bus base s = Some (0, emit (reg_change ?ctl y (y OR 0x40000000)) (wr (ucast ?rx) (base + GETH_RX_DESC_LIST) s2))"
    using f y st by (simp add: geth_recv_fill_def Let_def access_emit(2))
  then show ?thesis by (auto simp: access_emit s2_def s1_def fill_events_def)
qed

text \<open>The descriptor as the engine left it: \<open>w\<close> is its status word.\<close>

definition desc_word :: "bus \<Rightarrow> u64 \<Rightarrow> u32 \<Rightarrow> bool" where
  "desc_word bus p w \<longleftrightarrow> (\<forall>t. get32 (mem_value bus t p 4) 0 = w)"

definition given_back :: "u64 \<Rightarrow> geth \<Rightarrow> ev list \<Rightarrow> bool" where
  "given_back base s evs \<longleftrightarrow> (\<exists>pre y. evs = pre @ fill_events base (dma_desc_rx s) (rx_packet s) y)"

lemma given_back_append: "given_back base s evs \<Longrightarrow> given_back base s (pre @ evs)"
  unfolding given_back_def by (metis append.assoc)

lemma fill_given_back:
  assumes "rx_placed s"
  shows "\<exists>evs. geth_recv_fill bus base (emit pre s) = Some (0, emit (pre @ evs) s) \<and> given_back base s (pre @ evs)"
proof -
  obtain y where "geth_recv_fill bus base (emit pre s) =
      Some (0, emit (fill_events base (dma_desc_rx (emit pre s)) (rx_packet (emit pre s)) y) (emit pre s))"
    using recv_fill_events assms by (metis rx_placed_emit)
  then show ?thesis unfolding given_back_def by (auto simp: access_emit)
qed

lemma own_bit: "w AND 0x80000000 = 0 \<longleftrightarrow> \<not> bit w 31" for w :: u32
  using and_exp_eq_0_iff_not_bit [of w 31] by simp

lemma ld_desc:
  assumes "desc_word bus p w"
  shows "\<exists>m. ld32 bus p (emit evs s) = (w, emit (evs @ [MemLoad p m]) s)"
  using assms by (auto simp: access_emit desc_word_def)

lemma recv_frame_outcome:
  assumes placed: "rx_placed s" and w: "desc_word bus (dma_desc_rx s) w"
  shows "\<exists>p evs. geth_recv_frame bus base frame (emit p3 s) = Some (p, emit (p3 @ evs) s) \<and>
    (p = None \<and> given_back base s (p3 @ evs) \<or> \<not> rx_discard w \<and> p = Some (rx_handle_buf s, frame, frm_len w - 4))"
proof -
  let ?rx = "dma_desc_rx s" and ?pkt = "rx_packet s"
  have e2: "unat (?pkt + 2048) + 63 < 2 ^ 64" and e3: "unat (?pkt + 64) + 63 < 2 ^ 64"
    using placed by (simp_all add: rx_placed_def)
  obtain x where x: "rd bus (base + GETH_INT_STA) (emit p3 s) =
      (x, emit (p3 @ [RegRead (base + GETH_INT_STA) x, ReadFence]) s)" by (simp add: access_emit)
  define p4 where "p4 = p3 @ [RegRead (base + GETH_INT_STA) x, ReadFence]"
  show ?thesis
  proof (cases "x AND 0x2300 = 0")
    case True
    obtain evs where "geth_recv_fill bus base (emit p4 s) = Some (0, emit (p4 @ evs) s)" "given_back base s (p4 @ evs)"
      using fill_given_back [OF placed] by blast
    with True x show ?thesis
      by (intro exI [of _ None] exI [of _ "[RegRead (base + GETH_INT_STA) x, ReadFence] @ evs"])
        (simp add: geth_recv_frame_def p4_def)
  next
    case busy: False
    obtain v where v: "dma_rx_enable bus base False (emit p4 s) =
        emit (reg_change (base + GETH_RX_CTL1) v (v AND NOT 0x40000000)) (emit p4 s)"
      by (simp add: dma_rx_enable_def dma_enable_emit)
    define q5 where "q5 = [RegRead (base + GETH_INT_STA) x, ReadFence] @
      reg_change (base + GETH_RX_CTL1) v (v AND NOT 0x40000000) @ [WriteFence, RegWrite (base + GETH_INT_STA) 0x3F00]"
    have s5: "wr 0x3F00 (base + GETH_INT_STA) (dma_rx_enable bus base False (emit p4 s)) = emit (p3 @ q5) s"
      unfolding v by (simp add: access_emit q5_def p4_def)
    obtain m2 where l2: "ld32 bus ?rx (emit (p3 @ q5) s) = (w, emit ((p3 @ q5) @ [MemLoad ?rx m2]) s)"
      using ld_desc [OF w] by blast
    define q6 where "q6 = q5 @ [MemLoad ?rx m2]"
    have st6: "rx_status bus ?rx (emit (p3 @ q5) s) = (rx_discard w, emit (p3 @ q6) s)"
      by (simp add: rx_status_def l2 [simplified] q6_def)
    show ?thesis
    proof (cases "rx_discard w")
      case True
      define q7 where "q7 = q6 @ [MemStore ?pkt (replicate 64 0)] @ map CacheClean (range_lines ?pkt (?pkt + 64)) @ [SyncIs]"
      have f: "flush ?pkt 64 (stm ?pkt (replicate 64 0) (emit (p3 @ q6) s)) = Some (emit (p3 @ q7) s)"
        by (simp add: flush_emit [OF e3] access_emit q7_def)
      obtain evs where fill: "geth_recv_fill bus base (emit (p3 @ q7) s) = Some (0, emit ((p3 @ q7) @ evs) s)"
        "given_back base s ((p3 @ q7) @ evs)" using fill_given_back [OF placed] by blast
      show ?thesis using True busy x s5 st6 f [unfolded access_emit(2)] fill
        by (intro exI [of _ None] exI [of _ "q7 @ evs"]) (simp add: geth_recv_frame_def Let_def p4_def [symmetric] access_emit(2))
    next
      case good: False
      obtain m3 where l3: "ld32 bus ?rx (emit (p3 @ q6) s) = (w, emit ((p3 @ q6) @ [MemLoad ?rx m3]) s)"
        using ld_desc [OF w] by blast
      define q8 where "q8 = q6 @ [MemLoad ?rx m3] @ map CacheClean (range_lines ?pkt (?pkt + 2048)) @ [SyncIs]"
      have f: "flush ?pkt 2048 (emit ((p3 @ q6) @ [MemLoad ?rx m3]) s) = Some (emit (p3 @ q8) s)"
        by (simp add: flush_emit [OF e2] q8_def)
      show ?thesis using good busy x s5 st6 l3 f
        by (intro exI [of _ "Some (rx_handle_buf s, frame, frm_len w - 4)"] exI [of _ q8])
          (simp add: geth_recv_frame_def Let_def p4_def [symmetric])
    qed
  qed
qed

lemma recv_outcome:
  assumes placed: "rx_placed s" and w: "desc_word bus (dma_desc_rx s) w"
  shows "\<exists>p evs. geth_recv bus base s = Some (p, emit evs s) \<and>
    (if bit w 31 then p = None \<and> (\<forall>e \<in> set evs. \<not> is_store e)
     else p = None \<and> given_back base s evs \<or>
       \<not> rx_discard w \<and> (\<exists>frame. p = Some (rx_handle_buf s, frame, frm_len w - 4) \<and>
         MemStore (rx_handle_buf s) frame \<in> set evs))"
proof -
  let ?rx = "dma_desc_rx s" and ?pkt = "rx_packet s" and ?buf = "rx_handle_buf s"
  have e1: "unat (?rx + 64) + 63 < 2 ^ 64" and e2: "unat (?pkt + 2048) + 63 < 2 ^ 64"
    using placed by (simp_all add: rx_placed_def)
  define p1 where "p1 = map CacheInval (range_lines ?rx (?rx + 64)) @ [SyncIs]"
  have i1: "invalidate ?rx (?rx + 64) s = Some (emit p1 s)" by (simp add: invalidate_emit [OF e1] p1_def)
  obtain m1 where l1: "ld32 bus ?rx (emit p1 s) = (w, emit (p1 @ [MemLoad ?rx m1]) s)"
    using ld_desc [OF w] by blast
  show ?thesis
  proof (cases "bit w 31")
    case True
    then have "geth_recv bus base s = Some (None, emit (p1 @ [MemLoad ?rx m1]) s)"
      using i1 l1 by (simp add: geth_recv_def Let_def own_bit)
    then show ?thesis using True
      by (intro exI [of _ None] exI [of _ "p1 @ [MemLoad ?rx m1]"]) (auto simp: p1_def)
  next
    case False
    define p2 where "p2 = p1 @ [MemLoad ?rx m1] @ map CacheInval (range_lines ?pkt (?pkt + 2048)) @ [SyncIs]"
    have i2: "invalidate ?pkt (?pkt + 2048) (emit (p1 @ [MemLoad ?rx m1]) s) = Some (emit p2 s)"
      by (simp add: invalidate_emit [OF e2] p2_def)
    obtain frame where fr: "mem_load bus ?pkt 2048 (tr (emit p2 s)) = (frame, tr s @ p2 @ [MemLoad ?pkt frame])"
      by (simp add: mem_load_def Let_def)
    define p3 where "p3 = p2 @ [MemLoad ?pkt frame, MemStore ?buf frame]"
    have st: "stm ?buf frame ((emit p2 s)\<lparr>tr := tr s @ p2 @ [MemLoad ?pkt frame]\<rparr>) = emit p3 s"
      by (simp add: access_emit p3_def emit_def)
    have "geth_recv bus base s = geth_recv_frame bus base frame (emit p3 s)"
      using False i1 l1 i2 fr st by (simp add: geth_recv_def own_bit)
    moreover obtain p evs where "geth_recv_frame bus base frame (emit p3 s) = Some (p, emit (p3 @ evs) s)"
      "p = None \<and> given_back base s (p3 @ evs) \<or> \<not> rx_discard w \<and> p = Some (?buf, frame, frm_len w - 4)"
      using recv_frame_outcome [OF placed w] by blast
    moreover have "MemStore ?buf frame \<in> set (p3 @ evs)" by (simp add: p3_def)
    ultimately show ?thesis using False by (intro exI [of _ p] exI [of _ "p3 @ evs"]) auto
  qed
qed

text \<open>For the stack: a frame with an error is not seen, and a good one is four bytes shorter than the engine counts.\<close>

lemma geth_ops_sel [simp]:
  "drv_recv (geth_ops bus b sp) a d = geth_recv bus (iobase d)"
  "drv_recv_done (geth_ops bus b sp) a d = geth_recv_done bus (iobase d)"
  by (simp_all add: geth_ops_def)

text \<open>
  C12: a descriptor that the engine still owns, or that reports an error, is not shown to the stack:
  \<^verbatim>\<open>eth_rx\<close> through the driver changes nothing but the machine, and a descriptor with an error ends given
  back to the engine, with its buffer, flushed and the engine restarted.
\<close>

theorem bad_frames_dropped:
  assumes cur: "eth_current (eth s) = Some a" "devs (eth s) a = Some d"
    and placed: "rx_placed (hw s)" and w: "desc_word bus (dma_desc_rx (hw s)) w" and bad: "bit w 31 \<or> rx_discard w"
  shows "\<exists>evs. eth_rx (geth_ops bus b sp) s = Some (0, s\<lparr>hw := emit evs (hw s)\<rparr>) \<and>
    (\<not> bit w 31 \<longrightarrow> given_back (iobase d) (hw s) evs)"
proof -
  obtain p evs where r: "geth_recv bus (iobase d) (hw s) = Some (p, emit evs (hw s))"
    "if bit w 31 then p = None \<and> (\<forall>e \<in> set evs. \<not> is_store e)
     else p = None \<and> given_back (iobase d) (hw s) evs \<or> \<not> rx_discard w \<and>
       (\<exists>frame. p = Some (rx_handle_buf (hw s), frame, frm_len w - 4) \<and>
         MemStore (rx_handle_buf (hw s)) frame \<in> set evs)"
    using recv_outcome [OF placed w, of "iobase d"] by blast
  then have "p = None" "\<not> bit w 31 \<longrightarrow> given_back (iobase d) (hw s) evs" using bad by (auto split: if_splits)
  with r(1) have "geth_recv bus (iobase d) (hw s) = Some (None, emit evs (hw s))"
    "\<not> bit w 31 \<longrightarrow> given_back (iobase d) (hw s) evs" by simp_all
  then show ?thesis using cur by (auto simp: eth_rx_def deref_def geth_recv_done_def)
qed

theorem bad_frames_dropped_witness:
  "\<exists>evs. eth_rx (geth_ops toy_bus toy_board 0x1000) toy_sys = Some (0, toy_sys\<lparr>hw := emit evs (hw toy_sys)\<rparr>) \<and>
    (\<not> bit (0 :: u32) 31 \<longrightarrow> given_back (iobase (geth_device 0x30000)) (hw toy_sys) evs)"
proof (rule bad_frames_dropped [where w = 0 and a = 1])
  have "get32 (replicate 4 0) 0 = 0" by code_simp
  then show "desc_word toy_bus (dma_desc_rx (hw toy_sys)) 0" by (simp add: desc_word_def toy_bus_def)
qed (simp_all add: toy_sys_def sys_init_def rx_placed_def rx_discard_def)

section \<open>The clocks\<close>

lemma word32_eqI:
  assumes "\<And>n. n \<in> set [0..<32] \<Longrightarrow> bit x n \<longleftrightarrow> bit y n"
  shows "x = (y :: u32)"
  using assms by (intro bit_word_eqI) simp

lemma clk_value: "clk_delay 3 0 (clk_mode 7 (clk_select EXT_PHY v)) = (v AND NOT 0x9FE7) OR 0x10C06"
  unfolding clk_delay_def clk_mode_def clk_select_def Let_def phy_type.case
  by (rule word32_eqI) (simp add: upt_rec bit_or_iff bit_and_iff bit_not_iff, elim disjE; simp)

text \<open>What \<^verbatim>\<open>geth_sys_init\<close> leaves in the three clock registers: the other bits are kept.\<close>

lemma sys_init_registers:
  "\<exists>v g y. geth_sys_init bus phy_clk ccmu s = (0, emit
     ([RegRead phy_clk v, ReadFence, WriteFence, RegWrite phy_clk ((v AND NOT 0x9FE7) OR 0x10C06)] @
      reg_change (ccmu + 0x097c) g (g OR 0x10001) @ reg_change (ccmu + 0x0970) y (y OR 0xC0000000))
     (s\<lparr>used_type := EXT_PHY, Geth.phy_interface := 7\<rparr>))"
proof -
  let ?v = "reg_value bus (tr s) phy_clk" and ?new = "(reg_value bus (tr s) phy_clk AND NOT 0x9FE7) OR 0x10C06"
  define s1 where "s1 = s\<lparr>used_type := EXT_PHY\<rparr>"
  define s2 where "s2 = emit [RegRead phy_clk ?v, ReadFence] s1"
  have r: "rd bus phy_clk s1 = (?v, s2)" by (simp add: access_emit s1_def s2_def)
  define s3 where "s3 = wr ?new phy_clk (s2\<lparr>Geth.phy_interface := 7\<rparr>)"
  let ?f = "\<lambda>v. (v OR push_bit 16 1) OR 1 :: u32"
  obtain g where g: "modify bus (ccmu + 0x097c) ?f s3 = emit (reg_change (ccmu + 0x097c) g (?f g)) s3"
    by (simp add: modify_emit)
  define s4 where "s4 = emit (reg_change (ccmu + 0x097c) g (?f g)) s3"
  let ?h = "\<lambda>v. v OR push_bit 30 3 :: u32"
  obtain y where y: "modify bus (ccmu + 0x0970) ?h s4 = emit (reg_change (ccmu + 0x0970) y (?h y)) s4"
    by (simp add: modify_emit)
  have types: "used_type s1 = EXT_PHY" "used_type s2 = EXT_PHY" by (simp_all add: s1_def s2_def)
  have "geth_sys_init bus phy_clk ccmu s = (0, modify bus (ccmu + 0x0970) ?h (modify bus (ccmu + 0x097c) ?f s3))"
    by (simp add: geth_sys_init_def s1_def [symmetric] r types clk_value s3_def)
  then have "geth_sys_init bus phy_clk ccmu s = (0, emit (reg_change (ccmu + 0x0970) y (?h y)) s4)"
    by (simp only: g y s4_def [symmetric])
  moreover have "?f g = g OR 0x10001" by (simp add: or.assoc)
  moreover have "?h y = y OR 0xC0000000" by simp
  moreover have "s3 = emit [RegRead phy_clk ?v, ReadFence, WriteFence, RegWrite phy_clk ?new]
      (s\<lparr>used_type := EXT_PHY, Geth.phy_interface := 7\<rparr>)"
    by (simp add: s3_def s2_def s1_def access_emit emit_def)
  ultimately show ?thesis unfolding s4_def by auto
qed

section \<open>The driver is set up\<close>

definition buffers_placed :: "u64 \<Rightarrow> geth \<Rightarrow> bool" where
  "buffers_placed arena s \<longleftrightarrow>
     64 dvd unat (dma_desc_tx s) \<and> 64 dvd unat (dma_desc_rx s) \<and> 64 dvd unat (rx_packet s) \<and> 64 dvd unat (rx_handle_buf s) \<and>
     unat arena \<le> unat (dma_desc_tx s) \<and> unat (dma_desc_tx s) + 64 \<le> unat (dma_desc_rx s) \<and>
     unat (dma_desc_rx s) + 64 \<le> unat (rx_packet s) \<and> unat (rx_packet s) + 2048 \<le> unat (rx_handle_buf s) \<and>
     unat (rx_handle_buf s) + 2048 \<le> unat arena + 16384"

lemma next_line: "64 dvd a \<Longrightarrow> 64 dvd b \<Longrightarrow> a < b \<Longrightarrow> a + 64 \<le> (b :: nat)"
  by presburger

lemma noncached_block:
  assumes "arena \<noteq> 0" "unat arena + 16384 < 2 ^ 64" "unat (memalign_mark s) + unat n + 64 \<le> 16384"
  shows "\<exists>p m. noncached_alloc arena n s = Some (p, s\<lparr>memalign_mark := m\<rparr>) \<and> p \<noteq> 0 \<and> 64 dvd unat p \<and>
    unat arena + unat (memalign_mark s) \<le> unat p \<and> unat p < unat arena + unat (memalign_mark s) + 64 \<and>
    unat arena + unat m = unat p + unat n"
proof -
  have "0 < unat (64 :: u64)" "unat (64 :: u64) < 2 ^ 31" "unat arena + unat (memalign_mark s) + unat (64 :: u64) + unat n < 2 ^ 64"
    "unat (memalign_mark s) + unat (64 :: u64) + unat n < 2 ^ 32" using assms(2,3) by simp_all
  from memalign_block [OF this] obtain m p where mp: "memalign arena (memalign_mark s) 64 n = Some (m, p)"
    "unat (64 :: u64) dvd unat arena + unat p" "unat (arena + p) = unat arena + unat p"
    "unat (memalign_mark s) \<le> unat p" "unat p < unat (memalign_mark s) + unat (64 :: u64)" "unat m = unat p + unat n" by blast
  have "0 < unat arena" using assms(1) by (simp add: unat_gt_0)
  then have "arena + p \<noteq> 0" using mp(3) by (metis add_is_0 less_numeral_extra(3) unsigned_0)
  with mp show ?thesis by (intro exI [of _ "arena + p"] exI [of _ m]) (simp add: noncached_alloc_def)
qed

lemma geth_buffers_eq:
  assumes "arena \<noteq> 0" "unat arena + 16384 < 2 ^ 64" "memalign_mark s = 0"
  shows "\<exists>s'. geth_buffers arena s = Some (True, s') \<and> buffers_placed arena s' \<and> mii_part s' = mii_part s \<and> tr s' = tr s"
proof -
  have b: "unat (memalign_mark s) + unat (24 :: u64) + 64 \<le> 16384" using assms(3) by simp
  obtain p1 m1 where 1: "noncached_alloc arena 24 s = Some (p1, s\<lparr>memalign_mark := m1\<rparr>)" "p1 \<noteq> 0" "64 dvd unat p1"
    "unat arena \<le> unat p1" "unat p1 < unat arena + 64" "unat arena + unat m1 = unat p1 + 24"
    using noncached_block [OF assms(1,2) b] assms(3) by auto
  define s1 where "s1 = s\<lparr>memalign_mark := m1, dma_desc_tx := p1\<rparr>"
  have b: "unat (memalign_mark s1) + unat (24 :: u64) + 64 \<le> 16384" using 1 by (simp add: s1_def)
  obtain p2 m2 where 2: "noncached_alloc arena 24 s1 = Some (p2, s1\<lparr>memalign_mark := m2\<rparr>)" "p2 \<noteq> 0" "64 dvd unat p2"
    "unat arena + unat m1 \<le> unat p2" "unat p2 < unat arena + unat m1 + 64" "unat arena + unat m2 = unat p2 + 24"
    using noncached_block [OF assms(1,2) b] by (auto simp: s1_def)
  define s2 where "s2 = s1\<lparr>memalign_mark := m2, dma_desc_rx := p2\<rparr>"
  have b: "unat (memalign_mark s2) + unat (2048 :: u64) + 64 \<le> 16384" using 1 2 by (simp add: s2_def)
  obtain p3 m3 where 3: "noncached_alloc arena 2048 s2 = Some (p3, s2\<lparr>memalign_mark := m3\<rparr>)" "p3 \<noteq> 0" "64 dvd unat p3"
    "unat arena + unat m2 \<le> unat p3" "unat p3 < unat arena + unat m2 + 64" "unat arena + unat m3 = unat p3 + 2048"
    using noncached_block [OF assms(1,2) b] by (auto simp: s2_def)
  define s3 where "s3 = s2\<lparr>memalign_mark := m3, rx_packet := p3\<rparr>"
  have b: "unat (memalign_mark s3) + unat (2048 :: u64) + 64 \<le> 16384" using 1 2 3 by (simp add: s3_def)
  obtain p4 m4 where 4: "noncached_alloc arena 2048 s3 = Some (p4, s3\<lparr>memalign_mark := m4\<rparr>)" "p4 \<noteq> 0" "64 dvd unat p4"
    "unat arena + unat m3 \<le> unat p4" "unat p4 < unat arena + unat m3 + 64"
    using noncached_block [OF assms(1,2) b] by (auto simp: s3_def)
  define s4 where "s4 = s3\<lparr>memalign_mark := m4, rx_handle_buf := p4\<rparr>"
  have lines: "unat p1 + 64 \<le> unat p2" "unat p2 + 64 \<le> unat p3"
    using 1(3,6) 2(3,4,6) 3(3,4) by (auto intro!: next_line)
  have "geth_buffers arena s = Some (True, s4)"
    using 1(1,2) 2(1,2) 3(1,2) 4(1,2)
    by (simp add: geth_buffers_def s1_def [symmetric] s2_def [symmetric] s3_def [symmetric] s4_def [symmetric])
  moreover have "buffers_placed arena s4"
    using 1(3,4,5,6) 2(3,4,5,6) 3(3,4,5,6) 4(3,4,5) lines by (simp add: buffers_placed_def s4_def s3_def s2_def s1_def)
  ultimately show ?thesis by (simp add: s4_def s3_def s2_def s1_def)
qed

lemma geth_device_name:
  "short_string (dev_name (geth_device io))" "c_str (dev_name (geth_device io)) = c_str (c_string ''eth0'')"
  "length (c_str (dev_name (geth_device io))) < 32"
  unfolding geth_device_def eth_device.select_convs by code_simp+

lemma mii_wf_mark: "mii_wf v \<Longrightarrow> unat (mii_mark v) \<le> unat m \<Longrightarrow> mii_wf (v\<lparr>mii_mark := m\<rparr>)"
proof -
  assume wf: "mii_wf v" and le: "unat (mii_mark v) \<le> unat m"
  have "bus_name (v\<lparr>mii_mark := m\<rparr>) = bus_name v" by (simp add: fun_eq_iff bus_name_def)
  with wf le show ?thesis by (auto simp: mii_wf_def intro: order.strict_trans2)
qed

text \<open>
  C13: \<^verbatim>\<open>geth_initialize\<close> on a fresh arena succeeds: it appends the device \<^verbatim>\<open>eth0\<close> to the devices, current when
  it is the first, places both descriptors and both buffers in the arena, aligned to cache lines, apart
  from each other, and registers its management bus, which is found under the device's name.
\<close>

theorem geth_initialize_ready:
  assumes arena: "board_arena b \<noteq> 0" "unat (board_arena b) + 16384 < 2 ^ 64" "memalign_mark (hw s) = 0"
    and ring: "dev_ring (eth s) as" "\<forall>x \<in> set as. x < unat (mii_mark (mii_part (hw s)))" and env: "env_wf (envs_of s)"
    and mii: "mii_wf (mii_part (hw s))" "unat (mii_mark (mii_part (hw s))) + 464 < 2 ^ 32"
    and new: "c_str (c_string ''eth0'') \<notin> bus_name (mii_part (hw s)) ` set (mii_devs (mii_part (hw s)))"
  shows "\<exists>s' a d m. geth_initialize bus b s = Some (0, s') \<and>
    dev_ring (eth s') (as @ [a]) \<and> devs (eth s') a = Some d \<and> iobase d = board_io b \<and>
    c_str (dev_name d) = c_str (c_string ''eth0'') \<and> enetaddr d = replicate 6 0 \<and>
    eth_current (eth s') = (if as = [] then Some a else eth_current (eth s)) \<and>
    buffers_placed (board_arena b) (hw s') \<and>
    miiphy_get_dev_by_name (mii_part (hw s')) (Some (dev_name d)) = Some (Some m) \<and> mii_wf (mii_part (hw s'))"
proof -
  let ?h = "hw s" and ?mark = "unat (mii_mark (mii_part (hw s)))"
  have "?mark + unat (104 :: u64) < 2 ^ 32" using mii(2) by simp
  then obtain sz p where mal: "malloc (mii_mark (mii_part ?h)) 104 = (sz, p)" "unat p = ?mark" "unat sz = ?mark + 104"
    using malloc_eq(2,3) [of "mii_mark (mii_part ?h)" 104] by (cases "malloc (mii_mark (mii_part ?h)) 104") simp
  define h1 where "h1 = ?h\<lparr>mii_part := (mii_part ?h)\<lparr>mii_mark := sz\<rparr>\<rparr>"
  have g1: "geth_malloc 104 ?h = (?mark, h1)" by (simp add: geth_malloc_def mal h1_def)
  obtain h2 where g2: "geth_buffers (board_arena b) h1 = Some (True, h2)" "buffers_placed (board_arena b) h2"
    "mii_part h2 = mii_part h1" using geth_buffers_eq [OF arena(1,2), of h1] arena(3) by (auto simp: h1_def)
  let ?d = "geth_device (board_io b)"
  define s1 where "s1 = put_dev ?mark ?d (s\<lparr>hw := h2\<rparr>)"
  obtain evs where g3: "geth_sys_init bus (board_phy_clk b) (board_ccmu b) h2 =
      (0, emit evs (h2\<lparr>used_type := EXT_PHY, Geth.phy_interface := 7\<rparr>))" using sys_init_registers by metis
  define h3 where "h3 = emit evs (h2\<lparr>used_type := EXT_PHY, Geth.phy_interface := 7\<rparr>)"
  have h3: "buffers_placed (board_arena b) h3" "mii_part h3 = (mii_part ?h)\<lparr>mii_mark := sz\<rparr>"
    using g2(2,3) by (simp_all add: h3_def buffers_placed_def h1_def)
  have fresh: "?mark \<notin> set as" using ring(2) by auto
  have ring1: "dev_ring (eth (s1\<lparr>hw := h3\<rparr>)) as"
  proof -
    have "devs (eth s1) (as ! i) = devs (eth s) (as ! i)" if "i < length as" for i
      using fresh nth_mem [OF that] by (auto simp: s1_def sys_simps)
    with ring(1) show ?thesis by (auto simp: dev_ring_def s1_def sys_simps)
  qed
  have "devs (eth (s1\<lparr>hw := h3\<rparr>)) ?mark = Some ?d" "env_wf (envs_of (s1\<lparr>hw := h3\<rparr>))"
    using env by (simp_all add: s1_def sys_simps)
  from eth_register_appends [OF ring1 fresh this(1) geth_device_name(1) this(2)] obtain s4 d where
    s4: "eth_register ?mark (s1\<lparr>hw := h3\<rparr>) = Some (0, s4)" "dev_ring (eth s4) (as @ [?mark])" "hw s4 = h3"
      "eth_current (eth s4) = (if as = [] then Some ?mark else eth_current (eth s))"
      "devs (eth s4) ?mark = Some d" "dev_name d = dev_name ?d" "iobase d = iobase ?d" "enetaddr d = enetaddr ?d"
    by (auto simp: s1_def sys_simps)
  have name: "terminated (dev_name d)" "length (c_str (dev_name d)) < 32" "c_str (dev_name d) = c_str (c_string ''eth0'')"
    using geth_device_name [of "board_io b"] unfolding s4(6) short_string_def by auto
  have wf: "mii_wf (mii_part h3)" unfolding h3(2) using mii(1) mal(3) by (intro mii_wf_mark) simp_all
  have room: "unat (mii_mark (mii_part h3)) + 360 < 2 ^ 32" using mii(2) mal(3) by (simp add: h3(2))
  have other: "c_str (dev_name d) \<notin> bus_name (mii_part h3) ` set (mii_devs (mii_part h3))"
    using new unfolding name(3) h3(2) by (simp add: bus_name_def)
  obtain v m where v: "miiphy_register (dev_name d) (board_rd_fn b) (board_wr_fn b) (mii_part h3) = Some v" "mii_wf v"
    "miiphy_get_dev_by_name v (Some (dev_name d)) = Some (Some m)"
    using miiphy_register_finds [OF wf name(1,2) room, of "board_rd_fn b" "board_wr_fn b"] other by auto
  have "geth_initialize bus b s = Some (0, s4\<lparr>hw := (hw s4)\<lparr>mii_part := v\<rparr>\<rparr>)"
    using g1 g2(1) g3 s4(1,3,5) v(1)
    by (simp add: geth_initialize_def Let_def s1_def [symmetric] h3_def [symmetric]) (simp add: s1_def sys_simps h3_def)
  moreover have "buffers_placed (board_arena b) (h3\<lparr>mii_part := v\<rparr>)" using h3(1) by (simp add: buffers_placed_def)
  moreover have "iobase ?d = board_io b" "enetaddr ?d = replicate 6 0" by (simp_all add: geth_device_def random_ether_addr_def)
  ultimately show ?thesis using s4 v(2,3) name(3)
    by (intro exI [of _ "s4\<lparr>hw := (hw s4)\<lparr>mii_part := v\<rparr>\<rparr>"] exI [of _ ?mark] exI [of _ d] exI [of _ m]) simp
qed

theorem geth_initialize_ready_witness:
  "\<exists>s' a d m. geth_initialize toy_bus toy_board (sys_init geth_vars_init) = Some (0, s') \<and>
    dev_ring (eth s') (([] :: nat list) @ [a]) \<and> devs (eth s') a = Some d \<and> iobase d = board_io toy_board \<and>
    c_str (dev_name d) = c_str (c_string ''eth0'') \<and> enetaddr d = replicate 6 0 \<and>
    eth_current (eth s') = (if ([] :: nat list) = [] then Some a else eth_current (eth (sys_init geth_vars_init))) \<and>
    buffers_placed (board_arena toy_board) (hw s') \<and>
    miiphy_get_dev_by_name (mii_part (hw s')) (Some (dev_name d)) = Some (Some m) \<and> mii_wf (mii_part (hw s'))"
  by (rule geth_initialize_ready)
    (simp_all add: toy_board_def sys_init_def geth_vars_init_def dev_ring_def eth_vars_init_def env_init_wf mii_wf_def)

section \<open>A transaction on the management bus\<close>

text \<open>A register of which bits stay set for a number of reads.\<close>

definition busy_for :: "bus \<Rightarrow> u64 \<Rightarrow> u32 \<Rightarrow> (trace \<Rightarrow> nat) \<Rightarrow> bool" where
  "busy_for bus a bits busy \<longleftrightarrow> (\<forall>t. (reg_value bus t a AND bits \<noteq> 0 \<longleftrightarrow> busy t \<noteq> 0) \<and>
     (\<forall>v. busy (t @ [RegRead a v, ReadFence]) = busy t - 1))"

definition polls :: "u64 \<Rightarrow> ev list \<Rightarrow> bool" where
  "polls a evs \<longleftrightarrow> (\<forall>e \<in> set evs. e = ReadFence \<or> (\<exists>v. e = RegRead a v))"

lemma wait_clear_ends:
  assumes "busy_for bus a bits busy"
  shows "\<exists>evs. wait_clear bus a bits s = Some (emit evs s) \<and> polls a evs \<and> length evs = 2 * (busy (tr s) + 1)"
proof (induction "busy (tr s)" arbitrary: s rule: less_induct)
  case less
  let ?v = "reg_value bus (tr s) a"
  let ?s = "emit [RegRead a ?v, ReadFence] s"
  have b: "?v AND bits \<noteq> 0 \<longleftrightarrow> busy (tr s) \<noteq> 0" "busy (tr ?s) = busy (tr s) - 1"
    using assms by (simp_all add: busy_for_def)
  show ?case
  proof (cases "busy (tr s) = 0")
    case True
    then show ?thesis using b
      by (intro exI [of _ "[RegRead a ?v, ReadFence]"]) (subst wait_clear.simps, simp add: access_emit polls_def)
  next
    case False
    then obtain evs where "wait_clear bus a bits ?s = Some (emit evs ?s)" "polls a evs" "length evs = 2 * (busy (tr ?s) + 1)"
      using less [of ?s] b(2) by auto
    then show ?thesis using False b
      by (intro exI [of _ "[RegRead a ?v, ReadFence] @ evs"])
        (subst wait_clear.simps, simp add: access_emit(3), simp add: polls_def)
  qed
qed

lemma toy_busy: "busy_for toy_bus a MII_BUSY (busy_reads a)"
  by (auto simp: busy_for_def toy_bus_def busy_reads_def)

definition mdio_fields :: "u32 \<Rightarrow> u32 \<Rightarrow> u32 \<Rightarrow> bool \<Rightarrow> bool" where
  "mdio_fields cmd phy_adr reg w \<longleftrightarrow> drop_bit 12 cmd AND 0x1F = phy_adr \<and> drop_bit 4 cmd AND 0x1F = reg \<and>
     (bit cmd 1 \<longleftrightarrow> w) \<and> bit cmd 0"

lemma small_word:
  assumes "x < (32 :: u32)"
  shows "take_bit 5 x = x" "ucast (ucast x :: u16) = x" "ucast (ucast x :: u8) = x"
proof -
  have x: "unat x < 32" using assms by (simp add: word_less_nat_alt)
  show t: "take_bit 5 x = x" using x by (simp add: word_unat_eq_iff unsigned_take_bit_eq take_bit_nat_eq_self_iff)
  have "\<And>n. bit x n \<Longrightarrow> n < 5" by (subst (asm) t [symmetric]) (simp add: bit_take_bit_iff)
  then show "ucast (ucast x :: u16) = x" "ucast (ucast x :: u8) = x"
    by (force intro!: bit_eqI simp: bit_simps)+
qed

lemma mdio_cmd_fields:
  assumes "p < 32" "r < 32"
  shows "mdio_fields (mdio_cmd p r (if w then MII_WRITE OR MII_BUSY else MII_BUSY)) p r w"
proof -
  have small: "x AND 0x1F = x" if "x < 32" for x :: u32
  proof -
    have "x AND 0x1F = take_bit 5 x" by (simp add: take_bit_eq_mask mask_eq_exp_minus_1)
    then show ?thesis using small_word(1) [OF that] by simp
  qed
  let ?fl = "if w then MII_WRITE OR MII_BUSY else MII_BUSY"
  have p: "drop_bit 12 (mdio_cmd p r ?fl) AND 0x1F = p AND 0x1F" and r: "drop_bit 4 (mdio_cmd p r ?fl) AND 0x1F = r AND 0x1F"
    by (rule word32_eqI, simp add: mdio_cmd_def upt_rec bit_simps, elim disjE; cases w; simp add: bit_simps)+
  have "bit (mdio_cmd p r ?fl) 1 \<longleftrightarrow> w" "bit (mdio_cmd p r ?fl) 0" by (simp_all add: mdio_cmd_def bit_simps)
  with p r small assms show ?thesis by (simp add: mdio_fields_def)
qed

text \<open>
  C31: a read of a PHY register over the management bus ends on every controller that is busy for a finite
  time: one command word with the PHY, the register, the busy bit and no write bit, polls of the
  command register only, and the low half of the data register as it is once the controller is idle.
\<close>

theorem mdio_read_transaction:
  assumes hw: "busy_for bus (base + GETH_MDIO_ADDR) MII_BUSY busy" and "p < 32" "r < 32"
  shows "\<exists>cmd evs v. geth_phy_read bus base p (ucast r) s = Some (ucast v,
      emit ([WriteFence, RegWrite (base + GETH_MDIO_ADDR) cmd] @ evs @ [RegRead (base + GETH_MDIO_DATA) v, ReadFence]) s) \<and>
    mdio_fields cmd p r False \<and> polls (base + GETH_MDIO_ADDR) evs \<and>
    v = reg_value bus (tr s @ [WriteFence, RegWrite (base + GETH_MDIO_ADDR) cmd] @ evs) (base + GETH_MDIO_DATA)"
proof -
  let ?cmd = "mdio_cmd p r MII_BUSY" and ?a = "base + GETH_MDIO_ADDR"
  obtain evs where "wait_clear bus ?a MII_BUSY (emit [WriteFence, RegWrite ?a ?cmd] s) =
      Some (emit evs (emit [WriteFence, RegWrite ?a ?cmd] s))" "polls ?a evs" using wait_clear_ends [OF hw] by blast
  then show ?thesis using mdio_cmd_fields [OF assms(2,3), of False] small_word(2) [OF assms(3)]
    by (intro exI [of _ ?cmd], intro exI [of _ evs],
      intro exI [of _ "reg_value bus (tr s @ [WriteFence, RegWrite ?a ?cmd] @ evs) (base + GETH_MDIO_DATA)"])
      (simp add: geth_phy_read_def access_emit)
qed

theorem mdio_read_transaction_witness:
  "\<exists>cmd evs v. geth_phy_read toy_bus 0x30000 5 (ucast (2 :: u32)) toy_geth = Some (ucast v,
      emit ([WriteFence, RegWrite (0x30000 + GETH_MDIO_ADDR) cmd] @ evs @ [RegRead (0x30000 + GETH_MDIO_DATA) v, ReadFence]) toy_geth) \<and>
    mdio_fields cmd 5 (2 :: u32) False \<and> polls (0x30000 + GETH_MDIO_ADDR) evs \<and>
    v = reg_value toy_bus (tr toy_geth @ [WriteFence, RegWrite (0x30000 + GETH_MDIO_ADDR) cmd] @ evs) (0x30000 + GETH_MDIO_DATA)"
  by (rule mdio_read_transaction [OF toy_busy]) simp_all

text \<open>
  A write of a PHY register puts the data before the command, whose write bit is set, and returns when
  the controller is idle again.
\<close>

lemma mdio_write_transaction:
  assumes hw: "busy_for bus (base + GETH_MDIO_ADDR) MII_BUSY busy" and "p < 32" "r < 32"
  shows "\<exists>cmd evs. geth_phy_write bus base (ucast p) (ucast r) data s = Some (emit
      ([WriteFence, RegWrite (base + GETH_MDIO_DATA) (ucast data), WriteFence, RegWrite (base + GETH_MDIO_ADDR) cmd] @ evs) s) \<and>
    mdio_fields cmd p r True \<and> polls (base + GETH_MDIO_ADDR) evs"
proof -
  let ?cmd = "mdio_cmd p r (MII_WRITE OR MII_BUSY)" and ?a = "base + GETH_MDIO_ADDR"
  let ?pre = "[WriteFence, RegWrite (base + GETH_MDIO_DATA) (ucast data), WriteFence, RegWrite ?a ?cmd]"
  obtain evs where "wait_clear bus ?a MII_BUSY (emit ?pre s) = Some (emit evs (emit ?pre s))" "polls ?a evs"
    using wait_clear_ends [OF hw] by blast
  then show ?thesis using mdio_cmd_fields [OF assms(2,3), of True] small_word(3) [OF assms(2)] small_word(3) [OF assms(3)]
    by (intro exI [of _ ?cmd] exI [of _ evs]) (simp add: geth_phy_write_def access_emit)
qed

theorem mdio_write_transaction_witness:
  "\<exists>cmd evs. geth_phy_write toy_bus 0x30000 (ucast (5 :: u32)) (ucast (9 :: u32)) (0x0200 :: u16) toy_geth = Some (emit
      ([WriteFence, RegWrite (0x30000 + GETH_MDIO_DATA) (ucast (0x0200 :: u16)), WriteFence, RegWrite (0x30000 + GETH_MDIO_ADDR) cmd] @ evs) toy_geth) \<and>
    mdio_fields cmd (5 :: u32) (9 :: u32) True \<and> polls (0x30000 + GETH_MDIO_ADDR) evs"
  by (rule mdio_write_transaction [OF toy_busy]) simp_all

end
