(* ===== verification/Echo.thy ===== *)
theory Echo
  imports Receive Emac
begin

text \<open>
  From the wire to the wire: an echo request that the DMA engine has put into memory goes through
  the driver's receive function, the stack, and the driver's transmit function, and ends as a
  frame that the engine is told to send, with the receive descriptor given back. One call of
  \<^verbatim>\<open>eth_rx\<close> composes the theories Emac, Receive and Ping.
\<close>

section \<open>How long a poll takes\<close>

lemma range_lines_length: "length (range_lines a (a + n)) \<le> unat n div 64 + 2"
proof -
  have "unat (a + n) \<le> unat a + unat n" by (simp add: unat_word_ariths)
  then have "unat (a + n) - unat (a AND NOT 63) + 63 \<le> unat n + (unat a mod 64) + 63"
    unfolding unat_line using mod_less_eq_dividend [of "unat a" 64] by linarith
  also have "\<dots> < unat n + 128" using mod_less_divisor [of 64 "unat a"] by linarith
  finally have "unat (a + n) - unat (a AND NOT 63) + 63 < unat n + 128" .
  then have "(unat (a + n) - unat (a AND NOT 63) + 63) div 64 \<le> unat n div 64 + 2" by linarith
  then show ?thesis by (simp add: range_lines_def lines_upto_def)
qed

lemma events_time:
  assumes "clock_runs bus time d"
  shows "time t \<le> time (t @ evs)" "time (t @ evs) \<le> time t + length evs * d"
proof -
  have "time t \<le> time (t @ evs) \<and> time (t @ evs) \<le> time t + length evs * d"
  proof (induction evs rule: rev_induct)
    case (snoc e evs)
    have "time (t @ evs) \<le> time ((t @ evs) @ [e])" "time ((t @ evs) @ [e]) \<le> time (t @ evs) + d"
      using assms by (simp_all add: clock_runs_def del: append_assoc)
    with snoc show ?case by simp
  qed simp
  then show "time t \<le> time (t @ evs)" "time (t @ evs) \<le> time t + length evs * d" by blast+
qed

section \<open>A good frame\<close>

text \<open>
  The engine has received \<open>frame\<close>: it gave the descriptor back without an error, its status
  register says so, and the buffer holds the frame.
\<close>

definition frame_ready :: "bus \<Rightarrow> u64 \<Rightarrow> geth \<Rightarrow> u32 \<Rightarrow> bytes \<Rightarrow> bool" where
  "frame_ready bus base s w frame \<longleftrightarrow> desc_word bus (dma_desc_rx s) w \<and> \<not> bit w 31 \<and> \<not> rx_discard w \<and>
     (\<forall>t. reg_value bus t (base + GETH_INT_STA) AND 0x2300 \<noteq> 0) \<and> (\<forall>t. mem_value bus t (rx_packet s) 2048 = frame)"

lemma recv_good:
  assumes placed: "rx_placed s" and ready: "frame_ready bus base s w frame"
  shows "\<exists>evs. geth_recv bus base s = Some (Some (rx_handle_buf s, frame, frm_len w - 4), emit evs s) \<and>
    length evs \<le> 100 \<and> MemStore (rx_handle_buf s) frame \<in> set evs"
proof -
  let ?rx = "dma_desc_rx s" and ?pkt = "rx_packet s" and ?buf = "rx_handle_buf s" and ?int = "base + GETH_INT_STA"
  have e: "unat (?rx + 64) + 63 < 2 ^ 64" "unat (?pkt + 2048) + 63 < 2 ^ 64"
    using placed by (simp_all add: rx_placed_def)
  have w: "desc_word bus ?rx w" "\<not> bit w 31" "\<not> rx_discard w" "mem_value bus t ?pkt 2048 = frame"
    "reg_value bus t ?int AND 0x2300 \<noteq> 0" for t
    using ready by (simp_all add: frame_ready_def)
  have short: "length (range_lines ?rx (?rx + 64)) \<le> 3" "length (range_lines ?pkt (?pkt + 2048)) \<le> 34"
    using range_lines_length [of ?rx 64] range_lines_length [of ?pkt 2048] by simp_all
  define p1 where "p1 = map CacheInval (range_lines ?rx (?rx + 64)) @ [SyncIs]"
  have i1: "invalidate ?rx (?rx + 64) s = Some (emit p1 s)" by (simp add: invalidate_emit [OF e(1)] p1_def)
  obtain m1 where l1: "ld32 bus ?rx (emit p1 s) = (w, emit (p1 @ [MemLoad ?rx m1]) s)" using ld_desc [OF w(1)] by blast
  define p2 where "p2 = p1 @ [MemLoad ?rx m1] @ map CacheInval (range_lines ?pkt (?pkt + 2048)) @ [SyncIs]"
  have i2: "invalidate ?pkt (?pkt + 2048) (emit (p1 @ [MemLoad ?rx m1]) s) = Some (emit p2 s)"
    by (simp add: invalidate_emit [OF e(2)] p2_def)
  have fr: "mem_load bus ?pkt 2048 (tr (emit p2 s)) = (frame, tr s @ p2 @ [MemLoad ?pkt frame])"
    by (simp add: mem_load_def Let_def w(4))
  define p3 where "p3 = p2 @ [MemLoad ?pkt frame, MemStore ?buf frame]"
  have st: "stm ?buf frame ((emit p2 s)\<lparr>tr := tr s @ p2 @ [MemLoad ?pkt frame]\<rparr>) = emit p3 s"
    by (simp add: access_emit p3_def emit_def)
  have frame: "geth_recv bus base s = geth_recv_frame bus base frame (emit p3 s)"
    using w(2) i1 l1 i2 fr st by (simp add: geth_recv_def own_bit)
  define x where "x = reg_value bus (tr (emit p3 s)) ?int"
  have x: "rd bus ?int (emit p3 s) = (x, emit (p3 @ [RegRead ?int x, ReadFence]) s)" "x AND 0x2300 \<noteq> 0"
    using w(5) by (simp_all add: access_emit x_def)
  define p4 where "p4 = p3 @ [RegRead ?int x, ReadFence]"
  obtain v where v: "dma_rx_enable bus base False (emit p4 s) =
      emit (reg_change (base + GETH_RX_CTL1) v (v AND NOT 0x40000000)) (emit p4 s)"
    by (simp add: dma_rx_enable_def dma_enable_emit)
  define p5 where "p5 = p4 @ reg_change (base + GETH_RX_CTL1) v (v AND NOT 0x40000000) @ [WriteFence, RegWrite ?int 0x3F00]"
  have s5: "wr 0x3F00 ?int (dma_rx_enable bus base False (emit p4 s)) = emit p5 s"
    unfolding v by (simp add: access_emit p5_def)
  obtain m2 where l2: "ld32 bus ?rx (emit p5 s) = (w, emit (p5 @ [MemLoad ?rx m2]) s)" using ld_desc [OF w(1)] by blast
  define p6 where "p6 = p5 @ [MemLoad ?rx m2]"
  have st6: "rx_status bus ?rx (emit p5 s) = (False, emit p6 s)" using w(3) by (simp add: rx_status_def l2 p6_def)
  obtain m3 where l3: "ld32 bus ?rx (emit p6 s) = (w, emit (p6 @ [MemLoad ?rx m3]) s)" using ld_desc [OF w(1)] by blast
  define p8 where "p8 = p6 @ [MemLoad ?rx m3] @ map CacheClean (range_lines ?pkt (?pkt + 2048)) @ [SyncIs]"
  have f: "flush ?pkt 2048 (emit (p6 @ [MemLoad ?rx m3]) s) = Some (emit p8 s)"
    by (simp add: flush_emit [OF e(2)] p8_def)
  have run: "geth_recv_frame bus base frame (emit p3 s) = Some (Some (?buf, frame, frm_len w - 4), emit p8 s)"
    using x s5 st6 l3 f by (simp add: geth_recv_frame_def Let_def p4_def [symmetric])
  have "length p8 \<le> 100" using short by (simp add: p8_def p6_def p5_def p4_def p3_def p2_def p1_def reg_change_def)
  moreover have "MemStore ?buf frame \<in> set p8" by (simp add: p8_def p6_def p5_def p4_def p3_def)
  ultimately show ?thesis using frame run by (intro exI [of _ p8]) simp
qed

section \<open>A frame is sent\<close>

text \<open>
  The events of a transmission of \<open>n\<close> bytes of \<open>p\<close>: the frame is stored at \<open>at_addr\<close>, the engine is off while
  the descriptor is written, both are cleaned out of the cache, and only then the engine is
  pointed at the descriptor and started.
\<close>

definition sends_frame :: "u64 \<Rightarrow> u64 \<Rightarrow> u64 \<Rightarrow> bytes \<Rightarrow> u32 \<Rightarrow> ev list \<Rightarrow> bool" where
  "sends_frame base tx_p at_addr p n evs \<longleftrightarrow> (\<exists>pre x y v. evs = [MemStore at_addr p] @ pre @ tx_stores tx_p at_addr n @
     map CacheClean (range_lines tx_p (tx_p + 24)) @ [SyncIs] @
     map CacheClean (range_lines at_addr (at_addr + scast n)) @ [SyncIs] @
     reg_change (base + GETH_TX_CTL1) x (x OR 1) @ [WriteFence, RegWrite (base + GETH_TX_DESC_LIST) (ucast tx_p)] @
     reg_change (base + GETH_TX_CTL1) y (y OR 0x40000000) \<and>
     (\<forall>e \<in> set pre. \<not> is_store e) \<and> RegWrite (base + GETH_TX_CTL1) (v AND NOT 0x40000000) \<in> set pre)"

lemma xmit_sends:
  assumes clock: "clock_runs bus time d" and soon: "time (tr s) + 24000 * 5001 + 6 * d < 24000 * 2 ^ 31"
    and tx: "unat (dma_desc_tx s + 24) + 63 < 2 ^ 64" and pkt: "unat (at_addr + scast n) + 63 < 2 ^ 64"
  shows "\<exists>evs. geth_xmit bus base at_addr n (stm at_addr p s) = Some (0, emit evs s) \<and>
    sends_frame base (dma_desc_tx s) at_addr p n evs"
proof -
  define s1 where "s1 = emit [MemStore at_addr p] s"
  have st: "stm at_addr p s = s1" by (simp add: access_emit s1_def)
  have "time (tr s1) \<le> time (tr s) + d" using events_time(2) [OF clock, of "tr s" "[MemStore at_addr p]"] by (simp add: s1_def)
  then have soon1: "time (tr s1) + 24000 * 5001 + 5 * d < 24000 * 2 ^ 31" using soon by linarith
  have tx1: "unat (dma_desc_tx s1 + 24) + 63 < 2 ^ 64" using tx by (simp add: s1_def)
  obtain pre start evs v x y where x: "geth_xmit bus base at_addr n s1 = Some (0, emit evs s1)"
    "evs = pre @ tx_stores (dma_desc_tx s1) at_addr n @
      map CacheClean (range_lines (dma_desc_tx s1) (dma_desc_tx s1 + 24)) @ [SyncIs] @
      map CacheClean (range_lines at_addr (at_addr + scast n)) @ [SyncIs] @ start"
    "\<forall>e \<in> set (pre @ start). \<not> is_store e" "RegWrite (base + GETH_TX_CTL1) (v AND NOT 0x40000000) \<in> set pre"
    "start = reg_change (base + GETH_TX_CTL1) x (x OR 1) @
      [WriteFence, RegWrite (base + GETH_TX_DESC_LIST) (ucast (dma_desc_tx s1))] @
      reg_change (base + GETH_TX_CTL1) y (y OR 0x40000000)"
    using xmit_publishes [OF clock soon1 tx1 pkt, of base] by metis
  have "geth_xmit bus base at_addr n (stm at_addr p s) = Some (0, emit ([MemStore at_addr p] @ evs) s)"
    using x(1) by (simp only: st) (simp add: s1_def)
  moreover have "sends_frame base (dma_desc_tx s) at_addr p n ([MemStore at_addr p] @ evs)"
    unfolding sends_frame_def using x(2-5) by (intro exI [of _ pre] exI [of _ x] exI [of _ y] exI [of _ v]) (auto simp: s1_def)
  ultimately show ?thesis by blast
qed

section \<open>Request and reply\<close>

text \<open>\<open>c\<close> is the answer of a stack with the settings \<open>v\<close> to the echo request \<open>b\<close>.\<close>

definition echo_answer :: "net_vars \<Rightarrow> bytes \<Rightarrow> bytes \<Rightarrow> bool" where
  "echo_answer v b c \<longleftrightarrow> (let ip = link_hdr_size b; p = read_ip b ip in
     length c = length b \<and> (\<forall>k \<ge> ip + 24. c ! k = b ! k) \<and> (\<forall>k. 12 \<le> k \<and> k < ip - 2 \<longrightarrow> c ! k = b ! k) \<and>
     ntohs (get16 c (ip - 2)) = PROT_IP \<and> get_bytes c 0 6 = get_bytes b 6 6 \<and> get_bytes c 6 6 = net_ethaddr v \<and>
     compute_ip_checksum (drop ip c) 20 = Some 0 \<and>
     (24 \<le> unat (ip_len p) \<longrightarrow> compute_ip_checksum (drop (ip + 20) c) (ucast (ip_len p) - 20) = Some 0) \<and>
     read_ip c ip = p\<lparr>ip_off := 0, ip_src := net_ip v, ip_dst := ip_src p\<rparr> \<and>
     get8 c (ip + 20) = ICMP_ECHO_REPLY \<and> get8 c (ip + 21) = get8 b (ip + 21))"

definition reply_length :: "bytes \<Rightarrow> u32" where
  "reply_length b = of_nat (link_hdr_size b) + ucast (ip_len (read_ip b (link_hdr_size b)))"

lemma echo_request_processed:
  assumes "unat len < 2 ^ 31" "64 \<le> length b" "unat len \<le> length b" "length (net_ethaddr (net s)) = 6"
    and req: "carries_icmp (net s) b len ICMP_ECHO_REQUEST" "20 \<le> unat (ip_len (read_ip b (link_hdr_size b)))"
  shows "\<exists>c. net_process_received_packet ops loc b len s =
      map_option (Pair c) (net_send_packet ops c (reply_length b) (rx_noted loc len s)) \<and> echo_answer (net s) b c"
    "unat (reply_length b) \<le> unat len"
proof -
  let ?ip = "link_hdr_size b"
  let ?p = "read_ip b ?ip"
  note c = req(1) [unfolded carries_icmp_def Let_def]
  have b: "?ip + 28 \<le> length b" using link_hdr_size_bounds(2) [of b] assms(2) by simp
  have l: "?ip + unat (ip_len ?p) \<le> unat len"
    using c ip_acceptable_length(1) [OF _ link_hdr_size_bounds(2) assms(1,3)] by blast
  have u: "unat (ucast (ip_len ?p) :: u32) = unat (ip_len ?p)" by (rule unat_ucast_up16)
  have "reply_length b = of_nat (?ip + unat (ip_len ?p))" by (simp add: reply_length_def)
  then show "unat (reply_length b) \<le> unat len" using l unat_of_nat_le order_trans by metis
  have "?ip + unat (ucast (ip_len ?p) :: u32) \<le> length b" "20 \<le> unat (ucast (ip_len ?p) :: u32)"
    "unat (ucast (ip_len ?p) :: u32) \<le> 65535" using l req(2) assms(3) by (simp_all only: u) simp_all
  note e = echo_reply_eq [OF refl b this, of "rx_noted loc len s" ops]
  have "net_process_received_packet ops loc b len s = echo_reply ops b ?ip (ucast (ip_len ?p)) (rx_noted loc len s)"
    using process_icmp [OF assms(1,2) req(1)] c by (simp add: ping_receive_eq [OF b] Let_def)
  with e assms(4) show "\<exists>c. net_process_received_packet ops loc b len s =
      map_option (Pair c) (net_send_packet ops c (reply_length b) (rx_noted loc len s)) \<and> echo_answer (net s) b c"
    by (simp add: sys_simps Let_def u echo_answer_def reply_length_def)
qed


text \<open>The request of the test bench, in a buffer of the engine.\<close>

definition wire_frame :: bytes where
  "wire_frame = bench_echo @ replicate 1984 0"

definition wire_bus :: bus where
  "wire_bus = \<lparr>reg_value = \<lambda>t a. 0x2300, mem_value = \<lambda>t a n. if n = 4 then [0, 1, 64, 0] else wire_frame,
     clock_value = \<lambda>t. of_nat (length t)\<rparr>"

definition wire_sys :: "geth sys" where
  "wire_sys = toy_sys\<lparr>net := bench_net\<rparr>"

lemma wire_frame_facts: "length wire_frame = 2048" "link_hdr_size wire_frame = 14"
  "ip_len (read_ip wire_frame 14) = 28" "hl_v (read_ip wire_frame 14) = 0x45" "ip_off (read_ip wire_frame 14) = 0x4000"
  "ip_p (read_ip wire_frame 14) = 1" "ip_dst (read_ip wire_frame 14) = 0x1664A8C0"
  "ip_checksum_ok (drop 14 wire_frame) 20 = Some True" "ntohs (get16 wire_frame 12) = 0x800" "get8 wire_frame 34 = 8"
  by code_simp+

lemma wire_word: "get32 [0, 1, 64, 0] 0 = 0x400100" "frm_len 0x400100 = 64" "\<not> rx_discard 0x400100"
  by code_simp+

lemma wire_request: "carries_icmp bench_net wire_frame 60 ICMP_ECHO_REQUEST"
  by (simp add: carries_icmp_def delivers_def wire_frame_facts ip_acceptable_def frame_header_def mem_simps
      vlan_matches_def bench_simps bench_vlan)

lemma wire_ready: "frame_ready wire_bus base toy_geth 0x400100 wire_frame"
  by (simp add: frame_ready_def wire_bus_def desc_word_def wire_word bit_simps)


end
